(* ===== verification/Aiida_Prelude.thy ===== *)
theory Aiida_Prelude
  imports Main "HOL-Library.AList" "HOL-Library.Sublist"
begin

text \<open>
  Shared vocabulary of the development: the exceptions the modelled code raises, results that
  carry them, insertion-ordered dictionaries, the \<open>str\<close> methods the code calls, and the
  generic lemmas on them that the component theories use.

  Python strings are modelled as \<^typ>\<open>string\<close>, Python integers as \<^typ>\<open>int\<close>, dictionaries as
  association lists with distinct keys (\<open>dict\<close> iterates in insertion order, and assigning to
  an existing key keeps its position, which is what \<^const>\<open>AList.update\<close> does).  An exception is
  modelled by its class; its message is not part of the model.
\<close>

section \<open>Exceptions and results\<close>

datatype py_exc =
    TypeError | ValueError | KeyError | IndexError | AttributeError | AssertionError
  | RuntimeError | OSError | FileNotFoundError | IsADirectoryError | NotADirectoryError
  | NotExistent | MultipleObjectsError | UniquenessError | ModificationNotAllowed
  | StoringNotAllowed | InternalError | ValidationError | NotImplementedError | UnboundLocalError
  | RemoteOperationError | InvalidStateError | InvalidPath | GroupNotFoundError | GroupNotUniqueError
  | NoGroupsInPathError | ConfigurationError | HashingError | IntegrityError
  | IncompatibleStorageSchema | ImportValidationError | ImportUniquenessError | ImportTestRun
  | ExportValidationError | ArchiveExportError | LicensingException

type_synonym 'a res = "py_exc + 'a"

named_theorems res_simps \<open>unfolding rules for results and their sequencing\<close>

definition bind_res :: "'a res \<Rightarrow> ('a \<Rightarrow> 'b res) \<Rightarrow> 'b res" where
  "bind_res r f = (case r of Inl e \<Rightarrow> Inl e | Inr a \<Rightarrow> f a)"

lemma bind_res_simps [simp, res_simps]:
  "bind_res (Inl e) f = Inl e"
  "bind_res (Inr a) f = f a"
  by (simp_all add: bind_res_def)

lemma bind_res_Inr_iff: "bind_res r f = Inr b \<longleftrightarrow> (\<exists>a. r = Inr a \<and> f a = Inr b)"
  by (cases r) auto

lemma bind_res_assoc: "bind_res (bind_res r f) g = bind_res r (\<lambda>a. bind_res (f a) g)"
  by (cases r) auto

text \<open>A guard: continue unless the condition that makes the code raise holds.\<close>

definition guard :: "bool \<Rightarrow> py_exc \<Rightarrow> unit res" where
  "guard ok e = (if ok then Inr () else Inl e)"

lemma guard_simps [simp, res_simps]: "guard True e = Inr ()" "guard False e = Inl e"
  by (simp_all add: guard_def)

lemma bind_guard_Inr_iff: "bind_res (guard ok e) f = Inr b \<longleftrightarrow> ok \<and> f () = Inr b"
  by (simp add: guard_def)

definition is_ok :: "'a res \<Rightarrow> bool" where
  "is_ok r = (case r of Inl _ \<Rightarrow> False | Inr _ \<Rightarrow> True)"

lemma is_ok_simps [simp, res_simps]: "is_ok (Inr a)" "\<not> is_ok (Inl e)"
  by (simp_all add: is_ok_def)

lemma is_ok_iff: "is_ok r \<longleftrightarrow> (\<exists>a. r = Inr a)"
  by (cases r) auto

lemma is_ok_bind_guard [simp]: "is_ok (bind_res (guard ok e) f) \<longleftrightarrow> ok \<and> is_ok (f ())"
  by (simp add: guard_def)

section \<open>Dictionaries\<close>

type_synonym 'v dict = "(string \<times> 'v) list"

definition wf_dict :: "('k \<times> 'v) list \<Rightarrow> bool" where
  "wf_dict d \<longleftrightarrow> distinct (map fst d)"

lemma wf_dict_Nil [simp]: "wf_dict []"
  by (simp add: wf_dict_def)

lemma wf_dict_Cons [simp]: "wf_dict ((k, v) # d) \<longleftrightarrow> k \<notin> fst ` set d \<and> wf_dict d"
  by (simp add: wf_dict_def)

lemma wf_dict_update [intro]: "wf_dict d \<Longrightarrow> wf_dict (AList.update k v d)"
  by (simp add: wf_dict_def distinct_update)

lemma wf_dict_delete [intro]: "wf_dict d \<Longrightarrow> wf_dict (AList.delete k d)"
  by (simp add: wf_dict_def distinct_delete)

lemma map_of_update [simp]: "map_of (AList.update k v d) = (map_of d)(k \<mapsto> v)"
  by (rule update_conv')

lemma map_of_AList_delete [simp]: "map_of (AList.delete k d) = (map_of d)(k := None)"
  by (rule delete_conv')

lemma set_update_wf:
  assumes "wf_dict d"
  shows "set (AList.update k v d) = {p \<in> set d. fst p \<noteq> k} \<union> {(k, v)}"
  using assms by (induction d) (auto simp: rev_image_eqI)

lemma AList_update_fresh: "k \<notin> fst ` set d \<Longrightarrow> AList.update k v d = d @ [(k, v)]"
  by (induction d) auto

lemma AList_delete_filter: "AList.delete k d = filter (\<lambda>(k', v). k' \<noteq> k) d"
  by (induction d) auto

lemma map_of_map_snd: "map_of (map (\<lambda>(k, v). (k, f v)) d) = map_option f \<circ> map_of d"
  by (induction d) auto

lemma suffix_singleton: "suffix [c] s \<longleftrightarrow> s \<noteq> [] \<and> last s = c"
  by (cases s rule: rev_cases) (auto simp: suffix_def)

lemma find_SomeD: "find P xs = Some x \<Longrightarrow> x \<in> set xs \<and> P x"
  by (induction xs) (auto split: if_splits)

lemma length_filter_less_if:
  assumes "x \<in> set xs" "\<not> P x" "Q x" "\<And>y. P y \<Longrightarrow> Q y"
  shows "length (filter P xs) < length (filter Q xs)"
  using assms(1)
proof (induction xs)
  case (Cons y ys)
  have "length (filter P ys) \<le> length (filter Q ys)"
    using assms(4) by (induction ys) auto
  then show ?case
    using Cons assms(2-4) by (cases "y = x") auto
qed simp

section \<open>The string methods the code uses\<close>

definition str_startswith :: "string \<Rightarrow> string \<Rightarrow> bool" where
  "str_startswith s p \<longleftrightarrow> prefix p s"

definition str_endswith :: "string \<Rightarrow> string \<Rightarrow> bool" where
  "str_endswith s p \<longleftrightarrow> suffix p s"

text \<open>\<open>s.partition(sep)\<close>: the text before the first occurrence of \<open>sep\<close>, \<open>sep\<close>, and the rest;
  \<open>(s, '', '')\<close> when \<open>sep\<close> does not occur.\<close>

fun str_partition :: "string \<Rightarrow> string \<Rightarrow> string \<times> string \<times> string" where
  "str_partition sep [] = ([], [], [])"
| "str_partition sep (c # cs) =
     (if prefix sep (c # cs) then ([], sep, drop (length sep) (c # cs))
      else (case str_partition sep cs of (a, b, r) \<Rightarrow> (c # a, b, r)))"

lemma str_partition_append:
  "str_partition sep s = (a, b, r) \<Longrightarrow> s = a @ b @ r"
  by (induction s arbitrary: a b r)
     (auto split: if_splits prod.splits simp: prefix_def)

lemma str_partition_sep:
  "str_partition sep s = (a, b, r) \<Longrightarrow> b = sep \<or> b = [] \<and> r = []"
  by (induction s arbitrary: a b r) (auto split: if_splits prod.splits)

lemma str_partition_rest_shorter:
  assumes "str_partition sep s = (a, b, r)" "b \<noteq> []"
  shows "length r < length s"
  using str_partition_append [OF assms(1)] assms(2) by (cases b) auto

text \<open>\<open>s.split(sep)\<close> for a non-empty separator (every call in the modelled code passes a
  literal one).\<close>

function str_split :: "string \<Rightarrow> string \<Rightarrow> string list" where
  "str_split sep s =
     (case str_partition sep s of (a, b, r) \<Rightarrow>
        if b = [] then [a] else a # str_split sep r)"
  by pat_completeness auto
termination
  by (relation "measure (\<lambda>(sep, s). length s)") (auto dest: sym [THEN str_partition_rest_shorter])

declare str_split.simps [simp del]

fun str_join :: "string \<Rightarrow> string list \<Rightarrow> string" where
  "str_join sep [] = []"
| "str_join sep [s] = s"
| "str_join sep (s # t # ts) = s @ sep @ str_join sep (t # ts)"

definition str_replace :: "string \<Rightarrow> string \<Rightarrow> string \<Rightarrow> string" where
  "str_replace old new s = str_join new (str_split old s)"

lemma str_split_not_Nil [simp]: "str_split sep s \<noteq> []"
  by (subst str_split.simps) (auto split: prod.splits)

lemma str_join_Cons: "ts \<noteq> [] \<Longrightarrow> str_join sep (t # ts) = t @ sep @ str_join sep ts"
  by (cases ts) auto

lemma str_join_split: "sep \<noteq> [] \<Longrightarrow> str_join sep (str_split sep s) = s"
proof (induction sep s rule: str_split.induct)
  case (1 sep s)
  obtain a b r where p: "str_partition sep s = (a, b, r)"
    by (metis prod_cases3)
  show ?case
  proof (cases "b = []")
    case True
    then have "r = []"
      using str_partition_sep [OF p] 1 by auto
    then show ?thesis
      using p True str_partition_append [OF p] by (subst str_split.simps) simp
  next
    case False
    then have "str_join sep (str_split sep r) = r"
      using 1 p by auto
    moreover have "s = a @ sep @ r"
      using str_partition_append [OF p] str_partition_sep [OF p] False by auto
    moreover have "str_split sep s = a # str_split sep r"
      using False p by (subst str_split.simps) simp
    ultimately show ?thesis
      by (simp add: str_join_Cons)
  qed
qed

lemma str_partition_char: "str_partition [c] s = (a, b, r) \<Longrightarrow> c \<notin> set a"
  by (induction s arbitrary: a b r) (auto split: if_splits prod.splits)

lemma str_split_char: "part \<in> set (str_split [c] s) \<Longrightarrow> c \<notin> set part"
proof (induction "[c]" s rule: str_split.induct)
  case (1 s)
  obtain a b r where p: "str_partition [c] s = (a, b, r)" by (metis prod_cases3)
  then show ?case
    using 1 str_partition_char [OF p] by (subst (asm) (2) str_split.simps) (auto split: if_splits)
qed

lemma str_partition_absent: "c \<notin> set s \<Longrightarrow> str_partition [c] s = (s, [], [])"
  by (induction s) auto

lemma str_partition_found: "c \<notin> set s \<Longrightarrow> str_partition [c] (s @ c # r) = (s, [c], r)"
  by (induction s) auto

lemma str_split_join_char:
  "\<lbrakk> ts \<noteq> []; \<And>t. t \<in> set ts \<Longrightarrow> c \<notin> set t \<rbrakk> \<Longrightarrow> str_split [c] (str_join [c] ts) = ts"
proof (induction ts)
  case (Cons t ts)
  show ?case
  proof (cases ts)
    case Nil
    then show ?thesis
      using Cons.prems by (subst str_split.simps) (simp add: str_partition_absent)
  next
    case (Cons u us)
    then have "str_split [c] (str_join [c] ts) = ts"
      using Cons.IH Cons.prems by simp
    then show ?thesis
      using Cons Cons.prems by (subst str_split.simps) (simp add: str_partition_found)
  qed
qed simp

lemma str_replace_char:
  "str_replace [c] new s = concat (map (\<lambda>x. if x = c then new else [x]) s)"
proof (induction s)
  case Nil
  then show ?case by (simp add: str_replace_def str_split.simps)
next
  case (Cons x xs)
  obtain a b r where p: "str_partition [c] xs = (a, b, r)"
    by (metis prod_cases3)
  have split: "str_split [c] xs = (if b = [] then [a] else a # str_split [c] r)"
    using p by (simp add: str_split.simps [of "[c]" xs])
  show ?case
  proof (cases "x = c")
    case True
    then have "str_split [c] (x # xs) = [] # str_split [c] xs"
      by (subst str_split.simps) simp
    then show ?thesis
      using Cons True by (simp add: str_replace_def str_join_Cons)
  next
    case False
    then have "str_split [c] (x # xs) = (case str_split [c] xs of h # t \<Rightarrow> (x # h) # t)"
      using p split by (subst str_split.simps) (auto split: prod.splits)
    moreover obtain h t where ht: "str_split [c] xs = h # t"
      by (metis neq_Nil_conv str_split_not_Nil)
    ultimately show ?thesis
      using Cons False by (cases t) (auto simp: str_replace_def)
  qed
qed

section \<open>Integers as text\<close>

text \<open>\<open>str.strip()\<close>, and \<open>int()\<close> of a string: \<open>None\<close> when it raises.\<close>

definition is_space :: "char \<Rightarrow> bool" where
  "is_space c \<longleftrightarrow> c = CHR '' '' \<or> c \<in> {CHR 0x09, CHR 0x0A, CHR 0x0B, CHR 0x0C, CHR 0x0D, CHR 0x1C, CHR 0x1D, CHR 0x1E, CHR 0x1F}"

definition str_strip :: "string \<Rightarrow> string" where
  "str_strip s = rev (dropWhile is_space (rev (dropWhile is_space s)))"

definition digit_value :: "char \<Rightarrow> int option" where
  "digit_value c =
     (if c \<in> set ''0123456789'' then Some (int (length (takeWhile (\<lambda>d. d \<noteq> c) ''0123456789''))) else None)"

text \<open>Decimal digits, single underscores between them.\<close>

fun parse_digits :: "int \<Rightarrow> string \<Rightarrow> int option" where
  "parse_digits acc [] = Some acc"
| "parse_digits acc (c # cs) =
     (case digit_value c of
        Some d \<Rightarrow> parse_digits (acc * 10 + d) cs
      | None \<Rightarrow>
          if c = CHR ''_'' \<and> cs \<noteq> [] \<and> digit_value (hd cs) \<noteq> None then parse_digits acc cs else None)"

definition int_of_str :: "string \<Rightarrow> int option" where
  "int_of_str s =
     (let s = str_strip s;
          body = (if s \<noteq> [] \<and> hd s \<in> {CHR ''+'', CHR ''-''} then tl s else s)
      in if body = [] \<or> digit_value (hd body) = None then None
         else map_option (\<lambda>n. if hd s = CHR ''-'' then - n else n) (parse_digits 0 body))"

text \<open>\<open>str()\<close> of an integer.\<close>

definition digit_char :: "nat \<Rightarrow> char" where
  "digit_char d = ''0123456789'' ! d"

fun str_of_nat :: "nat \<Rightarrow> string" where
  "str_of_nat n = (if n < 10 then [digit_char n] else str_of_nat (n div 10) @ [digit_char (n mod 10)])"

declare str_of_nat.simps [simp del]

definition str_of_int :: "int \<Rightarrow> string" where
  "str_of_int i = (if i < 0 then CHR ''-'' # str_of_nat (nat (- i)) else str_of_nat (nat i))"

lemma less_10_cases: "d < 10 \<Longrightarrow> d \<in> {0, 1, 2, 3, 4, 5, 6, 7, 8, 9 :: nat}"
  by auto

lemma digit_value_char: "d < 10 \<Longrightarrow> digit_value (digit_char d) = Some (int d)"
  by (drule less_10_cases) (auto simp: digit_value_def digit_char_def)

lemma digit_char_not_minus: "d < 10 \<Longrightarrow> digit_char d \<noteq> CHR ''-''"
  by (drule less_10_cases) (auto simp: digit_char_def)

lemma parse_digits_snoc:
  "parse_digits acc s = Some n \<Longrightarrow> d < 10 \<Longrightarrow> parse_digits acc (s @ [digit_char d]) = Some (n * 10 + int d)"
  by (induction acc s rule: parse_digits.induct)
     (auto simp: digit_value_char split: option.splits if_splits)

lemma parse_str_of_nat: "parse_digits 0 (str_of_nat n) = Some (int n)"
proof (induction n rule: str_of_nat.induct)
  case (1 n)
  show ?case
  proof (cases "n < 10")
    case True
    then show ?thesis
      by (simp add: str_of_nat.simps [of n] digit_value_char)
  next
    case False
    then have "parse_digits 0 (str_of_nat (n div 10) @ [digit_char (n mod 10)]) = Some (int (n div 10) * 10 + int (n mod 10))"
      using 1 by (intro parse_digits_snoc) auto
    moreover have "int (n div 10) * 10 + int (n mod 10) = int n"
      by (metis div_mult_mod_eq of_nat_add of_nat_mult of_nat_numeral)
    ultimately show ?thesis
      using False by (simp add: str_of_nat.simps [of n])
  qed
qed

lemma str_of_nat_hd: "str_of_nat n \<noteq> [] \<and> hd (str_of_nat n) \<noteq> CHR ''-''"
proof (induction n rule: str_of_nat.induct)
  case (1 n)
  then show ?case
    by (cases "n < 10") (auto simp: str_of_nat.simps [of n] digit_char_not_minus)
qed

lemma str_of_nat_inj: "str_of_nat m = str_of_nat n \<Longrightarrow> m = n"
  by (metis nat_int option.inject parse_str_of_nat)

lemma str_of_int_inj: "str_of_int i = str_of_int j \<Longrightarrow> i = j"
  using str_of_nat_hd [of "nat i"] str_of_nat_hd [of "nat j"]
  by (cases "i < 0"; cases "j < 0") (auto simp: str_of_int_def dest!: str_of_nat_inj, (metis list.sel(1))+)

end
