(* ===== verification/Aiida_Escaping.thy ===== *)
theory Aiida_Escaping
  imports Aiida_Prelude
begin

text \<open>
  \<open>aiida/common/escaping.py\<close>: quoting for bash, the translation of SQL \<open>LIKE\<close> patterns into
  regular expressions, and the matcher built on it.  Of Python's \<open>re\<close> module the code uses
  \<open>re.escape\<close>, and \<open>re.match\<close> on patterns of the shape \<open>^...$\<close> made of escaped literals,
  \<open>.\<close> and \<open>.*\<close>; both are modelled for that fragment.
\<close>

section \<open>Quoting for bash\<close>

definition escape_for_bash :: "string option \<Rightarrow> bool \<Rightarrow> string" where
  "escape_for_bash str_to_escape use_double_quotes =
     (case str_to_escape of
        None \<Rightarrow> []
      | Some s \<Rightarrow>
          if use_double_quotes then
            CHR 0x22 # str_replace [CHR 0x22] [CHR 0x22, CHR 0x27, CHR 0x22, CHR 0x27, CHR 0x22] s
              @ [CHR 0x22]
          else
            CHR 0x27 # str_replace [CHR 0x27] [CHR 0x27, CHR 0x22, CHR 0x27, CHR 0x22, CHR 0x27] s
              @ [CHR 0x27])"

text \<open>
  The specification: quote removal of the shell on one word.  Between single quotes every
  character is literal; between double quotes every character but \<open>$\<close>, backquote, backslash
  and \<open>!\<close> is; outside quotes only the two quote characters are read, anything else is outside
  this fragment of the shell language.
\<close>

datatype quote_mode = Unquoted | SingleQuoted | DoubleQuoted

definition active_in_double_quotes :: "char \<Rightarrow> bool" where
  "active_in_double_quotes c \<longleftrightarrow> c \<in> {CHR ''$'', CHR 0x60, CHR 0x5C, CHR ''!''}"

fun shell_unquote :: "quote_mode \<Rightarrow> string \<Rightarrow> string option" where
  "shell_unquote Unquoted [] = Some []"
| "shell_unquote _ [] = None"
| "shell_unquote Unquoted (c # cs) =
     (if c = CHR 0x27 then shell_unquote SingleQuoted cs
      else if c = CHR 0x22 then shell_unquote DoubleQuoted cs else None)"
| "shell_unquote SingleQuoted (c # cs) =
     (if c = CHR 0x27 then shell_unquote Unquoted cs
      else map_option (Cons c) (shell_unquote SingleQuoted cs))"
| "shell_unquote DoubleQuoted (c # cs) =
     (if c = CHR 0x22 then shell_unquote Unquoted cs
      else if active_in_double_quotes c then None
      else map_option (Cons c) (shell_unquote DoubleQuoted cs))"

lemma shell_unquote_single_body:
  "shell_unquote SingleQuoted
     (concat (map (\<lambda>x. if x = CHR 0x27 then [CHR 0x27, CHR 0x22, CHR 0x27, CHR 0x22, CHR 0x27]
                       else [x]) s) @ [CHR 0x27]) = Some s"
  by (induction s) (auto simp: active_in_double_quotes_def)

lemma shell_unquote_double_body:
  "\<forall>c \<in> set s. \<not> active_in_double_quotes c \<Longrightarrow>
   shell_unquote DoubleQuoted
     (concat (map (\<lambda>x. if x = CHR 0x22 then [CHR 0x22, CHR 0x27, CHR 0x22, CHR 0x27, CHR 0x22]
                       else [x]) s) @ [CHR 0x22]) = Some s"
  by (induction s) auto

section \<open>The fragment of \<open>re\<close> that is used\<close>

abbreviation backslash :: char where "backslash \<equiv> CHR 0x5C"

abbreviation newline :: char where "newline \<equiv> CHR 0x0A"

text \<open>The characters \<open>re.escape\<close> escapes (\<open>re._special_chars_map\<close>).\<close>

definition re_special :: "char \<Rightarrow> bool" where
  "re_special c \<longleftrightarrow>
     c \<in> set ''()[]{}?*+-|^$.&~# '' \<or> c = backslash \<or>
     c \<in> {CHR 0x09, CHR 0x0A, CHR 0x0D, CHR 0x0B, CHR 0x0C}"

definition re_escape :: "string \<Rightarrow> string" where
  "re_escape s = concat (map (\<lambda>c. if re_special c then [backslash, c] else [c]) s)"

datatype re_item = ReLit char | ReAny | ReAnyStar

text \<open>The items between \<open>^\<close> and \<open>$\<close>; \<open>None\<close> for a pattern outside the fragment.\<close>

fun re_parse_body :: "string \<Rightarrow> re_item list option" where
  "re_parse_body [] = None"
| "re_parse_body [c] = (if c = CHR ''$'' then Some [] else None)"
| "re_parse_body (c # d # cs) =
     (if c = backslash then
        (if re_special d then map_option (Cons (ReLit d)) (re_parse_body cs) else None)
      else if c = CHR ''.'' then
        (if d = CHR ''*'' then map_option (Cons ReAnyStar) (re_parse_body cs)
         else map_option (Cons ReAny) (re_parse_body (d # cs)))
      else if re_special c then None
      else map_option (Cons (ReLit c)) (re_parse_body (d # cs)))"

definition re_parse :: "string \<Rightarrow> re_item list option" where
  "re_parse p = (case p of [] \<Rightarrow> None | c # cs \<Rightarrow> if c = CHR ''^'' then re_parse_body cs else None)"

text \<open>
  \<open>re.match\<close> without flags: \<open>.\<close> matches any character but a newline, and \<open>$\<close> matches at the end
  of the string and also before a newline that ends it.
\<close>

fun re_match_items :: "re_item list \<Rightarrow> string \<Rightarrow> bool" where
  "re_match_items [] s \<longleftrightarrow> s = [] \<or> s = [newline]"
| "re_match_items (ReLit c # is) s \<longleftrightarrow>
     (case s of [] \<Rightarrow> False | x # xs \<Rightarrow> x = c \<and> re_match_items is xs)"
| "re_match_items (ReAny # is) s \<longleftrightarrow>
     (case s of [] \<Rightarrow> False | x # xs \<Rightarrow> x \<noteq> newline \<and> re_match_items is xs)"
| "re_match_items (ReAnyStar # is) [] \<longleftrightarrow> re_match_items is []"
| "re_match_items (ReAnyStar # is) (x # xs) \<longleftrightarrow>
     re_match_items is (x # xs) \<or> x \<noteq> newline \<and> re_match_items (ReAnyStar # is) xs"

definition re_match :: "string \<Rightarrow> string \<Rightarrow> bool option" where
  "re_match pattern s = map_option (\<lambda>is. re_match_items is s) (re_parse pattern)"

section \<open>SQL patterns\<close>

definition SQL_TO_REGEX_TOKENS :: "(string \<times> string) list" where
  "SQL_TO_REGEX_TOKENS =
     [([backslash, backslash], re_escape [backslash]),
      ([backslash, CHR ''%''], re_escape ''%''),
      ([backslash, CHR ''_''], re_escape ''_''),
      (''%'', ''.*''),
      (''_'', ''.'')]"

definition escape_for_sql_like :: "string \<Rightarrow> string" where
  "escape_for_sql_like s =
     str_replace ''_'' [backslash, CHR ''_''] (str_replace ''%'' [backslash, CHR ''%''] s)"

text \<open>The nested function \<open>tokenizer\<close>.  The token looked up is always a key of the table, so
  the empty default of the lookup (Python would raise \<open>KeyError\<close>) is never reached.\<close>

function sql_tokenizer :: "string \<Rightarrow> string list \<Rightarrow> string" where
  "sql_tokenizer s [] = re_escape s"
| "sql_tokenizer s (token # tokens) =
     (case str_partition token s of (first, sep, rest) \<Rightarrow>
        if sep \<noteq> [] then
          sql_tokenizer first tokens
            @ (case map_of SQL_TO_REGEX_TOKENS sep of None \<Rightarrow> [] | Some r \<Rightarrow> r)
            @ sql_tokenizer rest (token # tokens)
        else sql_tokenizer first tokens)"
  by pat_completeness auto
termination
  by (relation "measures [\<lambda>(s, tokens). length tokens, \<lambda>(s, tokens). length s]")
     (auto dest: sym [THEN str_partition_rest_shorter])

declare sql_tokenizer.simps [simp del]

definition get_regex_pattern_from_sql :: "string \<Rightarrow> string" where
  "get_regex_pattern_from_sql sql_pattern =
     ''^'' @ sql_tokenizer sql_pattern (map fst SQL_TO_REGEX_TOKENS) @ ''$''"

definition sql_string_match :: "string \<Rightarrow> string \<Rightarrow> bool" where
  "sql_string_match s pattern =
     (case re_match (get_regex_pattern_from_sql pattern) s of None \<Rightarrow> False | Some b \<Rightarrow> b)"

section \<open>The reference meaning of a \<open>LIKE\<close> pattern\<close>

text \<open>Reading a pattern from left to right, with \<open>\\\<close> as the escape character.\<close>

fun like_items :: "string \<Rightarrow> re_item list" where
  "like_items [] = []"
| "like_items [c] = [if c = CHR ''%'' then ReAnyStar else if c = CHR ''_'' then ReAny else ReLit c]"
| "like_items (c # d # cs) =
     (if c = backslash \<and> (d = backslash \<or> d = CHR ''%'' \<or> d = CHR ''_'')
      then ReLit d # like_items cs
      else if c = CHR ''%'' then ReAnyStar # like_items (d # cs)
      else if c = CHR ''_'' then ReAny # like_items (d # cs)
      else ReLit c # like_items (d # cs))"

fun like_match_items :: "re_item list \<Rightarrow> string \<Rightarrow> bool" where
  "like_match_items [] s \<longleftrightarrow> s = []"
| "like_match_items (ReLit c # is) s \<longleftrightarrow> (\<exists>xs. s = c # xs \<and> like_match_items is xs)"
| "like_match_items (ReAny # is) s \<longleftrightarrow> (\<exists>x xs. s = x # xs \<and> like_match_items is xs)"
| "like_match_items (ReAnyStar # is) s \<longleftrightarrow> (\<exists>xs ys. s = xs @ ys \<and> like_match_items is ys)"

definition sql_like :: "string \<Rightarrow> string \<Rightarrow> bool" where
  "sql_like s pattern = like_match_items (like_items pattern) s"

subsection \<open>Scanning with a table of tokens\<close>

function scan :: "(string \<times> re_item) list \<Rightarrow> string \<Rightarrow> re_item list" where
  "scan tab [] = []"
| "scan tab (c # cs) =
     (case find (\<lambda>(t, _). t \<noteq> [] \<and> prefix t (c # cs)) tab of
        Some (t, it) \<Rightarrow> it # scan tab (drop (length t) (c # cs))
      | None \<Rightarrow> ReLit c # scan tab cs)"
  by pat_completeness auto
termination
proof (relation "measure (\<lambda>(tab, s). length s)", goal_cases)
  case (3 tab c cs p t it)
  then have "t \<noteq> []"
    by (auto dest: find_SomeD)
  then show ?case
    by (cases t) auto
qed auto

declare scan.simps(2) [simp del]

definition render :: "re_item list \<Rightarrow> string" where
  "render = concat \<circ> map (\<lambda>it. case it of ReLit c \<Rightarrow> re_escape [c] | ReAny \<Rightarrow> ''.'' | ReAnyStar \<Rightarrow> ''.*'')"

lemma render_simps [simp]:
  "render [] = []" "render (is @ js) = render is @ render js"
  "render (ReLit c # is) = re_escape [c] @ render is"
  "render (ReAny # is) = CHR ''.'' # render is"
  "render (ReAnyStar # is) = CHR ''.'' # CHR ''*'' # render is"
  by (simp_all add: render_def)

text \<open>No token of the table can begin before an occurrence of \<open>t\<close> and end inside it.\<close>

definition no_straddle :: "string \<Rightarrow> (string \<times> re_item) list \<Rightarrow> bool" where
  "no_straddle t tab \<longleftrightarrow>
     (\<forall>(u, _) \<in> set tab. length u = 1 \<or> (\<exists>a b. u = [a, b] \<and> t \<noteq> [] \<and> b \<noteq> hd t))"

lemma no_straddle_prefix:
  assumes "no_straddle t tab" "(u, it) \<in> set tab" "t \<noteq> []" "first \<noteq> []"
  shows "prefix u (first @ t @ rest) \<longleftrightarrow> prefix u first"
proof -
  obtain x xs where f: "first = x # xs"
    using assms(4) by (cases first) auto
  obtain y ys where t: "t = y # ys"
    using assms(3) by (cases t) auto
  from assms(1,2) consider "length u = 1" | a b where "u = [a, b]" "b \<noteq> y"
    by (auto simp: no_straddle_def t)
  then show ?thesis
  proof cases
    case 1
    then obtain a where "u = [a]" by (cases u) auto
    then show ?thesis by (simp add: f)
  next
    case 2
    then show ?thesis by (cases xs) (auto simp: f t)
  qed
qed

lemma str_partition_first:
  assumes "str_partition t s = (a, b, r)" "v \<noteq> []" "suffix v a" "t \<noteq> []"
  shows "\<not> prefix t (v @ b @ r)"
  using assms
proof (induction s arbitrary: a)
  case Nil
  then show ?case by (auto simp: suffix_def)
next
  case (Cons c cs)
  show ?case
  proof (cases "prefix t (c # cs)")
    case True
    then show ?thesis using Cons.prems by auto
  next
    case False
    then obtain a' where a': "str_partition t cs = (a', b, r)" "a = c # a'"
      using Cons.prems(1) by (auto split: prod.splits)
    from a' Cons.prems(3) consider "suffix v a'" | "v = c # a'"
      by (auto simp: suffix_Cons)
    then show ?thesis
    proof cases
      case 1
      then show ?thesis using Cons.IH a'(1) Cons.prems(2,4) by blast
    next
      case 2
      then show ?thesis using False str_partition_append [OF a'(1)] by simp
    qed
  qed
qed

lemma find_cong_prefix:
  "(\<And>u it. (u, it) \<in> set tab \<Longrightarrow> prefix u s \<longleftrightarrow> prefix u s') \<Longrightarrow>
   find (\<lambda>(t, _). t \<noteq> [] \<and> prefix t s) tab = find (\<lambda>(t, _). t \<noteq> [] \<and> prefix t s') tab"
  by (induction tab) auto

lemma scan_at_token:
  "t \<noteq> [] \<Longrightarrow> scan ((t, it) # tab) (t @ rest) = it # scan ((t, it) # tab) rest"
  by (cases t) (auto simp: scan.simps(2))

lemma scan_token_absent:
  assumes "\<And>v. v \<noteq> [] \<Longrightarrow> suffix v s \<Longrightarrow> \<not> prefix t v"
  shows "scan ((t, it) # tab) s = scan tab s"
  using assms
proof (induction s rule: length_induct)
  case (1 s)
  show ?case
  proof (cases s)
    case Nil
    then show ?thesis by simp
  next
    case (Cons c cs)
    have head: "\<not> prefix t (c # cs)"
      using 1(2) [of s] Cons by simp
    have sub: "scan ((t, it) # tab) v = scan tab v" if "suffix v cs" for v
    proof -
      have "length v < length s"
        using that Cons by (auto simp: suffix_def)
      moreover have "\<not> prefix t w" if "w \<noteq> []" "suffix w v" for w
        using 1(2) that \<open>suffix v cs\<close> Cons by (meson suffix_ConsI suffix_order.order_trans)
      ultimately show ?thesis
        using 1(1) by blast
    qed
    have drops: "suffix (drop (length u) (c # cs)) cs" if "u \<noteq> []" for u
      using that by (cases u) (auto simp: suffix_drop)
    show ?thesis
      using head sub drops by (auto simp: Cons scan.simps(2) split: option.split dest!: find_SomeD)
  qed
qed

lemma scan_before_token:
  assumes "no_straddle t tab" "t \<noteq> []"
    and "\<And>v. v \<noteq> [] \<Longrightarrow> suffix v first \<Longrightarrow> \<not> prefix t (v @ t @ rest)"
  shows "scan ((t, it) # tab) (first @ t @ rest) = scan tab first @ it # scan ((t, it) # tab) rest"
  using assms(3)
proof (induction first rule: length_induct)
  case (1 first)
  show ?case
  proof (cases first)
    case Nil
    then show ?thesis using scan_at_token [OF assms(2)] by simp
  next
    case (Cons c cs)
    have head: "\<not> prefix t (c # cs @ t @ rest)"
      using 1(2) [of first] Cons by simp
    have sub: "scan ((t, it) # tab) (v @ t @ rest) = scan tab v @ it # scan ((t, it) # tab) rest"
      if "suffix v cs" for v
    proof -
      have "length v < length first"
        using that Cons by (auto simp: suffix_def)
      moreover have "\<not> prefix t (w @ t @ rest)" if "w \<noteq> []" "suffix w v" for w
        using 1(2) that \<open>suffix v cs\<close> Cons by (meson suffix_ConsI suffix_order.order_trans)
      ultimately show ?thesis
        using 1(1) by blast
    qed
    have same: "find (\<lambda>(u, _). u \<noteq> [] \<and> prefix u (c # cs @ t @ rest)) tab =
        find (\<lambda>(u, _). u \<noteq> [] \<and> prefix u (c # cs)) tab"
      using no_straddle_prefix [OF assms(1) _ assms(2), of _ _ first rest] Cons
      by (intro find_cong_prefix) auto
    show ?thesis
    proof (cases "find (\<lambda>(u, _). u \<noteq> [] \<and> prefix u (c # cs)) tab")
      case None
      then show ?thesis
        using head same sub [of cs] by (simp add: Cons scan.simps(2))
    next
      case (Some p)
      then obtain u i where p: "p = (u, i)" "u \<noteq> []" "prefix u (c # cs)"
        by (cases p) (auto dest: find_SomeD)
      then have "suffix (drop (length u) (c # cs)) cs"
        by (cases u) (auto simp: suffix_drop)
      moreover have "length u \<le> length (c # cs)"
        using p(3) by (rule prefix_length_le)
      then have "drop (length u) (c # cs @ t @ rest) = drop (length u) (c # cs) @ t @ rest"
        using drop_append [of "length u" "c # cs" "t @ rest"] by simp
      ultimately show ?thesis
        using head same sub Some p(1) by (simp add: Cons scan.simps(2))
    qed
  qed
qed

subsection \<open>The tokenizer is the scan\<close>

definition like_table :: "(string \<times> re_item) list" where
  "like_table =
     [([backslash, backslash], ReLit backslash), ([backslash, CHR ''%''], ReLit CHR ''%''),
      ([backslash, CHR ''_''], ReLit CHR ''_''), (''%'', ReAnyStar), (''_'', ReAny)]"

definition table_ok :: "(string \<times> re_item) list \<Rightarrow> bool" where
  "table_ok tab \<longleftrightarrow>
     (\<forall>(t, it) \<in> set tab. t \<noteq> [] \<and> map_of SQL_TO_REGEX_TOKENS t = Some (render [it])) \<and>
     (\<forall>pre t it post. tab = pre @ (t, it) # post \<longrightarrow> no_straddle t post)"

lemma table_ok_Cons:
  assumes "table_ok ((t, it) # tab)"
  shows "table_ok tab" "no_straddle t tab" "t \<noteq> []"
    "map_of SQL_TO_REGEX_TOKENS t = Some (render [it])"
proof -
  have "\<forall>pre t' it' post. (t, it) # tab = pre @ (t', it') # post \<longrightarrow> no_straddle t' post"
    using assms unfolding table_ok_def by (rule conjunct2)
  then have "no_straddle t' post" if "tab = pre @ (t', it') # post" for pre t' it' post
    using that by (auto dest: spec [of _ "(t, it) # pre"])
  then show "table_ok tab"
    using assms by (auto simp: table_ok_def)
  show "no_straddle t tab"
    using assms unfolding table_ok_def by (metis append_Nil)
qed (use assms in \<open>auto simp: table_ok_def\<close>)

lemma re_escape_render: "re_escape s = render (map ReLit s)"
  by (induction s) (simp_all add: re_escape_def)

lemma scan_Nil_table: "scan [] s = map ReLit s"
  by (induction s) (simp_all add: scan.simps(2))

lemma sql_tokenizer_scan:
  "table_ok tab \<Longrightarrow> tokens = map fst tab \<Longrightarrow> sql_tokenizer s tokens = render (scan tab s)"
proof (induction s tokens arbitrary: tab rule: sql_tokenizer.induct)
  case (1 s)
  then show ?case
    by (simp add: sql_tokenizer.simps re_escape_render scan_Nil_table)
next
  case (2 s token tokens)
  then obtain it tab' where tab: "tab = (token, it) # tab'" "tokens = map fst tab'"
    by (cases tab) auto
  note ok = table_ok_Cons [OF 2(4) [unfolded tab(1)]]
  obtain first sep rest where p: "str_partition token s = (first, sep, rest)"
    by (metis prod_cases3)
  note first = str_partition_first [OF p _ _ ok(3)]
  show ?case
  proof (cases "sep = []")
    case True
    then have "rest = []" "s = first"
      using str_partition_sep [OF p] ok(3) str_partition_append [OF p] by auto
    then have "scan tab s = scan tab' s"
      using first True tab(1) by (auto intro: scan_token_absent)
    then show ?thesis
      using 2(3) [OF p [symmetric] refl] True p ok(1) tab(2) \<open>s = first\<close>
      by (simp add: sql_tokenizer.simps)
  next
    case False
    then have sep: "sep = token"
      using str_partition_sep [OF p] by auto
    then have "s = first @ token @ rest"
      using str_partition_append [OF p] by simp
    moreover have "scan tab (first @ token @ rest) = scan tab' first @ it # scan tab rest"
      unfolding tab(1) using scan_before_token [OF ok(2,3)] first sep by blast
    moreover have "sql_tokenizer first tokens = render (scan tab' first)"
      using 2(1) [OF p [symmetric] refl] False ok(1) tab(2) by auto
    moreover have "sql_tokenizer rest (token # tokens) = render (scan tab rest)"
      using 2(2) [OF p [symmetric] refl] False 2(4,5) by auto
    moreover have "sql_tokenizer s (token # tokens) =
        sql_tokenizer first tokens @ render [it] @ sql_tokenizer rest (token # tokens)"
      using p False sep ok(4) by (subst sql_tokenizer.simps) simp
    ultimately show ?thesis
      by (simp flip: render_simps(2))
  qed
qed

lemma table_ok_like_table: "table_ok like_table"
  unfolding table_ok_def
proof (intro conjI allI impI)
  show "\<forall>(t, it) \<in> set like_table.
      t \<noteq> [] \<and> map_of SQL_TO_REGEX_TOKENS t = Some (render [it])"
    by (simp add: like_table_def SQL_TO_REGEX_TOKENS_def)
  show "no_straddle t post" if "like_table = pre @ (t, it) # post" for pre t it post
    using that by (auto simp: like_table_def Cons_eq_append_conv no_straddle_def)
qed

lemma find_like_table:
  "find (\<lambda>(t, _). t \<noteq> [] \<and> prefix t (c # cs)) like_table =
     (if c = backslash \<and> cs \<noteq> [] \<and> hd cs \<in> {backslash, CHR ''%'', CHR ''_''}
      then Some ([c, hd cs], ReLit (hd cs))
      else if c = CHR ''%'' then Some ([c], ReAnyStar)
      else if c = CHR ''_'' then Some ([c], ReAny) else None)"
  by (cases cs) (auto simp: like_table_def)

lemma scan_like_table: "scan like_table s = like_items s"
  by (induction s rule: like_items.induct) (auto simp: scan.simps(2) find_like_table)

lemma get_regex_pattern_render:
  "get_regex_pattern_from_sql p = CHR ''^'' # render (like_items p) @ ''$''"
proof -
  have "map fst SQL_TO_REGEX_TOKENS = map fst like_table"
    by (simp add: SQL_TO_REGEX_TOKENS_def like_table_def)
  then show ?thesis
    using sql_tokenizer_scan [OF table_ok_like_table]
    by (simp add: get_regex_pattern_from_sql_def scan_like_table)
qed

subsection \<open>Reading the generated pattern back\<close>

lemma render_no_star: "hd (render is @ ''$'') \<noteq> CHR ''*'' \<and> render is @ ''$'' \<noteq> []"
proof (cases "is")
  case (Cons it js)
  then show ?thesis by (cases it) (auto simp: re_escape_def re_special_def)
qed simp

lemma re_parse_body_render: "re_parse_body (render is @ ''$'') = Some is"
proof (induction "is")
  case Nil
  then show ?case by simp
next
  case (Cons it js)
  obtain d ds where d: "render js @ ''$'' = d # ds" "d \<noteq> CHR ''*''"
    using render_no_star [of js] by (cases "render js @ ''$''") auto
  show ?case
  proof (cases it)
    case (ReLit c)
    show ?thesis
    proof (cases "re_special c")
      case True
      then show ?thesis using Cons ReLit by (simp add: re_escape_def)
    next
      case False
      then have "c \<noteq> backslash" "c \<noteq> CHR ''.''"
        by (auto simp: re_special_def)
      then show ?thesis using Cons ReLit False d by (simp add: re_escape_def)
    qed
  qed (use Cons d in auto)
qed

lemma sql_string_match_items:
  "sql_string_match s p = re_match_items (like_items p) s"
  by (simp add: sql_string_match_def re_match_def re_parse_def get_regex_pattern_render
      re_parse_body_render)

lemma re_match_items_like:
  "newline \<notin> set s \<Longrightarrow> re_match_items is s = like_match_items is s"
proof (induction "is" s rule: re_match_items.induct)
  case (4 "is")
  then show ?case by auto
next
  case (5 "is" x xs)
  have "like_match_items (ReAnyStar # is) (x # xs) \<longleftrightarrow>
      like_match_items is (x # xs) \<or> like_match_items (ReAnyStar # is) xs"
    by (auto simp: Cons_eq_append_conv)
  then show ?case using 5 by auto
next
  case (2 c "is" s)
  then show ?case by (cases s) auto
next
  case (3 "is" s)
  then show ?case by (cases s) auto
qed auto

text \<open>A string without escape characters matches itself as a pattern.\<close>

lemma sql_string_match_self:
  "backslash \<notin> set s \<Longrightarrow> newline \<notin> set s \<Longrightarrow> sql_string_match s s"
  unfolding sql_string_match_items
proof (induction s rule: like_items.induct)
  case (3 c d cs)
  then show ?case by (cases "c = CHR ''%''"; cases "c = CHR ''_''") auto
qed auto

lemma escape_for_sql_like_chars:
  "escape_for_sql_like s =
     concat (map (\<lambda>c. if c = CHR ''%'' \<or> c = CHR ''_'' then [backslash, c] else [c]) s)"
  unfolding escape_for_sql_like_def str_replace_char by (induction s) auto

lemma like_items_plain:
  "c \<noteq> backslash \<Longrightarrow> c \<noteq> CHR ''%'' \<Longrightarrow> c \<noteq> CHR ''_'' \<Longrightarrow>
   like_items (c # cs) = ReLit c # like_items cs"
  by (cases cs) auto

lemma like_items_escaped:
  "backslash \<notin> set s \<Longrightarrow> like_items (escape_for_sql_like s) = map ReLit s"
  unfolding escape_for_sql_like_chars by (induction s) (auto simp: like_items_plain)

lemma like_items_escaped_append:
  "backslash \<notin> set s \<Longrightarrow> like_items (escape_for_sql_like s @ rest) = map ReLit s @ like_items rest"
  unfolding escape_for_sql_like_chars by (induction s) (auto simp: like_items_plain)

lemma like_match_prefix: "like_match_items (map ReLit p @ is) s \<longleftrightarrow> (\<exists>r. s = p @ r \<and> like_match_items is r)"
  by (induction p arbitrary: s) auto

lemma sql_like_escaped_prefix:
  "backslash \<notin> set p \<Longrightarrow> sql_like s (escape_for_sql_like p @ ''%'') \<longleftrightarrow> prefix p s"
  by (simp add: sql_like_def like_items_escaped_append like_match_prefix prefix_def)

lemma like_match_literals: "like_match_items (map ReLit p) s \<longleftrightarrow> s = p"
  by (induction p arbitrary: s) auto

section \<open>Properties\<close>

text \<open>quoting for bash is inverted by the shell: whatever the string, the shell reads
  \<open>escape_for_bash(s)\<close> back as the single word \<open>s\<close>.\<close>

theorem escape_for_bash_roundtrip:
  "shell_unquote Unquoted (escape_for_bash (Some s) False) = Some s"
  by (simp add: escape_for_bash_def str_replace_char shell_unquote_single_body)



text \<open>an escaped pattern without backslashes matches exactly the string it was made from.\<close>

theorem escape_for_sql_like_exact:
  "backslash \<notin> set p \<Longrightarrow> newline \<notin> set s \<Longrightarrow>
   sql_string_match s (escape_for_sql_like p) \<longleftrightarrow> s = p"
  by (simp add: sql_string_match_items re_match_items_like like_items_escaped like_match_literals)

theorem escape_for_sql_like_exact_witness:
  "sql_string_match ''a_b'' (escape_for_sql_like ''a_b'') \<longleftrightarrow> ''a_b'' = ''a_b''"
  by (rule escape_for_sql_like_exact) simp_all

end
