(* ===== verification/Aiida_Links.thy ===== *)
theory Aiida_Links
  imports Aiida_Prelude "HOL-Library.Char_ord" "HOL-Library.List_Lexorder"
    "HOL-Library.Product_Lexorder"
begin

text \<open>
  Links between provenance nodes as data: the link types and traversal rules of
  \<open>aiida/common/links.py\<close>, label validation (\<open>common/links.py\<close>, \<open>common/lang.py\<close>,
  \<open>engine/processes/ports.py\<close>), the \<open>LinkManager\<close> of \<open>orm/utils/links.py\<close> and the flattening of
  nested port namespaces into link labels of \<open>engine/processes/process.py\<close>.  The main result is
  that \<open>LinkManager.nested\<close> rebuilds the namespace a process flattened.
\<close>

section \<open>Link types and traversal rules\<close>

datatype link_type = CREATE | RETURN | INPUT_CALC | INPUT_WORK | CALL_CALC | CALL_WORK

datatype direction = Forward | Backward

record traversal_rule =
  rule_link_type :: link_type
  rule_direction :: direction
  toggleable :: bool
  rule_default :: bool

definition GraphTraversalRule :: "link_type \<Rightarrow> direction \<Rightarrow> bool \<Rightarrow> bool \<Rightarrow> traversal_rule" where
  "GraphTraversalRule t d tog def =
     \<lparr>rule_link_type = t, rule_direction = d, toggleable = tog, rule_default = def\<rparr>"

lemma traversal_rule_sel [simp]:
  "rule_link_type (GraphTraversalRule t d tog def) = t"
  "rule_direction (GraphTraversalRule t d tog def) = d"
  "toggleable (GraphTraversalRule t d tog def) = tog"
  "rule_default (GraphTraversalRule t d tog def) = def"
  by (simp_all add: GraphTraversalRule_def)

datatype ruleset = DEFAULT | DELETE | EXPORT

fun GraphTraversalRules :: "ruleset \<Rightarrow> (string \<times> traversal_rule) list" where
  "GraphTraversalRules DEFAULT =
     [(''input_calc_forward'', GraphTraversalRule INPUT_CALC Forward True False),
      (''input_calc_backward'', GraphTraversalRule INPUT_CALC Backward True False),
      (''create_forward'', GraphTraversalRule CREATE Forward True False),
      (''create_backward'', GraphTraversalRule CREATE Backward True False),
      (''return_forward'', GraphTraversalRule RETURN Forward True False),
      (''return_backward'', GraphTraversalRule RETURN Backward True False),
      (''input_work_forward'', GraphTraversalRule INPUT_WORK Forward True False),
      (''input_work_backward'', GraphTraversalRule INPUT_WORK Backward True False),
      (''call_calc_forward'', GraphTraversalRule CALL_CALC Forward True False),
      (''call_calc_backward'', GraphTraversalRule CALL_CALC Backward True False),
      (''call_work_forward'', GraphTraversalRule CALL_WORK Forward True False),
      (''call_work_backward'', GraphTraversalRule CALL_WORK Backward True False)]"
| "GraphTraversalRules DELETE =
     [(''input_calc_forward'', GraphTraversalRule INPUT_CALC Forward False True),
      (''input_calc_backward'', GraphTraversalRule INPUT_CALC Backward False False),
      (''create_forward'', GraphTraversalRule CREATE Forward True True),
      (''create_backward'', GraphTraversalRule CREATE Backward False True),
      (''return_forward'', GraphTraversalRule RETURN Forward False False),
      (''return_backward'', GraphTraversalRule RETURN Backward False True),
      (''input_work_forward'', GraphTraversalRule INPUT_WORK Forward False True),
      (''input_work_backward'', GraphTraversalRule INPUT_WORK Backward False False),
      (''call_calc_forward'', GraphTraversalRule CALL_CALC Forward True True),
      (''call_calc_backward'', GraphTraversalRule CALL_CALC Backward False True),
      (''call_work_forward'', GraphTraversalRule CALL_WORK Forward True True),
      (''call_work_backward'', GraphTraversalRule CALL_WORK Backward False True)]"
| "GraphTraversalRules EXPORT =
     [(''input_calc_forward'', GraphTraversalRule INPUT_CALC Forward True False),
      (''input_calc_backward'', GraphTraversalRule INPUT_CALC Backward False True),
      (''create_forward'', GraphTraversalRule CREATE Forward False True),
      (''create_backward'', GraphTraversalRule CREATE Backward True True),
      (''return_forward'', GraphTraversalRule RETURN Forward False True),
      (''return_backward'', GraphTraversalRule RETURN Backward True False),
      (''input_work_forward'', GraphTraversalRule INPUT_WORK Forward True False),
      (''input_work_backward'', GraphTraversalRule INPUT_WORK Backward False True),
      (''call_calc_forward'', GraphTraversalRule CALL_CALC Forward False True),
      (''call_calc_backward'', GraphTraversalRule CALL_CALC Backward True True),
      (''call_work_forward'', GraphTraversalRule CALL_WORK Forward False True),
      (''call_work_backward'', GraphTraversalRule CALL_WORK Backward True True)]"

section \<open>Labels\<close>

definition is_letter :: "char \<Rightarrow> bool" where
  "is_letter c \<longleftrightarrow> (CHR ''a'' \<le> c \<and> c \<le> CHR ''z'') \<or> (CHR ''A'' \<le> c \<and> c \<le> CHR ''Z'')"

definition is_digit :: "char \<Rightarrow> bool" where
  "is_digit c \<longleftrightarrow> CHR ''0'' \<le> c \<and> c \<le> CHR ''9''"

definition allowed_character :: "char \<Rightarrow> bool" where
  "allowed_character c \<longleftrightarrow> is_letter c \<or> is_digit c \<or> c = CHR ''_''"

definition python_keywords :: "string list" where
  "python_keywords =
     [''False'', ''None'', ''True'', ''and'', ''as'', ''assert'', ''async'', ''await'', ''break'',
      ''class'', ''continue'', ''def'', ''del'', ''elif'', ''else'', ''except'', ''finally'', ''for'',
      ''from'', ''global'', ''if'', ''import'', ''in'', ''is'', ''lambda'', ''nonlocal'', ''not'', ''or'',
      ''pass'', ''raise'', ''return'', ''try'', ''while'', ''with'', ''yield'']"

text \<open>\<open>str.isidentifier\<close> on ASCII strings (its one caller here has checked that), and not a
  keyword.\<close>

definition isidentifier :: "string \<Rightarrow> bool" where
  "isidentifier identifier \<longleftrightarrow>
     (case identifier of [] \<Rightarrow> False
      | c # cs \<Rightarrow> (is_letter c \<or> c = CHR ''_'') \<and> list_all allowed_character cs) \<and>
     identifier \<notin> set python_keywords"

definition validate_link_label :: "string \<Rightarrow> unit res" where
  "validate_link_label link_label =
     (if str_endswith link_label ''_'' then Inl ValueError
      else if str_startswith link_label ''_'' then Inl ValueError
      else if filter (\<lambda>c. \<not> allowed_character c) link_label \<noteq> [] then Inl ValueError
      else if \<not> isidentifier link_label then Inl ValueError
      else Inr ())"

definition PORT_NAMESPACE_SEPARATOR :: string where
  "PORT_NAMESPACE_SEPARATOR = ''__''"

definition PORT_NAME_MAX_CONSECUTIVE_UNDERSCORES :: nat where
  "PORT_NAME_MAX_CONSECUTIVE_UNDERSCORES = 1"

text \<open>\<open>re.findall(r'((_)\2+)', s)\<close>: the maximal runs of two or more underscores.\<close>

function underscore_groups :: "string \<Rightarrow> string list" where
  "underscore_groups [] = []"
| "underscore_groups (c # cs) =
     (if c = CHR ''_'' then
        (case takeWhile (\<lambda>x. x = CHR ''_'') cs of
           [] \<Rightarrow> underscore_groups cs
         | run \<Rightarrow> (c # run) # underscore_groups (dropWhile (\<lambda>x. x = CHR ''_'') cs))
      else underscore_groups cs)"
  by pat_completeness auto
termination
  by (relation "measure length") (auto simp: le_imp_less_Suc length_dropWhile_le)

definition validate_port_name :: "string \<Rightarrow> unit res" where
  "validate_port_name port_name =
     bind_res (validate_link_label port_name) (\<lambda>_.
       if list_ex (\<lambda>entry. length entry > PORT_NAME_MAX_CONSECUTIVE_UNDERSCORES)
            (underscore_groups port_name)
       then Inl ValueError else Inr ())"

section \<open>\<open>LinkManager\<close>\<close>

record 'n link_triple =
  lt_node :: 'n
  lt_type :: link_type
  lt_label :: string

definition LinkTriple :: "'n \<Rightarrow> link_type \<Rightarrow> string \<Rightarrow> 'n link_triple" where
  "LinkTriple n t l = \<lparr>lt_node = n, lt_type = t, lt_label = l\<rparr>"

lemma LinkTriple_sel [simp]:
  "lt_node (LinkTriple n t l) = n" "lt_type (LinkTriple n t l) = t"
  "lt_label (LinkTriple n t l) = l"
  by (simp_all add: LinkTriple_def)

lemma LinkTriple_inject [simp]:
  "LinkTriple n t l = LinkTriple n' t' l' \<longleftrightarrow> n = n' \<and> t = t' \<and> l = l'"
  by (simp add: LinkTriple_def)

definition lm_bool :: "'n link_triple list \<Rightarrow> bool" where
  "lm_bool link_triples \<longleftrightarrow> length link_triples \<noteq> 0"

definition lm_one :: "'n link_triple list \<Rightarrow> 'n link_triple res" where
  "lm_one link_triples =
     (case link_triples of
        [] \<Rightarrow> Inl ValueError
      | entry # _ \<Rightarrow> if length link_triples > 1 then Inl ValueError else Inr entry)"

definition lm_first :: "'n link_triple list \<Rightarrow> 'n link_triple option" where
  "lm_first link_triples = (case link_triples of [] \<Rightarrow> None | entry # _ \<Rightarrow> Some entry)"

definition lm_all_nodes :: "'n link_triple list \<Rightarrow> 'n list" where
  "lm_all_nodes link_triples = map lt_node link_triples"

definition lm_all_link_pairs :: "'n link_triple list \<Rightarrow> (link_type \<times> string) list" where
  "lm_all_link_pairs link_triples = map (\<lambda>entry. (lt_type entry, lt_label entry)) link_triples"

definition lm_all_link_labels :: "'n link_triple list \<Rightarrow> string list" where
  "lm_all_link_labels link_triples = map lt_label link_triples"

text \<open>The loop of \<open>get_node_by_label\<close>, with \<open>matching_entry\<close> as its accumulator.\<close>

fun lm_find_by_label :: "string \<Rightarrow> 'n option \<Rightarrow> 'n link_triple list \<Rightarrow> 'n option res" where
  "lm_find_by_label label matching_entry [] = Inr matching_entry"
| "lm_find_by_label label matching_entry (entry # rest) =
     (if lt_label entry = label then
        (case matching_entry of
           None \<Rightarrow> lm_find_by_label label (Some (lt_node entry)) rest
         | Some _ \<Rightarrow> Inl MultipleObjectsError)
      else lm_find_by_label label matching_entry rest)"

definition lm_get_node_by_label :: "'n link_triple list \<Rightarrow> string \<Rightarrow> 'n res" where
  "lm_get_node_by_label link_triples label =
     bind_res (lm_find_by_label label None link_triples) (\<lambda>matching_entry.
       case matching_entry of None \<Rightarrow> Inl NotExistent | Some n \<Rightarrow> Inr n)"

subsection \<open>Nested namespaces\<close>

text \<open>
  The values of a port: a node, a mapping, \<open>None\<close>, or any other Python object.  \<open>nested\<close> walks into
  \<open>current_namespace.setdefault(subspace, {})\<close>; where a node is found instead of a dictionary,
  the next \<open>setdefault\<close> raises \<open>AttributeError\<close> and the next \<open>in\<close> raises \<open>TypeError\<close>.
\<close>

datatype 'n pvalue = PNode 'n | PMap "(string \<times> 'n pvalue) list" | PNone | POther

fun is_mapping :: "'n pvalue \<Rightarrow> bool" where
  "is_mapping (PMap _) = True"
| "is_mapping _ = False"

fun nested_insert :: "string list \<Rightarrow> string \<Rightarrow> 'n \<Rightarrow> 'n pvalue dict \<Rightarrow> 'n pvalue dict res" where
  "nested_insert [] port_name node current =
     (if port_name \<in> fst ` set current then Inl KeyError
      else Inr (AList.update port_name (PNode node) current))"
| "nested_insert (subspace # port_namespaces) port_name node current =
     (case map_of current subspace of
        None \<Rightarrow>
          bind_res (nested_insert port_namespaces port_name node []) (\<lambda>sub.
            Inr (AList.update subspace (PMap sub) current))
      | Some (PMap sub) \<Rightarrow>
          bind_res (nested_insert port_namespaces port_name node sub) (\<lambda>sub'.
            Inr (AList.update subspace (PMap sub') current))
      | Some _ \<Rightarrow> Inl (if port_namespaces = [] then TypeError else AttributeError))"

fun nested_loop :: "'n pvalue dict \<Rightarrow> 'n link_triple list \<Rightarrow> 'n pvalue dict res" where
  "nested_loop nested [] = Inr nested"
| "nested_loop nested (entry # rest) =
     (let breadcrumbs = str_split PORT_NAMESPACE_SEPARATOR (lt_label entry) in
      bind_res (nested_insert (butlast breadcrumbs) (last breadcrumbs) (lt_node entry) nested)
        (\<lambda>nested'. nested_loop nested' rest))"

definition lm_nested :: "bool \<Rightarrow> 'n link_triple list \<Rightarrow> 'n pvalue dict res" where
  "lm_nested do_sort link_triples =
     bind_res (nested_loop [] link_triples) (\<lambda>nested.
       Inr (if do_sort then sort_key (\<lambda>(k, v). (\<not> is_mapping v, k)) nested else nested))"

section \<open>Flattening inputs and outputs\<close>

datatype port =
    InputPort (port_is_metadata: bool) (port_non_db: bool)
  | OutputPort
  | PortNamespace "(string \<times> port) list"

text \<open>\<open>port[name] if port else None\<close>, with \<open>KeyError\<close> and \<open>TypeError\<close> caught.\<close>

definition nested_port :: "port option \<Rightarrow> string \<Rightarrow> port option" where
  "nested_port p name =
     (case p of Some (PortNamespace ports) \<Rightarrow> map_of ports name | _ \<Rightarrow> None)"

definition prefixed_key :: "string \<Rightarrow> string \<Rightarrow> string" where
  "prefixed_key parent_name name =
     (if parent_name \<noteq> [] then parent_name @ PORT_NAMESPACE_SEPARATOR @ name else name)"

fun flatten_inputs :: "port option \<Rightarrow> 'n pvalue \<Rightarrow> string \<Rightarrow> (string \<times> 'n pvalue) list res"
  and flatten_inputs_items ::
    "port option \<Rightarrow> (string \<times> 'n pvalue) list \<Rightarrow> string \<Rightarrow> (string \<times> 'n pvalue) list res" where
  "flatten_inputs port port_value parent_name =
     (case (port, port_value) of
        (None, PNode n) \<Rightarrow> Inr [(parent_name, port_value)]
      | (None, PMap items) \<Rightarrow> flatten_inputs_items port items parent_name
      | (None, _) \<Rightarrow> Inr []
      | (Some (InputPort m nd), _) \<Rightarrow>
          if \<not> (m \<or> nd) then Inr [(parent_name, port_value)] else Inr []
      | (Some (PortNamespace _), PMap items) \<Rightarrow> flatten_inputs_items port items parent_name
      | (Some (PortNamespace _), _) \<Rightarrow> Inl AttributeError
      | (Some OutputPort, _) \<Rightarrow> Inl AssertionError)"
| "flatten_inputs_items port [] parent_name = Inr []"
| "flatten_inputs_items port ((name, v) # items) parent_name =
     bind_res (flatten_inputs (nested_port port name) v (prefixed_key parent_name name))
       (\<lambda>sub_items. bind_res (flatten_inputs_items port items parent_name)
         (\<lambda>rest. Inr (sub_items @ rest)))"

fun flatten_outputs :: "port option \<Rightarrow> 'n pvalue \<Rightarrow> string \<Rightarrow> (string \<times> 'n pvalue) list res"
  and flatten_outputs_items ::
    "port option \<Rightarrow> (string \<times> 'n pvalue) list \<Rightarrow> string \<Rightarrow> (string \<times> 'n pvalue) list res" where
  "flatten_outputs port port_value parent_name =
     (case (port, port_value) of
        (None, PNode n) \<Rightarrow> Inr [(parent_name, port_value)]
      | (None, PMap items) \<Rightarrow> flatten_outputs_items port items parent_name
      | (None, _) \<Rightarrow> Inr []
      | (Some OutputPort, _) \<Rightarrow> Inr [(parent_name, port_value)]
      | (Some (PortNamespace _), PMap items) \<Rightarrow> flatten_outputs_items port items parent_name
      | (Some (PortNamespace _), _) \<Rightarrow> Inl AttributeError
      | (Some (InputPort _ _), _) \<Rightarrow> Inl AssertionError)"
| "flatten_outputs_items port [] parent_name = Inr []"
| "flatten_outputs_items port ((name, v) # items) parent_name =
     bind_res (flatten_outputs (nested_port port name) v (prefixed_key parent_name name))
       (\<lambda>sub_items. bind_res (flatten_outputs_items port items parent_name)
         (\<lambda>rest. Inr (sub_items @ rest)))"

text \<open>\<open>dict(pairs)\<close>: a later pair replaces the value of an earlier one with the same key.\<close>

definition dict_of_pairs :: "(string \<times> 'v) list \<Rightarrow> 'v dict" where
  "dict_of_pairs ps = fold (\<lambda>(k, v) d. AList.update k v d) ps []"

definition flat_inputs :: "string \<Rightarrow> port \<Rightarrow> 'n pvalue dict \<Rightarrow> 'n pvalue dict res" where
  "flat_inputs metadata_key inputs_port inputs =
     bind_res
       (flatten_inputs (Some inputs_port)
          (PMap (filter (\<lambda>(key, value). key \<noteq> metadata_key) inputs)) [])
       (\<lambda>items. Inr (dict_of_pairs items))"

definition flat_outputs :: "port \<Rightarrow> 'n pvalue dict \<Rightarrow> 'n pvalue dict res" where
  "flat_outputs outputs_port outputs =
     bind_res (flatten_outputs (Some outputs_port) (PMap outputs) [])
       (\<lambda>items. Inr (dict_of_pairs items))"

text \<open>The links that \<open>_setup_inputs\<close> adds, in order, to a calculation (\<^const>\<open>INPUT_CALC\<close>) or a
  workflow node (\<^const>\<open>INPUT_WORK\<close>); \<open>add_incoming\<close> raises \<open>TypeError\<close> for a value that is not a
  node.\<close>

fun setup_inputs :: "bool \<Rightarrow> 'n pvalue dict \<Rightarrow> 'n link_triple list res" where
  "setup_inputs is_calculation [] = Inr []"
| "setup_inputs is_calculation ((name, value) # items) =
     (case value of
        PNone \<Rightarrow> setup_inputs is_calculation items
      | PNode node \<Rightarrow>
          bind_res (setup_inputs is_calculation items) (\<lambda>links.
            Inr (LinkTriple node (if is_calculation then INPUT_CALC else INPUT_WORK) name # links))
      | _ \<Rightarrow> Inl TypeError)"

section \<open>Valid names\<close>

lemma underscore_groups_Nil_iff:
  "underscore_groups s = [] \<longleftrightarrow> \<not> sublist ''__'' s"
proof (induction s rule: underscore_groups.induct)
  case (2 c cs)
  show ?case
  proof (cases "c = CHR ''_''")
    case True
    then show ?thesis
      using 2(1) by (cases cs) (auto simp: sublist_Cons_right)
  next
    case False
    then show ?thesis using 2(3) by (simp add: sublist_Cons_right)
  qed
qed simp

lemma underscore_groups_long: "entry \<in> set (underscore_groups s) \<Longrightarrow> 1 < length entry"
proof (induction s rule: underscore_groups.induct)
  case (2 c cs)
  then show ?case
    by (cases "takeWhile (\<lambda>x. x = CHR ''_'') cs") (auto split: if_splits)
qed simp

lemma validate_link_label_iff:
  "is_ok (validate_link_label l) \<longleftrightarrow>
     l \<noteq> [] \<and> \<not> is_digit (hd l) \<and> hd l \<noteq> CHR ''_'' \<and> last l \<noteq> CHR ''_'' \<and>
     list_all allowed_character l \<and> l \<notin> set python_keywords"
proof (cases l)
  case Nil
  then show ?thesis
    by (simp add: validate_link_label_def isidentifier_def str_endswith_def str_startswith_def)
next
  case (Cons c cs)
  have "suffix ''_'' l \<longleftrightarrow> last l = CHR ''_''"
    using Cons by (auto simp: suffix_singleton)
  moreover have "filter (\<lambda>c. \<not> allowed_character c) l = [] \<longleftrightarrow> list_all allowed_character l"
    by (auto simp: filter_empty_conv list_all_iff)
  moreover have "\<not> (is_letter c \<and> is_digit c)"
    by (auto simp: is_letter_def is_digit_def less_eq_char_def)
  ultimately show ?thesis
    using Cons
    by (auto simp: validate_link_label_def isidentifier_def str_endswith_def str_startswith_def
        allowed_character_def)
qed

lemma validate_port_name_iff:
  "is_ok (validate_port_name k) \<longleftrightarrow> is_ok (validate_link_label k) \<and> \<not> sublist ''__'' k"
proof -
  have "list_ex (\<lambda>entry. length entry > PORT_NAME_MAX_CONSECUTIVE_UNDERSCORES) (underscore_groups k)
      \<longleftrightarrow> underscore_groups k \<noteq> []"
    using underscore_groups_long [of _ k]
    by (cases "underscore_groups k")
       (auto simp: PORT_NAME_MAX_CONSECUTIVE_UNDERSCORES_def list_ex_iff)
  then show ?thesis
    by (cases "validate_link_label k")
       (auto simp: validate_port_name_def underscore_groups_Nil_iff)
qed

text \<open>Splitting at the separator undoes joining with it.\<close>

definition separable :: "string \<Rightarrow> bool" where
  "separable k \<longleftrightarrow> \<not> sublist PORT_NAMESPACE_SEPARATOR (k @ ''_'')"

lemma separable_if_valid: "is_ok (validate_port_name k) \<Longrightarrow> separable k"
proof -
  assume "is_ok (validate_port_name k)"
  then have k: "\<not> sublist ''__'' k" "k \<noteq> []" "last k \<noteq> CHR ''_''"
    by (auto simp: validate_port_name_iff validate_link_label_iff)
  have "k @ ''_'' \<noteq> xs @ ''__'' @ ys" for xs ys
  proof
    assume eq: "k @ ''_'' = xs @ ''__'' @ ys"
    show False
    proof (cases ys rule: rev_cases)
      case Nil
      with eq have "k = xs @ ''_''" by simp
      with k show False by simp
    next
      case (snoc zs z)
      with eq have "k = xs @ ''__'' @ zs" by simp
      with k show False by (auto simp: sublist_def)
    qed
  qed
  then show "separable k"
    by (auto simp: separable_def PORT_NAMESPACE_SEPARATOR_def sublist_def)
qed

lemma separable_Cons:
  "separable (c # k) \<Longrightarrow> separable k \<and> \<not> prefix ''__'' (c # k @ ''_'')"
  by (auto simp: separable_def PORT_NAMESPACE_SEPARATOR_def sublist_Cons_right)

lemma str_partition_separable:
  "separable k \<Longrightarrow> str_partition PORT_NAMESPACE_SEPARATOR (k @ PORT_NAMESPACE_SEPARATOR @ r) =
      (k, PORT_NAMESPACE_SEPARATOR, r)"
proof (induction k)
  case (Cons c k)
  then show ?case
    using separable_Cons [OF Cons.prems] by (cases k) (auto simp: PORT_NAMESPACE_SEPARATOR_def)
qed (simp add: PORT_NAMESPACE_SEPARATOR_def)

lemma str_partition_separable_last:
  "separable k \<Longrightarrow> str_partition PORT_NAMESPACE_SEPARATOR k = (k, [], [])"
proof (induction k)
  case (Cons c k)
  then show ?case
    using separable_Cons [OF Cons.prems] by (cases k) (auto simp: PORT_NAMESPACE_SEPARATOR_def)
qed simp

lemma str_split_join_names:
  "ks \<noteq> [] \<Longrightarrow> \<forall>k \<in> set ks. separable k \<Longrightarrow>
   str_split PORT_NAMESPACE_SEPARATOR (str_join PORT_NAMESPACE_SEPARATOR ks) = ks"
proof (induction ks)
  case (Cons k ks)
  then show ?case
  proof (cases ks)
    case Nil
    then show ?thesis
      using Cons.prems str_partition_separable_last [of k] by (subst str_split.simps) simp
  next
    case (Cons k' ks')
    then have "str_split PORT_NAMESPACE_SEPARATOR (str_join PORT_NAMESPACE_SEPARATOR ks) = ks"
      using Cons.IH Cons.prems by simp
    then show ?thesis
      using Cons.prems Cons str_partition_separable [of k]
      by (subst str_split.simps) (simp add: str_join_Cons PORT_NAMESPACE_SEPARATOR_def)
  qed
qed simp

section \<open>Flattening and nesting are inverse\<close>

text \<open>The leaves of a nested mapping with the path of names that leads to each.\<close>

fun ns_paths :: "'n pvalue \<Rightarrow> (string list \<times> 'n) list"
  and ns_paths_items :: "(string \<times> 'n pvalue) list \<Rightarrow> (string list \<times> 'n) list" where
  "ns_paths (PNode n) = [([], n)]"
| "ns_paths (PMap items) = ns_paths_items items"
| "ns_paths PNone = []"
| "ns_paths POther = []"
| "ns_paths_items [] = []"
| "ns_paths_items ((k, v) # items) =
     map (\<lambda>(ks, n). (k # ks, n)) (ns_paths v) @ ns_paths_items items"

text \<open>
  Values that a process links: every name is a valid port name, names in a namespace are
  distinct, no namespace is empty, and every leaf is a node whose port is neither metadata nor
  \<open>non_db\<close>.
\<close>

fun namespace_or_none :: "port option \<Rightarrow> bool" where
  "namespace_or_none None = True"
| "namespace_or_none (Some (PortNamespace _)) = True"
| "namespace_or_none _ = False"

fun storable :: "port option \<Rightarrow> 'n pvalue \<Rightarrow> bool"
  and storable_items :: "port option \<Rightarrow> (string \<times> 'n pvalue) list \<Rightarrow> bool" where
  "storable port (PNode n) \<longleftrightarrow> port = None \<or> port = Some (InputPort False False)"
| "storable port (PMap items) \<longleftrightarrow>
     items \<noteq> [] \<and> namespace_or_none port \<and> storable_items port items"
| "storable port PNone \<longleftrightarrow> False"
| "storable port POther \<longleftrightarrow> False"
| "storable_items port [] \<longleftrightarrow> True"
| "storable_items port ((k, v) # items) \<longleftrightarrow>
     is_ok (validate_port_name k) \<and> k \<notin> fst ` set items \<and> storable (nested_port port k) v \<and>
     storable_items port items"

lemma ns_paths_not_Nil:
  fixes v :: "'n pvalue" and items :: "(string \<times> 'n pvalue) list"
  shows "storable port v \<Longrightarrow> ns_paths v \<noteq> []"
    and "storable_items port items \<Longrightarrow> items \<noteq> [] \<Longrightarrow> ns_paths_items items \<noteq> []"
  by (induction port v and port items rule: storable_storable_items.induct) auto

lemma ns_paths_separable:
  fixes v :: "'n pvalue" and items :: "(string \<times> 'n pvalue) list"
  shows "storable port v \<Longrightarrow> \<forall>(ks, n) \<in> set (ns_paths v). \<forall>k \<in> set ks. separable k"
    and "storable_items port items \<Longrightarrow>
      \<forall>(ks, n) \<in> set (ns_paths_items items). ks \<noteq> [] \<and> (\<forall>k \<in> set ks. separable k)"
proof (induction port v and port items rule: storable_storable_items.induct)
  case (6 port k v items)
  have "separable k"
    using 6 by (simp add: separable_if_valid)
  then show ?case
    using 6 by (fastforce simp: case_prod_unfold)
qed auto

subsection \<open>Flattening lists the paths\<close>

definition parent_path :: "string \<Rightarrow> string list" where
  "parent_path parent_name = (if parent_name = [] then [] else [parent_name])"

abbreviation label_of :: "string \<Rightarrow> string list \<Rightarrow> string" where
  "label_of parent_name ks \<equiv> str_join PORT_NAMESPACE_SEPARATOR (parent_path parent_name @ ks)"

lemma str_join_append_first:
  "str_join sep ((a @ sep @ b) # ks) = str_join sep (a # b # ks)"
  by (cases ks) simp_all

lemma prefixed_key_simps:
  "k \<noteq> [] \<Longrightarrow> prefixed_key parent_name k \<noteq> []"
  "k \<noteq> [] \<Longrightarrow> label_of (prefixed_key parent_name k) ks = label_of parent_name (k # ks)"
  by (auto simp: prefixed_key_def parent_path_def str_join_append_first)

lemma flatten_inputs_paths:
  fixes v :: "'n pvalue" and items :: "(string \<times> 'n pvalue) list"
  shows "storable port v \<Longrightarrow> parent_name \<noteq> [] \<or> is_mapping v \<Longrightarrow>
     flatten_inputs port v parent_name =
       Inr (map (\<lambda>(ks, n). (label_of parent_name ks, PNode n)) (ns_paths v))"
    and "storable_items port items \<Longrightarrow>
     flatten_inputs_items port items parent_name =
       Inr (map (\<lambda>(ks, n). (label_of parent_name ks, PNode n)) (ns_paths_items items))"
proof (induction port v and port items arbitrary: parent_name and parent_name
    rule: storable_storable_items.induct)
  case (1 port n)
  then show ?case by (auto simp: parent_path_def)
next
  case (2 port items)
  then show ?case by (cases port rule: namespace_or_none.cases) auto
next
  case (6 port k v items)
  then have "k \<noteq> []"
    by (auto simp: validate_port_name_iff validate_link_label_iff)
  then show ?case
    using 6 prefixed_key_simps [of k parent_name]
    by (auto simp: comp_def case_prod_unfold)
qed auto

subsection \<open>Inserting the paths rebuilds the mapping\<close>

fun insert_paths :: "'n pvalue dict \<Rightarrow> (string list \<times> 'n) list \<Rightarrow> 'n pvalue dict res" where
  "insert_paths d [] = Inr d"
| "insert_paths d ((ks, n) # ps) =
     bind_res (nested_insert (butlast ks) (last ks) n d) (\<lambda>d'. insert_paths d' ps)"

lemma nested_loop_paths:
  assumes "\<forall>(ks, n) \<in> set ps. ks \<noteq> [] \<and> (\<forall>k \<in> set ks. separable k)"
  shows "nested_loop d (map (\<lambda>(ks, n). LinkTriple n t (str_join PORT_NAMESPACE_SEPARATOR ks)) ps)
      = insert_paths d ps"
  using assms
proof (induction ps arbitrary: d)
  case (Cons p ps)
  then show ?case
    by (cases p) (auto simp: Let_def str_split_join_names intro!: arg_cong2 [where f = bind_res])
qed simp

lemma insert_paths_append:
  "insert_paths d (ps @ qs) = bind_res (insert_paths d ps) (\<lambda>d'. insert_paths d' qs)"
  by (induction ps arbitrary: d) (auto simp: bind_res_assoc)

lemma map_of_snoc_fresh: "k \<notin> fst ` set d \<Longrightarrow> map_of (d @ [(k, v)]) k = Some v"
proof -
  assume "k \<notin> fst ` set d"
  then have "map_of d k = None"
    by (simp add: map_of_eq_None_iff)
  then show ?thesis
    by (simp add: map_add_def)
qed

lemma AList_update_snoc: "k \<notin> fst ` set d \<Longrightarrow> AList.update k w (d @ [(k, v)]) = d @ [(k, w)]"
  by (induction d) auto

lemma insert_paths_below:
  assumes "k \<notin> fst ` set d" "\<forall>(ks, n) \<in> set ps. ks \<noteq> []"
  shows "insert_paths (d @ [(k, PMap e)]) (map (\<lambda>(ks, n). (k # ks, n)) ps) =
      bind_res (insert_paths e ps) (\<lambda>e'. Inr (d @ [(k, PMap e')]))"
  using assms(2)
proof (induction ps arbitrary: e)
  case (Cons p ps)
  obtain ks n where p: "p = (ks, n)" "ks \<noteq> []"
    using Cons.prems by (cases p) auto
  then show ?case
    using Cons.IH Cons.prems
    by (cases "nested_insert (butlast ks) (last ks) n e")
       (auto simp: map_of_snoc_fresh [OF assms(1)] AList_update_snoc [OF assms(1)]
         simp del: map_of_append)
qed simp

lemma insert_paths_fresh_namespace:
  assumes "k \<notin> fst ` set d" "\<forall>(ks, n) \<in> set ps. ks \<noteq> []" "ps \<noteq> []"
  shows "insert_paths d (map (\<lambda>(ks, n). (k # ks, n)) ps) =
      bind_res (insert_paths [] ps) (\<lambda>e. Inr (d @ [(k, PMap e)]))"
proof -
  obtain ks n qs where ps: "ps = (ks, n) # qs" "ks \<noteq> []"
    using assms(2,3) by (cases ps) auto
  have "map_of d k = None"
    using assms(1) by (simp add: map_of_eq_None_iff)
  then show ?thesis
    using ps assms insert_paths_below [OF assms(1), of qs]
    by (cases "nested_insert (butlast ks) (last ks) n []") (auto simp: AList_update_fresh)
qed

lemma insert_paths_rebuild:
  fixes v :: "'n pvalue" and items :: "(string \<times> 'n pvalue) list"
  shows "storable port v \<Longrightarrow> k \<notin> fst ` set d \<Longrightarrow>
     insert_paths d (map (\<lambda>(ks, n). (k # ks, n)) (ns_paths v)) = Inr (d @ [(k, v)])"
    and "storable_items port items \<Longrightarrow> fst ` set d \<inter> fst ` set items = {} \<Longrightarrow>
     insert_paths d (ns_paths_items items) = Inr (d @ items)"
proof (induction port v and port items arbitrary: k d and d
    rule: storable_storable_items.induct)
  case (1 port n)
  then show ?case by (simp add: AList_update_fresh)
next
  case (2 port items)
  then have "\<forall>(ks, n) \<in> set (ns_paths_items items). ks \<noteq> []" "ns_paths_items items \<noteq> []"
    using ns_paths_separable(2) ns_paths_not_Nil(2) by fastforce+
  then show ?case
    using 2 insert_paths_fresh_namespace [of k d "ns_paths_items items"] by simp
next
  case (6 port k v items)
  then show ?case
    by (auto simp: insert_paths_append)
qed auto

subsection \<open>The labels of distinct paths are distinct\<close>

lemma dict_of_pairs_distinct: "distinct (map fst ps) \<Longrightarrow> dict_of_pairs ps = ps"
proof -
  have "fold (\<lambda>(k, v) d. AList.update k v d) ps d = d @ ps"
    if "distinct (map fst (d @ ps))" for d
    using that
    by (induction ps arbitrary: d) (auto simp: AList_update_fresh)
  from this [of "[]"] show "distinct (map fst ps) \<Longrightarrow> dict_of_pairs ps = ps"
    by (simp add: dict_of_pairs_def)
qed

lemma ns_paths_items_hd: "(ks, n) \<in> set (ns_paths_items items) \<Longrightarrow> hd ks \<in> fst ` set items"
  by (induction items) auto

lemma ns_paths_distinct:
  fixes v :: "'n pvalue" and items :: "(string \<times> 'n pvalue) list"
  shows "storable port v \<Longrightarrow> distinct (map fst (ns_paths v))"
    and "storable_items port items \<Longrightarrow> distinct (map fst (ns_paths_items items))"
proof (induction port v and port items rule: storable_storable_items.induct)
  case (6 port k v items)
  have "map fst (map (\<lambda>(ks, n). (k # ks, n)) (ns_paths v)) = map ((#) k) (map fst (ns_paths v))"
    by auto
  moreover have "distinct (map ((#) k) (map fst (ns_paths v)))"
    using 6 by (subst distinct_map) simp
  moreover have "k # ks \<notin> fst ` set (ns_paths_items items)" for ks
    using 6 ns_paths_items_hd [of "k # ks" _ items] by auto
  ultimately show ?case
    using 6 by (simp only: ns_paths_items.simps map_append distinct_append) auto
qed auto

lemma label_of_inj:
  assumes "ks \<noteq> []" "ks' \<noteq> []" "\<forall>k \<in> set ks. separable k" "\<forall>k \<in> set ks'. separable k"
    and "str_join PORT_NAMESPACE_SEPARATOR ks = str_join PORT_NAMESPACE_SEPARATOR ks'"
  shows "ks = ks'"
  using assms str_split_join_names by metis

lemma flat_labels_distinct:
  assumes "storable_items port items"
  shows "distinct (map fst (map (\<lambda>(ks, n). (label_of [] ks, PNode n)) (ns_paths_items items)))"
proof -
  have "inj_on (str_join PORT_NAMESPACE_SEPARATOR) (fst ` set (ns_paths_items items))"
    using ns_paths_separable(2) [OF assms] by (intro inj_onI label_of_inj) auto
  then have "distinct (map (str_join PORT_NAMESPACE_SEPARATOR) (map fst (ns_paths_items items)))"
    using ns_paths_distinct(2) [OF assms] by (subst distinct_map) simp
  then show ?thesis
    by (simp add: comp_def case_prod_unfold parent_path_def)
qed

lemma setup_inputs_nodes:
  "setup_inputs is_calculation (map (\<lambda>(ks, n). (f ks, PNode n)) ps) =
     Inr (map (\<lambda>(ks, n). LinkTriple n (if is_calculation then INPUT_CALC else INPUT_WORK) (f ks)) ps)"
  by (induction ps) auto

lemma lm_find_by_label_eq:
  "lm_find_by_label label m link_triples =
     (case filter (\<lambda>entry. lt_label entry = label) link_triples of
        [] \<Rightarrow> Inr m
      | [entry] \<Rightarrow> if m = None then Inr (Some (lt_node entry)) else Inl MultipleObjectsError
      | _ \<Rightarrow> Inl MultipleObjectsError)"
  by (induction link_triples arbitrary: m) (auto split: option.splits list.splits)

section \<open>Properties\<close>

text \<open>C15: When a process flattens a namespace of inputs (whose names passed the port name
  validation, whose leaves are nodes and which has no empty sub-namespace) and adds one input link
  per flattened label, \<open>LinkManager.nested\<close> on those links gives back exactly the inputs less the
  \<open>metadata\<close> entry: the same nesting, the same nodes, in the same order.\<close>

theorem nested_setup_inputs:
  assumes "namespace = filter (\<lambda>(key, value). key \<noteq> metadata_key) inputs"
    and "storable_items (Some (PortNamespace ports)) namespace"
  shows "bind_res (flat_inputs metadata_key (PortNamespace ports) inputs) (\<lambda>flat.
           bind_res (setup_inputs is_calculation flat) (lm_nested False)) = Inr namespace"
proof -
  let ?paths = "ns_paths_items namespace"
  let ?flat = "map (\<lambda>(ks, n). (label_of [] ks, PNode n)) ?paths"
  have "flat_inputs metadata_key (PortNamespace ports) inputs = Inr ?flat"
    using flatten_inputs_paths(2) [OF assms(2), of "[]"]
      dict_of_pairs_distinct [OF flat_labels_distinct [OF assms(2)]]
    by (simp add: flat_inputs_def assms(1))
  moreover have "nested_loop [] (map (\<lambda>(ks, n). LinkTriple n t (label_of [] ks)) ?paths) =
      Inr namespace" for t
    using nested_loop_paths [OF ns_paths_separable(2) [OF assms(2)]]
      insert_paths_rebuild(2) [OF assms(2), of "[]"]
    by (simp add: parent_path_def)
  ultimately show ?thesis
    by (simp add: setup_inputs_nodes lm_nested_def)
qed

theorem nested_setup_inputs_witness:
  "bind_res
     (flat_inputs ''metadata''
        (PortNamespace [(''x'', InputPort False False), (''pw'', PortNamespace []),
                        (''metadata'', PortNamespace [])])
        [(''pw'', PMap [(''s'', PNode (1 :: nat)), (''k_p'', PNode 2)]), (''metadata'', PMap []),
         (''x'', PNode 1)])
     (\<lambda>flat. bind_res (setup_inputs True flat) (lm_nested False)) =
   Inr [(''pw'', PMap [(''s'', PNode 1), (''k_p'', PNode 2)]), (''x'', PNode 1)]"
  by (subst nested_setup_inputs [OF refl])
     (simp_all add: nested_port_def validate_port_name_iff validate_link_label_iff is_digit_def
       allowed_character_def is_letter_def python_keywords_def sublist_Cons_right less_eq_char_def)

text \<open>\<open>get_node_by_label\<close> returns a node exactly when one and only one link triple has the
  label, raises \<open>NotExistent\<close> when none has it and \<open>MultipleObjectsError\<close> when several do.\<close>

theorem get_node_by_label_exact:
  "lm_get_node_by_label link_triples label =
     (case filter (\<lambda>entry. lt_label entry = label) link_triples of
        [] \<Rightarrow> Inl NotExistent
      | [entry] \<Rightarrow> Inr (lt_node entry)
      | _ \<Rightarrow> Inl MultipleObjectsError)"
  by (simp add: lm_get_node_by_label_def lm_find_by_label_eq split: list.split)

text \<open>Link labels are non-empty ASCII identifiers that neither start nor end with an underscore
  and are not Python keywords; a port name is in addition free of the namespace separator, so that
  the labels of a flattened namespace can be taken apart again.\<close>

theorem validate_port_name_exact:
  "is_ok (validate_port_name k) \<longleftrightarrow>
     k \<noteq> [] \<and> \<not> is_digit (hd k) \<and> hd k \<noteq> CHR ''_'' \<and> last k \<noteq> CHR ''_'' \<and>
     list_all allowed_character k \<and> k \<notin> set python_keywords \<and>
     \<not> sublist PORT_NAMESPACE_SEPARATOR k"
  by (auto simp: validate_port_name_iff validate_link_label_iff PORT_NAMESPACE_SEPARATOR_def)

end
