(* ===== verification/Aiida_Graph_Explorer.thy ===== *)
theory Aiida_Graph_Explorer
  imports Aiida_Links "HOL-Library.While_Combinator"
begin

text \<open>
  The AiiDA graph explorer: the set containers and baskets of \<open>tools/graph/age_entities.py\<close> and
  the rules of \<open>tools/graph/age_rules.py\<close>.

  A container is its defining attributes (the class, or pair of classes, it holds) and its key
  set.  Every operation returns a value where Python mutates: each in-place operation of a
  container assigns a freshly built set to \<open>keyset\<close>, so no two containers ever share one, and
  passing the basket on is what the code's object identity amounts to.  Python sets are finite;
  \<open>wf_basket\<close> says so.  A query is modelled by the rows it yields: the identifier at its first
  tag, the one at its last tag, and the columns of the edge before the last tag.

  The loops are \<^const>\<open>while_option\<close>: the value \<open>None\<close> is a run that does not end.  The
  main result is \<open>frontier_loop.loop_result\<close>, which both \<open>UpdateRule\<close> and
  \<open>RuleSequence\<close> instantiate: the loop ends, having collected exactly what can be reached in the
  number of steps allowed.
\<close>

section \<open>Set containers\<close>

datatype aiida_cls = NodeCls | GroupCls | OtherCls

definition VALID_ENTITY_CLASSES :: "aiida_cls list" where
  "VALID_ENTITY_CLASSES = [NodeCls, GroupCls]"

datatype edge =
    LinkQuadruple (source_id: int) (target_id: int) (edge_type: link_type) (edge_label: string)
  | GroupNodeEdge (node_id: int) (group_id: int)

record ('t, 'k) set_container =
  template :: 't
  keyset :: "'k set"

type_synonym entity_set = "(aiida_cls, int) set_container"
type_synonym edge_set = "(aiida_cls \<times> aiida_cls, edge) set_container"

text \<open>\<open>_check_self_and_other\<close>: the identifier and its type are constants of the class, so only the
  classes can differ.\<close>

definition check_self_and_other ::
  "('t, 'k) set_container \<Rightarrow> ('t, 'k) set_container \<Rightarrow> unit res" where
  "check_self_and_other self other = guard (template self = template other) TypeError"

definition container_get_template :: "('t, 'k) set_container \<Rightarrow> ('t, 'k) set_container" where
  "container_get_template self = \<lparr>template = template self, keyset = {}\<rparr>"

definition container_add ::
  "('t, 'k) set_container \<Rightarrow> ('t, 'k) set_container \<Rightarrow> ('t, 'k) set_container res" where
  "container_add self other =
     bind_res (check_self_and_other self other) (\<lambda>_.
       Inr ((container_get_template self)\<lparr>keyset := keyset self \<union> keyset other\<rparr>))"

definition container_iadd ::
  "('t, 'k) set_container \<Rightarrow> ('t, 'k) set_container \<Rightarrow> ('t, 'k) set_container res" where
  "container_iadd self other =
     bind_res (check_self_and_other self other) (\<lambda>_.
       Inr (self\<lparr>keyset := keyset self \<union> keyset other\<rparr>))"

definition container_sub ::
  "('t, 'k) set_container \<Rightarrow> ('t, 'k) set_container \<Rightarrow> ('t, 'k) set_container res" where
  "container_sub self other =
     bind_res (check_self_and_other self other) (\<lambda>_.
       Inr ((container_get_template self)\<lparr>keyset := keyset self - keyset other\<rparr>))"

definition container_isub ::
  "('t, 'k) set_container \<Rightarrow> ('t, 'k) set_container \<Rightarrow> ('t, 'k) set_container res" where
  "container_isub self other =
     bind_res (check_self_and_other self other) (\<lambda>_.
       Inr (self\<lparr>keyset := keyset self - keyset other\<rparr>))"

definition container_len :: "('t, 'k) set_container \<Rightarrow> nat" where
  "container_len self = card (keyset self)"

definition container_eq :: "('t, 'k) set_container \<Rightarrow> ('t, 'k) set_container \<Rightarrow> bool" where
  "container_eq self other \<longleftrightarrow> keyset self = keyset other"

definition container_copy :: "('t, 'k) set_container \<Rightarrow> ('t, 'k) set_container" where
  "container_copy self = (container_get_template self)\<lparr>keyset := keyset self\<rparr>"

definition container_empty :: "('t, 'k) set_container \<Rightarrow> ('t, 'k) set_container" where
  "container_empty self = self\<lparr>keyset := {}\<rparr>"

text \<open>What callers pass as entities: an ORM instance, an integer, a tuple, or anything else.\<close>

datatype set_input = Instance aiida_cls int | IntKey int | EdgeTuple edge | OtherInput

fun map_res :: "('a \<Rightarrow> 'b res) \<Rightarrow> 'a list \<Rightarrow> 'b list res" where
  "map_res f [] = Inr []"
| "map_res f (x # xs) =
     bind_res (f x) (\<lambda>y. bind_res (map_res f xs) (\<lambda>ys. Inr (y # ys)))"

definition set_entities ::
  "('t \<Rightarrow> set_input \<Rightarrow> 'k res) \<Rightarrow> ('t, 'k) set_container \<Rightarrow> set_input list
     \<Rightarrow> ('t, 'k) set_container res" where
  "set_entities check_input_for_set self new_entities =
     bind_res (map_res (check_input_for_set (template self)) new_entities) (\<lambda>ks.
       Inr (self\<lparr>keyset := set ks\<rparr>))"

definition add_entities ::
  "('t \<Rightarrow> set_input \<Rightarrow> 'k res) \<Rightarrow> ('t, 'k) set_container \<Rightarrow> set_input list
     \<Rightarrow> ('t, 'k) set_container res" where
  "add_entities check_input_for_set self new_entities =
     bind_res (map_res (check_input_for_set (template self)) new_entities) (\<lambda>ks.
       Inr (self\<lparr>keyset := keyset self \<union> set ks\<rparr>))"

subsection \<open>\<open>AiidaEntitySet\<close> and \<open>DirectedEdgeSet\<close>\<close>

definition AiidaEntitySet :: "aiida_cls \<Rightarrow> entity_set res" where
  "AiidaEntitySet aiida_cls =
     bind_res (guard (aiida_cls \<in> set VALID_ENTITY_CLASSES) TypeError) (\<lambda>_.
       Inr \<lparr>template = aiida_cls, keyset = {}\<rparr>)"

fun entity_check_input :: "aiida_cls \<Rightarrow> set_input \<Rightarrow> int res" where
  "entity_check_input aiida_cls (Instance cls pk) =
     (if cls = aiida_cls then Inr pk else Inl ValueError)"
| "entity_check_input aiida_cls (IntKey pk) = Inr pk"
| "entity_check_input aiida_cls _ = Inl ValueError"

text \<open>The number of edge identifiers: four columns of a link, two of a group membership.\<close>

fun edge_identifiers_len :: "aiida_cls \<times> aiida_cls \<Rightarrow> nat" where
  "edge_identifiers_len (aiida_cls_to, aiida_cls_from) = (if aiida_cls_to = GroupCls then 2 else 4)"

fun tuple_len :: "edge \<Rightarrow> nat" where
  "tuple_len (LinkQuadruple _ _ _ _) = 4"
| "tuple_len (GroupNodeEdge _ _) = 2"

definition DirectedEdgeSet :: "aiida_cls \<Rightarrow> aiida_cls \<Rightarrow> edge_set res" where
  "DirectedEdgeSet aiida_cls_to aiida_cls_from =
     bind_res (guard (aiida_cls_to \<in> set VALID_ENTITY_CLASSES) TypeError) (\<lambda>_.
     bind_res (guard (aiida_cls_from \<in> set VALID_ENTITY_CLASSES) TypeError) (\<lambda>_.
     bind_res (guard (aiida_cls_from = NodeCls) TypeError) (\<lambda>_.
       Inr \<lparr>template = (aiida_cls_to, aiida_cls_from), keyset = {}\<rparr>)))"

fun edge_check_input :: "aiida_cls \<times> aiida_cls \<Rightarrow> set_input \<Rightarrow> edge res" where
  "edge_check_input classes (EdgeTuple e) =
     (if tuple_len e \<noteq> edge_identifiers_len classes then Inl ValueError else Inr e)"
| "edge_check_input classes _ = Inl TypeError"

subsection \<open>The contract of a container's \<open>_check_input_for_set\<close>\<close>

locale checked_container =
  fixes check_input :: "'t \<Rightarrow> set_input \<Rightarrow> 'k res"
    and as_input :: "'k \<Rightarrow> set_input"
    and fits :: "'t \<Rightarrow> 'k \<Rightarrow> bool"
  assumes check_as_input: "fits t k \<Longrightarrow> check_input t (as_input k) = Inr k"
    and check_fits: "check_input t i = Inr k \<Longrightarrow> fits t k"
begin

lemma map_check_as_input:
  "\<forall>k \<in> set ks. fits t k \<Longrightarrow> map_res (check_input t) (map as_input ks) = Inr ks"
  by (induction ks) (auto simp: check_as_input)

lemma add_keys:
  assumes "\<forall>k \<in> set ks. fits (template c) k"
  shows "add_entities check_input c (map as_input ks) = Inr (c\<lparr>keyset := keyset c \<union> set ks\<rparr>)"
  using map_check_as_input [OF assms] by (simp add: add_entities_def)

lemma set_keys:
  assumes "\<forall>k \<in> set ks. fits (template c) k"
  shows "set_entities check_input c (map as_input ks) = Inr (c\<lparr>keyset := set ks\<rparr>)"
  using map_check_as_input [OF assms] by (simp add: set_entities_def)

lemma map_check_fits: "map_res (check_input t) is = Inr ks \<Longrightarrow> \<forall>k \<in> set ks. fits t k"
  by (induction "is" arbitrary: ks) (auto simp: bind_res_Inr_iff check_fits)

lemma add_entities_fits:
  assumes "add_entities check_input c is = Inr c'" "\<forall>k \<in> keyset c. fits (template c) k"
  shows "template c' = template c \<and> (\<forall>k \<in> keyset c'. fits (template c') k)"
  using assms map_check_fits by (fastforce simp: add_entities_def bind_res_Inr_iff)

end

definition edge_fits :: "aiida_cls \<times> aiida_cls \<Rightarrow> edge \<Rightarrow> bool" where
  "edge_fits classes e \<longleftrightarrow> tuple_len e = edge_identifiers_len classes"

interpretation entities: checked_container entity_check_input IntKey "\<lambda>_ _. True"
  by unfold_locales auto

interpretation edges: checked_container edge_check_input EdgeTuple edge_fits
proof
  show "edge_fits t k \<Longrightarrow> edge_check_input t (EdgeTuple k) = Inr k" for t k
    by (simp add: edge_fits_def)
  show "edge_check_input t i = Inr k \<Longrightarrow> edge_fits t k" for t i k
    by (cases i) (auto simp: edge_fits_def split: if_splits)
qed

section \<open>Baskets\<close>

record basket =
  b_nodes :: entity_set
  b_groups :: entity_set
  b_nodes_nodes :: edge_set
  b_groups_nodes :: edge_set

text \<open>The arguments of \<open>Basket.__init__\<close>: nothing, a list, tuple or set, a container, or other.\<close>

datatype ('t, 'k) basket_arg =
  ArgNone | ArgIterable "set_input list" | ArgContainer "('t, 'k) set_container" | ArgOther

fun get_check_set_entity_set :: "(aiida_cls, int) basket_arg \<Rightarrow> aiida_cls \<Rightarrow> entity_set res" where
  "get_check_set_entity_set ArgNone aiida_class = AiidaEntitySet aiida_class"
| "get_check_set_entity_set (ArgIterable xs) aiida_class =
     bind_res (AiidaEntitySet aiida_class) (\<lambda>output_set.
       set_entities entity_check_input output_set xs)"
| "get_check_set_entity_set (ArgContainer c) aiida_class =
     (if template c = aiida_class then Inr c else Inl TypeError)"
| "get_check_set_entity_set ArgOther aiida_class = Inl ValueError"

fun get_check_set_directed_edge_set ::
  "(aiida_cls \<times> aiida_cls, edge) basket_arg \<Rightarrow> aiida_cls \<Rightarrow> aiida_cls \<Rightarrow> edge_set res" where
  "get_check_set_directed_edge_set ArgNone cls_from cls_to = DirectedEdgeSet cls_to cls_from"
| "get_check_set_directed_edge_set (ArgContainer c) cls_from cls_to =
     (if snd (template c) \<noteq> cls_from then Inl TypeError
      else if fst (template c) \<noteq> cls_to then Inl TypeError
      else Inr c)"
| "get_check_set_directed_edge_set _ cls_from cls_to = Inl TypeError"

definition Basket ::
  "(aiida_cls, int) basket_arg \<Rightarrow> (aiida_cls, int) basket_arg \<Rightarrow>
   (aiida_cls \<times> aiida_cls, edge) basket_arg \<Rightarrow> (aiida_cls \<times> aiida_cls, edge) basket_arg \<Rightarrow> basket res"
where
  "Basket nodes groups nodes_nodes groups_nodes =
     bind_res (get_check_set_entity_set nodes NodeCls) (\<lambda>n.
     bind_res (get_check_set_entity_set groups GroupCls) (\<lambda>g.
     bind_res (get_check_set_directed_edge_set nodes_nodes NodeCls NodeCls) (\<lambda>nn.
     bind_res (get_check_set_directed_edge_set groups_nodes NodeCls GroupCls) (\<lambda>gn.
       Inr \<lparr>b_nodes = n, b_groups = g, b_nodes_nodes = nn, b_groups_nodes = gn\<rparr>))))"

text \<open>The operators apply the operator of the containers key by key; \<open>+\<close> and \<open>-\<close> build a new
  basket from the results, \<open>+=\<close> and \<open>-=\<close> assign them in place.\<close>

definition basket_add :: "basket \<Rightarrow> basket \<Rightarrow> basket res" where
  "basket_add self other =
     bind_res (container_add (b_nodes self) (b_nodes other)) (\<lambda>n.
     bind_res (container_add (b_groups self) (b_groups other)) (\<lambda>g.
     bind_res (container_add (b_nodes_nodes self) (b_nodes_nodes other)) (\<lambda>nn.
     bind_res (container_add (b_groups_nodes self) (b_groups_nodes other)) (\<lambda>gn.
       Basket (ArgContainer n) (ArgContainer g) (ArgContainer nn) (ArgContainer gn)))))"

definition basket_iadd :: "basket \<Rightarrow> basket \<Rightarrow> basket res" where
  "basket_iadd self other =
     bind_res (container_iadd (b_nodes self) (b_nodes other)) (\<lambda>n.
     bind_res (container_iadd (b_groups self) (b_groups other)) (\<lambda>g.
     bind_res (container_iadd (b_nodes_nodes self) (b_nodes_nodes other)) (\<lambda>nn.
     bind_res (container_iadd (b_groups_nodes self) (b_groups_nodes other)) (\<lambda>gn.
       Inr \<lparr>b_nodes = n, b_groups = g, b_nodes_nodes = nn, b_groups_nodes = gn\<rparr>))))"

definition basket_sub :: "basket \<Rightarrow> basket \<Rightarrow> basket res" where
  "basket_sub self other =
     bind_res (container_sub (b_nodes self) (b_nodes other)) (\<lambda>n.
     bind_res (container_sub (b_groups self) (b_groups other)) (\<lambda>g.
     bind_res (container_sub (b_nodes_nodes self) (b_nodes_nodes other)) (\<lambda>nn.
     bind_res (container_sub (b_groups_nodes self) (b_groups_nodes other)) (\<lambda>gn.
       Basket (ArgContainer n) (ArgContainer g) (ArgContainer nn) (ArgContainer gn)))))"

definition basket_isub :: "basket \<Rightarrow> basket \<Rightarrow> basket res" where
  "basket_isub self other =
     bind_res (container_isub (b_nodes self) (b_nodes other)) (\<lambda>n.
     bind_res (container_isub (b_groups self) (b_groups other)) (\<lambda>g.
     bind_res (container_isub (b_nodes_nodes self) (b_nodes_nodes other)) (\<lambda>nn.
     bind_res (container_isub (b_groups_nodes self) (b_groups_nodes other)) (\<lambda>gn.
       Inr \<lparr>b_nodes = n, b_groups = g, b_nodes_nodes = nn, b_groups_nodes = gn\<rparr>))))"

definition basket_len :: "basket \<Rightarrow> nat" where
  "basket_len self =
     container_len (b_groups self) + container_len (b_groups_nodes self) +
     container_len (b_nodes self) + container_len (b_nodes_nodes self)"

definition basket_eq :: "basket \<Rightarrow> basket \<Rightarrow> bool" where
  "basket_eq self other \<longleftrightarrow>
     container_eq (b_nodes self) (b_nodes other) \<and>
     container_eq (b_groups self) (b_groups other) \<and>
     container_eq (b_nodes_nodes self) (b_nodes_nodes other) \<and>
     container_eq (b_groups_nodes self) (b_groups_nodes other)"

definition basket_empty :: "basket \<Rightarrow> basket" where
  "basket_empty self =
     \<lparr>b_nodes = container_empty (b_nodes self), b_groups = container_empty (b_groups self),
      b_nodes_nodes = container_empty (b_nodes_nodes self),
      b_groups_nodes = container_empty (b_groups_nodes self)\<rparr>"

definition basket_get_template :: "basket \<Rightarrow> basket res" where
  "basket_get_template self =
     Basket (ArgContainer (container_get_template (b_nodes self)))
       (ArgContainer (container_get_template (b_groups self)))
       (ArgContainer (container_get_template (b_nodes_nodes self)))
       (ArgContainer (container_get_template (b_groups_nodes self)))"

definition basket_copy :: "basket \<Rightarrow> basket res" where
  "basket_copy self =
     Basket (ArgContainer (container_copy (b_nodes self)))
       (ArgContainer (container_copy (b_groups self)))
       (ArgContainer (container_copy (b_nodes_nodes self)))
       (ArgContainer (container_copy (b_groups_nodes self)))"

subsection \<open>Baskets in normal form\<close>

definition mk_basket :: "int set \<Rightarrow> int set \<Rightarrow> edge set \<Rightarrow> edge set \<Rightarrow> basket" where
  "mk_basket n g nn gn =
     \<lparr>b_nodes = \<lparr>template = NodeCls, keyset = n\<rparr>, b_groups = \<lparr>template = GroupCls, keyset = g\<rparr>,
      b_nodes_nodes = \<lparr>template = (NodeCls, NodeCls), keyset = nn\<rparr>,
      b_groups_nodes = \<lparr>template = (GroupCls, NodeCls), keyset = gn\<rparr>\<rparr>"

text \<open>A well-formed basket: the four containers hold the classes \<open>Basket.__init__\<close> requires, every
  edge has the columns of its container, and the sets are finite.\<close>

definition wf_basket :: "basket \<Rightarrow> bool" where
  "wf_basket b \<longleftrightarrow>
     template (b_nodes b) = NodeCls \<and> template (b_groups b) = GroupCls \<and>
     template (b_nodes_nodes b) = (NodeCls, NodeCls) \<and>
     template (b_groups_nodes b) = (GroupCls, NodeCls) \<and>
     finite (keyset (b_nodes b)) \<and> finite (keyset (b_groups b)) \<and>
     finite (keyset (b_nodes_nodes b)) \<and> finite (keyset (b_groups_nodes b)) \<and>
     (\<forall>e \<in> keyset (b_nodes_nodes b). tuple_len e = 4) \<and>
     (\<forall>e \<in> keyset (b_groups_nodes b). tuple_len e = 2)"

lemma mk_basket_sel [simp]:
  "b_nodes (mk_basket n g nn gn) = \<lparr>template = NodeCls, keyset = n\<rparr>"
  "b_groups (mk_basket n g nn gn) = \<lparr>template = GroupCls, keyset = g\<rparr>"
  "b_nodes_nodes (mk_basket n g nn gn) = \<lparr>template = (NodeCls, NodeCls), keyset = nn\<rparr>"
  "b_groups_nodes (mk_basket n g nn gn) = \<lparr>template = (GroupCls, NodeCls), keyset = gn\<rparr>"
  by (simp_all add: mk_basket_def)

lemma mk_basket_inject [simp]:
  "mk_basket n g nn gn = mk_basket n' g' nn' gn' \<longleftrightarrow> n = n' \<and> g = g' \<and> nn = nn' \<and> gn = gn'"
  by (auto simp: mk_basket_def)

lemma wf_mk_basket [simp]:
  "wf_basket (mk_basket n g nn gn) \<longleftrightarrow>
     finite n \<and> finite g \<and> finite nn \<and> finite gn \<and>
     (\<forall>e \<in> nn. tuple_len e = 4) \<and> (\<forall>e \<in> gn. tuple_len e = 2)"
  by (simp add: wf_basket_def)

lemma wf_basketE:
  assumes "wf_basket b"
  obtains n g nn gn where "b = mk_basket n g nn gn"
proof
  show "b = mk_basket (keyset (b_nodes b)) (keyset (b_groups b)) (keyset (b_nodes_nodes b))
      (keyset (b_groups_nodes b))"
    using assms by (simp add: wf_basket_def mk_basket_def)
qed

lemmas container_defs = check_self_and_other_def container_add_def container_iadd_def
  container_sub_def container_isub_def container_get_template_def container_copy_def
  container_empty_def

lemma mk_basket_ops [simp]:
  "basket_add (mk_basket n g nn gn) (mk_basket n' g' nn' gn') =
     Inr (mk_basket (n \<union> n') (g \<union> g') (nn \<union> nn') (gn \<union> gn'))"
  "basket_iadd (mk_basket n g nn gn) (mk_basket n' g' nn' gn') =
     Inr (mk_basket (n \<union> n') (g \<union> g') (nn \<union> nn') (gn \<union> gn'))"
  "basket_sub (mk_basket n g nn gn) (mk_basket n' g' nn' gn') =
     Inr (mk_basket (n - n') (g - g') (nn - nn') (gn - gn'))"
  "basket_isub (mk_basket n g nn gn) (mk_basket n' g' nn' gn') =
     Inr (mk_basket (n - n') (g - g') (nn - nn') (gn - gn'))"
  "basket_empty (mk_basket n g nn gn) = mk_basket {} {} {} {}"
  "basket_get_template (mk_basket n g nn gn) = Inr (mk_basket {} {} {} {})"
  "basket_copy (mk_basket n g nn gn) = Inr (mk_basket n g nn gn)"
  by (simp_all add: basket_add_def basket_iadd_def basket_sub_def basket_isub_def basket_empty_def
      basket_get_template_def basket_copy_def container_defs Basket_def
      mk_basket_def)

lemma basket_len_mk_basket:
  "wf_basket (mk_basket n g nn gn) \<Longrightarrow>
     basket_len (mk_basket n g nn gn) = 0 \<longleftrightarrow> n = {} \<and> g = {} \<and> nn = {} \<and> gn = {}"
  by (auto simp: basket_len_def container_len_def)

section \<open>Queries\<close>

datatype entity_key = Nodes | Groups

text \<open>A query and the result rows it yields against the database when no filter on the first tag is
  set.\<close>

record row =
  row_first :: int
  row_last :: int
  row_edge :: "int \<times> int \<times> link_type \<times> string"

record querybuilder =
  qb_path :: "string list"
  qb_project :: "string list dict"
  qb_rows :: "row list"

record query =
  entity_from :: entity_key
  entity_to :: entity_key
  q_rows :: "row list"

definition get_spec_from_path :: "string \<Rightarrow> entity_key res" where
  "get_spec_from_path entity_type =
     (if str_startswith entity_type ''node'' \<or> str_startswith entity_type ''data'' \<or>
         str_startswith entity_type ''process'' \<or> entity_type = []
      then Inr Nodes
      else if str_startswith entity_type ''group.'' then Inr Groups
      else Inl RuntimeError)"

text \<open>\<open>QueryRule.__init__\<close>: projections are refused, the first and the last entity of the path
  decide which sets the rule reads and writes.  An empty path raises on \<open>path[0]\<close>.\<close>

definition QueryRule :: "querybuilder \<Rightarrow> query res" where
  "QueryRule qb =
     (if list_ex (\<lambda>(key, projection). projection \<noteq> []) (qb_project qb) then Inl ValueError
      else if qb_path qb = [] then Inl IndexError
      else bind_res (get_spec_from_path (hd (qb_path qb))) (\<lambda>f.
           bind_res (get_spec_from_path (last (qb_path qb))) (\<lambda>t.
             Inr \<lparr>entity_from = f, entity_to = t, q_rows = qb_rows qb\<rparr>)))"

definition entity_container :: "entity_key \<Rightarrow> basket \<Rightarrow> entity_set" where
  "entity_container key b = (case key of Nodes \<Rightarrow> b_nodes b | Groups \<Rightarrow> b_groups b)"

definition set_entity_container :: "entity_key \<Rightarrow> entity_set \<Rightarrow> basket \<Rightarrow> basket" where
  "set_entity_container key c b =
     (case key of Nodes \<Rightarrow> b\<lparr>b_nodes := c\<rparr> | Groups \<Rightarrow> b\<lparr>b_groups := c\<rparr>)"

text \<open>The key of the edge set is the two entity names sorted and joined; there is no edge set
  between groups.\<close>

definition edge_container :: "query \<Rightarrow> basket \<Rightarrow> edge_set res" where
  "edge_container q b =
     (case (entity_from q, entity_to q) of
        (Nodes, Nodes) \<Rightarrow> Inr (b_nodes_nodes b)
      | (Groups, Groups) \<Rightarrow> Inl KeyError
      | _ \<Rightarrow> Inr (b_groups_nodes b))"

definition set_edge_container :: "query \<Rightarrow> edge_set \<Rightarrow> basket \<Rightarrow> basket" where
  "set_edge_container q c b =
     (case (entity_from q, entity_to q) of
        (Nodes, Nodes) \<Rightarrow> b\<lparr>b_nodes_nodes := c\<rparr>
      | _ \<Rightarrow> b\<lparr>b_groups_nodes := c\<rparr>)"

text \<open>The edge of a row, its columns in the order of the edge identifiers: those of the link, or
  node and group whichever way the query runs.\<close>

definition edge_of_row :: "query \<Rightarrow> row \<Rightarrow> edge" where
  "edge_of_row q r =
     (case (entity_from q, entity_to q) of
        (Nodes, Nodes) \<Rightarrow> (case row_edge r of (i, out, t, l) \<Rightarrow> LinkQuadruple i out t l)
      | (Nodes, _) \<Rightarrow> GroupNodeEdge (row_first r) (row_last r)
      | _ \<Rightarrow> GroupNodeEdge (row_last r) (row_first r))"

text \<open>\<open>_init_run\<close>: the accumulator starts as a copy of the operational set (an accumulator left
  from an earlier run is emptied and refilled, which is the same value).\<close>

definition init_run :: "query \<Rightarrow> bool \<Rightarrow> basket \<Rightarrow> basket res" where
  "init_run q track_edges operational_set =
     bind_res (basket_copy operational_set) (\<lambda>accumulator_set.
       if track_edges
       then bind_res (edge_container q operational_set) (\<lambda>_. Inr accumulator_set)
       else Inr accumulator_set)"

definition load_results :: "query \<Rightarrow> bool \<Rightarrow> basket \<Rightarrow> basket \<Rightarrow> basket res" where
  "load_results q track_edges target_set operational_set =
     (let primkeys = keyset (entity_container (entity_from q) operational_set);
          target_set = basket_empty target_set in
      if primkeys = {} then Inr target_set
      else
        let qres = filter (\<lambda>r. row_first r \<in> primkeys) (q_rows q) in
        bind_res
          (add_entities entity_check_input (entity_container (entity_to q) target_set)
             (map (\<lambda>item. IntKey (row_last item)) qres)) (\<lambda>c.
        let target_set = set_entity_container (entity_to q) c target_set in
        if track_edges
        then bind_res (edge_container q target_set) (\<lambda>edge_set.
             bind_res
               (add_entities edge_check_input edge_set
                  (map (\<lambda>item. EdgeTuple (edge_of_row q item)) qres)) (\<lambda>e.
             Inr (set_edge_container q e target_set)))
        else Inr target_set))"

section \<open>Rules\<close>

text \<open>\<open>None\<close> stands for the unbounded number of iterations (\<open>np.inf\<close>).\<close>

type_synonym iterations = "int option"

definition below :: "int \<Rightarrow> iterations \<Rightarrow> bool" where
  "below iterations_done max_iterations =
     (case max_iterations of None \<Rightarrow> True | Some m \<Rightarrow> iterations_done < m)"

subsection \<open>\<open>UpdateRule\<close> and \<open>ReplaceRule\<close>\<close>

type_synonym update_state = "int \<times> basket \<times> basket \<times> basket"

definition update_cond :: "iterations \<Rightarrow> update_state res \<Rightarrow> bool" where
  "update_cond max_iterations s =
     (case s of Inl _ \<Rightarrow> False
      | Inr (iterations_done, operational_set, new_results, accumulator_set) \<Rightarrow>
          basket_len operational_set \<noteq> 0 \<and> below iterations_done max_iterations)"

definition update_body :: "query \<Rightarrow> bool \<Rightarrow> update_state res \<Rightarrow> update_state res" where
  "update_body q track_edges s =
     bind_res s (\<lambda>(iterations_done, operational_set, new_results, accumulator_set).
     bind_res (load_results q track_edges new_results operational_set) (\<lambda>new_results.
     bind_res (basket_sub new_results accumulator_set) (\<lambda>operational_set.
     bind_res (basket_iadd accumulator_set new_results) (\<lambda>accumulator_set.
       Inr (iterations_done + 1, operational_set, new_results, accumulator_set)))))"

definition UpdateRule_run :: "query \<Rightarrow> iterations \<Rightarrow> bool \<Rightarrow> basket \<Rightarrow> basket res option" where
  "UpdateRule_run q max_iterations track_edges operational_set =
     map_option (\<lambda>s. bind_res s (\<lambda>(_, _, _, accumulator_set). basket_copy accumulator_set))
       (while_option (update_cond max_iterations) (update_body q track_edges)
          (bind_res (init_run q track_edges operational_set) (\<lambda>accumulator_set.
           bind_res (basket_get_template operational_set) (\<lambda>new_results.
             Inr (0, operational_set, new_results, accumulator_set)))))"

definition ReplaceRule :: "querybuilder \<Rightarrow> iterations \<Rightarrow> query res" where
  "ReplaceRule qb max_iterations =
     (if max_iterations = None then Inl ValueError else QueryRule qb)"

type_synonym replace_state = "int \<times> basket \<times> basket"

definition replace_cond :: "iterations \<Rightarrow> replace_state res \<Rightarrow> bool" where
  "replace_cond max_iterations s =
     (case s of Inl _ \<Rightarrow> False
      | Inr (iterations_done, operational_set, new_results) \<Rightarrow>
          basket_len operational_set \<noteq> 0 \<and> below iterations_done max_iterations)"

definition replace_body :: "query \<Rightarrow> bool \<Rightarrow> replace_state res \<Rightarrow> replace_state res" where
  "replace_body q track_edges s =
     bind_res s (\<lambda>(iterations_done, operational_set, new_results).
     bind_res (load_results q track_edges new_results operational_set) (\<lambda>new_results.
       Inr (iterations_done + 1, new_results, new_results)))"

definition ReplaceRule_run :: "query \<Rightarrow> iterations \<Rightarrow> bool \<Rightarrow> basket \<Rightarrow> basket res option" where
  "ReplaceRule_run q max_iterations track_edges operational_set =
     map_option (\<lambda>s. bind_res s (\<lambda>(_, operational_set, _). basket_copy operational_set))
       (while_option (replace_cond max_iterations) (replace_body q track_edges)
          (bind_res (init_run q track_edges operational_set) (\<lambda>_.
           bind_res (basket_get_template operational_set) (\<lambda>new_results.
             Inr (0, operational_set, new_results)))))"

subsection \<open>Walkers and sequences\<close>

text \<open>The stash variables that \<open>RuleSaveWalkers\<close> and \<open>RuleSetWalkers\<close> share, by number.\<close>

type_synonym stashes = "nat \<Rightarrow> basket"

datatype operation =
    UpdateRule query iterations bool
  | ReplaceRuleOp query iterations bool
  | RuleSaveWalkers nat
  | RuleSetWalkers nat
  | RuleSequence "operation list" iterations

type_synonym runner = "stashes \<Rightarrow> basket \<Rightarrow> (stashes \<times> basket) res option"

definition RuleSaveWalkers_run :: "nat \<Rightarrow> stashes \<Rightarrow> basket \<Rightarrow> (stashes \<times> basket) res" where
  "RuleSaveWalkers_run k st operational_set =
     bind_res (basket_iadd (basket_empty (st k)) operational_set) (\<lambda>stash.
       Inr (st(k := stash), operational_set))"

definition RuleSetWalkers_run :: "nat \<Rightarrow> stashes \<Rightarrow> basket \<Rightarrow> (stashes \<times> basket) res" where
  "RuleSetWalkers_run k st operational_set =
     bind_res (basket_iadd (basket_empty operational_set) (st k)) (\<lambda>operational_set.
       Inr (st, operational_set))"

text \<open>The inner loop of \<open>RuleSequence.run\<close>: every rule runs on what the previous one returned, and
  each result is added to \<open>new_results\<close> and \<open>_visits_set\<close>.\<close>

fun run_rules ::
  "runner list \<Rightarrow> stashes \<Rightarrow> basket \<Rightarrow> basket \<Rightarrow> basket \<Rightarrow> (stashes \<times> basket \<times> basket) res option"
where
  "run_rules [] st operational_set new_results visits_set = Some (Inr (st, new_results, visits_set))"
| "run_rules (rule # rules) st operational_set new_results visits_set =
     (case rule st operational_set of
        None \<Rightarrow> None
      | Some (Inl e) \<Rightarrow> Some (Inl e)
      | Some (Inr (st, operational_set)) \<Rightarrow>
          (case bind_res (basket_iadd new_results operational_set) (\<lambda>n.
                bind_res (basket_iadd visits_set operational_set) (\<lambda>v. Inr (n, v))) of
             Inl e \<Rightarrow> Some (Inl e)
           | Inr (new_results, visits_set) \<Rightarrow>
               run_rules rules st operational_set new_results visits_set))"

record seq_state =
  iterations_done :: int
  seq_stashes :: stashes
  operational_set :: basket
  new_results :: basket
  accumulator_set :: basket
  visits_set :: basket

definition seq_cond :: "iterations \<Rightarrow> seq_state res option \<Rightarrow> bool" where
  "seq_cond max_iterations s =
     (case s of
        Some (Inr s) \<Rightarrow> basket_len (operational_set s) \<noteq> 0 \<and> below (iterations_done s) max_iterations
      | _ \<Rightarrow> False)"

definition seq_body :: "runner list \<Rightarrow> seq_state res option \<Rightarrow> seq_state res option" where
  "seq_body rules s =
     (case s of
        Some (Inr s) \<Rightarrow>
          map_option (\<lambda>r.
            bind_res r (\<lambda>(st, new, visits).
            bind_res (basket_sub new (accumulator_set s)) (\<lambda>op.
            bind_res (basket_iadd (accumulator_set s) new) (\<lambda>acc.
              Inr \<lparr>iterations_done = iterations_done s + 1, seq_stashes = st, operational_set = op,
                   new_results = new, accumulator_set = acc, visits_set = visits\<rparr>))))
            (run_rules rules (seq_stashes s) (operational_set s) (basket_empty (new_results s))
               (visits_set s))
      | _ \<Rightarrow> s)"

definition seq_init :: "stashes \<Rightarrow> basket \<Rightarrow> seq_state res" where
  "seq_init st op =
     bind_res (basket_copy op) (\<lambda>acc.
     bind_res (basket_copy op) (\<lambda>visits.
     bind_res (basket_get_template op) (\<lambda>new.
       Inr \<lparr>iterations_done = 0, seq_stashes = st, operational_set = op, new_results = new,
            accumulator_set = acc, visits_set = visits\<rparr>)))"

definition RuleSequence_run :: "runner list \<Rightarrow> iterations \<Rightarrow> runner" where
  "RuleSequence_run rules max_iterations st op =
     (case while_option (seq_cond max_iterations) (seq_body rules) (Some (seq_init st op)) of
        Some (Some r) \<Rightarrow>
          Some (bind_res r (\<lambda>s. bind_res (basket_copy (visits_set s)) (\<lambda>b. Inr (seq_stashes s, b))))
      | _ \<Rightarrow> None)"

primrec run :: "operation \<Rightarrow> runner" where
  "run (UpdateRule q m track) =
     (\<lambda>st op. map_option (\<lambda>r. bind_res r (\<lambda>b. Inr (st, b))) (UpdateRule_run q m track op))"
| "run (ReplaceRuleOp q m track) =
     (\<lambda>st op. map_option (\<lambda>r. bind_res r (\<lambda>b. Inr (st, b))) (ReplaceRule_run q m track op))"
| "run (RuleSaveWalkers k) = (\<lambda>st op. Some (RuleSaveWalkers_run k st op))"
| "run (RuleSetWalkers k) = (\<lambda>st op. Some (RuleSetWalkers_run k st op))"
| "run (RuleSequence rules m) = RuleSequence_run (map run rules) m"

section \<open>Frontier loops\<close>

text \<open>What can be reached from \<open>S\<close> in at most \<open>m\<close> steps of \<open>R\<close>.\<close>

primrec ball :: "('a \<times> 'a) set \<Rightarrow> nat \<Rightarrow> 'a set \<Rightarrow> 'a set" where
  "ball R 0 S = S"
| "ball R (Suc n) S = ball R n S \<union> R `` ball R n S"

definition reach_upto :: "('a \<times> 'a) set \<Rightarrow> iterations \<Rightarrow> 'a set \<Rightarrow> 'a set" where
  "reach_upto R m S = (case m of None \<Rightarrow> R\<^sup>* `` S | Some k \<Rightarrow> ball R (nat k) S)"

lemma ball_mono: "n \<le> n' \<Longrightarrow> ball R n S \<subseteq> ball R n' S"
  by (induction n') (auto simp: le_Suc_eq)

lemma ball_subset_rtrancl: "ball R n S \<subseteq> R\<^sup>* `` S"
  by (induction n) (auto intro: rtrancl_into_rtrancl)

lemma ball_iff_relpow: "y \<in> ball R n S \<longleftrightarrow> (\<exists>i \<le> n. \<exists>x \<in> S. (x, y) \<in> R ^^ i)"
proof (induction n arbitrary: y)
  case (Suc n)
  show ?case
  proof
    assume "y \<in> ball R (Suc n) S"
    then consider "y \<in> ball R n S" | z where "z \<in> ball R n S" "(z, y) \<in> R" by auto
    then show "\<exists>i \<le> Suc n. \<exists>x \<in> S. (x, y) \<in> R ^^ i"
    proof cases
      case 1
      then show ?thesis using Suc.IH le_SucI by blast
    next
      case 2
      then show ?thesis using Suc.IH [of z] relpow_Suc_I Suc_le_mono by meson
    qed
  next
    assume "\<exists>i \<le> Suc n. \<exists>x \<in> S. (x, y) \<in> R ^^ i"
    then obtain i x where ix: "i \<le> Suc n" "x \<in> S" "(x, y) \<in> R ^^ i" by blast
    show "y \<in> ball R (Suc n) S"
    proof (cases "i = Suc n")
      case True
      then obtain z where "(x, z) \<in> R ^^ n" "(z, y) \<in> R"
        using ix by (auto elim: relpow_Suc_E)
      then show ?thesis using ix(2) Suc.IH [of z] by auto
    next
      case False
      then show ?thesis using ix Suc.IH [of y] by auto
    qed
  qed
qed auto

lemma ball_closed: "R `` ball R n S \<subseteq> ball R n S \<Longrightarrow> ball R n S = R\<^sup>* `` S"
proof (rule antisym [OF ball_subset_rtrancl])
  assume closed: "R `` ball R n S \<subseteq> ball R n S"
  show "R\<^sup>* `` S \<subseteq> ball R n S"
  proof
    fix y assume "y \<in> R\<^sup>* `` S"
    then obtain x where "(x, y) \<in> R\<^sup>*" "x \<in> S" by auto
    then show "y \<in> ball R n S"
      using closed ball_mono [of 0 n R S] by (induction rule: rtrancl_induct) auto
  qed
qed

text \<open>
  A loop that keeps a frontier and the set it has seen: each round follows \<open>R\<close> from the
  frontier, adds what it finds to the seen set, and continues from what was new.
\<close>

locale frontier_loop =
  fixes cond :: "'s \<Rightarrow> bool" and body :: "'s \<Rightarrow> 's"
    and count :: "'s \<Rightarrow> int" and front :: "'s \<Rightarrow> 'a set" and seen :: "'s \<Rightarrow> 'a set"
    and inv :: "'s \<Rightarrow> bool" and R :: "('a \<times> 'a) set" and m :: iterations
  assumes cond_iff: "inv s \<Longrightarrow> cond s \<longleftrightarrow> front s \<noteq> {} \<and> below (count s) m"
    and body_inv: "inv s \<Longrightarrow> cond s \<Longrightarrow> inv (body s)"
    and body_count: "inv s \<Longrightarrow> cond s \<Longrightarrow> count (body s) = count s + 1"
    and body_front: "inv s \<Longrightarrow> cond s \<Longrightarrow> front (body s) = R `` front s - seen s"
    and body_seen: "inv s \<Longrightarrow> cond s \<Longrightarrow> seen (body s) = seen s \<union> R `` front s"
begin

text \<open>After \<open>n\<close> rounds the seen set is what \<open>n\<close> steps reach, the frontier what \<open>n - 1\<close> do not.\<close>

definition progress :: "'a set \<Rightarrow> 's \<Rightarrow> bool" where
  "progress S s \<longleftrightarrow>
     inv s \<and>
     (\<exists>n. count s = int n \<and> seen s = ball R n S \<and>
        front s = ball R n S - (case n of 0 \<Rightarrow> {} | Suc n' \<Rightarrow> ball R n' S) \<and>
        (\<forall>k. m = Some k \<longrightarrow> n \<le> nat k))"

lemma image_front:
  "R `` (ball R n S - (case n of 0 \<Rightarrow> {} | Suc n' \<Rightarrow> ball R n' S)) \<union> ball R n S = ball R (Suc n) S"
proof (cases n)
  case (Suc n')
  have "R `` ball R n' S \<subseteq> ball R n S"
    by (auto simp: Suc)
  then show ?thesis
    by (auto simp: Suc)
qed auto

lemma progress_body:
  assumes "progress S s" "cond s"
  shows "progress S (body s)"
proof -
  obtain n where n: "inv s" "count s = int n" "seen s = ball R n S"
    "front s = ball R n S - (case n of 0 \<Rightarrow> {} | Suc n' \<Rightarrow> ball R n' S)"
    using assms(1) by (auto simp: progress_def)
  have "seen (body s) = ball R (Suc n) S"
    using n body_seen [OF n(1) assms(2)] image_front [of n S] by (simp add: Un_commute)
  moreover have "front (body s) = ball R (Suc n) S - ball R n S"
    using n body_front [OF n(1) assms(2)] image_front [of n S] by auto
  moreover have "count (body s) = int (Suc n)"
    using n body_count [OF n(1) assms(2)] by simp
  moreover have "Suc n \<le> nat k" if "m = Some k" for k
    using that cond_iff [OF n(1)] assms(2) n(2) by (auto simp: below_def)
  ultimately show ?thesis
    using body_inv [OF n(1) assms(2)] unfolding progress_def by (auto intro!: exI [of _ "Suc n"])
qed

lemma progress_exit:
  assumes "progress S s" "\<not> cond s"
  shows "seen s = reach_upto R m S"
proof -
  obtain n where n: "inv s" "count s = int n" "seen s = ball R n S"
    "front s = ball R n S - (case n of 0 \<Rightarrow> {} | Suc n' \<Rightarrow> ball R n' S)"
    "\<forall>k. m = Some k \<longrightarrow> n \<le> nat k"
    using assms(1) by (auto simp: progress_def)
  show ?thesis
  proof (cases "front s = {}")
    case True
    then have "ball R (Suc n) S = ball R n S"
      using image_front [of n S] n(4) by auto
    then have closed: "ball R n S = R\<^sup>* `` S"
      by (intro ball_closed) auto
    then have "ball R n' S = R\<^sup>* `` S" if "n \<le> n'" for n'
      using ball_mono [OF that] ball_subset_rtrancl by (metis subset_antisym)
    then show ?thesis
      using n(3,5) closed by (auto simp: reach_upto_def split: option.split)
  next
    case False
    then obtain k where "m = Some k" "n = nat k"
      using cond_iff [OF n(1)] assms(2) n(2,5) by (auto simp: below_def split: option.splits)
    then show ?thesis
      using n(3) by (simp add: reach_upto_def)
  qed
qed

lemma loop_result:
  assumes "inv s" "count s = 0" "front s = S" "seen s = S" "finite (R\<^sup>* `` S)"
  shows "\<exists>t. while_option cond body s = Some t \<and> inv t \<and> seen t = reach_upto R m S"
proof -
  define f where "f s = 2 * card (R\<^sup>* `` S - seen s) + (if front s = {} then 0 else 1 :: nat)" for s
  have start: "progress S s"
    using assms by (auto simp: progress_def)
  have "f (body s) < f s" if "progress S s" "cond s" for s
  proof (cases "front (body s) = {}")
    case True
    have "card (R\<^sup>* `` S - seen (body s)) \<le> card (R\<^sup>* `` S - seen s)"
      using that body_seen assms(5) by (intro card_mono) (auto simp: progress_def)
    then show ?thesis
      using True that cond_iff by (simp add: f_def progress_def)
  next
    case False
    have "front (body s) \<subseteq> R\<^sup>* `` S" "front (body s) \<subseteq> seen (body s)"
      using progress_body [OF that] subsetD [OF ball_subset_rtrancl [of R _ S]]
      by (auto simp: progress_def)
    moreover have "front (body s) \<inter> seen s = {}" "seen s \<subseteq> seen (body s)"
      using that body_front body_seen by (auto simp: progress_def)
    ultimately have "R\<^sup>* `` S - seen (body s) \<subset> R\<^sup>* `` S - seen s"
      using False by blast
    then have "card (R\<^sup>* `` S - seen (body s)) < card (R\<^sup>* `` S - seen s)"
      using assms(5) by (intro psubset_card_mono) auto
    then show ?thesis
      by (simp add: f_def)
  qed
  then obtain t where t: "while_option cond body s = Some t"
    using measure_while_option_Some [of "progress S" cond body f s] start progress_body by blast
  moreover have "progress S t"
    using while_option_rule [of "progress S", OF progress_body t start] by blast
  moreover have "\<not> cond t"
    using while_option_stop [OF t] .
  ultimately show ?thesis
    using progress_exit by (auto simp: progress_def)
qed

end

section \<open>What the rules compute\<close>

text \<open>The content of a basket as one set, and a query as a relation on it.\<close>

datatype item = EntityItem entity_key int | EdgeItem entity_key edge

definition items :: "basket \<Rightarrow> item set" where
  "items b =
     EntityItem Nodes ` keyset (b_nodes b) \<union> EntityItem Groups ` keyset (b_groups b) \<union>
     EdgeItem Nodes ` keyset (b_nodes_nodes b) \<union> EdgeItem Groups ` keyset (b_groups_nodes b)"

definition edge_key :: "query \<Rightarrow> entity_key" where
  "edge_key q = (if entity_from q = Nodes \<and> entity_to q = Nodes then Nodes else Groups)"

definition query_rel :: "query \<Rightarrow> bool \<Rightarrow> (item \<times> item) set" where
  "query_rel q track_edges =
     (\<lambda>r. (EntityItem (entity_from q) (row_first r), EntityItem (entity_to q) (row_last r))) `
        set (q_rows q) \<union>
     (if track_edges then
        (\<lambda>r. (EntityItem (entity_from q) (row_first r), EdgeItem (edge_key q) (edge_of_row q r))) `
          set (q_rows q)
      else {})"

definition trackable :: "query \<Rightarrow> bool \<Rightarrow> bool" where
  "trackable q track_edges \<longleftrightarrow> \<not> (track_edges \<and> entity_from q = Groups \<and> entity_to q = Groups)"

lemma items_mk_basket:
  "items (mk_basket n g nn gn) =
     EntityItem Nodes ` n \<union> EntityItem Groups ` g \<union> EdgeItem Nodes ` nn \<union> EdgeItem Groups ` gn"
  by (simp add: items_def)

lemma items_Un_Diff:
  "items (mk_basket (n \<union> n') (g \<union> g') (nn \<union> nn') (gn \<union> gn')) =
     items (mk_basket n g nn gn) \<union> items (mk_basket n' g' nn' gn')"
  "items (mk_basket (n - n') (g - g') (nn - nn') (gn - gn')) =
     items (mk_basket n g nn gn) - items (mk_basket n' g' nn' gn')"
  by (auto simp: items_mk_basket)

lemma items_empty_iff: "items (mk_basket n g nn gn) = {} \<longleftrightarrow> n = {} \<and> g = {} \<and> nn = {} \<and> gn = {}"
  by (auto simp: items_mk_basket)

lemma finite_items: "wf_basket b \<Longrightarrow> finite (items b)"
  by (simp add: items_def wf_basket_def)

lemma entity_in_items [simp]:
  "EntityItem Nodes k \<in> items b \<longleftrightarrow> k \<in> keyset (b_nodes b)"
  "EntityItem Groups k \<in> items b \<longleftrightarrow> k \<in> keyset (b_groups b)"
  "EdgeItem Nodes e \<in> items b \<longleftrightarrow> e \<in> keyset (b_nodes_nodes b)"
  "EdgeItem Groups e \<in> items b \<longleftrightarrow> e \<in> keyset (b_groups_nodes b)"
  by (auto simp: items_def)

lemma entity_container_items: "k \<in> keyset (entity_container key b) \<longleftrightarrow> EntityItem key k \<in> items b"
  by (cases key) (simp_all add: entity_container_def)

subsection \<open>The operations of a basket on its content\<close>

lemma wf_basket_ops:
  assumes "wf_basket a" "wf_basket b"
  shows "\<exists>c. basket_iadd a b = Inr c \<and> wf_basket c \<and> items c = items a \<union> items b"
    and "\<exists>c. basket_add a b = Inr c \<and> wf_basket c \<and> items c = items a \<union> items b"
    and "\<exists>c. basket_sub a b = Inr c \<and> wf_basket c \<and> items c = items a - items b"
    and "\<exists>c. basket_isub a b = Inr c \<and> wf_basket c \<and> items c = items a - items b"
proof -
  obtain n g nn gn where a: "a = mk_basket n g nn gn" by (rule wf_basketE [OF assms(1)])
  obtain n' g' nn' gn' where b: "b = mk_basket n' g' nn' gn'" by (rule wf_basketE [OF assms(2)])
  show "\<exists>c. basket_iadd a b = Inr c \<and> wf_basket c \<and> items c = items a \<union> items b"
    and "\<exists>c. basket_add a b = Inr c \<and> wf_basket c \<and> items c = items a \<union> items b"
    and "\<exists>c. basket_sub a b = Inr c \<and> wf_basket c \<and> items c = items a - items b"
    and "\<exists>c. basket_isub a b = Inr c \<and> wf_basket c \<and> items c = items a - items b"
    using assms by (auto simp: a b items_Un_Diff)
qed

lemma wf_basket_copies:
  assumes "wf_basket b"
  shows "basket_copy b = Inr b"
    and "\<exists>t. basket_get_template b = Inr t \<and> wf_basket t \<and> items t = {}"
    and "wf_basket (basket_empty b)" and "items (basket_empty b) = {}"
    and "0 < basket_len b \<longleftrightarrow> items b \<noteq> {}"
proof -
  obtain n g nn gn where b: "b = mk_basket n g nn gn" by (rule wf_basketE [OF assms])
  show "basket_copy b = Inr b" "wf_basket (basket_empty b)" "items (basket_empty b) = {}"
    "\<exists>t. basket_get_template b = Inr t \<and> wf_basket t \<and> items t = {}"
    by (simp_all add: b items_mk_basket)
  show "0 < basket_len b \<longleftrightarrow> items b \<noteq> {}"
    using assms unfolding b by (simp only: neq0_conv [symmetric] basket_len_mk_basket items_empty_iff)
qed

lemma add_row_entities:
  "add_entities entity_check_input c (map (\<lambda>r. IntKey (f r)) rs) =
     Inr (c\<lparr>keyset := keyset c \<union> f ` set rs\<rparr>)"
  using entities.add_keys [of "map f rs" c] by (simp add: comp_def)

lemma add_row_edges:
  assumes "\<And>r. edge_fits (template c) (f r)"
  shows "add_entities edge_check_input c (map (\<lambda>r. EdgeTuple (f r)) rs) =
     Inr (c\<lparr>keyset := keyset c \<union> f ` set rs\<rparr>)"
  using edges.add_keys [of "map f rs" c] assms by (simp add: comp_def)

lemma fill_entities:
  "set_entity_container key ((entity_container key (mk_basket {} {} {} {}))\<lparr>keyset := K\<rparr>)
     (mk_basket {} {} {} {}) =
   (case key of Nodes \<Rightarrow> mk_basket K {} {} {} | Groups \<Rightarrow> mk_basket {} K {} {})"
  by (cases key) (simp_all add: set_entity_container_def entity_container_def mk_basket_def)

lemma fill_edges:
  "entity_from q = Nodes \<Longrightarrow> entity_to q = Nodes \<Longrightarrow>
     edge_container q (mk_basket n g nn gn) = Inr \<lparr>template = (NodeCls, NodeCls), keyset = nn\<rparr>"
  "entity_from q = Nodes \<Longrightarrow> entity_to q = Nodes \<Longrightarrow>
     set_edge_container q \<lparr>template = (NodeCls, NodeCls), keyset = K\<rparr> (mk_basket n g nn gn) =
     mk_basket n g K gn"
  "entity_from q \<noteq> entity_to q \<Longrightarrow>
     edge_container q (mk_basket n g nn gn) = Inr \<lparr>template = (GroupCls, NodeCls), keyset = gn\<rparr>"
  "entity_from q \<noteq> entity_to q \<Longrightarrow>
     set_edge_container q \<lparr>template = (GroupCls, NodeCls), keyset = K\<rparr> (mk_basket n g nn gn) =
     mk_basket n g nn K"
  by (auto simp: edge_container_def set_edge_container_def mk_basket_def split: entity_key.splits)

lemma load_results_items:
  assumes wf: "wf_basket target" "wf_basket op" and "trackable q track"
  shows "\<exists>r. load_results q track target op = Inr r \<and> wf_basket r \<and>
    items r = query_rel q track `` items op"
proof -
  obtain n g nn gn where t: "target = mk_basket n g nn gn" by (rule wf_basketE [OF wf(1)])
  define primkeys where "primkeys = keyset (entity_container (entity_from q) op)"
  define qres where "qres = filter (\<lambda>r. row_first r \<in> primkeys) (q_rows q)"
  have image: "query_rel q track `` items op =
     (\<lambda>r. EntityItem (entity_to q) (row_last r)) ` set qres \<union>
     (if track then (\<lambda>r. EdgeItem (edge_key q) (edge_of_row q r)) ` set qres else {})"
    by (auto simp: query_rel_def qres_def primkeys_def entity_container_items)
  show ?thesis
  proof (cases "primkeys = {}")
    case True
    then show ?thesis
      using image t by (simp add: load_results_def primkeys_def [symmetric] qres_def items_mk_basket)
  next
    case False
    have fits: "edge_fits (if edge_key q = Nodes then NodeCls else GroupCls, NodeCls) (edge_of_row q r)"
      for r
      by (auto simp: edge_fits_def edge_key_def edge_of_row_def split: entity_key.splits prod.splits)
    have len: "tuple_len (edge_of_row q r) = (if edge_key q = Nodes then 4 else 2)" for r
      using fits [of r] by (auto simp: edge_fits_def split: if_splits)
    have load: "load_results q track target op =
      (let t1 = set_entity_container (entity_to q)
                 ((entity_container (entity_to q) (basket_empty target))
                    \<lparr>keyset := row_last ` set qres\<rparr>) (basket_empty target) in
       if track then bind_res (edge_container q t1) (\<lambda>es.
           bind_res (add_entities edge_check_input es (map (\<lambda>r. EdgeTuple (edge_of_row q r)) qres))
             (\<lambda>e. Inr (set_edge_container q e t1)))
       else Inr t1)"
      using False unfolding load_results_def Let_def primkeys_def [symmetric]
      by (simp add: qres_def [symmetric] add_row_entities t entity_container_def
          split: entity_key.split)
    show ?thesis
      using fits len assms(3) unfolding load image Let_def
      unfolding t mk_basket_ops fill_entities
      by (cases "entity_from q"; cases "entity_to q"; cases track)
         (simp_all add: edge_key_def trackable_def fill_edges add_row_edges items_mk_basket image_image)
  qed
qed

subsection \<open>\<open>UpdateRule\<close> collects what its query reaches\<close>

definition upd_count :: "update_state res \<Rightarrow> int" where
  "upd_count s = (case s of Inr (i, op, new, acc) \<Rightarrow> i | Inl _ \<Rightarrow> 0)"

definition upd_front :: "update_state res \<Rightarrow> item set" where
  "upd_front s = (case s of Inr (i, op, new, acc) \<Rightarrow> items op | Inl _ \<Rightarrow> {})"

definition upd_seen :: "update_state res \<Rightarrow> item set" where
  "upd_seen s = (case s of Inr (i, op, new, acc) \<Rightarrow> items acc | Inl _ \<Rightarrow> {})"

definition upd_inv :: "query \<Rightarrow> bool \<Rightarrow> update_state res \<Rightarrow> bool" where
  "upd_inv q track s \<longleftrightarrow>
     trackable q track \<and>
     (case s of Inr (i, op, new, acc) \<Rightarrow> wf_basket op \<and> wf_basket new \<and> wf_basket acc | Inl _ \<Rightarrow> False)"

lemmas upd_defs = upd_count_def upd_front_def upd_seen_def upd_inv_def

lemma update_body_step:
  assumes "upd_inv q track s"
  shows "upd_inv q track (update_body q track s) \<and>
    upd_count (update_body q track s) = upd_count s + 1 \<and>
    upd_front (update_body q track s) = query_rel q track `` upd_front s - upd_seen s \<and>
    upd_seen (update_body q track s) = upd_seen s \<union> query_rel q track `` upd_front s"
proof -
  obtain i op new acc where s: "s = Inr (i, op, new, acc)" "wf_basket op" "wf_basket new"
    "wf_basket acc" "trackable q track"
    using assms by (auto simp: upd_inv_def split: sum.splits)
  obtain r where r: "load_results q track new op = Inr r" "wf_basket r"
    "items r = query_rel q track `` items op"
    using load_results_items [OF s(3,2,5)] by blast
  obtain op' where op': "basket_sub r acc = Inr op'" "wf_basket op'" "items op' = items r - items acc"
    using wf_basket_ops(3) [OF r(2) s(4)] by blast
  obtain acc' where acc': "basket_iadd acc r = Inr acc'" "wf_basket acc'"
    "items acc' = items acc \<union> items r"
    using wf_basket_ops(1) [OF s(4) r(2)] by blast
  show ?thesis
    using s r op' acc' by (simp add: upd_defs update_body_def)
qed

interpretation update_loop: frontier_loop "update_cond m" "update_body q track" upd_count upd_front
  upd_seen "upd_inv q track" "query_rel q track" m for m q track
proof
  show "upd_inv q track s \<Longrightarrow> update_cond m s \<longleftrightarrow> upd_front s \<noteq> {} \<and> below (upd_count s) m" for s
    by (auto simp: upd_defs update_cond_def wf_basket_copies split: sum.splits)
qed (simp_all add: update_body_step)

lemma finite_reach:
  assumes "finite R" "finite S"
  shows "finite (R\<^sup>* `` S)"
proof -
  have "R\<^sup>* `` S \<subseteq> S \<union> Range R"
    by (auto elim: rtranclE)
  then show ?thesis
    using assms finite_subset by (auto simp: finite_Range)
qed

lemma finite_query_rel: "finite (query_rel q track)"
  by (simp add: query_rel_def)

lemma UpdateRule_run_items:
  assumes "wf_basket op" "trackable q track"
  shows "\<exists>b. UpdateRule_run q m track op = Some (Inr b) \<and> wf_basket b \<and>
    items b = reach_upto (query_rel q track) m (items op)"
proof -
  obtain new where new: "basket_get_template op = Inr new" "wf_basket new"
    using wf_basket_copies(2) [OF assms(1)] by blast
  have init: "init_run q track op = Inr op"
    using assms(2) wf_basket_copies(1) [OF assms(1)]
    by (auto simp: init_run_def edge_container_def trackable_def split: entity_key.splits)
  have "upd_inv q track (Inr (0, op, new, op))"
    using assms new by (simp add: upd_inv_def)
  then obtain t where t: "while_option (update_cond m) (update_body q track) (Inr (0, op, new, op)) =
      Some t" "upd_inv q track t" "upd_seen t = reach_upto (query_rel q track) m (items op)"
    using update_loop.loop_result [of q track "Inr (0, op, new, op)" "items op" m]
      finite_reach [OF finite_query_rel finite_items [OF assms(1)]]
    by (auto simp: upd_count_def upd_front_def upd_seen_def)
  then obtain i op' new' acc where "t = Inr (i, op', new', acc)" "wf_basket acc"
    "items acc = reach_upto (query_rel q track) m (items op)"
    by (auto simp: upd_inv_def upd_seen_def split: sum.splits)
  then show ?thesis
    using t(1) init new wf_basket_copies(1) by (auto simp: UpdateRule_run_def)
qed

subsection \<open>\<open>ReplaceRule\<close> keeps the last round only\<close>

lemma replace_loop:
  assumes "wf_basket op" "wf_basket new" "trackable q track"
  shows "\<exists>i' b new'. while_option (replace_cond (Some (i + int n))) (replace_body q track)
      (Inr (i, op, new)) = Some (Inr (i', b, new')) \<and> wf_basket b \<and>
      items b = (query_rel q track ^^ n) `` items op"
  using assms(1,2)
proof (induction n arbitrary: i op new)
  case 0
  then show ?case
    by (subst while_option_unfold) (auto simp: replace_cond_def below_def)
next
  case (Suc n)
  show ?case
  proof (cases "items op = {}")
    case True
    then show ?thesis
      using Suc.prems by (subst while_option_unfold) (auto simp: replace_cond_def wf_basket_copies)
  next
    case False
    obtain r where r: "load_results q track new op = Inr r" "wf_basket r"
      "items r = query_rel q track `` items op"
      using load_results_items [OF Suc.prems(2,1) assms(3)] by blast
    have "(query_rel q track ^^ Suc n) `` items op = (query_rel q track ^^ n) `` items r"
      by (simp only: r(3) relpow.simps relpow_commute [symmetric] relcomp_Image)
    moreover have "replace_cond (Some (i + int (Suc n))) (Inr (i, op, new))"
      using False Suc.prems by (simp add: replace_cond_def below_def wf_basket_copies)
    moreover have "replace_body q track (Inr (i, op, new)) = Inr (i + 1, r, r)"
      using r(1) by (simp add: replace_body_def)
    moreover have "i + int (Suc n) = i + 1 + int n"
      by simp
    ultimately show ?thesis
      using Suc.IH [OF r(2) r(2), of "i + 1"]
      by (subst while_option_unfold) (simp only: if_True)
  qed
qed

lemma ReplaceRule_run_items:
  assumes "wf_basket op" "trackable q track"
  shows "\<exists>b. ReplaceRule_run q (Some (int n)) track op = Some (Inr b) \<and> wf_basket b \<and>
    items b = (query_rel q track ^^ n) `` items op"
proof -
  obtain new where new: "basket_get_template op = Inr new" "wf_basket new"
    using wf_basket_copies(2) [OF assms(1)] by blast
  have init: "init_run q track op = Inr op"
    using assms(2) wf_basket_copies(1) [OF assms(1)]
    by (auto simp: init_run_def edge_container_def trackable_def split: entity_key.splits)
  show ?thesis
    using replace_loop [OF assms(1) new(2) assms(2), of 0 n] init new(1) wf_basket_copies(1)
    by (auto simp: ReplaceRule_run_def)
qed

subsection \<open>\<open>RuleSequence\<close> collects what its rules reach\<close>

text \<open>One pass over the rules finds what \<open>R\<close> relates to the operational set, and nothing that is
  neither there nor in that set already.\<close>

definition expands :: "runner list \<Rightarrow> (item \<times> item) set \<Rightarrow> bool" where
  "expands rules R \<longleftrightarrow>
     (\<forall>st op new visits.
        (\<forall>k. wf_basket (st k)) \<longrightarrow> wf_basket op \<longrightarrow> wf_basket new \<longrightarrow> wf_basket visits \<longrightarrow>
        (\<exists>st' new' visits' X. run_rules rules st op new visits = Some (Inr (st', new', visits')) \<and>
           (\<forall>k. wf_basket (st' k)) \<and> wf_basket new' \<and> wf_basket visits' \<and>
           items new' = items new \<union> X \<and> items visits' = items visits \<union> X \<and>
           R `` items op \<subseteq> X \<and> X \<subseteq> items op \<union> R `` items op))"

definition seq_count :: "seq_state res option \<Rightarrow> int" where
  "seq_count s = (case s of Some (Inr s) \<Rightarrow> iterations_done s | _ \<Rightarrow> 0)"

definition seq_front :: "seq_state res option \<Rightarrow> item set" where
  "seq_front s = (case s of Some (Inr s) \<Rightarrow> items (operational_set s) | _ \<Rightarrow> {})"

definition seq_seen :: "seq_state res option \<Rightarrow> item set" where
  "seq_seen s = (case s of Some (Inr s) \<Rightarrow> items (accumulator_set s) | _ \<Rightarrow> {})"

definition seq_inv :: "runner list \<Rightarrow> (item \<times> item) set \<Rightarrow> seq_state res option \<Rightarrow> bool" where
  "seq_inv rules R s \<longleftrightarrow>
     expands rules R \<and>
     (case s of
        Some (Inr s) \<Rightarrow>
          (\<forall>k. wf_basket (seq_stashes s k)) \<and> wf_basket (operational_set s) \<and>
          wf_basket (new_results s) \<and> wf_basket (accumulator_set s) \<and> wf_basket (visits_set s) \<and>
          items (operational_set s) \<subseteq> items (accumulator_set s) \<and>
          items (visits_set s) = items (accumulator_set s)
      | _ \<Rightarrow> False)"

lemmas seq_defs = seq_count_def seq_front_def seq_seen_def seq_inv_def

lemma seq_invE:
  assumes "seq_inv rules R s"
  obtains t where "s = Some (Inr t)" "expands rules R" "\<forall>k. wf_basket (seq_stashes t k)"
    "wf_basket (operational_set t)" "wf_basket (new_results t)" "wf_basket (accumulator_set t)"
    "wf_basket (visits_set t)" "items (operational_set t) \<subseteq> items (accumulator_set t)"
    "items (visits_set t) = items (accumulator_set t)"
  using assms by (auto simp: seq_inv_def split: option.splits sum.splits)

lemma seq_body_step:
  assumes "seq_inv rules R s"
  shows "seq_inv rules R (seq_body rules s) \<and>
    seq_count (seq_body rules s) = seq_count s + 1 \<and>
    seq_front (seq_body rules s) = R `` seq_front s - seq_seen s \<and>
    seq_seen (seq_body rules s) = seq_seen s \<union> R `` seq_front s"
proof -
  obtain t where t: "s = Some (Inr t)" "expands rules R" "\<forall>k. wf_basket (seq_stashes t k)"
    "wf_basket (operational_set t)" "wf_basket (new_results t)" "wf_basket (accumulator_set t)"
    "wf_basket (visits_set t)" "items (operational_set t) \<subseteq> items (accumulator_set t)"
    "items (visits_set t) = items (accumulator_set t)"
    by (rule seq_invE [OF assms])
  let ?O = "items (operational_set t)"
  let ?A = "items (accumulator_set t)"
  obtain st new visits X where run:
    "run_rules rules (seq_stashes t) (operational_set t) (basket_empty (new_results t)) (visits_set t)
       = Some (Inr (st, new, visits))"
    "\<forall>k. wf_basket (st k)" "wf_basket new" "wf_basket visits" "items new = X"
    "items visits = ?A \<union> X" "R `` ?O \<subseteq> X" "X \<subseteq> ?O \<union> R `` ?O"
    using t(2) [unfolded expands_def, rule_format, of "seq_stashes t" "operational_set t"
        "basket_empty (new_results t)" "visits_set t"] t wf_basket_copies(3,4) [OF t(5)]
    by auto
  obtain op where op: "basket_sub new (accumulator_set t) = Inr op" "wf_basket op"
    "items op = X - ?A"
    using wf_basket_ops(3) [OF run(3) t(6)] run(5) by auto
  obtain acc where acc: "basket_iadd (accumulator_set t) new = Inr acc" "wf_basket acc"
    "items acc = ?A \<union> X"
    using wf_basket_ops(1) [OF t(6) run(3)] run(5) by auto
  have "X - ?A = R `` ?O - ?A" "?A \<union> X = ?A \<union> R `` ?O"
    using run(7,8) t(8) by auto
  then show ?thesis
    using t run op acc by (auto simp: seq_defs seq_body_def)
qed

interpretation seq_loop: frontier_loop "seq_cond m" "seq_body rules" seq_count seq_front
  seq_seen "seq_inv rules R" R m for m rules R
proof
  show "seq_inv rules R s \<Longrightarrow> seq_cond m s \<longleftrightarrow> seq_front s \<noteq> {} \<and> below (seq_count s) m" for s
    by (erule seq_invE) (simp add: seq_defs seq_cond_def wf_basket_copies)
qed (simp_all add: seq_body_step)

lemma RuleSequence_run_items:
  assumes "expands rules R" "finite R" "\<forall>k. wf_basket (st k)" "wf_basket op"
  shows "\<exists>st' b. RuleSequence_run rules m st op = Some (Inr (st', b)) \<and> wf_basket b \<and>
    (\<forall>k. wf_basket (st' k)) \<and> items b = reach_upto R m (items op)"
proof -
  obtain new where new: "basket_get_template op = Inr new" "wf_basket new"
    using wf_basket_copies(2) [OF assms(4)] by blast
  let ?s = "\<lparr>iterations_done = 0, seq_stashes = st, operational_set = op, new_results = new,
    accumulator_set = op, visits_set = op\<rparr>"
  have init: "seq_init st op = Inr ?s"
    using new wf_basket_copies(1) [OF assms(4)] by (simp add: seq_init_def)
  have "seq_inv rules R (Some (Inr ?s))"
    using assms new by (simp add: seq_inv_def)
  then obtain t where t: "while_option (seq_cond m) (seq_body rules) (Some (Inr ?s)) = Some t"
    "seq_inv rules R t" "seq_seen t = reach_upto R m (items op)"
    using seq_loop.loop_result [of rules R "Some (Inr ?s)" "items op" m]
      finite_reach [OF assms(2) finite_items [OF assms(4)]]
    by (auto simp: seq_count_def seq_front_def seq_seen_def)
  from t(2) show ?thesis
    by (rule seq_invE) (use t init wf_basket_copies(1) in \<open>auto simp: RuleSequence_run_def seq_seen_def\<close>)
qed

lemma expands_Nil: "expands [] {}"
  by (auto simp: expands_def)

lemma run_UpdateRule_once:
  assumes "wf_basket op" "trackable q track"
  shows "\<exists>b. run (UpdateRule q (Some 1) track) st op = Some (Inr (st, b)) \<and> wf_basket b \<and>
    items b = items op \<union> query_rel q track `` items op"
  using UpdateRule_run_items [OF assms, of "Some 1"] by (auto simp: reach_upto_def)

lemma run_RuleSaveWalkers:
  assumes "\<forall>k. wf_basket (st k)" "wf_basket op"
  shows "\<exists>st'. run (RuleSaveWalkers k) st op = Some (Inr (st', op)) \<and>
    (\<forall>k. wf_basket (st' k)) \<and> items (st' k) = items op"
  using wf_basket_ops(1) [OF wf_basket_copies(3) [OF assms(1) [rule_format, of k]] assms(2)] assms
    wf_basket_copies(4) [OF assms(1) [rule_format, of k]]
  by (auto simp: RuleSaveWalkers_run_def)

lemma run_RuleSetWalkers:
  assumes "\<forall>k. wf_basket (st k)" "wf_basket op"
  shows "\<exists>b. run (RuleSetWalkers k) st op = Some (Inr (st, b)) \<and> wf_basket b \<and> items b = items (st k)"
  using wf_basket_ops(1) [OF wf_basket_copies(3) [OF assms(2)] assms(1) [rule_format, of k]]
    wf_basket_copies(4) [OF assms(2)]
  by (auto simp: RuleSetWalkers_run_def)

text \<open>One rule of the inner loop: its result is added to the new results and to the visits.\<close>

lemma run_rules_Cons:
  assumes "rule st op = Some (Inr (st', b))" "wf_basket b" "wf_basket new" "wf_basket visits"
  obtains new' visits' where
    "run_rules (rule # rules) st op new visits = run_rules rules st' b new' visits'"
    "wf_basket new'" "wf_basket visits'" "items new' = items new \<union> items b"
    "items visits' = items visits \<union> items b"
  using wf_basket_ops(1) [OF assms(3,2)] wf_basket_ops(1) [OF assms(4,2)] assms(1) by auto

end
