(* ===== verification/Aiida_Graph_Traversal.thy ===== *)
theory Aiida_Graph_Traversal
  imports Aiida_Graph_Explorer
begin

text \<open>
  Graph traversal and node deletion: \<open>tools/graph/graph_traversers.py\<close>,
  \<open>tools/graph/deletions.py\<close> and \<open>delete_nodes_and_connections\<close> of
  \<open>storage/psql_dos/backend.py\<close>.  The database is its table of node identifiers, its table of
  links and its table of group memberships; the two node queries are the inner joins that
  \<open>storage/psql_dos/orm/querybuilder/joiner.py\<close> builds for \<open>with_incoming\<close> and
  \<open>with_outgoing\<close>.

  The result of a traversal is shown to be the set of nodes reachable along the links the rules
  allow, the returned links exactly those leaving that set, and the set that \<open>delete_nodes\<close>
  removes to leave every remaining process with all its inputs, outputs and called processes.
\<close>

section \<open>The database\<close>

type_synonym db_link = "int \<times> int \<times> link_type \<times> string"

record database =
  db_nodes :: "int list"
  db_links :: "db_link list"
  db_group_nodes :: "(int \<times> int) list"

text \<open>The rows of \<open>append(Node, tag='sources').append(Node, with_incoming='sources')\<close> with a filter on
  the type of the link: node, link and node joined; \<open>with_outgoing\<close> joins the other way.\<close>

definition joined_links :: "database \<Rightarrow> link_type list \<Rightarrow> db_link list" where
  "joined_links db types =
     filter (\<lambda>(i, out, t, l). t \<in> set types \<and> i \<in> set (db_nodes db) \<and> out \<in> set (db_nodes db))
       (db_links db)"

definition query_outgoing :: "database \<Rightarrow> link_type list \<Rightarrow> querybuilder" where
  "query_outgoing db types =
     \<lparr>qb_path = [''node.Node.'', ''node.Node.''], qb_project = [],
      qb_rows = map (\<lambda>(i, out, t, l). \<lparr>row_first = i, row_last = out, row_edge = (i, out, t, l)\<rparr>)
        (joined_links db types)\<rparr>"

definition query_incoming :: "database \<Rightarrow> link_type list \<Rightarrow> querybuilder" where
  "query_incoming db types =
     \<lparr>qb_path = [''node.Node.'', ''node.Node.''], qb_project = [],
      qb_rows = map (\<lambda>(i, out, t, l). \<lparr>row_first = out, row_last = i, row_edge = (i, out, t, l)\<rparr>)
        (joined_links db types)\<rparr>"

section \<open>Rules\<close>

text \<open>Keyword arguments are booleans or something else.\<close>

datatype kwarg = KBool bool | KOther

record traverse_links =
  rules_applied :: "bool dict"
  tl_forward :: "link_type list"
  tl_backward :: "link_type list"

fun validate_rules_loop ::
  "(string \<times> traversal_rule) list \<Rightarrow> kwarg dict \<Rightarrow> traverse_links \<Rightarrow> (kwarg dict \<times> traverse_links) res"
where
  "validate_rules_loop [] traversal_rules out = Inr (traversal_rules, out)"
| "validate_rules_loop ((name, rule) # rules) traversal_rules out =
     bind_res
       (case map_of traversal_rules name of
          None \<Rightarrow> Inr (rule_default rule, traversal_rules)
        | Some v \<Rightarrow>
            if \<not> toggleable rule then Inl ValueError
            else (case v of
                    KBool b \<Rightarrow> Inr (b, AList.delete name traversal_rules)
                  | KOther \<Rightarrow> Inl ValueError))
       (\<lambda>(follow, traversal_rules).
          let out =
            (if follow then
               (case rule_direction rule of
                  Forward \<Rightarrow> out\<lparr>tl_forward := tl_forward out @ [rule_link_type rule]\<rparr>
                | Backward \<Rightarrow> out\<lparr>tl_backward := tl_backward out @ [rule_link_type rule]\<rparr>)
             else out)
          in validate_rules_loop rules traversal_rules
               (out\<lparr>rules_applied := AList.update name follow (rules_applied out)\<rparr>))"

definition validate_traversal_rules :: "ruleset \<Rightarrow> kwarg dict \<Rightarrow> traverse_links res" where
  "validate_traversal_rules ruleset traversal_rules =
     bind_res
       (validate_rules_loop (GraphTraversalRules ruleset) traversal_rules
          \<lparr>rules_applied = [], tl_forward = [], tl_backward = []\<rparr>)
       (\<lambda>(rest, valid_output). if rest \<noteq> [] then Inl ValidationError else Inr valid_output)"

section \<open>Traversal\<close>

record traverse_output =
  out_nodes :: "int set"
  out_links :: "edge set option"

definition graph_rules :: "database \<Rightarrow> bool \<Rightarrow> link_type list \<Rightarrow> link_type list \<Rightarrow> operation list res"
where
  "graph_rules db get_links links_forward links_backward =
     bind_res (QueryRule (query_outgoing db links_forward)) (\<lambda>qo.
     bind_res (QueryRule (query_incoming db links_backward)) (\<lambda>qi.
       Inr ((if links_forward \<noteq> [] \<and> links_backward \<noteq> [] then [RuleSaveWalkers 0] else []) @
            (if links_forward \<noteq> [] then [UpdateRule qo (Some 1) get_links] else []) @
            (if links_forward \<noteq> [] \<and> links_backward \<noteq> [] then [RuleSetWalkers 0] else []) @
            (if links_backward \<noteq> [] then [UpdateRule qi (Some 1) get_links] else []))))"

definition check_missing :: "int set \<Rightarrow> (int set \<Rightarrow> unit res) option \<Rightarrow> unit res" where
  "check_missing missing_pks missing_callback =
     (if missing_pks = {} then Inr ()
      else (case missing_callback of None \<Rightarrow> Inl NotExistent | Some f \<Rightarrow> f missing_pks))"

definition traverse_graph ::
  "database \<Rightarrow> set_input list \<Rightarrow> iterations \<Rightarrow> bool \<Rightarrow> link_type list \<Rightarrow> link_type list \<Rightarrow>
   (int set \<Rightarrow> unit res) option \<Rightarrow> traverse_output res option"
where
  "traverse_graph db starting_pks max_iterations get_links links_forward links_backward missing_callback =
     (case map_res (\<lambda>pk. case pk of IntKey k \<Rightarrow> Inr k | _ \<Rightarrow> Inl TypeError) starting_pks of
        Inl e \<Rightarrow> Some (Inl e)
      | Inr pks \<Rightarrow>
          let operational_set = set pks in
          if operational_set = {}
          then Some (Inr \<lparr>out_nodes = {}, out_links = (if get_links then Some {} else None)\<rparr>)
          else
            let existing_pks = filter (\<lambda>pk. pk \<in> operational_set) (db_nodes db);
                missing_pks = operational_set - set existing_pks
            in case
                 bind_res (check_missing missing_pks missing_callback) (\<lambda>_.
                 bind_res (Basket (ArgIterable (map IntKey existing_pks)) ArgNone ArgNone ArgNone) (\<lambda>basket.
                 bind_res (basket_get_template basket) (\<lambda>stash.
                 bind_res (graph_rules db get_links links_forward links_backward) (\<lambda>rules.
                   Inr (basket, stash, rules)))))
               of
                 Inl e \<Rightarrow> Some (Inl e)
               | Inr (basket, stash, rules) \<Rightarrow>
                   map_option (\<lambda>r. bind_res r (\<lambda>(_, results).
                     Inr \<lparr>out_nodes = keyset (b_nodes results),
                          out_links = (if get_links then Some (keyset (b_nodes_nodes results)) else None)\<rparr>))
                     (run (RuleSequence rules max_iterations) (\<lambda>_. stash) basket))"

record traversal =
  tr_nodes :: "int set"
  tr_links :: "edge set option"
  tr_rules :: "bool dict"

definition get_nodes ::
  "ruleset \<Rightarrow> database \<Rightarrow> set_input list \<Rightarrow> bool \<Rightarrow> (int set \<Rightarrow> unit res) option \<Rightarrow> kwarg dict \<Rightarrow>
   traversal res option"
where
  "get_nodes ruleset db starting_pks get_links missing_callback traversal_rules =
     (case validate_traversal_rules ruleset traversal_rules of
        Inl e \<Rightarrow> Some (Inl e)
      | Inr links \<Rightarrow>
          map_option (\<lambda>r. bind_res r (\<lambda>out.
            Inr \<lparr>tr_nodes = out_nodes out, tr_links = out_links out, tr_rules = rules_applied links\<rparr>))
            (traverse_graph db starting_pks None get_links (tl_forward links) (tl_backward links)
               missing_callback))"

definition get_nodes_delete ::
  "database \<Rightarrow> set_input list \<Rightarrow> bool \<Rightarrow> (int set \<Rightarrow> unit res) option \<Rightarrow> kwarg dict \<Rightarrow>
   traversal res option"
where
  "get_nodes_delete = get_nodes DELETE"

definition get_nodes_export ::
  "database \<Rightarrow> set_input list \<Rightarrow> bool \<Rightarrow> kwarg dict \<Rightarrow> traversal res option"
where
  "get_nodes_export db starting_pks get_links traversal_rules =
     get_nodes EXPORT db starting_pks get_links None traversal_rules"

section \<open>Deletion\<close>

text \<open>\<open>True\<close>, \<open>False\<close>, or a function of the set that says whether this is a dry run.\<close>

datatype dry_run = DryTrue | DryFalse | DryCallable "int set \<Rightarrow> bool"

definition delete_nodes_and_connections :: "int set \<Rightarrow> database \<Rightarrow> database" where
  "delete_nodes_and_connections pks_to_delete db =
     \<lparr>db_nodes = filter (\<lambda>n. n \<notin> pks_to_delete) (db_nodes db),
      db_links = filter (\<lambda>(i, out, t, l). out \<notin> pks_to_delete)
        (filter (\<lambda>(i, out, t, l). i \<notin> pks_to_delete) (db_links db)),
      db_group_nodes = filter (\<lambda>(g, n). n \<notin> pks_to_delete) (db_group_nodes db)\<rparr>"

definition delete_nodes ::
  "database \<Rightarrow> set_input list \<Rightarrow> dry_run \<Rightarrow> kwarg dict \<Rightarrow> (database \<times> int set \<times> bool) res option"
where
  "delete_nodes db pks dry_run traversal_rules =
     map_option (\<lambda>r. bind_res r (\<lambda>out.
       let pks_set_to_delete = tr_nodes out in
       if (case dry_run of DryTrue \<Rightarrow> True | _ \<Rightarrow> False) then Inr (db, pks_set_to_delete, False)
       else if (case dry_run of DryCallable f \<Rightarrow> f pks_set_to_delete | _ \<Rightarrow> False)
       then Inr (db, pks_set_to_delete, False)
       else if pks_set_to_delete = {} then Inr (db, pks_set_to_delete, True)
       else Inr (delete_nodes_and_connections pks_set_to_delete db, pks_set_to_delete, True)))
       (get_nodes_delete db pks False (Some (\<lambda>_. Inr ())) traversal_rules)"

definition delete_group_nodes ::
  "database \<Rightarrow> int list \<Rightarrow> dry_run \<Rightarrow> kwarg dict \<Rightarrow> (database \<times> int set \<times> bool) res option"
where
  "delete_group_nodes db pks dry_run traversal_rules =
     delete_nodes db
       (map IntKey (remdups (map snd (filter (\<lambda>(g, n). g \<in> set pks) (db_group_nodes db)))))
       dry_run traversal_rules"

section \<open>What a traversal returns\<close>

text \<open>One step along an allowed link, and the links that leave a set of nodes.\<close>

definition db_step :: "database \<Rightarrow> link_type list \<Rightarrow> link_type list \<Rightarrow> (int \<times> int) set" where
  "db_step db fw bw =
     {(x, y). \<exists>t l. (x, y, t, l) \<in> set (joined_links db fw) \<or> (y, x, t, l) \<in> set (joined_links db bw)}"

definition links_from :: "database \<Rightarrow> link_type list \<Rightarrow> link_type list \<Rightarrow> int set \<Rightarrow> edge set" where
  "links_from db fw bw X =
     {LinkQuadruple i out t l | i out t l.
        (i, out, t, l) \<in> set (joined_links db fw) \<and> i \<in> X \<or>
        (i, out, t, l) \<in> set (joined_links db bw) \<and> out \<in> X}"

text \<open>The nodes from which links are followed: all that were reached before the last round.\<close>

definition walked :: "(int \<times> int) set \<Rightarrow> iterations \<Rightarrow> int set \<Rightarrow> int set" where
  "walked R m S =
     (case m of None \<Rightarrow> R\<^sup>* `` S | Some k \<Rightarrow> (if k \<le> 0 then {} else ball R (nat k - 1) S))"

definition node_query :: "row list \<Rightarrow> query" where
  "node_query rows = \<lparr>entity_from = Nodes, entity_to = Nodes, q_rows = rows\<rparr>"

definition graph_rel ::
  "database \<Rightarrow> bool \<Rightarrow> link_type list \<Rightarrow> link_type list \<Rightarrow> (item \<times> item) set" where
  "graph_rel db track fw bw =
     query_rel (node_query (qb_rows (query_outgoing db fw))) track \<union>
     query_rel (node_query (qb_rows (query_incoming db bw))) track"

lemma QueryRule_node_queries:
  "QueryRule (query_outgoing db ts) = Inr (node_query (qb_rows (query_outgoing db ts)))"
  "QueryRule (query_incoming db ts) = Inr (node_query (qb_rows (query_incoming db ts)))"
  by (simp_all add: QueryRule_def query_outgoing_def query_incoming_def get_spec_from_path_def
      str_startswith_def node_query_def)

lemma trackable_node_query [simp]: "trackable (node_query rows) track"
  by (simp add: trackable_def node_query_def)

lemma finite_graph_rel: "finite (graph_rel db track fw bw)"
  by (simp add: graph_rel_def finite_query_rel)

lemma query_outgoing_rows:
  "(\<exists>r \<in> set (qb_rows (query_outgoing db ts)). P r) \<longleftrightarrow>
     (\<exists>i out t l. (i, out, t, l) \<in> set (joined_links db ts) \<and>
        P \<lparr>row_first = i, row_last = out, row_edge = (i, out, t, l)\<rparr>)"
  by (simp add: query_outgoing_def Bex_def)

lemma query_incoming_rows:
  "(\<exists>r \<in> set (qb_rows (query_incoming db ts)). P r) \<longleftrightarrow>
     (\<exists>i out t l. (i, out, t, l) \<in> set (joined_links db ts) \<and>
        P \<lparr>row_first = out, row_last = i, row_edge = (i, out, t, l)\<rparr>)"
  by (simp add: query_incoming_def Bex_def)

lemma query_rel_iff:
  "(x, y) \<in> query_rel (node_query rows) track \<longleftrightarrow>
     (\<exists>r \<in> set rows. x = EntityItem Nodes (row_first r) \<and>
        (y = EntityItem Nodes (row_last r) \<or>
         track \<and> y = EdgeItem Nodes (case row_edge r of (i, out, t, l) \<Rightarrow> LinkQuadruple i out t l)))"
  by (auto simp: query_rel_def node_query_def edge_key_def edge_of_row_def)

lemma graph_rel_nodes:
  "(EntityItem Nodes x, EntityItem Nodes y) \<in> graph_rel db track fw bw \<longleftrightarrow> (x, y) \<in> db_step db fw bw"
  unfolding graph_rel_def Un_iff query_rel_iff query_outgoing_rows query_incoming_rows
  by (simp add: db_step_def) blast

lemma graph_rel_links:
  "(EntityItem Nodes x, EdgeItem Nodes e) \<in> graph_rel db track fw bw \<longleftrightarrow>
     track \<and> e \<in> links_from db fw bw {x}"
  unfolding graph_rel_def Un_iff query_rel_iff query_outgoing_rows query_incoming_rows
  by (simp add: links_from_def) blast

lemma graph_rel_cases:
  assumes "(a, b) \<in> graph_rel db track fw bw"
  obtains x y where "a = EntityItem Nodes x" "b = EntityItem Nodes y"
  | x e where "a = EntityItem Nodes x" "b = EdgeItem Nodes e"
  using assms by (auto simp: graph_rel_def query_rel_iff)

lemma links_from_UN: "links_from db fw bw X = (\<Union>x \<in> X. links_from db fw bw {x})"
  by (auto simp: links_from_def)

definition graph_items :: "int set \<Rightarrow> edge set \<Rightarrow> item set" where
  "graph_items X E = EntityItem Nodes ` X \<union> EdgeItem Nodes ` E"

lemma graph_items_iff [simp]:
  "EntityItem key x \<in> graph_items X E \<longleftrightarrow> key = Nodes \<and> x \<in> X"
  "EdgeItem key e \<in> graph_items X E \<longleftrightarrow> key = Nodes \<and> e \<in> E"
  by (auto simp: graph_items_def)

lemma graph_items_Un: "graph_items X E \<union> graph_items X' E' = graph_items (X \<union> X') (E \<union> E')"
  by (auto simp: graph_items_def)

lemma graph_items_UN: "(\<Union>n. graph_items (f n) (g n)) = graph_items (\<Union>n. f n) (\<Union>n. g n)"
  by (auto simp: graph_items_def)

lemma graph_rel_Image:
  "graph_rel db track fw bw `` graph_items X E =
     graph_items (db_step db fw bw `` X) (if track then links_from db fw bw X else {})"
proof (rule set_eqI)
  fix b
  have "b \<in> graph_rel db track fw bw `` graph_items X E \<longleftrightarrow>
      (\<exists>x \<in> X. (EntityItem Nodes x, b) \<in> graph_rel db track fw bw)" (is "?l \<longleftrightarrow> _")
  proof
    assume ?l
    then obtain a where a: "a \<in> graph_items X E" "(a, b) \<in> graph_rel db track fw bw" by auto
    from a(2) obtain x where "a = EntityItem Nodes x" by (auto elim: graph_rel_cases)
    with a show "\<exists>x \<in> X. (EntityItem Nodes x, b) \<in> graph_rel db track fw bw" by auto
  next
    assume "\<exists>x \<in> X. (EntityItem Nodes x, b) \<in> graph_rel db track fw bw"
    then show ?l by (auto simp: graph_items_def)
  qed
  also have "\<dots> \<longleftrightarrow>
      b \<in> graph_items (db_step db fw bw `` X) (if track then links_from db fw bw X else {})" (is "_ \<longleftrightarrow> ?r")
  proof (cases b)
    case (EntityItem key y)
    then show ?thesis
      by (cases key) (auto simp: graph_rel_nodes elim: graph_rel_cases)
  next
    case (EdgeItem key e)
    then show ?thesis
      by (cases key) (auto simp: graph_rel_links links_from_UN [of db fw bw X] elim: graph_rel_cases)
  qed
  finally show "?l \<longleftrightarrow> ?r" .
qed

lemma links_from_mono: "X \<subseteq> Y \<Longrightarrow> links_from db fw bw X \<subseteq> links_from db fw bw Y"
  unfolding links_from_UN [of db fw bw X] links_from_UN [of db fw bw Y] by blast

primrec ball_links :: "database \<Rightarrow> link_type list \<Rightarrow> link_type list \<Rightarrow> nat \<Rightarrow> int set \<Rightarrow> edge set" where
  "ball_links db fw bw 0 S = {}"
| "ball_links db fw bw (Suc n) S = links_from db fw bw (ball (db_step db fw bw) n S)"

lemma ball_graph_rel:
  "ball (graph_rel db track fw bw) n (graph_items S {}) =
     graph_items (ball (db_step db fw bw) n S) (if track then ball_links db fw bw n S else {})"
proof (induction n)
  case (Suc n)
  have "ball_links db fw bw n S \<subseteq> links_from db fw bw (ball (db_step db fw bw) n S)"
    by (cases n) (auto intro!: links_from_mono)
  then show ?case
    by (auto simp: Suc graph_rel_Image graph_items_Un Un_absorb1)
qed (simp add: graph_items_Un)

lemma rtrancl_ball: "R\<^sup>* `` S = (\<Union>n. ball R n S)"
proof (rule antisym)
  show "R\<^sup>* `` S \<subseteq> (\<Union>n. ball R n S)"
    using rtrancl_imp_relpow by (fastforce simp: ball_iff_relpow)
  show "(\<Union>n. ball R n S) \<subseteq> R\<^sup>* `` S"
    using ball_subset_rtrancl by fast
qed

lemma UN_ball_links:
  "(\<Union>n. ball_links db fw bw n S) = links_from db fw bw (\<Union>n. ball (db_step db fw bw) n S)"
proof -
  have "(\<Union>n. ball_links db fw bw n S) = (\<Union>n. ball_links db fw bw (Suc n) S)"
  proof (intro antisym UN_least)
    fix n show "ball_links db fw bw n S \<subseteq> (\<Union>n. ball_links db fw bw (Suc n) S)"
      by (cases n) auto
  next
    fix n show "ball_links db fw bw (Suc n) S \<subseteq> (\<Union>n. ball_links db fw bw n S)"
      by (rule UN_upper) simp
  qed
  also have "\<dots> = links_from db fw bw (\<Union>n. ball (db_step db fw bw) n S)"
    by (auto simp: links_from_def)
  finally show ?thesis .
qed

lemma reach_graph_rel:
  "reach_upto (graph_rel db track fw bw) m (graph_items S {}) =
     graph_items (reach_upto (db_step db fw bw) m S)
       (if track then links_from db fw bw (walked (db_step db fw bw) m S) else {})"
proof (cases m)
  case None
  then show ?thesis
    by (cases track)
       (simp_all add: reach_upto_def walked_def rtrancl_ball ball_graph_rel graph_items_UN UN_ball_links)
next
  case (Some k)
  have "ball_links db fw bw (nat k) S = links_from db fw bw (walked (db_step db fw bw) m S)"
    using Some by (cases "nat k") (auto simp: walked_def links_from_def)
  then show ?thesis
    using Some by (simp add: reach_upto_def ball_graph_rel)
qed

subsection \<open>The rules of \<open>traverse_graph\<close>\<close>

lemma expands_update:
  assumes "trackable q track"
  shows "expands [run (UpdateRule q (Some 1) track)] (query_rel q track)"
  unfolding expands_def
proof (intro allI impI)
  fix st :: stashes and op new visits
  assume wf: "\<forall>k. wf_basket (st k)" "wf_basket op" "wf_basket new" "wf_basket visits"
  obtain b where b: "run (UpdateRule q (Some 1) track) st op = Some (Inr (st, b))" "wf_basket b"
    "items b = items op \<union> query_rel q track `` items op"
    using run_UpdateRule_once [OF wf(2) assms] by blast
  show "\<exists>st' new' visits' X.
      run_rules [run (UpdateRule q (Some 1) track)] st op new visits = Some (Inr (st', new', visits')) \<and>
      (\<forall>k. wf_basket (st' k)) \<and> wf_basket new' \<and> wf_basket visits' \<and>
      items new' = items new \<union> X \<and> items visits' = items visits \<union> X \<and>
      query_rel q track `` items op \<subseteq> X \<and> X \<subseteq> items op \<union> query_rel q track `` items op"
    by (rule run_rules_Cons [of "run (UpdateRule q (Some 1) track)" st op, OF b(1,2) wf(3,4), of "[]"]) (use b wf in \<open>auto simp del: run.simps\<close>)
qed

lemma expands_both:
  assumes "trackable q track" "trackable q' track"
  shows "expands [run (RuleSaveWalkers 0), run (UpdateRule q (Some 1) track), run (RuleSetWalkers 0),
      run (UpdateRule q' (Some 1) track)] (query_rel q track \<union> query_rel q' track)"
  unfolding expands_def
proof (intro allI impI)
  fix st :: stashes and op new visits
  assume wf: "\<forall>k. wf_basket (st k)" "wf_basket op" "wf_basket new" "wf_basket visits"
  let ?R = "query_rel q track" and ?R' = "query_rel q' track"
  let ?save = "run (RuleSaveWalkers 0)" and ?out = "run (UpdateRule q (Some 1) track)"
  let ?load = "run (RuleSetWalkers 0)" and ?in = "run (UpdateRule q' (Some 1) track)"
  obtain st1 where st1: "?save st op = Some (Inr (st1, op))" "\<forall>k. wf_basket (st1 k)"
    "items (st1 0) = items op"
    using run_RuleSaveWalkers [OF wf(1,2)] by blast
  obtain b1 where b1: "?out st1 op = Some (Inr (st1, b1))" "wf_basket b1"
    "items b1 = items op \<union> ?R `` items op"
    using run_UpdateRule_once [OF wf(2) assms(1)] by blast
  obtain b2 where b2: "?load st1 b1 = Some (Inr (st1, b2))" "wf_basket b2" "items b2 = items op"
    using run_RuleSetWalkers [OF st1(2) b1(2)] st1(3) by metis
  obtain b3 where b3: "?in st1 b2 = Some (Inr (st1, b3))" "wf_basket b3"
    "items b3 = items op \<union> ?R' `` items op"
    using run_UpdateRule_once [OF b2(2) assms(2)] b2(3) by metis
  obtain n1 v1 where 1: "run_rules [?save, ?out, ?load, ?in] st op new visits =
      run_rules [?out, ?load, ?in] st1 op n1 v1"
    "wf_basket n1" "wf_basket v1" "items n1 = items new \<union> items op" "items v1 = items visits \<union> items op"
    by (rule run_rules_Cons [of ?save st op, OF st1(1) wf(2,3,4)])
  obtain n2 v2 where 2: "run_rules [?out, ?load, ?in] st1 op n1 v1 = run_rules [?load, ?in] st1 b1 n2 v2"
    "wf_basket n2" "wf_basket v2" "items n2 = items n1 \<union> items b1" "items v2 = items v1 \<union> items b1"
    by (rule run_rules_Cons [of ?out st1 op, OF b1(1,2) 1(2,3)])
  obtain n3 v3 where 3: "run_rules [?load, ?in] st1 b1 n2 v2 = run_rules [?in] st1 b2 n3 v3"
    "wf_basket n3" "wf_basket v3" "items n3 = items n2 \<union> items b2" "items v3 = items v2 \<union> items b2"
    by (rule run_rules_Cons [of ?load st1 b1, OF b2(1,2) 2(2,3)])
  obtain n4 v4 where 4: "run_rules [?in] st1 b2 n3 v3 = run_rules [] st1 b3 n4 v4"
    "wf_basket n4" "wf_basket v4" "items n4 = items n3 \<union> items b3" "items v4 = items v3 \<union> items b3"
    by (rule run_rules_Cons [of ?in st1 b2, OF b3(1,2) 3(2,3)])
  let ?X = "items op \<union> ?R `` items op \<union> ?R' `` items op"
  have "run_rules [?save, ?out, ?load, ?in] st op new visits = Some (Inr (st1, n4, v4))"
    using 1(1) 2(1) 3(1) 4(1) by simp
  moreover have "items n4 = items new \<union> ?X" "items v4 = items visits \<union> ?X"
    using 1 2 3 4 b1 b2 b3 by auto
  ultimately show "\<exists>st' new' visits' X.
      run_rules [?save, ?out, ?load, ?in] st op new visits = Some (Inr (st', new', visits')) \<and>
      (\<forall>k. wf_basket (st' k)) \<and> wf_basket new' \<and> wf_basket visits' \<and>
      items new' = items new \<union> X \<and> items visits' = items visits \<union> X \<and>
      (?R \<union> ?R') `` items op \<subseteq> X \<and> X \<subseteq> items op \<union> (?R \<union> ?R') `` items op"
    using st1(2) 4(2,3) by (intro exI [of _ st1] exI [of _ n4] exI [of _ v4] exI [of _ ?X]) auto
qed

lemma query_rel_no_types:
  "query_rel (node_query (qb_rows (query_outgoing db []))) track = {}"
  "query_rel (node_query (qb_rows (query_incoming db []))) track = {}"
  by (auto simp: query_rel_def node_query_def query_outgoing_def query_incoming_def joined_links_def)

lemma graph_rules_expand:
  "\<exists>rules. graph_rules db track fw bw = Inr rules \<and>
     expands (map run rules) (graph_rel db track fw bw)"
proof -
  let ?o = "node_query (qb_rows (query_outgoing db fw))"
  let ?i = "node_query (qb_rows (query_incoming db bw))"
  show ?thesis
    using expands_Nil expands_update [of ?o track] expands_update [of ?i track]
      expands_both [of ?o track ?i]
    by (cases fw; cases bw)
       (simp_all add: graph_rules_def QueryRule_node_queries graph_rel_def query_rel_no_types
         del: run.simps run_rules.simps)
qed

lemma Basket_of_pks:
  "Basket (ArgIterable (map IntKey pks)) ArgNone ArgNone ArgNone = Inr (mk_basket (set pks) {} {} {})"
  using entities.set_keys [of pks "\<lparr>template = NodeCls, keyset = {}\<rparr>"]
  by (simp add: Basket_def AiidaEntitySet_def DirectedEdgeSet_def VALID_ENTITY_CLASSES_def mk_basket_def)

lemma map_res_pks:
  "map_res (\<lambda>pk. case pk of IntKey k \<Rightarrow> Inr k | _ \<Rightarrow> Inl TypeError) (map IntKey pks) = Inr pks"
  by (induction pks) auto

text \<open>The traversal of a list of integers whose missing ones are dealt with.\<close>

lemma traverse_graph_result:
  assumes "check_missing (set pks - set (db_nodes db)) cb = Inr ()"
  shows "traverse_graph db (map IntKey pks) m get_links fw bw cb =
    Some (Inr \<lparr>out_nodes = reach_upto (db_step db fw bw) m (set pks \<inter> set (db_nodes db)),
      out_links = (if get_links
        then Some (links_from db fw bw (walked (db_step db fw bw) m (set pks \<inter> set (db_nodes db))))
        else None)\<rparr>)"
proof (cases "pks = []")
  case True
  have "reach_upto (db_step db fw bw) m {} = {}" "walked (db_step db fw bw) m {} = {}"
    "links_from db fw bw {} = {}"
    by (auto simp: reach_upto_def walked_def rtrancl_ball ball_iff_relpow links_from_def
        split: option.split)
  then show ?thesis
    using True by (simp add: traverse_graph_def)
next
  case False
  let ?S = "set pks \<inter> set (db_nodes db)"
  let ?existing = "filter (\<lambda>pk. pk \<in> set pks) (db_nodes db)"
  have S: "set ?existing = ?S" "set pks - ?S = set pks - set (db_nodes db)"
    by auto
  obtain rules where rules: "graph_rules db get_links fw bw = Inr rules"
    "expands (map run rules) (graph_rel db get_links fw bw)"
    using graph_rules_expand by blast
  let ?b = "mk_basket ?S {} {} {}" and ?t = "mk_basket {} {} {} {}"
  have "items ?b = graph_items ?S {}"
    by (simp add: items_mk_basket graph_items_def)
  then obtain st b where run: "run (RuleSequence rules m) (\<lambda>_. ?t) ?b = Some (Inr (st, b))"
    and b: "items b = graph_items (reach_upto (db_step db fw bw) m ?S)
      (if get_links then links_from db fw bw (walked (db_step db fw bw) m ?S) else {})"
    using RuleSequence_run_items [OF rules(2) finite_graph_rel, of "\<lambda>_. ?t" ?b m]
    by (auto simp: reach_graph_rel)
  have "keyset (b_nodes b) = reach_upto (db_step db fw bw) m ?S"
    "keyset (b_nodes_nodes b) =
       (if get_links then links_from db fw bw (walked (db_step db fw bw) m ?S) else {})"
    using b by (simp_all add: set_eq_iff flip: entity_in_items)
  then show ?thesis
    using False assms rules(1) run S
    unfolding traverse_graph_def map_res_pks Let_def Basket_of_pks
    by (simp add: Basket_of_pks S)
qed

subsection \<open>The rules that are followed\<close>

definition rule_follow :: "kwarg dict \<Rightarrow> string \<times> traversal_rule \<Rightarrow> bool" where
  "rule_follow kwargs = (\<lambda>(name, rule).
     case map_of kwargs name of Some (KBool b) \<Rightarrow> b | _ \<Rightarrow> rule_default rule)"

definition rule_accepts :: "kwarg dict \<Rightarrow> string \<times> traversal_rule \<Rightarrow> bool" where
  "rule_accepts kwargs = (\<lambda>(name, rule).
     case map_of kwargs name of None \<Rightarrow> True | Some (KBool _) \<Rightarrow> toggleable rule | Some KOther \<Rightarrow> False)"

definition followed :: "(string \<times> traversal_rule) list \<Rightarrow> kwarg dict \<Rightarrow> direction \<Rightarrow> link_type list" where
  "followed rules kwargs d =
     map (\<lambda>(name, rule). rule_link_type rule)
       (filter (\<lambda>r. rule_follow kwargs r \<and> rule_direction (snd r) = d) rules)"

lemma validate_rules_loop_eq:
  assumes "distinct (map fst rules)" "\<forall>r \<in> set rules. fst r \<notin> fst ` set (rules_applied out)"
  shows "validate_rules_loop rules kwargs out =
    (if \<forall>r \<in> set rules. rule_accepts kwargs r
     then Inr (filter (\<lambda>(k, v). k \<notin> fst ` set rules) kwargs,
       \<lparr>rules_applied = rules_applied out @ map (\<lambda>r. (fst r, rule_follow kwargs r)) rules,
        tl_forward = tl_forward out @ followed rules kwargs Forward,
        tl_backward = tl_backward out @ followed rules kwargs Backward\<rparr>)
     else Inl ValueError)"
  using assms
proof (induction rules arbitrary: kwargs out)
  case Nil
  then show ?case by (simp add: followed_def)
next
  case (Cons r rules)
  obtain name rule where r: "r = (name, rule)" by fastforce
  define follow where "follow = rule_follow kwargs r"
  define kwargs' where "kwargs' = filter (\<lambda>(k, v). k \<noteq> name) kwargs"
  define out' where "out' =
    (if follow then
       (case rule_direction rule of
          Forward \<Rightarrow> out\<lparr>tl_forward := tl_forward out @ [rule_link_type rule]\<rparr>
        | Backward \<Rightarrow> out\<lparr>tl_backward := tl_backward out @ [rule_link_type rule]\<rparr>)
     else out)\<lparr>rules_applied := rules_applied out @ [(name, follow)]\<rparr>"
  have same: "map_of kwargs' k = map_of kwargs k" if "k \<noteq> name" for k
    using that by (simp add: kwargs'_def flip: AList_delete_filter)
  have "fst r' \<noteq> name" if "r' \<in> set rules" for r'
    using that Cons.prems(1) r by auto
  then have rest: "rule_accepts kwargs' r' = rule_accepts kwargs r'"
    "rule_follow kwargs' r' = rule_follow kwargs r'" if "r' \<in> set rules" for r'
    using that same [of "fst r'"] by (simp_all add: rule_accepts_def rule_follow_def case_prod_unfold)
  have fol: "followed rules kwargs' d = followed rules kwargs d" for d
    using rest by (auto simp: followed_def cong: filter_cong)
  have step: "validate_rules_loop (r # rules) kwargs out =
      (if rule_accepts kwargs r then validate_rules_loop rules kwargs' out' else Inl ValueError)"
  proof (cases "map_of kwargs name")
    case None
    then have "kwargs' = kwargs"
      by (auto simp: kwargs'_def map_of_eq_None_iff intro!: filter_True) (metis fst_conv image_eqI)
    with None show ?thesis
      using Cons.prems(2) r
      by (auto simp: Let_def out'_def follow_def rule_accepts_def rule_follow_def AList_update_fresh
          split: direction.splits)
  next
    case (Some v)
    then show ?thesis
      using Cons.prems(2) r
      by (cases v)
         (auto simp: Let_def out'_def follow_def rule_accepts_def rule_follow_def AList_update_fresh
           kwargs'_def AList_delete_filter split: direction.splits)
  qed
  have "rules_applied out' = rules_applied out @ [(name, follow)]"
    "tl_forward out' = tl_forward out @ followed [r] kwargs Forward"
    "tl_backward out' = tl_backward out @ followed [r] kwargs Backward"
    by (auto simp: out'_def followed_def r follow_def split: direction.splits)
  moreover have "followed (r # rules) kwargs d = followed [r] kwargs d @ followed rules kwargs d" for d
    by (simp add: followed_def)
  moreover have "filter (\<lambda>(k, v). k \<notin> fst ` set rules) kwargs' =
      filter (\<lambda>(k, v). k \<notin> fst ` set (r # rules)) kwargs"
    by (auto simp: kwargs'_def r intro!: filter_cong)
  moreover have "fst r = name"
    by (simp add: r)
  moreover have "\<forall>r' \<in> set rules. fst r' \<notin> fst ` set (rules_applied out @ [(name, follow)])"
    using Cons.prems r by auto
  ultimately show ?case
    using Cons.prems(1) Cons.IH [of out' kwargs'] rest fol unfolding step
    by (auto simp: follow_def)
qed

lemma GraphTraversalRules_distinct: "distinct (map fst (GraphTraversalRules rs))"
  by (cases rs) simp_all

lemma validate_traversal_rules_eq:
  "validate_traversal_rules rs kwargs =
    (if \<not> (\<forall>r \<in> set (GraphTraversalRules rs). rule_accepts kwargs r) then Inl ValueError
     else if \<not> fst ` set kwargs \<subseteq> fst ` set (GraphTraversalRules rs) then Inl ValidationError
     else Inr \<lparr>rules_applied = map (\<lambda>r. (fst r, rule_follow kwargs r)) (GraphTraversalRules rs),
       tl_forward = followed (GraphTraversalRules rs) kwargs Forward,
       tl_backward = followed (GraphTraversalRules rs) kwargs Backward\<rparr>)"
proof -
  have unknown: "filter (\<lambda>(k, v). k \<notin> K) kwargs = [] \<longleftrightarrow> fst ` set kwargs \<subseteq> K" for K
    unfolding filter_empty_conv by fastforce
  show ?thesis
    using GraphTraversalRules_distinct [of rs]
    by (simp add: validate_traversal_rules_def validate_rules_loop_eq unknown)
qed

lemma followed_fixed:
  assumes "\<forall>r \<in> set rules. rule_accepts kwargs r" "(name, rule) \<in> set rules"
    "\<not> toggleable rule" "rule_default rule"
  shows "rule_link_type rule \<in> set (followed rules kwargs (rule_direction rule))"
proof -
  have "rule_follow kwargs (name, rule)"
    using assms by (force simp: rule_accepts_def rule_follow_def split: option.splits kwarg.splits)
  then show ?thesis
    using assms(2) by (force simp: followed_def)
qed

lemma delete_rules_fixed:
  assumes "validate_traversal_rules DELETE kwargs = Inr links"
  shows "{INPUT_CALC, INPUT_WORK} \<subseteq> set (tl_forward links)"
    and "{CREATE, RETURN, CALL_CALC, CALL_WORK} \<subseteq> set (tl_backward links)"
proof -
  have acc: "\<forall>r \<in> set (GraphTraversalRules DELETE). rule_accepts kwargs r"
    and fw: "tl_forward links = followed (GraphTraversalRules DELETE) kwargs Forward"
    and bw: "tl_backward links = followed (GraphTraversalRules DELETE) kwargs Backward"
    using assms by (auto simp: validate_traversal_rules_eq simp del: GraphTraversalRules.simps split: if_splits)
  note fixed = followed_fixed [OF acc]
  show "{INPUT_CALC, INPUT_WORK} \<subseteq> set (tl_forward links)"
    using fixed [of "''input_calc_forward''" "GraphTraversalRule INPUT_CALC Forward False True"]
      fixed [of "''input_work_forward''" "GraphTraversalRule INPUT_WORK Forward False True"] fw by simp
  show "{CREATE, RETURN, CALL_CALC, CALL_WORK} \<subseteq> set (tl_backward links)"
    using fixed [of "''create_backward''" "GraphTraversalRule CREATE Backward False True"]
      fixed [of "''return_backward''" "GraphTraversalRule RETURN Backward False True"]
      fixed [of "''call_calc_backward''" "GraphTraversalRule CALL_CALC Backward False True"]
      fixed [of "''call_work_backward''" "GraphTraversalRule CALL_WORK Backward False True"] bw by simp
qed

lemma export_rules_fixed:
  assumes "validate_traversal_rules EXPORT kwargs = Inr links"
  shows "{CREATE, RETURN, CALL_CALC, CALL_WORK} \<subseteq> set (tl_forward links)"
    and "{INPUT_CALC, INPUT_WORK} \<subseteq> set (tl_backward links)"
proof -
  have acc: "\<forall>r \<in> set (GraphTraversalRules EXPORT). rule_accepts kwargs r"
    and fw: "tl_forward links = followed (GraphTraversalRules EXPORT) kwargs Forward"
    and bw: "tl_backward links = followed (GraphTraversalRules EXPORT) kwargs Backward"
    using assms by (auto simp: validate_traversal_rules_eq simp del: GraphTraversalRules.simps split: if_splits)
  note fixed = followed_fixed [OF acc]
  show "{CREATE, RETURN, CALL_CALC, CALL_WORK} \<subseteq> set (tl_forward links)"
    using fixed [of "''create_forward''" "GraphTraversalRule CREATE Forward False True"]
      fixed [of "''return_forward''" "GraphTraversalRule RETURN Forward False True"]
      fixed [of "''call_calc_forward''" "GraphTraversalRule CALL_CALC Forward False True"]
      fixed [of "''call_work_forward''" "GraphTraversalRule CALL_WORK Forward False True"] fw by simp
  show "{INPUT_CALC, INPUT_WORK} \<subseteq> set (tl_backward links)"
    using fixed [of "''input_calc_backward''" "GraphTraversalRule INPUT_CALC Backward False True"]
      fixed [of "''input_work_backward''" "GraphTraversalRule INPUT_WORK Backward False True"] bw by simp
qed

lemma get_nodes_result:
  assumes "validate_traversal_rules rs kwargs = Inr links"
    "check_missing (set pks - set (db_nodes db)) cb = Inr ()"
  shows "get_nodes rs db (map IntKey pks) get_links cb kwargs =
    Some (Inr \<lparr>tr_nodes = (db_step db (tl_forward links) (tl_backward links))\<^sup>* `` (set pks \<inter> set (db_nodes db)),
      tr_links = (if get_links then Some (links_from db (tl_forward links) (tl_backward links)
         ((db_step db (tl_forward links) (tl_backward links))\<^sup>* `` (set pks \<inter> set (db_nodes db)))) else None),
      tr_rules = rules_applied links\<rparr>)"
  using assms by (simp add: get_nodes_def traverse_graph_result reach_upto_def walked_def)

text \<open>The node of a link that is a process recording the link in its own provenance, and the other.\<close>

definition process_end :: "db_link \<Rightarrow> int" where
  "process_end = (\<lambda>(i, out, t, l). if t \<in> {INPUT_CALC, INPUT_WORK} then out else i)"

definition other_end :: "db_link \<Rightarrow> int" where
  "other_end = (\<lambda>(i, out, t, l). if t \<in> {INPUT_CALC, INPUT_WORK} then i else out)"

definition no_dangling :: "database \<Rightarrow> bool" where
  "no_dangling db \<longleftrightarrow>
     list_all (\<lambda>(i, out, t, l). i \<in> set (db_nodes db) \<and> out \<in> set (db_nodes db)) (db_links db)"

lemma delete_step:
  assumes "no_dangling db" "link \<in> set (db_links db)"
    "{INPUT_CALC, INPUT_WORK} \<subseteq> set fw" "{CREATE, RETURN, CALL_CALC, CALL_WORK} \<subseteq> set bw"
  shows "(other_end link, process_end link) \<in> db_step db fw bw"
proof -
  obtain i out t l where link: "link = (i, out, t, l)" by (cases link)
  then have "i \<in> set (db_nodes db)" "out \<in> set (db_nodes db)"
    using assms(1,2) by (auto simp: no_dangling_def list_all_iff)
  then show ?thesis
    using assms(2-4) link
    by (cases t) (auto simp: db_step_def joined_links_def process_end_def other_end_def)
qed

lemma export_step:
  assumes "no_dangling db" "link \<in> set (db_links db)"
    "{CREATE, RETURN, CALL_CALC, CALL_WORK} \<subseteq> set fw" "{INPUT_CALC, INPUT_WORK} \<subseteq> set bw"
  shows "(process_end link, other_end link) \<in> db_step db fw bw"
proof -
  obtain i out t l where link: "link = (i, out, t, l)" by (cases link)
  then have "i \<in> set (db_nodes db)" "out \<in> set (db_nodes db)"
    using assms(1,2) by (auto simp: no_dangling_def list_all_iff)
  then show ?thesis
    using assms(2-4) link
    by (cases t) (auto simp: db_step_def joined_links_def process_end_def other_end_def)
qed

lemma delete_nodes_result:
  assumes "validate_traversal_rules DELETE kwargs = Inr links"
    "D = (db_step db (tl_forward links) (tl_backward links))\<^sup>* `` (set pks \<inter> set (db_nodes db))"
  shows "delete_nodes db (map IntKey pks) DryFalse kwargs =
    Some (Inr (delete_nodes_and_connections D db, D, True))"
proof -
  have "delete_nodes_and_connections {} db = db"
    by (cases db) (simp add: delete_nodes_and_connections_def case_prod_unfold)
  then show ?thesis
    using get_nodes_result [OF assms(1), of pks db "Some (\<lambda>_. Inr ())" False]
    by (auto simp: delete_nodes_def get_nodes_delete_def check_missing_def assms(2) Let_def)
qed

text \<open>An export set with its links: those between the nodes of the set.\<close>

definition links_within :: "database \<Rightarrow> int set \<Rightarrow> edge set" where
  "links_within db X = {LinkQuadruple i out t l | i out t l. (i, out, t, l) \<in> set (db_links db) \<and> i \<in> X \<and> out \<in> X}"

lemma reachable_in_nodes: "S \<subseteq> set (db_nodes db) \<Longrightarrow> (db_step db fw bw)\<^sup>* `` S \<subseteq> set (db_nodes db)"
proof -
  have "y \<in> set (db_nodes db)" if "(x, y) \<in> (db_step db fw bw)\<^sup>*" "x \<in> set (db_nodes db)" for x y
    using that by (induction rule: rtrancl_induct) (auto simp: db_step_def joined_links_def)
  then show "S \<subseteq> set (db_nodes db) \<Longrightarrow> (db_step db fw bw)\<^sup>* `` S \<subseteq> set (db_nodes db)"
    by blast
qed

lemma links_from_closed:
  assumes "no_dangling db" "{CREATE, RETURN, CALL_CALC, CALL_WORK} \<subseteq> set fw" "{INPUT_CALC, INPUT_WORK} \<subseteq> set bw"
    and "X = (db_step db fw bw)\<^sup>* `` S"
  shows "links_from db fw bw X = links_within db X"
proof -
  have step: "y \<in> X" if "x \<in> X" "(x, y) \<in> db_step db fw bw" for x y
    using that assms(4) by (auto intro: rtrancl_into_rtrancl)
  have "LinkQuadruple i out t l \<in> links_from db fw bw X \<longleftrightarrow> (i, out, t, l) \<in> set (db_links db) \<and> i \<in> X \<and> out \<in> X" for i out t l
  proof
    assume "LinkQuadruple i out t l \<in> links_from db fw bw X"
    then show "(i, out, t, l) \<in> set (db_links db) \<and> i \<in> X \<and> out \<in> X"
      using step [of i out] step [of out i] by (auto simp: links_from_def db_step_def joined_links_def)
  next
    assume *: "(i, out, t, l) \<in> set (db_links db) \<and> i \<in> X \<and> out \<in> X"
    then have "i \<in> set (db_nodes db)" "out \<in> set (db_nodes db)"
      using assms(1) by (auto simp: no_dangling_def list_all_iff)
    then show "LinkQuadruple i out t l \<in> links_from db fw bw X"
      using * assms(2,3) by (cases t) (auto simp: links_from_def joined_links_def)
  qed
  then show ?thesis
    by (force simp: links_within_def links_from_def)
qed

lemma get_nodes_export_result:
  assumes "validate_traversal_rules EXPORT kwargs = Inr links" "no_dangling db"
  shows "\<exists>X. get_nodes_export db (map IntKey pks) True kwargs =
      (if set pks \<subseteq> set (db_nodes db)
       then Some (Inr \<lparr>tr_nodes = X, tr_links = Some (links_within db X), tr_rules = rules_applied links\<rparr>)
       else Some (Inl NotExistent))
    \<and> (set pks \<subseteq> set (db_nodes db) \<longrightarrow> set pks \<subseteq> X \<and> X \<subseteq> set (db_nodes db)
        \<and> (\<forall>link \<in> set (db_links db). process_end link \<in> X \<longrightarrow> other_end link \<in> X))"
proof (cases "set pks \<subseteq> set (db_nodes db)")
  case True
  let ?X = "(db_step db (tl_forward links) (tl_backward links))\<^sup>* `` set pks"
  note fixed = export_rules_fixed [OF assms(1)]
  have "set pks - set (db_nodes db) = {}" "set pks \<inter> set (db_nodes db) = set pks"
    using True by auto
  then have "get_nodes_export db (map IntKey pks) True kwargs =
      Some (Inr \<lparr>tr_nodes = ?X, tr_links = Some (links_within db ?X), tr_rules = rules_applied links\<rparr>)"
    using get_nodes_result [OF assms(1), of pks db None True]
    by (simp add: get_nodes_export_def check_missing_def links_from_closed [OF assms(2) fixed refl])
  moreover have "other_end link \<in> ?X" if "link \<in> set (db_links db)" "process_end link \<in> ?X" for link
    using that export_step [OF assms(2) that(1) fixed] by (auto intro: rtrancl_into_rtrancl)
  ultimately show ?thesis
    using True reachable_in_nodes [OF True] by (intro exI [of _ ?X]) auto
next
  case False
  then have "traverse_graph db (map IntKey pks) None True (tl_forward links) (tl_backward links) None = Some (Inl NotExistent)"
    by (auto simp: traverse_graph_def map_res_pks check_missing_def Let_def)
  then show ?thesis
    using False assms(1) by (simp add: get_nodes_export_def get_nodes_def)
qed

section \<open>Properties\<close>

text \<open>C13: \<open>traverse_graph\<close> without an iteration limit always ends, and returns exactly the nodes that
  can be reached from the starting nodes along links of the forward types (from input to output)
  and of the backward types (from output to input), with exactly the links of those types that
  leave a returned node in the allowed direction.\<close>

theorem traverse_graph_reachable:
  assumes "set pks \<subseteq> set (db_nodes db)"
  shows "traverse_graph db (map IntKey pks) None True fw bw None =
    Some (Inr \<lparr>out_nodes = (db_step db fw bw)\<^sup>* `` set pks,
               out_links = Some (links_from db fw bw ((db_step db fw bw)\<^sup>* `` set pks))\<rparr>)"
proof -
  have "set pks - set (db_nodes db) = {}" "set pks \<inter> set (db_nodes db) = set pks"
    using assms by auto
  then show ?thesis
    using traverse_graph_result [of pks db None None True fw bw]
    by (simp add: check_missing_def reach_upto_def walked_def)
qed

definition example_db :: database where
  "example_db =
     \<lparr>db_nodes = [1, 2, 3, 4, 5],
      db_links = [(1, 2, INPUT_CALC, ''x''), (2, 3, CREATE, ''y''), (4, 2, CALL_CALC, ''CALL''),
                  (1, 4, INPUT_WORK, ''x''), (4, 3, RETURN, ''y'')],
      db_group_nodes = [(7, 1)]\<rparr>"

theorem traverse_graph_reachable_witness:
  "set [1] \<subseteq> set (db_nodes example_db) \<and>
   traverse_graph example_db (map IntKey [1]) None True [INPUT_CALC, CREATE] [] None =
     Some (Inr \<lparr>out_nodes = (db_step example_db [INPUT_CALC, CREATE] [])\<^sup>* `` set [1],
                out_links = Some (links_from example_db [INPUT_CALC, CREATE] []
                  ((db_step example_db [INPUT_CALC, CREATE] [])\<^sup>* `` set [1]))\<rparr>)"
proof
  show start: "set [1] \<subseteq> set (db_nodes example_db)"
    by (simp add: example_db_def)
  show "traverse_graph example_db (map IntKey [1]) None True [INPUT_CALC, CREATE] [] None =
     Some (Inr \<lparr>out_nodes = (db_step example_db [INPUT_CALC, CREATE] [])\<^sup>* `` set [1],
                out_links = Some (links_from example_db [INPUT_CALC, CREATE] []
                  ((db_step example_db [INPUT_CALC, CREATE] [])\<^sup>* `` set [1]))\<rparr>)"
    using start by (rule traverse_graph_reachable)
qed

text \<open>With an iteration limit \<open>k\<close>, \<open>traverse_graph\<close> returns exactly the nodes at distance at most
  \<open>k\<close>, whatever the order in which its forward and backward rules are applied.\<close>

theorem traverse_graph_bounded:
  assumes "set pks \<subseteq> set (db_nodes db)"
  shows "\<exists>out. traverse_graph db (map IntKey pks) (Some (int k)) get_links fw bw None = Some (Inr out) \<and>
    (\<forall>n. n \<in> out_nodes out \<longleftrightarrow> (\<exists>i \<le> k. \<exists>s \<in> set pks. (s, n) \<in> db_step db fw bw ^^ i))"
proof -
  have "set pks - set (db_nodes db) = {}" "set pks \<inter> set (db_nodes db) = set pks"
    using assms by auto
  then show ?thesis
    using traverse_graph_result [of pks db None "Some (int k)" get_links fw bw]
    by (simp add: check_missing_def reach_upto_def ball_iff_relpow)
qed

theorem traverse_graph_bounded_witness:
  "\<exists>out. traverse_graph example_db (map IntKey [3]) (Some (int 1)) False [CREATE] [CREATE] None =
       Some (Inr out) \<and>
     (\<forall>n. n \<in> out_nodes out \<longleftrightarrow>
        (\<exists>i \<le> 1. \<exists>s \<in> set [3]. (s, n) \<in> db_step example_db [CREATE] [CREATE] ^^ i))"
  by (rule traverse_graph_bounded) (simp add: example_db_def)

text \<open>A starting identifier that is not in the database makes \<open>traverse_graph\<close> raise
  \<open>NotExistent\<close> when no callback handles it, and one that is not an integer raises
  \<open>TypeError\<close>.\<close>

theorem traverse_graph_errors:
  "(\<not> set pks \<subseteq> set (db_nodes db) \<longrightarrow>
      traverse_graph db (map IntKey pks) m get_links fw bw None = Some (Inl NotExistent)) \<and>
   traverse_graph db (map IntKey pks @ OtherInput # rest) m get_links fw bw cb = Some (Inl TypeError)"
proof
  have "set pks - set (filter (\<lambda>pk. pk \<in> set pks) (db_nodes db)) \<noteq> {}" "pks \<noteq> []"
    if "\<not> set pks \<subseteq> set (db_nodes db)"
    using that by auto
  then show "\<not> set pks \<subseteq> set (db_nodes db) \<longrightarrow>
      traverse_graph db (map IntKey pks) m get_links fw bw None = Some (Inl NotExistent)"
    by (simp add: traverse_graph_def map_res_pks Let_def check_missing_def)
  have "map_res (\<lambda>pk. case pk of IntKey k \<Rightarrow> Inr k | _ \<Rightarrow> Inl TypeError)
      (map IntKey pks @ OtherInput # rest) = Inl TypeError"
    by (induction pks) simp_all
  then show "traverse_graph db (map IntKey pks @ OtherInput # rest) m get_links fw bw cb =
      Some (Inl TypeError)"
    by (simp add: traverse_graph_def)
qed

theorem traverse_graph_errors_witness:
  "traverse_graph example_db [IntKey 9] None False [CREATE] [] None = Some (Inl NotExistent) \<and>
   traverse_graph example_db [IntKey 1, OtherInput] None False [CREATE] [] None = Some (Inl TypeError)"
  using traverse_graph_errors [of "[9]" example_db None False "[CREATE]" "[]" "[]" None]
    traverse_graph_errors [of "[1]" example_db None False "[CREATE]" "[]" "[]" None]
  by (simp add: example_db_def)

text \<open>\<open>validate_traversal_rules\<close> accepts exactly the keyword arguments that are booleans for
  toggleable rules of the rule set; any other value or a fixed rule raises \<open>ValueError\<close>, an unknown
  name \<open>ValidationError\<close>; and it follows, per direction, the link types of the rules that the
  arguments or else the defaults switch on.\<close>

theorem validate_traversal_rules_exact:
  "validate_traversal_rules rs kwargs =
    (if \<not> (\<forall>r \<in> set (GraphTraversalRules rs). rule_accepts kwargs r) then Inl ValueError
     else if \<not> fst ` set kwargs \<subseteq> fst ` set (GraphTraversalRules rs) then Inl ValidationError
     else Inr \<lparr>rules_applied = map (\<lambda>r. (fst r, rule_follow kwargs r)) (GraphTraversalRules rs),
       tl_forward = followed (GraphTraversalRules rs) kwargs Forward,
       tl_backward = followed (GraphTraversalRules rs) kwargs Backward\<rparr>)"
  by (rule validate_traversal_rules_eq)

theorem validate_traversal_rules_exact_witness:
  "validate_traversal_rules DELETE [(''input_calc_forward'', KBool False)] = Inl ValueError \<and>
   validate_traversal_rules DELETE [(''typo'', KBool False)] = Inl ValidationError"
  unfolding validate_traversal_rules_exact by (auto simp: rule_accepts_def)

text \<open>C14: \<open>delete_nodes\<close> always ends; whatever toggles it accepts, every process that remains in the
  database keeps all its inputs, all its outputs and all the processes it called, no link is left
  dangling, and exactly the nodes it reports are gone.\<close>

theorem delete_nodes_keeps_provenance:
  assumes "validate_traversal_rules DELETE kwargs = Inr links" "no_dangling db"
  shows "\<exists>db' D. delete_nodes db (map IntKey pks) DryFalse kwargs = Some (Inr (db', D, True)) \<and>
    set (db_nodes db') = set (db_nodes db) - D \<and> set pks \<inter> set (db_nodes db) \<subseteq> D \<and>
    no_dangling db' \<and>
    (\<forall>p \<in> set (db_nodes db'). filter (\<lambda>link. process_end link = p) (db_links db') =
                            filter (\<lambda>link. process_end link = p) (db_links db))"
proof -
  define D where
    "D = (db_step db (tl_forward links) (tl_backward links))\<^sup>* `` (set pks \<inter> set (db_nodes db))"
  let ?db = "delete_nodes_and_connections D db"
  have closed: "process_end link \<in> D" if "other_end link \<in> D" "link \<in> set (db_links db)" for link
    using that delete_step [OF assms(2) that(2) delete_rules_fixed [OF assms(1)]]
    unfolding D_def by (auto intro: rtrancl_into_rtrancl)
  have "i \<notin> D \<and> out \<notin> D"
    if "(i, out, t, l) \<in> set (db_links db)" "process_end (i, out, t, l) \<notin> D" for i out t l
    using closed [OF _ that(1)] that(2) by (auto simp: process_end_def other_end_def split: if_splits)
  then have "filter (\<lambda>link. process_end link = p) (db_links ?db) =
      filter (\<lambda>link. process_end link = p) (db_links db)" if "p \<notin> D" for p
    using that by (auto simp: delete_nodes_and_connections_def intro!: filter_cong)
  moreover have "no_dangling ?db"
    using assms(2) by (auto simp: no_dangling_def delete_nodes_and_connections_def list_all_iff)
  moreover have "set (db_nodes ?db) = set (db_nodes db) - D"
    by (auto simp: delete_nodes_and_connections_def)
  moreover have "set pks \<inter> set (db_nodes db) \<subseteq> D"
    by (auto simp: D_def)
  ultimately show ?thesis
    using delete_nodes_result [OF assms(1) D_def] by auto
qed

lemma validate_no_create_forward:
  "validate_traversal_rules DELETE [(''create_forward'', KBool False)] =
     Inr \<lparr>rules_applied = [(''input_calc_forward'', True), (''input_calc_backward'', False),
        (''create_forward'', False), (''create_backward'', True), (''return_forward'', False),
        (''return_backward'', True), (''input_work_forward'', True), (''input_work_backward'', False),
        (''call_calc_forward'', True), (''call_calc_backward'', True), (''call_work_forward'', True),
        (''call_work_backward'', True)],
       tl_forward = [INPUT_CALC, INPUT_WORK, CALL_CALC, CALL_WORK],
       tl_backward = [CREATE, RETURN, CALL_CALC, CALL_WORK]\<rparr>"
  by (simp add: validate_traversal_rules_eq rule_accepts_def rule_follow_def followed_def)

theorem delete_nodes_keeps_provenance_witness:
  "no_dangling example_db \<and>
   (\<exists>db' D. delete_nodes example_db (map IntKey [2]) DryFalse [(''create_forward'', KBool False)] =
        Some (Inr (db', D, True)) \<and>
      set (db_nodes db') = set (db_nodes example_db) - D \<and> set [2] \<inter> set (db_nodes example_db) \<subseteq> D \<and>
      no_dangling db' \<and>
      (\<forall>p \<in> set (db_nodes db'). filter (\<lambda>link. process_end link = p) (db_links db') =
         filter (\<lambda>link. process_end link = p) (db_links example_db)))"
proof
  show db: "no_dangling example_db"
    by (simp add: no_dangling_def example_db_def)
  show "\<exists>db' D. delete_nodes example_db (map IntKey [2]) DryFalse [(''create_forward'', KBool False)] =
        Some (Inr (db', D, True)) \<and>
      set (db_nodes db') = set (db_nodes example_db) - D \<and> set [2] \<inter> set (db_nodes example_db) \<subseteq> D \<and>
      no_dangling db' \<and>
      (\<forall>p \<in> set (db_nodes db'). filter (\<lambda>link. process_end link = p) (db_links db') =
         filter (\<lambda>link. process_end link = p) (db_links example_db))"
    using delete_nodes_keeps_provenance [OF validate_no_create_forward db] .
qed

text \<open>The nodes that \<open>get_nodes_export\<close> selects, whatever toggles it accepts, contain with every
  process all its inputs, all its outputs and all the processes it called.\<close>

theorem get_nodes_export_complete:
  assumes "validate_traversal_rules EXPORT kwargs = Inr links" "no_dangling db"
    "set pks \<subseteq> set (db_nodes db)"
  shows "\<exists>out. get_nodes_export db (map IntKey pks) get_links kwargs = Some (Inr out) \<and>
    set pks \<subseteq> tr_nodes out \<and>
    (\<forall>link \<in> set (db_links db). process_end link \<in> tr_nodes out \<longrightarrow> other_end link \<in> tr_nodes out)"
proof -
  let ?step = "db_step db (tl_forward links) (tl_backward links)"
  have "set pks - set (db_nodes db) = {}" "set pks \<inter> set (db_nodes db) = set pks"
    using assms(3) by auto
  moreover have "other_end link \<in> ?step\<^sup>* `` set pks"
    if "link \<in> set (db_links db)" "process_end link \<in> ?step\<^sup>* `` set pks" for link
    using that export_step [OF assms(2) that(1) export_rules_fixed [OF assms(1)]]
    by (auto intro: rtrancl_into_rtrancl)
  ultimately show ?thesis
    using get_nodes_result [OF assms(1), of pks db None get_links]
    by (auto simp: get_nodes_export_def check_missing_def)
qed

theorem get_nodes_export_complete_witness:
  "\<exists>out. get_nodes_export example_db (map IntKey [4]) True [] = Some (Inr out) \<and>
    set [4] \<subseteq> tr_nodes out \<and>
    (\<forall>link \<in> set (db_links example_db). process_end link \<in> tr_nodes out \<longrightarrow> other_end link \<in> tr_nodes out)"
  by (rule get_nodes_export_complete [OF validate_traversal_rules_eq [THEN trans]])
     (simp_all add: rule_accepts_def no_dangling_def example_db_def)

text \<open>With the default rules, deleting a workflow also deletes the processes it called and their
  outputs: both \<open>call_calc_forward\<close> and \<open>call_work_forward\<close> are on unless they are switched
  off.\<close>

theorem delete_nodes_default_deletes_called:
  assumes "no_dangling db" "(w, p, t, l) \<in> set (db_links db)" "t \<in> {CALL_CALC, CALL_WORK, CREATE}"
    "w \<in> set pks"
  shows "\<exists>db' D. delete_nodes db (map IntKey pks) DryFalse [] = Some (Inr (db', D, True)) \<and> p \<in> D"
proof -
  obtain links where links: "validate_traversal_rules DELETE [] = Inr links"
    "{CALL_CALC, CALL_WORK, CREATE} \<subseteq> set (tl_forward links)"
    by (simp add: validate_traversal_rules_eq rule_accepts_def rule_follow_def followed_def)
  have nodes: "w \<in> set (db_nodes db)" "p \<in> set (db_nodes db)"
    using assms(1,2) by (auto simp: no_dangling_def list_all_iff)
  have "(w, p) \<in> db_step db (tl_forward links) (tl_backward links)"
    using assms(2,3) links(2) nodes by (auto simp: db_step_def joined_links_def)
  then show ?thesis
    using delete_nodes_result [OF links(1) refl, of db pks] nodes assms(4) by auto
qed

theorem delete_nodes_default_deletes_called_witness:
  "\<exists>db' D. delete_nodes example_db (map IntKey [4]) DryFalse [] = Some (Inr (db', D, True)) \<and> 2 \<in> D"
  by (rule delete_nodes_default_deletes_called [where w = 4 and t = CALL_CALC and l = "''CALL''"])
     (simp_all add: no_dangling_def example_db_def)

text \<open>A dry run, or a callback that answers that this is one, reports the same nodes and leaves the
  database untouched.\<close>

theorem delete_nodes_dry_run:
  assumes "validate_traversal_rules DELETE kwargs = Inr links"
  shows "\<exists>db' D. delete_nodes db (map IntKey pks) DryFalse kwargs = Some (Inr (db', D, True)) \<and>
    delete_nodes db (map IntKey pks) DryTrue kwargs = Some (Inr (db, D, False)) \<and>
    delete_nodes db (map IntKey pks) (DryCallable f) kwargs =
      Some (Inr (if f D then (db, D, False) else (db', D, True)))"
  using delete_nodes_result [OF assms refl, of db pks] get_nodes_result [OF assms, of pks db "Some (\<lambda>_. Inr ())" False]
  by (auto simp: delete_nodes_def get_nodes_delete_def check_missing_def Let_def)

theorem delete_nodes_dry_run_witness:
  "\<exists>db' D. delete_nodes example_db (map IntKey [2]) DryFalse [(''create_forward'', KBool False)] =
      Some (Inr (db', D, True)) \<and>
    delete_nodes example_db (map IntKey [2]) DryTrue [(''create_forward'', KBool False)] =
      Some (Inr (example_db, D, False)) \<and>
    delete_nodes example_db (map IntKey [2]) (DryCallable finite) [(''create_forward'', KBool False)] =
      Some (Inr (if finite D then (example_db, D, False) else (db', D, True)))"
  by (rule delete_nodes_dry_run [OF validate_no_create_forward])

end
