(* ===== verification/Aiida_Repository.thy ===== *)
theory Aiida_Repository
  imports Aiida_Prelude "HOL-Library.Char_ord" "HOL-Library.List_Lexorder"
begin

text \<open>
  The file repository of a node: the virtual hierarchy \<open>File\<close> of \<open>repository/common.py\<close>, the
  \<open>Repository\<close> of \<open>repository/repository.py\<close> over a backend that stores blobs under keys
  (\<open>repository/backend/abstract.py\<close>), and the sandbox backend (\<open>repository/backend/sandbox.py\<close>).

  A \<open>File\<close> owns its children, so the mutable tree is modelled as a value and each mutation as
  the tree it leaves.  Operations that change the repository return it beside their result, so that
  what an exception leaves behind is visible.  A backend is a record of its operations; what they
  promise is the locale \<open>repository_backend\<close>, interpreted on the sandbox model.  Paths are POSIX
  \<open>pathlib.PurePath\<close> values: whether they are absolute, and their parts.
\<close>

section \<open>File objects\<close>

type_synonym bytes = string

datatype file_type = DIRECTORY | FILE

datatype file_object =
  FileObject (f_name: string) (file_type: file_type) (f_key: "string option")
    (f_objects: "(string \<times> file_object) list")

text \<open>\<open>File.__init__\<close>; the type checks of its arguments are typing here.\<close>

definition File :: "string \<Rightarrow> file_type \<Rightarrow> string option \<Rightarrow> (string \<times> file_object) list option \<Rightarrow> file_object res" where
  "File name ft key objects =
     (if ft = DIRECTORY \<and> key \<noteq> None then Inl ValueError
      else if ft = FILE \<and> objects \<noteq> None then Inl ValueError
      else Inr (FileObject name ft key (case objects of None \<Rightarrow> [] | Some d \<Rightarrow> d)))"

datatype json = JObject "(string \<times> json) list" | JString string | JNull

fun serialize_file :: "file_object \<Rightarrow> json"
  and serialize_objects :: "(string \<times> file_object) list \<Rightarrow> (string \<times> json) list" where
  "serialize_file (FileObject name ft key objects) =
     (case ft of
        DIRECTORY \<Rightarrow>
          (if objects \<noteq> [] then JObject [(''o'', JObject (serialize_objects objects))] else JObject [])
      | FILE \<Rightarrow> JObject [(''k'', case key of None \<Rightarrow> JNull | Some k \<Rightarrow> JString k)])"
| "serialize_objects [] = []"
| "serialize_objects ((k, f) # fs) = (k, serialize_file f) # serialize_objects fs"

lemma mem_size: "(k, v) \<in> set d \<Longrightarrow> size v < size_list (size_prod (\<lambda>_. 0) size) d"
  by (induction d) auto

lemma map_of_size: "map_of d k = Some v \<Longrightarrow> size v < size_list (size_prod (\<lambda>_. 0) size) d"
  by (rule mem_size) (rule map_of_SomeD)

text \<open>\<open>File.from_serialized\<close>: a mapping with \<open>'k'\<close> is a file, any other a directory of what \<open>'o'\<close>
  holds; reading a key from something that is not a mapping raises.\<close>

fun json_key :: "json \<Rightarrow> string option res" where
  "json_key JNull = Inr None"
| "json_key (JString k) = Inr (Some k)"
| "json_key (JObject _) = Inl TypeError"

function from_serialized_file :: "json \<Rightarrow> string \<Rightarrow> file_object res"
  and from_serialized_objects :: "(string \<times> json) list \<Rightarrow> (string \<times> file_object) list res" where
  "from_serialized_file (JObject d) name =
     (case map_of d ''k'' of
        Some k \<Rightarrow> bind_res (json_key k) (\<lambda>key. File name FILE key None)
      | None \<Rightarrow>
          (case map_of d ''o'' of
             None \<Rightarrow> File name DIRECTORY None (Some [])
           | Some (JObject objs) \<Rightarrow>
               bind_res (from_serialized_objects objs) (\<lambda>objects. File name DIRECTORY None (Some objects))
           | Some _ \<Rightarrow> Inl AttributeError))"
| "from_serialized_file JNull name = Inl TypeError"
| "from_serialized_file (JString s) name =
     Inl (if CHR ''k'' \<in> set s then TypeError else AttributeError)"
| "from_serialized_objects [] = Inr []"
| "from_serialized_objects ((n, obj) # objs) =
     bind_res (from_serialized_file obj n) (\<lambda>f.
     bind_res (from_serialized_objects objs) (\<lambda>fs. Inr ((n, f) # fs)))"
  by pat_completeness auto
termination
proof (relation "measure (\<lambda>x. case x of Inl (j, n) \<Rightarrow> size j
    | Inr objs \<Rightarrow> size_list (size_prod (\<lambda>_. 0) size) objs)", goal_cases)
  case (2 d name x2 x1)
  then show ?case using map_of_size [of d "''o''" "JObject x1"] by simp
qed auto

text \<open>\<open>File.__eq__\<close>: dictionaries compare without regard to their order.\<close>

function file_eq :: "file_object \<Rightarrow> file_object \<Rightarrow> bool" where
  "file_eq a b \<longleftrightarrow>
     f_name a = f_name b \<and> file_type a = file_type b \<and> f_key a = f_key b \<and>
     sort (map fst (f_objects a)) = sort (map fst (f_objects b)) \<and>
     list_all (\<lambda>(k, obj). case map_of (f_objects b) k of None \<Rightarrow> False | Some o' \<Rightarrow> file_eq obj o')
       (f_objects a)"
  by pat_completeness auto
termination
proof (relation "measure (\<lambda>(a, b). size a)", goal_cases)
  case (2 a b p k obj o')
  then have "(k, obj) \<in> set (f_objects a)" by simp
  then have "size obj < size_list (size_prod (\<lambda>_. 0) size) (f_objects a)"
    by (rule mem_size)
  then show ?case by (cases a) simp
qed auto

declare file_eq.simps [simp del]

section \<open>Paths\<close>

record pure_path =
  is_absolute :: bool
  path_parts :: "string list"

definition split_parts :: "string \<Rightarrow> string list" where
  "split_parts s = filter (\<lambda>p. p \<noteq> [] \<and> p \<noteq> ''.'') (str_split ''/'' s)"

definition PurePath :: "string \<Rightarrow> pure_path" where
  "PurePath s = \<lparr>is_absolute = str_startswith s ''/'', path_parts = split_parts s\<rparr>"

text \<open>What a caller passes as a path.\<close>

datatype path_arg = PathNone | PathStr string | PathPure pure_path | PathOther

text \<open>\<open>_pre_process_path\<close>, giving the parts of the relative path.\<close>

definition pre_process_path :: "path_arg \<Rightarrow> string list res" where
  "pre_process_path path =
     (case path of
        PathNone \<Rightarrow> Inr []
      | PathStr s \<Rightarrow>
          if is_absolute (PurePath s) then Inl TypeError else Inr (path_parts (PurePath s))
      | PathPure p \<Rightarrow> if is_absolute p then Inl TypeError else Inr (path_parts p)
      | PathOther \<Rightarrow> Inl TypeError)"

text \<open>\<open>root / name\<close> for a relative root and a relative name, \<open>path.parent\<close> and \<open>path.name\<close>.\<close>

definition path_join :: "string list \<Rightarrow> string \<Rightarrow> string list" where
  "path_join root name = root @ split_parts name"

definition path_parent :: "string list \<Rightarrow> string list" where
  "path_parent parts = butlast parts"

definition path_name :: "string list \<Rightarrow> string" where
  "path_name parts = (if parts = [] then [] else last parts)"

section \<open>Backends\<close>

record 'b backend_ops =
  be_put :: "'b \<Rightarrow> bytes \<Rightarrow> 'b \<times> string"
  be_has_objects :: "'b \<Rightarrow> string list \<Rightarrow> bool list"
  be_read :: "'b \<Rightarrow> string \<Rightarrow> bytes res"
  be_delete_objects :: "'b \<Rightarrow> string list \<Rightarrow> 'b \<times> unit res"
  be_erase :: "'b \<Rightarrow> 'b"
  be_initialise :: "'b \<Rightarrow> 'b"

text \<open>A handle is a byte stream with its remaining content, or something else.\<close>

datatype handle = ByteStream bytes | NotByteStream

definition backend_put_object_from_filelike ::
  "'b backend_ops \<Rightarrow> 'b \<Rightarrow> handle \<Rightarrow> 'b \<times> string res" where
  "backend_put_object_from_filelike ops b handle =
     (case handle of
        NotByteStream \<Rightarrow> (b, Inl TypeError)
      | ByteStream content \<Rightarrow> (case be_put ops b content of (b', key) \<Rightarrow> (b', Inr key)))"

definition backend_has_object :: "'b backend_ops \<Rightarrow> 'b \<Rightarrow> string \<Rightarrow> bool" where
  "backend_has_object ops b key = hd (be_has_objects ops b [key])"

definition backend_get_object_content :: "'b backend_ops \<Rightarrow> 'b \<Rightarrow> string \<Rightarrow> bytes res" where
  "backend_get_object_content ops b key = be_read ops b key"

definition backend_get_object_hash ::
  "(bytes \<Rightarrow> string) \<Rightarrow> 'b backend_ops \<Rightarrow> 'b \<Rightarrow> string \<Rightarrow> string res" where
  "backend_get_object_hash sha256 ops b key =
     bind_res (be_read ops b key) (\<lambda>content. Inr (sha256 content))"

definition backend_delete_object :: "'b backend_ops \<Rightarrow> 'b \<Rightarrow> string \<Rightarrow> 'b \<times> unit res" where
  "backend_delete_object ops b key = be_delete_objects ops b [key]"

subsection \<open>The sandbox backend\<close>

text \<open>
  The folder is created by the first operation that needs it; reading from one that does not exist
  yet is reading an empty folder.  The identifiers \<open>uuid.uuid4\<close> will return are a stream.
\<close>

record sandbox =
  sb_folder :: "(string \<times> bytes) list option"
  sb_uuids :: "nat \<Rightarrow> string"

definition sb_files :: "sandbox \<Rightarrow> (string \<times> bytes) list" where
  "sb_files s = (case sb_folder s of None \<Rightarrow> [] | Some files \<Rightarrow> files)"

definition sandbox_is_initialised :: "sandbox \<Rightarrow> bool" where
  "sandbox_is_initialised s \<longleftrightarrow> sb_folder s \<noteq> None"

definition sandbox_initialise :: "sandbox \<Rightarrow> sandbox" where
  "sandbox_initialise s = s\<lparr>sb_folder := Some (sb_files s)\<rparr>"

definition sandbox_erase :: "sandbox \<Rightarrow> sandbox" where
  "sandbox_erase s = s\<lparr>sb_folder := None\<rparr>"

definition sandbox_put :: "sandbox \<Rightarrow> bytes \<Rightarrow> sandbox \<times> string" where
  "sandbox_put s content =
     (let key = sb_uuids s 0 in
      (s\<lparr>sb_folder := Some (AList.update key content (sb_files s)),
         sb_uuids := (\<lambda>n. sb_uuids s (Suc n))\<rparr>, key))"

definition sandbox_has_objects :: "sandbox \<Rightarrow> string list \<Rightarrow> bool list" where
  "sandbox_has_objects s keys = map (\<lambda>key. key \<in> set (map fst (sb_files s))) keys"

definition sandbox_open :: "sandbox \<Rightarrow> string \<Rightarrow> bytes res" where
  "sandbox_open s key =
     (case map_of (sb_files s) key of None \<Rightarrow> Inl FileNotFoundError | Some content \<Rightarrow> Inr content)"

text \<open>\<open>os.remove\<close> for each key in turn.\<close>

fun sandbox_remove :: "sandbox \<Rightarrow> string list \<Rightarrow> sandbox \<times> unit res" where
  "sandbox_remove s [] = (s, Inr ())"
| "sandbox_remove s (key # keys) =
     (if key \<in> set (map fst (sb_files s))
      then sandbox_remove (s\<lparr>sb_folder := Some (AList.delete key (sb_files s))\<rparr>) keys
      else (s, Inl FileNotFoundError))"

definition sandbox_delete_objects :: "sandbox \<Rightarrow> string list \<Rightarrow> sandbox \<times> unit res" where
  "sandbox_delete_objects s keys =
     (if list_all id (sandbox_has_objects s keys) then sandbox_remove s keys
      else (s, Inl FileNotFoundError))"

definition sandbox_ops :: "sandbox backend_ops" where
  "sandbox_ops =
     \<lparr>be_put = sandbox_put, be_has_objects = sandbox_has_objects, be_read = sandbox_open,
      be_delete_objects = sandbox_delete_objects, be_erase = sandbox_erase,
      be_initialise = sandbox_initialise\<rparr>"

section \<open>\<open>Repository\<close>\<close>

record 'b repository =
  r_directory :: file_object
  r_backend :: 'b

definition root_file :: file_object where
  "root_file = FileObject [] DIRECTORY None []"

definition Repository :: "'b \<Rightarrow> 'b repository" where
  "Repository b = \<lparr>r_directory = root_file, r_backend = b\<rparr>"

definition reset :: "'b repository \<Rightarrow> 'b repository" where
  "reset r = r\<lparr>r_directory := root_file\<rparr>"

definition set_objects :: "(string \<times> file_object) list \<Rightarrow> file_object \<Rightarrow> file_object" where
  "set_objects objs d = FileObject (f_name d) (file_type d) (f_key d) objs"

definition repo_from_serialized :: "'b \<Rightarrow> json \<Rightarrow> 'b repository res" where
  "repo_from_serialized b serialized =
     (case serialized of
        JObject [] \<Rightarrow> Inr (Repository b)
      | JObject d \<Rightarrow>
          (case map_of d ''o'' of
             None \<Rightarrow> Inl KeyError
           | Some (JObject objs) \<Rightarrow>
               bind_res (from_serialized_objects objs) (\<lambda>objects.
                 Inr ((Repository b)\<lparr>r_directory := set_objects objects root_file\<rparr>))
           | Some _ \<Rightarrow> Inl AttributeError)
      | _ \<Rightarrow> Inl TypeError)"

definition serialize :: "'b repository \<Rightarrow> json" where
  "serialize r = serialize_file (r_directory r)"

subsection \<open>\<open>flatten\<close>\<close>

text \<open>The body of the \<open>for\<close> loop over the entries of one directory: the items it sets and the
  sub-directories it pushes on the stack.  Entries are mappings, as \<open>serialize\<close> produces them; for
  anything else the last equation only closes the definition.\<close>

fun flatten_entries ::
  "string \<Rightarrow> string \<Rightarrow> (string \<times> json) list \<Rightarrow> json option dict \<Rightarrow> (string \<times> json) list
     \<Rightarrow> json option dict \<times> (string \<times> json) list" where
  "flatten_entries delimiter path [] items stack = (items, stack)"
| "flatten_entries delimiter path ((name, obj) # objs) items stack =
     (let sub_path = (if path \<noteq> [] then path @ delimiter @ name else name) in
      case obj of
        JObject d \<Rightarrow>
          (if d = [] then
             flatten_entries delimiter path objs (AList.update (sub_path @ delimiter) None items) stack
           else (case map_of d ''k'' of
             Some k \<Rightarrow> flatten_entries delimiter path objs (AList.update sub_path (Some k) items) stack
           | None \<Rightarrow>
               flatten_entries delimiter path objs (AList.update (sub_path @ delimiter) None items)
                 (stack @ [(sub_path, obj)])))
      | _ \<Rightarrow> flatten_entries delimiter path objs (AList.update (sub_path @ delimiter) None items) stack)"

definition sub_objects :: "json \<Rightarrow> (string \<times> json) list" where
  "sub_objects j =
     (case j of
        JObject d \<Rightarrow> (case map_of d ''o'' of Some (JObject objs) \<Rightarrow> objs | _ \<Rightarrow> [])
      | _ \<Rightarrow> [])"

definition stack_size :: "(string \<times> json) list \<Rightarrow> nat" where
  "stack_size stack = size_list (size_prod (\<lambda>_. 0) size) stack"

lemma stack_size_append [simp]: "stack_size (xs @ ys) = stack_size xs + stack_size ys"
  by (induction xs) (simp_all add: stack_size_def)

lemma flatten_entries_stack:
  "stack_size (snd (flatten_entries delimiter path objs items stack)) \<le> stack_size stack + stack_size objs"
proof (induction delimiter path objs items stack rule: flatten_entries.induct)
  case (2 delimiter path name obj objs items stack)
  then show ?case
    by (cases obj) (force simp: Let_def stack_size_def split: option.splits)+
qed simp

lemma sub_objects_size: "stack_size (sub_objects j) < size_prod (\<lambda>_. 0) size (p, j)"
proof (cases j)
  case (JObject d)
  then show ?thesis
    using map_of_size [of d "''o''"]
    by (force simp: sub_objects_def stack_size_def split: option.splits json.splits)
qed (simp_all add: sub_objects_def stack_size_def)

text \<open>The loop pops the last entry of the stack.\<close>

function flatten_loop ::
  "string \<Rightarrow> (string \<times> json) list \<Rightarrow> json option dict \<Rightarrow> json option dict" where
  "flatten_loop delimiter stack items =
     (if stack = [] then items
      else
        let (path, sub_dict) = last stack;
            (items', stack') = flatten_entries delimiter path (sub_objects sub_dict) items (butlast stack)
        in flatten_loop delimiter stack' items')"
  by pat_completeness auto
termination
proof (relation "measure (\<lambda>(delimiter, stack, items). stack_size stack)", goal_cases)
  case (2 delimiter stack items x path sub_dict y items' stack')
  have "stack_size stack = stack_size (butlast stack) + stack_size [(path, sub_dict)]"
    using 2 stack_size_append [of "butlast stack" "[last stack]"] by simp
  moreover have "stack_size stack' \<le> stack_size (butlast stack) + stack_size (sub_objects sub_dict)"
    using 2 flatten_entries_stack [of delimiter path "sub_objects sub_dict" items "butlast stack"]
    by (metis snd_conv)
  moreover have "stack_size (sub_objects sub_dict) < stack_size [(path, sub_dict)]"
    using sub_objects_size [of sub_dict path] by (simp add: stack_size_def)
  ultimately show ?case by simp
qed auto

declare flatten_loop.simps [simp del]

definition flatten :: "json option \<Rightarrow> string \<Rightarrow> json option dict" where
  "flatten serialized delimiter =
     (case serialized of None \<Rightarrow> [] | Some s \<Rightarrow> flatten_loop delimiter [([], s)] [])"

subsection \<open>The virtual hierarchy\<close>

text \<open>\<open>create_directory\<close> walks down, adding the directories that are missing, and returns the last
  object, which \<open>_insert_file\<close> then changes: \<open>update_at\<close> applies that change where the walk
  ends.\<close>

fun update_at :: "string list \<Rightarrow> (file_object \<Rightarrow> file_object) \<Rightarrow> file_object \<Rightarrow> file_object" where
  "update_at [] f d = f d"
| "update_at (part # parts) f d =
     (let child = (case map_of (f_objects d) part of
                     None \<Rightarrow> FileObject part DIRECTORY None []
                   | Some c \<Rightarrow> c)
      in set_objects (AList.update part (update_at parts f child) (f_objects d)) d)"

definition create_directory :: "path_arg \<Rightarrow> 'b repository \<Rightarrow> 'b repository \<times> unit res" where
  "create_directory path r =
     (if path = PathNone then (r, Inl TypeError)
      else (case pre_process_path path of
              Inl e \<Rightarrow> (r, Inl e)
            | Inr parts \<Rightarrow> (r\<lparr>r_directory := update_at parts id (r_directory r)\<rparr>, Inr ())))"

definition insert_file :: "string list \<Rightarrow> string \<Rightarrow> 'b repository \<Rightarrow> 'b repository" where
  "insert_file parts key r =
     r\<lparr>r_directory :=
        update_at (path_parent parts)
          (\<lambda>d. set_objects
             (AList.update (path_name parts) (FileObject (path_name parts) FILE (Some key) [])
                (f_objects d)) d)
          (r_directory r)\<rparr>"

fun add_file_keys :: "(string \<times> file_object) list \<Rightarrow> string list" where
  "add_file_keys [] = []"
| "add_file_keys ((n, FileObject name ft key objects) # objs) =
     (case (ft, key) of
        (FILE, Some k) \<Rightarrow> [k]
      | (FILE, None) \<Rightarrow> []
      | (DIRECTORY, _) \<Rightarrow> add_file_keys objects) @ add_file_keys objs"

definition get_file_keys :: "'b repository \<Rightarrow> string list" where
  "get_file_keys r = add_file_keys (f_objects (r_directory r))"

fun lookup :: "string list \<Rightarrow> file_object \<Rightarrow> file_object option" where
  "lookup [] d = Some d"
| "lookup (part # parts) d =
     (case map_of (f_objects d) part of None \<Rightarrow> None | Some c \<Rightarrow> lookup parts c)"

definition get_object_at :: "string list \<Rightarrow> 'b repository \<Rightarrow> file_object res" where
  "get_object_at parts r =
     (case lookup parts (r_directory r) of None \<Rightarrow> Inl FileNotFoundError | Some f \<Rightarrow> Inr f)"

definition get_object :: "path_arg \<Rightarrow> 'b repository \<Rightarrow> file_object res" where
  "get_object path r = bind_res (pre_process_path path) (\<lambda>parts. get_object_at parts r)"

definition get_directory :: "path_arg \<Rightarrow> 'b repository \<Rightarrow> file_object res" where
  "get_directory path r =
     bind_res (get_object path r) (\<lambda>f.
       if file_type f \<noteq> DIRECTORY then Inl NotADirectoryError else Inr f)"

definition get_file :: "path_arg \<Rightarrow> 'b repository \<Rightarrow> file_object res" where
  "get_file path r =
     (if path = PathNone then Inl TypeError
      else bind_res (get_object path r) (\<lambda>f.
             if file_type f \<noteq> FILE then Inl IsADirectoryError else Inr f))"

definition list_objects :: "path_arg \<Rightarrow> 'b repository \<Rightarrow> file_object list res" where
  "list_objects path r =
     bind_res (get_directory path r) (\<lambda>d. Inr (sort_key f_name (map snd (f_objects d))))"

definition list_object_names :: "path_arg \<Rightarrow> 'b repository \<Rightarrow> string list res" where
  "list_object_names path r = bind_res (list_objects path r) (\<lambda>fs. Inr (map f_name fs))"

subsection \<open>Contents\<close>

definition put_object_from_filelike ::
  "'b backend_ops \<Rightarrow> handle \<Rightarrow> path_arg \<Rightarrow> 'b repository \<Rightarrow> 'b repository \<times> unit res" where
  "put_object_from_filelike ops handle path r =
     (case pre_process_path path of
        Inl e \<Rightarrow> (r, Inl e)
      | Inr parts \<Rightarrow>
          (case backend_put_object_from_filelike ops (r_backend r) handle of
             (b, Inl e) \<Rightarrow> (r\<lparr>r_backend := b\<rparr>, Inl e)
           | (b, Inr key) \<Rightarrow> (insert_file parts key (r\<lparr>r_backend := b\<rparr>), Inr ())))"

text \<open>\<open>put_object_from_tree\<close>: the argument \<open>tree\<close> is what \<open>os.walk(filepath)\<close> yields, top down, with the
  roots relative to \<open>filepath\<close> and each file beside its content.\<close>

definition rel_path :: "string list \<Rightarrow> path_arg" where
  "rel_path parts = PathPure \<lparr>is_absolute = False, path_parts = parts\<rparr>"

fun seq_ops :: "('s \<Rightarrow> 's \<times> unit res) list \<Rightarrow> 's \<Rightarrow> 's \<times> unit res" where
  "seq_ops [] s = (s, Inr ())"
| "seq_ops (f # fs) s =
     (case f s of (s', Inl e) \<Rightarrow> (s', Inl e) | (s', Inr _) \<Rightarrow> seq_ops fs s')"

definition put_object_from_tree ::
  "'b backend_ops \<Rightarrow> path_arg \<Rightarrow> (string list \<times> string list \<times> (string \<times> bytes) list) list
     \<Rightarrow> path_arg \<Rightarrow> 'b repository \<Rightarrow> 'b repository \<times> unit res" where
  "put_object_from_tree ops filepath tree path r =
     (case pre_process_path path of
        Inl e \<Rightarrow> (r, Inl e)
      | Inr parts \<Rightarrow>
          let absolute = (case filepath of
                PathStr s \<Rightarrow> is_absolute (PurePath s) | PathPure p \<Rightarrow> is_absolute p | _ \<Rightarrow> False) in
          if \<not> absolute then (r, Inl TypeError)
          else seq_ops
            ((if parts \<noteq> [] then [create_directory (rel_path parts)] else []) @
             concat (map (\<lambda>(root, dirnames, filenames).
               map (\<lambda>dirname. create_directory (rel_path (path_join (parts @ root) dirname))) dirnames @
               map (\<lambda>(filename, content).
                 put_object_from_filelike ops (ByteStream content)
                   (rel_path (path_join (parts @ root) filename))) filenames) tree)) r)"

definition is_empty :: "'b repository \<Rightarrow> bool" where
  "is_empty r \<longleftrightarrow> f_objects (r_directory r) = []"

definition has_object :: "path_arg \<Rightarrow> 'b repository \<Rightarrow> bool res" where
  "has_object path r =
     (case get_object path r of
        Inr _ \<Rightarrow> Inr True
      | Inl FileNotFoundError \<Rightarrow> Inr False
      | Inl e \<Rightarrow> Inl e)"

text \<open>\<open>open\<close> and \<open>get_object_content\<close> both read the object the key names.\<close>

definition get_object_content :: "'b backend_ops \<Rightarrow> path_arg \<Rightarrow> 'b repository \<Rightarrow> bytes res" where
  "get_object_content ops path r =
     bind_res (get_file path r) (\<lambda>f.
       case f_key f of
         None \<Rightarrow> Inl AssertionError
       | Some key \<Rightarrow> backend_get_object_content ops (r_backend r) key)"

definition delete_object ::
  "'b backend_ops \<Rightarrow> path_arg \<Rightarrow> bool \<Rightarrow> 'b repository \<Rightarrow> 'b repository \<times> unit res" where
  "delete_object ops path hard_delete r =
     (case bind_res (pre_process_path path) (\<lambda>parts.
           bind_res (get_object_at parts r) (\<lambda>f. Inr (parts, f))) of
        Inl e \<Rightarrow> (r, Inl e)
      | Inr (parts, file) \<Rightarrow>
          if file_type file = DIRECTORY then (r, Inl IsADirectoryError)
          else
            (case (if hard_delete
                   then (case f_key file of
                           None \<Rightarrow> (r_backend r, Inl AssertionError)
                         | Some key \<Rightarrow> backend_delete_object ops (r_backend r) key)
                   else (r_backend r, Inr ())) of
               (b, Inl e) \<Rightarrow> (r\<lparr>r_backend := b\<rparr>, Inl e)
             | (b, Inr _) \<Rightarrow>
                 let r' = r\<lparr>r_backend := b\<rparr> in
                 (case get_directory (rel_path (path_parent parts)) r' of
                    Inl e \<Rightarrow> (r', Inl e)
                  | Inr _ \<Rightarrow>
                      (r'\<lparr>r_directory :=
                         update_at (path_parent parts)
                           (\<lambda>d. set_objects (AList.delete (path_name parts) (f_objects d)) d)
                           (r_directory r')\<rparr>, Inr ()))))"

definition erase :: "'b backend_ops \<Rightarrow> 'b repository \<Rightarrow> 'b repository \<times> unit res" where
  "erase ops r =
     (case seq_ops (map (\<lambda>key b. backend_delete_object ops b key) (get_file_keys r)) (r_backend r) of
        (b, Inl e) \<Rightarrow> (r\<lparr>r_backend := b\<rparr>, Inl e)
      | (b, Inr _) \<Rightarrow> (reset (r\<lparr>r_backend := b\<rparr>), Inr ()))"

definition delete_repository :: "'b backend_ops \<Rightarrow> 'b repository \<Rightarrow> 'b repository" where
  "delete_repository ops r = reset (r\<lparr>r_backend := be_erase ops (r_backend r)\<rparr>)"

subsection \<open>Walking\<close>

text \<open>
  \<open>walk\<close> yields the entries of the sub-directories, in the order of the mapping, before the
  directory itself.  The code looks each sub-directory up again from the root by its name; in a
  well-formed hierarchy that is the child it found (\<open>walk_entries_lookup\<close> below).
\<close>

type_synonym walk_entry = "string list \<times> string list \<times> string list"

definition names_of_type :: "file_type \<Rightarrow> (string \<times> file_object) list \<Rightarrow> string list" where
  "names_of_type ft objs = map (\<lambda>(k, obj). f_name obj) (filter (\<lambda>(k, obj). file_type obj = ft) objs)"

fun walk_dir :: "string list \<Rightarrow> file_object \<Rightarrow> walk_entry list"
  and walk_objects :: "string list \<Rightarrow> (string \<times> file_object) list \<Rightarrow> walk_entry list" where
  "walk_dir path (FileObject name ft key objects) =
     walk_objects path objects @
     [(path, names_of_type DIRECTORY objects, names_of_type FILE objects)]"
| "walk_objects path [] = []"
| "walk_objects path ((k, f) # objs) =
     (if file_type f = DIRECTORY then walk_dir (path_join path (f_name f)) f else []) @
     walk_objects path objs"

definition walk :: "path_arg \<Rightarrow> 'b repository \<Rightarrow> walk_entry list res" where
  "walk path r =
     bind_res (pre_process_path path) (\<lambda>parts.
     bind_res (get_directory path r) (\<lambda>d. Inr (walk_dir parts d)))"

definition clone_entry ::
  "'b backend_ops \<Rightarrow> 'c backend_ops \<Rightarrow> 'c repository \<Rightarrow> walk_entry \<Rightarrow>
     ('b repository \<Rightarrow> 'b repository \<times> unit res) list" where
  "clone_entry ops sops source = (\<lambda>(root, dirnames, filenames).
     map (\<lambda>dirname. create_directory (rel_path (path_join root dirname))) dirnames @
     map (\<lambda>filename r.
       case get_object_content sops (rel_path (path_join root filename)) source of
         Inl e \<Rightarrow> (r, Inl e)
       | Inr content \<Rightarrow>
           put_object_from_filelike ops (ByteStream content) (rel_path (path_join root filename)) r)
       filenames)"

definition clone ::
  "'b backend_ops \<Rightarrow> 'c backend_ops \<Rightarrow> 'c repository \<Rightarrow> 'b repository \<Rightarrow> 'b repository \<times> unit res" where
  "clone ops sops source r =
     (case walk PathNone source of
        Inl e \<Rightarrow> (r, Inl e)
      | Inr entries \<Rightarrow> seq_ops (concat (map (clone_entry ops sops source) entries)) r)"

text \<open>The dictionary whose \<open>make_hash\<close> is the hash of the repository: the content hashes of the files
  by path, and the directory names of the entry that was visited last.\<close>

datatype hash_value = HashNames "string list" | HashContent string

fun hash_loop ::
  "(bytes \<Rightarrow> string) \<Rightarrow> 'b backend_ops \<Rightarrow> 'b repository \<Rightarrow> walk_entry list \<Rightarrow> hash_value dict
     \<Rightarrow> hash_value dict res" where
  "hash_loop sha256 ops r [] objects = Inr objects"
| "hash_loop sha256 ops r ((root, dirnames, filenames) # entries) objects =
     bind_res
       (foldl (\<lambda>acc filename.
          bind_res acc (\<lambda>objects.
          bind_res (get_file (rel_path (path_join root filename)) r) (\<lambda>f.
            case f_key f of
              None \<Rightarrow> Inl AssertionError
            | Some key \<Rightarrow>
                bind_res (backend_get_object_hash sha256 ops (r_backend r) key) (\<lambda>h.
                  Inr (AList.update (str_join ''/'' (path_join root filename)) (HashContent h) objects)))))
          (Inr (AList.update ''__dirnames__'' (HashNames dirnames) objects)) filenames)
       (\<lambda>objects. hash_loop sha256 ops r entries objects)"

definition repository_hash ::
  "(bytes \<Rightarrow> string) \<Rightarrow> (hash_value dict \<Rightarrow> string) \<Rightarrow> 'b backend_ops \<Rightarrow> 'b repository \<Rightarrow> string res" where
  "repository_hash sha256 make_hash ops r =
     bind_res (walk PathNone r) (\<lambda>entries.
     bind_res (hash_loop sha256 ops r entries []) (\<lambda>objects. Inr (make_hash objects)))"

text \<open>\<open>copy_tree\<close>: what is done to the target directory, with paths relative to it.\<close>

datatype fs_action = Mkdir "string list" | WriteBytes "string list" bytes

definition copy_entry ::
  "'b backend_ops \<Rightarrow> 'b repository \<Rightarrow> nat \<Rightarrow> walk_entry \<Rightarrow> fs_action list res" where
  "copy_entry ops r skip = (\<lambda>(root, dirnames, filenames).
     foldl (\<lambda>acc filename.
        bind_res acc (\<lambda>actions.
        bind_res (get_object_content ops (rel_path (path_join root filename)) r) (\<lambda>content.
          Inr (actions @ [Mkdir (drop skip root), WriteBytes (path_join (drop skip root) filename) content]))))
       (Inr (map (\<lambda>dirname. Mkdir (drop skip (path_join root dirname))) dirnames)) filenames)"

definition copy_tree :: "'b backend_ops \<Rightarrow> path_arg \<Rightarrow> path_arg \<Rightarrow> 'b repository \<Rightarrow> fs_action list res"
where
  "copy_tree ops target path r =
     bind_res (pre_process_path path) (\<lambda>parts.
     bind_res (get_object_at parts r) (\<lambda>f.
       if file_type f \<noteq> DIRECTORY then Inl NotADirectoryError
       else if \<not> (case target of
              PathStr s \<Rightarrow> is_absolute (PurePath s) | PathPure p \<Rightarrow> is_absolute p | _ \<Rightarrow> False)
       then Inl TypeError
       else foldl (\<lambda>acc entry.
              bind_res acc (\<lambda>actions.
              bind_res (copy_entry ops r (length parts) entry) (\<lambda>more_actions.
                Inr (actions @ more_actions))))
              (Inr []) (walk_dir parts f)))"

section \<open>Well-formed hierarchies\<close>

definition valid_part :: "string \<Rightarrow> bool" where
  "valid_part p \<longleftrightarrow> p \<noteq> [] \<and> p \<noteq> ''.'' \<and> CHR ''/'' \<notin> set p"

text \<open>Files have a key and no children, directories have no key, and every child is filed under its
  own name, which is one part of a path.\<close>

fun wf_file :: "file_object \<Rightarrow> bool" where
  "wf_file (FileObject name ft key objects) \<longleftrightarrow>
     (case ft of FILE \<Rightarrow> key \<noteq> None \<and> objects = [] | DIRECTORY \<Rightarrow> key = None) \<and>
     wf_dict objects \<and>
     list_all (\<lambda>(k, c). f_name c = k \<and> valid_part k \<and> wf_file c) objects"

lemma split_parts_valid: "valid_part p \<Longrightarrow> split_parts p = [p]"
proof -
  assume p: "valid_part p"
  have "str_partition ''/'' p = (p, [], [])" if "CHR ''/'' \<notin> set p" for p
    using that by (induction p) auto
  then have "str_split ''/'' p = [p]"
    using p by (subst str_split.simps) (simp add: valid_part_def)
  then show ?thesis
    using p by (simp add: split_parts_def valid_part_def)
qed

lemma path_join_valid: "valid_part p \<Longrightarrow> path_join root p = root @ [p]"
  by (simp add: path_join_def split_parts_valid)

lemma set_objects_sel [simp]:
  "f_objects (set_objects objs d) = objs" "f_name (set_objects objs d) = f_name d"
  "file_type (set_objects objs d) = file_type d" "f_key (set_objects objs d) = f_key d"
  by (simp_all add: set_objects_def)

lemma wf_fileD:
  assumes "wf_file d"
  shows "wf_dict (f_objects d)" "file_type d = FILE \<Longrightarrow> f_key d \<noteq> None \<and> f_objects d = []"
    "file_type d = DIRECTORY \<Longrightarrow> f_key d = None"
    "(k, c) \<in> set (f_objects d) \<Longrightarrow> f_name c = k \<and> valid_part k \<and> wf_file c"
  using assms by (cases d; auto simp: list_all_iff)+

lemma wf_file_iff:
  "wf_file d \<longleftrightarrow>
     (case file_type d of FILE \<Rightarrow> f_key d \<noteq> None \<and> f_objects d = [] | DIRECTORY \<Rightarrow> f_key d = None) \<and>
     wf_dict (f_objects d) \<and>
     (\<forall>(k, c) \<in> set (f_objects d). f_name c = k \<and> valid_part k \<and> wf_file c)"
  by (cases d) (simp add: list_all_iff split: file_type.split)

lemma wf_root_file [simp]: "wf_file root_file"
  by (simp add: root_file_def)

section \<open>The hierarchy as a map from paths\<close>

text \<open>The abstract view: nothing, a directory (\<open>Some None\<close>) or a file with its key.\<close>

definition view :: "file_object \<Rightarrow> string list \<Rightarrow> string option option" where
  "view d p = map_option (\<lambda>f. if file_type f = FILE then f_key f else None) (lookup p d)"

lemma view_Nil [simp]: "view d [] = Some (if file_type d = FILE then f_key d else None)"
  by (simp add: view_def)

lemma view_Cons:
  "view d (part # parts) =
     (case map_of (f_objects d) part of None \<Rightarrow> None | Some c \<Rightarrow> view c parts)"
  by (simp add: view_def split: option.split)

lemma view_empty [simp]: "f_objects d = [] \<Longrightarrow> view d (part # parts) = None"
  by (simp add: view_Cons)

lemma lookup_append:
  "lookup (p @ q) d = (case lookup p d of None \<Rightarrow> None | Some c \<Rightarrow> lookup q c)"
  by (induction p arbitrary: d) (auto split: option.splits)

lemma view_append: "view d (p @ q) = (case lookup p d of None \<Rightarrow> None | Some c \<Rightarrow> view c q)"
  by (simp add: view_def lookup_append split: option.split)

lemma view_prefix_closed: "view d (p @ q) \<noteq> None \<Longrightarrow> view d p \<noteq> None"
  by (auto simp: view_def lookup_append split: option.splits)

text \<open>Creating directories adds the missing ones and changes nothing else.\<close>

lemma view_create:
  "view (update_at parts id d) q =
     (if view d q = None \<and> prefix q parts then Some None else view d q)"
proof (induction parts arbitrary: d q)
  case Nil
  then show ?case by (cases q) auto
next
  case (Cons part parts)
  show ?case
  proof (cases q)
    case Nil
    then show ?thesis by (simp add: Let_def)
  next
    case (Cons q0 qs)
    show ?thesis
    proof (cases "q0 = part")
      case True
      show ?thesis
      proof (cases "map_of (f_objects d) part")
        case None
        have "view (FileObject part DIRECTORY None []) qs = (if qs = [] then Some None else None)"
          by (cases qs) simp_all
        then show ?thesis
          using Cons True None Cons.IH [of "FileObject part DIRECTORY None []" qs]
          by (auto simp: view_Cons Let_def)
      next
        case (Some c)
        then show ?thesis
          using Cons True Cons.IH [of c qs] by (auto simp: view_Cons Let_def)
      qed
    next
      case False
      then show ?thesis
        using Cons by (simp add: view_Cons Let_def split: option.split)
    qed
  qed
qed

text \<open>Changing the entry \<open>name\<close> of the directory at a path.\<close>

lemma view_update_entry:
  "view (update_at parts (\<lambda>d. set_objects (AList.update name c (f_objects d)) d) d) q =
     (if prefix (parts @ [name]) q then view c (drop (length parts + 1) q)
      else if view d q = None \<and> prefix q parts then Some None else view d q)"
proof (induction parts arbitrary: d q)
  case Nil
  then show ?case by (cases q) (auto simp: view_Cons)
next
  case (Cons part parts)
  show ?case
  proof (cases q)
    case Nil
    then show ?thesis by (simp add: Let_def)
  next
    case (Cons q0 qs)
    show ?thesis
    proof (cases "q0 = part")
      case True
      show ?thesis
      proof (cases "map_of (f_objects d) part")
        case None
        have "view (FileObject part DIRECTORY None []) qs = (if qs = [] then Some None else None)"
          by (cases qs) simp_all
        then show ?thesis
          using Cons True None Cons.IH [of "FileObject part DIRECTORY None []" qs]
          by (auto simp: view_Cons Let_def)
      next
        case (Some c')
        then show ?thesis
          using Cons True Cons.IH [of c' qs] by (auto simp: view_Cons Let_def)
      qed
    next
      case False
      then show ?thesis
        using Cons by (simp add: view_Cons Let_def split: option.split)
    qed
  qed
qed

lemma view_delete_entry:
  assumes "lookup parts d \<noteq> None"
  shows "view (update_at parts (\<lambda>d. set_objects (AList.delete name (f_objects d)) d) d) q =
     (if prefix (parts @ [name]) q then None else view d q)"
  using assms
proof (induction parts arbitrary: d q)
  case Nil
  then show ?case by (cases q) (auto simp: view_Cons)
next
  case (Cons part parts)
  then obtain c where c: "map_of (f_objects d) part = Some c" "lookup parts c \<noteq> None"
    by (auto split: option.splits)
  then show ?case
    using Cons.IH [OF c(2)] by (cases q) (auto simp: view_Cons Let_def)
qed

lemma view_insert_file:
  assumes "parts \<noteq> []"
  shows "view (r_directory (insert_file parts key r)) q =
    (if q = parts then Some (Some key)
     else if prefix parts q then None
     else if view (r_directory r) q = None \<and> prefix q parts then Some None
     else view (r_directory r) q)"
proof -
  obtain ys y where parts: "parts = ys @ [y]"
    using assms by (metis rev_exhaust)
  have "view (FileObject y FILE (Some key) []) (drop (length parts) q) =
      (if q = parts then Some (Some key) else None)" if "prefix parts q"
  proof -
    obtain zs where "q = parts @ zs" using \<open>prefix parts q\<close> by (auto simp: prefix_def)
    then show ?thesis by (cases zs) simp_all
  qed
  moreover have "prefix q parts \<longleftrightarrow> q = parts \<or> prefix q ys"
    by (simp add: parts prefix_snoc)
  ultimately show ?thesis
    using parts by (auto simp: insert_file_def path_parent_def path_name_def view_update_entry)
qed

subsection \<open>Well-formedness is kept\<close>

definition no_file_on :: "string list \<Rightarrow> file_object \<Rightarrow> bool" where
  "no_file_on parts d \<longleftrightarrow>
     list_all (\<lambda>n. case view d (take n parts) of Some (Some k) \<Rightarrow> False | _ \<Rightarrow> True)
       [0 ..< Suc (length parts)]"

lemma no_file_on_iff: "no_file_on parts d \<longleftrightarrow> (\<forall>q k. prefix q parts \<longrightarrow> view d q \<noteq> Some (Some k))"
proof -
  define P where "P q = (case view d q of Some (Some k) \<Rightarrow> False | _ \<Rightarrow> True)" for q
  have "P (take n parts)" if "\<forall>q. prefix q parts \<longrightarrow> P q" for n
    using that by (simp add: take_is_prefix)
  moreover have "P q" if "\<forall>n \<in> {0 ..< Suc (length parts)}. P (take n parts)" "prefix q parts" for q
  proof -
    have "q = take (length q) parts" "length q < Suc (length parts)"
      using that(2) by (auto simp: prefix_def)
    then show ?thesis
      using that(1) by (metis atLeastLessThan_iff zero_le)
  qed
  ultimately have "no_file_on parts d \<longleftrightarrow> (\<forall>q. prefix q parts \<longrightarrow> P q)"
    unfolding no_file_on_def list_all_iff set_upt P_def [symmetric] by blast
  moreover have "P q \<longleftrightarrow> (\<forall>k. view d q \<noteq> Some (Some k))" for q
    by (simp add: P_def split: option.split)
  ultimately show ?thesis by blast
qed

lemma no_file_on_Cons:
  assumes "no_file_on (part # parts) d"
  shows "file_type d = FILE \<Longrightarrow> f_key d = None"
    and "map_of (f_objects d) part = Some c \<Longrightarrow> no_file_on parts c"
proof -
  show "file_type d = FILE \<Longrightarrow> f_key d = None"
    using assms [unfolded no_file_on_iff, rule_format, of "[]"] by (cases "f_key d") auto
  assume c: "map_of (f_objects d) part = Some c"
  have "view c q \<noteq> Some (Some k)" if "prefix q parts" for q k
    using assms [unfolded no_file_on_iff, rule_format, of "part # q" k] that c by (simp add: view_Cons)
  then show "no_file_on parts c"
    by (simp add: no_file_on_iff)
qed

lemma wf_update_entry:
  assumes "wf_file d" "file_type d = DIRECTORY" "valid_part k" "wf_file c" "f_name c = k"
  shows "wf_file (set_objects (AList.update k c (f_objects d)) d)"
proof -
  have "set (AList.update k c (f_objects d)) = {p \<in> set (f_objects d). fst p \<noteq> k} \<union> {(k, c)}"
    by (rule set_update_wf [OF wf_fileD(1) [OF assms(1)]])
  then show ?thesis
    using assms wf_fileD [OF assms(1)] by (subst wf_file_iff) (auto simp: wf_dict_update)
qed

lemma wf_update_at:
  assumes "wf_file d" "list_all valid_part parts" "no_file_on parts d"
    and "\<And>e. wf_file e \<Longrightarrow> file_type e = DIRECTORY \<Longrightarrow> wf_file (f e) \<and> f_name (f e) = f_name e"
  shows "wf_file (update_at parts f d) \<and> f_name (update_at parts f d) = f_name d"
  using assms(1-3)
proof (induction parts arbitrary: d)
  case Nil
  then have "view d [] \<noteq> Some (Some k)" for k
    by (simp add: no_file_on_iff)
  then have "file_type d = DIRECTORY"
    using wf_fileD(2) [OF Nil(1)] by (cases "file_type d") auto
  then show ?case
    using Nil assms(4) [of d] by simp
next
  case (Cons part parts)
  define c where "c = (case map_of (f_objects d) part of
    None \<Rightarrow> FileObject part DIRECTORY None [] | Some c \<Rightarrow> c)"
  have "view (FileObject part DIRECTORY None []) q \<noteq> Some (Some k)" for q k
    by (cases q) simp_all
  then have c: "wf_file c" "f_name c = part" "no_file_on parts c"
    using wf_fileD(4) [OF Cons.prems(1), of part] no_file_on_Cons(2) [OF Cons.prems(3)]
    by (auto simp: c_def no_file_on_iff dest: map_of_SomeD split: option.splits)
  have "file_type d = DIRECTORY"
    using no_file_on_Cons(1) [OF Cons.prems(3)] wf_fileD(2) [OF Cons.prems(1)] file_type.exhaust by blast
  then show ?case
    using Cons.IH [OF c(1) _ c(3)] Cons.prems c(2)
      wf_update_entry [OF Cons.prems(1) _ _ , of part "update_at parts f c"]
    by (simp add: Let_def c_def [symmetric])
qed

lemma file_type_update_at:
  "(\<And>e. file_type (f e) = file_type e) \<Longrightarrow> file_type (update_at parts f d) = file_type d"
  by (cases parts) (simp_all add: Let_def)

section \<open>Serialization\<close>

lemma from_serialized_serialize:
  "wf_file f \<Longrightarrow> from_serialized_file (serialize_file f) (f_name f) = Inr f"
  "\<forall>(k, c) \<in> set objs. f_name c = k \<and> wf_file c \<Longrightarrow>
     from_serialized_objects (serialize_objects objs) = Inr objs"
proof (induction f and objs rule: serialize_file_serialize_objects.induct)
  case (1 name ft key objects)
  then show ?case
  proof (cases ft)
    case DIRECTORY
    then have "from_serialized_objects (serialize_objects objects) = Inr objects"
      using 1 by (cases objects) (auto simp: list_all_iff)
    then show ?thesis
      using 1(2) DIRECTORY by (auto simp: File_def)
  next
    case FILE
    then show ?thesis
      using 1(2) by (auto simp: File_def)
  qed
qed auto

section \<open>Keys and walks\<close>

lemma map_of_wf: "wf_file d \<Longrightarrow> map_of (f_objects d) k = Some c \<longleftrightarrow> (k, c) \<in> set (f_objects d)"
  using wf_fileD(1) [of d] by (simp add: wf_dict_def)

lemma wf_dict_mem_iff: "wf_dict d \<Longrightarrow> (k, c) \<in> set d \<longleftrightarrow> map_of d k = Some c"
  by (simp add: wf_dict_def)

lemma lookup_Cons_mem:
  "wf_dict (f_objects d) \<Longrightarrow>
     lookup (k # suf) d = Some sub \<longleftrightarrow> (\<exists>c. (k, c) \<in> set (f_objects d) \<and> lookup suf c = Some sub)"
  by (simp add: wf_dict_mem_iff split: option.split)

lemma view_Cons_mem:
  "wf_dict (f_objects d) \<Longrightarrow>
     view d (k # suf) = Some v \<longleftrightarrow> (\<exists>c. (k, c) \<in> set (f_objects d) \<and> view c suf = Some v)"
  by (simp add: wf_dict_mem_iff view_Cons split: option.split)

lemma wf_lookup: "wf_file d \<Longrightarrow> lookup p d = Some f \<Longrightarrow> wf_file f"
proof (induction p arbitrary: d)
  case (Cons part parts)
  then obtain c where "map_of (f_objects d) part = Some c" "lookup parts c = Some f"
    by (auto split: option.splits)
  then show ?case
    using Cons wf_fileD(4) [OF Cons.prems(1), of part c] by (auto dest: map_of_SomeD)
qed simp

lemma wf_lookup_valid: "wf_file d \<Longrightarrow> lookup p d = Some f \<Longrightarrow> list_all valid_part p"
proof (induction p arbitrary: d)
  case (Cons part parts)
  then obtain c where "map_of (f_objects d) part = Some c" "lookup parts c = Some f"
    by (auto split: option.splits)
  then show ?case
    using Cons wf_fileD(4) [OF Cons.prems(1), of part c] by (auto dest: map_of_SomeD)
qed simp

lemma ex_list_iff: "(\<exists>p. Q p) \<longleftrightarrow> Q [] \<or> (\<exists>n p. Q (n # p))"
  by (metis neq_Nil_conv)

lemma add_file_keys_view:
  "list_all (\<lambda>(n, c). wf_file c) objs \<Longrightarrow>
     k \<in> set (add_file_keys objs) \<longleftrightarrow> (\<exists>(n, c) \<in> set objs. \<exists>p. view c p = Some (Some k))"
proof (induction objs rule: add_file_keys.induct)
  case (2 n name ft key objects objs)
  have "(\<exists>p. view (FileObject name ft key objects) p = Some (Some k)) \<longleftrightarrow>
      k \<in> set (case (ft, key) of (FILE, Some k) \<Rightarrow> [k] | (FILE, None) \<Rightarrow> []
        | (DIRECTORY, _) \<Rightarrow> add_file_keys objects)" (is "?l \<longleftrightarrow> ?r")
  proof (cases ft)
    case FILE
    then have "objects = []" "key \<noteq> None"
      using 2 by auto
    then have "view (FileObject name ft key objects) p = Some (Some k) \<longleftrightarrow> p = [] \<and> key = Some k" for p
      using FILE by (cases p) auto
    then show ?thesis
      using FILE \<open>key \<noteq> None\<close> by auto
  next
    case DIRECTORY
    then have wf: "wf_dict objects" "list_all (\<lambda>(n, c). wf_file c) objects"
      using 2 by (auto simp: list_all_iff)
    have "?l \<longleftrightarrow> (\<exists>n p. view (FileObject name ft key objects) (n # p) = Some (Some k))"
      using DIRECTORY by (subst ex_list_iff) simp
    also have "\<dots> \<longleftrightarrow> (\<exists>(n, c) \<in> set objects. \<exists>p. view c p = Some (Some k))"
    proof -
      have "view (FileObject name ft key objects) (n # p) = Some (Some k) \<longleftrightarrow>
          (\<exists>c. (n, c) \<in> set objects \<and> view c p = Some (Some k))" for n p
        using wf(1) by (simp add: view_Cons_mem)
      then show ?thesis by auto
    qed
    finally show ?thesis
      using 2(1) wf(2) DIRECTORY by simp
  qed
  then show ?case
    using 2 by auto
qed simp

lemma get_file_keys_view:
  assumes "wf_file (r_directory r)" "file_type (r_directory r) = DIRECTORY"
  shows "k \<in> set (get_file_keys r) \<longleftrightarrow> (\<exists>p. view (r_directory r) p = Some (Some k))"
proof -
  have "list_all (\<lambda>(n, c). wf_file c) [(''r'', r_directory r)]"
    using assms(1) by simp
  then have "k \<in> set (add_file_keys [(''r'', r_directory r)]) \<longleftrightarrow>
      (\<exists>p. view (r_directory r) p = Some (Some k))"
    by (subst add_file_keys_view) simp_all
  then show ?thesis
    using assms(2) by (cases "r_directory r") (simp add: get_file_keys_def)
qed

lemma names_of_type_iff:
  assumes "wf_file d"
  shows "n \<in> set (names_of_type ft (f_objects d)) \<longleftrightarrow>
    (\<exists>c. map_of (f_objects d) n = Some c \<and> file_type c = ft)"
  using wf_fileD(4) [OF assms] unfolding map_of_wf [OF assms]
  by (force simp: names_of_type_def image_iff)

lemma walk_dir_lookup:
  "wf_file d \<Longrightarrow>
     (root, ds, fs) \<in> set (walk_dir path d) \<longleftrightarrow>
     (\<exists>suf sub. root = path @ suf \<and> lookup suf d = Some sub \<and> (suf = [] \<or> file_type sub = DIRECTORY) \<and>
        ds = names_of_type DIRECTORY (f_objects sub) \<and> fs = names_of_type FILE (f_objects sub))"
  "\<forall>(k, c) \<in> set objs. f_name c = k \<and> valid_part k \<and> wf_file c \<Longrightarrow>
     (root, ds, fs) \<in> set (walk_objects path objs) \<longleftrightarrow>
     (\<exists>(k, c) \<in> set objs. file_type c = DIRECTORY \<and>
        (\<exists>suf sub. root = path @ k # suf \<and> lookup suf c = Some sub \<and> file_type sub = DIRECTORY \<and>
          ds = names_of_type DIRECTORY (f_objects sub) \<and> fs = names_of_type FILE (f_objects sub)))"
proof (induction path d and path objs rule: walk_dir_walk_objects.induct)
  case (1 path name ft key objects)
  have wf: "\<forall>(k, c) \<in> set objects. f_name c = k \<and> valid_part k \<and> wf_file c" "wf_dict objects"
    using 1(2) by (auto simp: list_all_iff)
  have inner: "file_type c = DIRECTORY"
    if "(k, c) \<in> set objects" "lookup suf c = Some sub" "file_type sub = DIRECTORY" for k c suf sub
  proof (rule ccontr)
    assume "file_type c \<noteq> DIRECTORY"
    then have "file_type c = FILE" by (cases "file_type c") auto
    then have "f_objects c = []"
      using that(1) wf wf_fileD(2) [of c] by auto
    then show False
      using that \<open>file_type c = FILE\<close> by (cases suf) auto
  qed
  have "(\<exists>k suf sub. root = path @ k # suf \<and> lookup (k # suf) (FileObject name ft key objects) = Some sub \<and>
        file_type sub = DIRECTORY \<and> ds = names_of_type DIRECTORY (f_objects sub) \<and>
        fs = names_of_type FILE (f_objects sub)) \<longleftrightarrow> (root, ds, fs) \<in> set (walk_objects path objects)"
    (is "?sub \<longleftrightarrow> _")
  proof -
    have "?sub \<longleftrightarrow> (\<exists>k c suf sub. (k, c) \<in> set objects \<and> root = path @ k # suf \<and> lookup suf c = Some sub \<and>
        file_type sub = DIRECTORY \<and> ds = names_of_type DIRECTORY (f_objects sub) \<and>
        fs = names_of_type FILE (f_objects sub))"
      using lookup_Cons_mem [of "FileObject name ft key objects"] wf(2) by (simp del: lookup.simps) blast
    then show ?thesis
      unfolding 1(1) [OF wf(1)] using inner by (simp add: Bex_def) blast
  qed
  then show ?case
    by (subst ex_list_iff) (auto simp del: lookup.simps(2))
next
  case (3 path k f objs)
  have "f_name f = k" "path_join path k = path @ [k]"
    using 3(3) by (auto simp: path_join_valid)
  then show ?case
    using 3 by (auto simp: case_prod_unfold)
qed auto

lemma pre_process_rel_path [simp]: "pre_process_path (rel_path p) = Inr p"
  by (simp add: rel_path_def pre_process_path_def)

lemma rel_path_not_None [simp]: "rel_path p \<noteq> PathNone"
  by (simp add: rel_path_def)

lemma view_above:
  assumes "wf_file d" "view d (p @ part # parts) \<noteq> None"
  shows "view d p = Some None"
proof -
  obtain c where c: "lookup p d = Some c" "view c (part # parts) \<noteq> None"
    using assms(2) by (auto simp: view_append split: option.splits)
  then have "file_type c = DIRECTORY"
    using wf_fileD(2) [OF wf_lookup [OF assms(1) c(1)]] by (cases "file_type c") auto
  then show ?thesis
    using c(1) by (simp add: view_def)
qed

lemma wf_delete_entry:
  assumes "wf_file d"
  shows "wf_file (set_objects (AList.delete k (f_objects d)) d)"
proof -
  have "set (AList.delete k (f_objects d)) \<subseteq> set (f_objects d)"
    by (auto simp: AList_delete_filter)
  then show ?thesis
    using assms wf_fileD [OF assms] by (subst wf_file_iff) (auto simp: wf_dict_delete split: file_type.splits)
qed

section \<open>The contract of a backend\<close>

text \<open>
  \<open>content\<close> is what a backend holds under each key.  Storing adds the content under a key that is
  new or already holds the same content, so nothing that was stored is lost.
\<close>

locale repository_backend =
  fixes ops :: "'b backend_ops" and inv :: "'b \<Rightarrow> bool" and content :: "'b \<Rightarrow> string \<Rightarrow> bytes option"
  assumes put_law: "inv b \<Longrightarrow> be_put ops b c = (b', k) \<Longrightarrow>
      inv b' \<and> content b' = (content b)(k \<mapsto> c) \<and> (content b k = None \<or> content b k = Some c)"
    and has_law: "inv b \<Longrightarrow> be_has_objects ops b ks = map (\<lambda>k. content b k \<noteq> None) ks"
    and read_law: "inv b \<Longrightarrow>
      be_read ops b k = (case content b k of None \<Rightarrow> Inl FileNotFoundError | Some c \<Rightarrow> Inr c)"
    and delete_law: "inv b \<Longrightarrow> content b k \<noteq> None \<Longrightarrow>
      \<exists>b'. be_delete_objects ops b [k] = (b', Inr ()) \<and> inv b' \<and> content b' = (content b)(k := None)"
    and delete_missing_law: "inv b \<Longrightarrow> content b k = None \<Longrightarrow>
      be_delete_objects ops b [k] = (b, Inl FileNotFoundError)"
begin

text \<open>A repository in order: a well-formed hierarchy whose files are all stored.\<close>

definition repo_ok :: "'b repository \<Rightarrow> bool" where
  "repo_ok r \<longleftrightarrow>
     inv (r_backend r) \<and> wf_file (r_directory r) \<and> file_type (r_directory r) = DIRECTORY \<and>
     list_all (\<lambda>k. content (r_backend r) k \<noteq> None) (get_file_keys r)"

lemma repo_okD:
  assumes "repo_ok r" "view (r_directory r) p = Some (Some k)"
  shows "content (r_backend r) k \<noteq> None"
  using assms get_file_keys_view [of r k] by (auto simp: repo_ok_def list_all_iff)

lemma repo_okI:
  assumes "inv (r_backend r)" "wf_file (r_directory r)" "file_type (r_directory r) = DIRECTORY"
    and "\<And>p k. view (r_directory r) p = Some (Some k) \<Longrightarrow> content (r_backend r) k \<noteq> None"
  shows "repo_ok r"
  using assms get_file_keys_view [of r] by (auto simp: repo_ok_def list_all_iff)

text \<open>Reading through the abstract view.\<close>

lemma get_object_content_view:
  assumes "inv (r_backend r)" "wf_file (r_directory r)" "pre_process_path path = Inr p" "path \<noteq> PathNone"
  shows "get_object_content ops path r =
    (case view (r_directory r) p of
       None \<Rightarrow> Inl FileNotFoundError
     | Some None \<Rightarrow> Inl IsADirectoryError
     | Some (Some k) \<Rightarrow>
         (case content (r_backend r) k of None \<Rightarrow> Inl FileNotFoundError | Some c \<Rightarrow> Inr c))"
proof (cases "lookup p (r_directory r)")
  case None
  then show ?thesis
    using assms(3,4)
    by (simp add: get_object_content_def get_file_def get_object_def get_object_at_def view_def)
next
  case (Some f)
  have "wf_file f"
    using Some assms(2) wf_lookup by blast
  then have "file_type f = FILE \<Longrightarrow> f_key f \<noteq> None"
    using wf_fileD(2) by blast
  then show ?thesis
    using Some assms(3,4) read_law [OF assms(1)]
    by (cases "file_type f")
       (auto simp: get_object_content_def get_file_def get_object_def get_object_at_def view_def
         backend_get_object_content_def split: option.split)
qed

text \<open>Storing a byte stream: the new repository is in order, and its view is the old one with the
  file and the directories above it.\<close>

lemma put_view:
  assumes "repo_ok r" "pre_process_path path = Inr p" "p \<noteq> []" "list_all valid_part p"
    "no_file_on (butlast p) (r_directory r)"
  shows "\<exists>r' k. put_object_from_filelike ops (ByteStream c) path r = (r', Inr ()) \<and> repo_ok r' \<and>
    content (r_backend r') = (content (r_backend r))(k \<mapsto> c) \<and>
    (content (r_backend r) k = None \<or> content (r_backend r) k = Some c) \<and>
    (\<forall>q. view (r_directory r') q =
      (if q = p then Some (Some k) else if prefix p q then None
       else if view (r_directory r) q = None \<and> prefix q p then Some None
       else view (r_directory r) q))"
proof -
  obtain b k where put: "be_put ops (r_backend r) c = (b, k)" by fastforce
  have b: "inv b" "content b = (content (r_backend r))(k \<mapsto> c)"
    "content (r_backend r) k = None \<or> content (r_backend r) k = Some c"
    using put_law [OF _ put] assms(1) by (auto simp: repo_ok_def)
  let ?r = "insert_file p k (r\<lparr>r_backend := b\<rparr>)"
  have view: "view (r_directory ?r) q =
      (if q = p then Some (Some k) else if prefix p q then None
       else if view (r_directory r) q = None \<and> prefix q p then Some None
       else view (r_directory r) q)" for q
    using view_insert_file [OF assms(3), of k "r\<lparr>r_backend := b\<rparr>" q] by simp
  have valid: "valid_part (last p)" "list_all valid_part (butlast p)"
    using assms(3,4) by (auto simp: list_all_iff dest: in_set_butlastD)
  have "wf_file (r_directory ?r)"
    using assms(1,3,5) valid wf_update_entry [OF _ _ valid(1), of _ "FileObject (last p) FILE (Some k) []"]
    by (simp add: insert_file_def path_name_def path_parent_def repo_ok_def) (rule wf_update_at [THEN conjunct1]; simp)
  moreover have "file_type (r_directory ?r) = DIRECTORY"
    using assms(1) by (simp add: insert_file_def repo_ok_def file_type_update_at)
  moreover have "r_backend ?r = b"
    by (simp add: insert_file_def)
  ultimately have "repo_ok ?r"
    using b view repo_okD [OF assms(1)] by (intro repo_okI) (auto split: if_splits)
  then show ?thesis
    using assms(2) put b view \<open>r_backend ?r = b\<close>
    by (auto simp: put_object_from_filelike_def backend_put_object_from_filelike_def)
qed

lemma create_view:
  assumes "repo_ok r" "pre_process_path path = Inr p" "path \<noteq> PathNone" "list_all valid_part p"
    "no_file_on p (r_directory r)"
  shows "\<exists>r'. create_directory path r = (r', Inr ()) \<and> repo_ok r' \<and> r_backend r' = r_backend r \<and>
    (\<forall>q. view (r_directory r') q =
      (if view (r_directory r) q = None \<and> prefix q p then Some None else view (r_directory r) q))"
proof -
  let ?r = "r\<lparr>r_directory := update_at p id (r_directory r)\<rparr>"
  have "wf_file (r_directory ?r)"
    using assms wf_update_at [of "r_directory r" p id] by (simp add: repo_ok_def)
  moreover have "file_type (r_directory ?r) = DIRECTORY"
    using assms(1) by (simp add: repo_ok_def file_type_update_at)
  ultimately have "repo_ok ?r"
    using assms(1) repo_okD [OF assms(1)]
    by (intro repo_okI) (auto simp: view_create repo_ok_def split: if_splits)
  then show ?thesis
    using assms(2,3) by (auto simp: create_directory_def view_create)
qed

lemma delete_view:
  assumes "repo_ok r" "pre_process_path path = Inr p" "view (r_directory r) p = Some (Some k)"
  shows "\<exists>r'. delete_object ops path hard r = (r', Inr ()) \<and> inv (r_backend r') \<and>
    wf_file (r_directory r') \<and>
    content (r_backend r') = (if hard then (content (r_backend r))(k := None) else content (r_backend r)) \<and>
    (\<forall>q. view (r_directory r') q = (if q = p then None else view (r_directory r) q))"
proof -
  let ?d = "r_directory r"
  have wf: "wf_file ?d" "file_type ?d = DIRECTORY" "inv (r_backend r)"
    using assms(1) by (auto simp: repo_ok_def)
  obtain f where f: "lookup p ?d = Some f" "file_type f = FILE" "f_key f = Some k"
    using assms(3) by (auto simp: view_def split: if_splits)
  obtain ys y where p: "p = ys @ [y]"
    using f wf(2) by (cases p rule: rev_cases) auto
  obtain b where b: "(if hard then backend_delete_object ops (r_backend r) k else (r_backend r, Inr ())) =
      (b, Inr ())" "inv b"
    "content b = (if hard then (content (r_backend r))(k := None) else content (r_backend r))"
    using delete_law [OF wf(3) repo_okD [OF assms(1,3)]] wf(3)
    by (cases hard) (auto simp: backend_delete_object_def)
  have ys: "view ?d ys = Some None"
    using view_above [OF wf(1), of ys y "[]"] assms(3) p by simp
  then obtain e where "lookup ys ?d = Some e"
    by (auto simp: view_def)
  with ys have e: "lookup ys ?d = Some e" "file_type e = DIRECTORY"
    using wf_fileD(2) [OF wf_lookup [OF wf(1)], of ys e] by (cases "file_type e"; simp add: view_def)+
  let ?d' = "update_at ys (\<lambda>d. set_objects (AList.delete y (f_objects d)) d) ?d"
  have "view ?d q = None" if "prefix p q" "q \<noteq> p" for q
  proof -
    obtain z zs where "q = p @ z # zs" using \<open>prefix p q\<close> \<open>q \<noteq> p\<close>
      by (metis append_Nil2 neq_Nil_conv prefix_def)
    then show ?thesis using view_above [OF wf(1), of p z zs] assms(3) by fastforce
  qed
  then have "view ?d' q = (if q = p then None else view ?d q)" for q
    using view_delete_entry [of ys ?d y q] e p by auto
  moreover have "wf_file ?d'"
  proof -
    have "no_file_on ys ?d"
      using view_above [OF wf(1)] ys unfolding no_file_on_iff
      by (metis option.distinct(1) option.inject prefix_def append_Nil2 neq_Nil_conv)
    moreover have "list_all valid_part ys"
      using wf_lookup_valid [OF wf(1) e(1)] .
    ultimately show ?thesis
      using wf_update_at [OF wf(1)] wf_delete_entry by simp
  qed
  ultimately show ?thesis
    using assms(2) f b e p
    by (auto simp: delete_object_def get_object_at_def get_directory_def get_object_def path_parent_def
        path_name_def Let_def split: if_splits)
qed

lemma delete_keys:
  assumes "inv b" "distinct ks" "\<forall>k \<in> set ks. content b k \<noteq> None"
  shows "\<exists>b'. seq_ops (map (\<lambda>key b. backend_delete_object ops b key) ks) b = (b', Inr ()) \<and> inv b' \<and>
    content b' = (\<lambda>k. if k \<in> set ks then None else content b k)"
  using assms
proof (induction ks arbitrary: b)
  case (Cons k ks)
  obtain b' where b': "be_delete_objects ops b [k] = (b', Inr ())" "inv b'"
    "content b' = (content b)(k := None)"
    using delete_law [OF Cons.prems(1), of k] Cons.prems(3) by auto
  have "\<forall>k' \<in> set ks. content b' k' \<noteq> None"
    using Cons.prems b'(3) by auto
  from Cons.IH [OF b'(2) _ this] Cons.prems(2) obtain b'' where
    "seq_ops (map (\<lambda>key b. backend_delete_object ops b key) ks) b' = (b'', Inr ())" "inv b''"
    "content b'' = (\<lambda>k'. if k' \<in> set ks then None else content b' k')"
    by auto
  then show ?case
    using b' by (auto simp: backend_delete_object_def)
qed auto

lemma erase_view:
  assumes "repo_ok r" "distinct (get_file_keys r)"
  shows "\<exists>r'. erase ops r = (r', Inr ()) \<and> repo_ok r' \<and> is_empty r' \<and>
    content (r_backend r') =
      (\<lambda>k. if k \<in> set (get_file_keys r) then None else content (r_backend r) k)"
proof -
  obtain b where b: "seq_ops (map (\<lambda>key b. backend_delete_object ops b key) (get_file_keys r))
      (r_backend r) = (b, Inr ())" "inv b"
    "content b = (\<lambda>k. if k \<in> set (get_file_keys r) then None else content (r_backend r) k)"
    using delete_keys [of "r_backend r" "get_file_keys r"] assms by (auto simp: repo_ok_def list_all_iff)
  then show ?thesis
    by (auto simp: erase_def reset_def is_empty_def repo_ok_def get_file_keys_def root_file_def)
qed

subsection \<open>Cloning\<close>

text \<open>The content of a repository: directories and files with their bytes.\<close>

definition entry :: "'b repository \<Rightarrow> string list \<Rightarrow> bytes option option" where
  "entry r p =
     map_option (\<lambda>v. case v of None \<Rightarrow> None | Some k \<Rightarrow> content (r_backend r) k) (view (r_directory r) p)"

text \<open>A step towards a content \<open>V\<close>: make a directory, or store a file.\<close>

definition step_op :: "string list \<times> bytes option \<Rightarrow> 'b repository \<Rightarrow> 'b repository \<times> unit res" where
  "step_op = (\<lambda>(p, x). case x of
     None \<Rightarrow> create_directory (rel_path p)
   | Some c \<Rightarrow> put_object_from_filelike ops (ByteStream c) (rel_path p))"

definition towards :: "(string list \<Rightarrow> bytes option option) \<Rightarrow> 'b repository \<Rightarrow> bool" where
  "towards V r \<longleftrightarrow> repo_ok r \<and> (\<forall>q. entry r q = None \<or> entry r q = V q)"

lemma entry_file:
  assumes "repo_ok r" "view (r_directory r) q = Some (Some k)"
  obtains c where "content (r_backend r) k = Some c" "entry r q = Some (Some c)"
  using repo_okD [OF assms] assms(2) by (auto simp: entry_def)

lemma entry_None_iff: "entry r q = None \<longleftrightarrow> view (r_directory r) q = None"
  by (simp add: entry_def)

lemma towards_no_file:
  assumes "towards V r" "\<And>q. prefix q p \<Longrightarrow> V q = Some None"
  shows "no_file_on p (r_directory r)"
  unfolding no_file_on_iff
proof (intro allI impI)
  fix q k
  assume "prefix q p"
  then have V: "V q = Some None" by (rule assms(2))
  show "view (r_directory r) q \<noteq> Some (Some k)"
  proof
    assume "view (r_directory r) q = Some (Some k)"
    then obtain c where "entry r q = Some (Some c)"
      using entry_file assms(1) unfolding towards_def by metis
    then show False
      using assms(1) V by (auto simp: towards_def dest: spec [of _ q])
  qed
qed

lemma step_towards:
  assumes "towards V r" "V p = Some x" "p \<noteq> []" "list_all valid_part p"
    and above: "\<And>q y ys. V (q @ y # ys) \<noteq> None \<Longrightarrow> V q = Some None"
  shows "\<exists>r'. step_op (p, x) r = (r', Inr ()) \<and> towards V r' \<and> entry r' p \<noteq> None \<and>
    (\<forall>q. entry r q \<noteq> None \<longrightarrow> entry r' q \<noteq> None)"
proof -
  have ok: "repo_ok r" and low: "entry r q = None \<or> entry r q = V q" for q
    using assms(1) by (auto simp: towards_def)
  have up: "V q = Some None" if "prefix q p" "q \<noteq> p" for q
    using that above assms(2) by (metis append_Nil2 neq_Nil_conv option.distinct(1) prefix_def)
  show ?thesis
  proof (cases x)
    case None
    have "no_file_on p (r_directory r)"
      using towards_no_file [OF assms(1)] up assms(2) None by metis
    then obtain r' where r': "create_directory (rel_path p) r = (r', Inr ())" "repo_ok r'"
      "r_backend r' = r_backend r" "\<forall>q. view (r_directory r') q =
        (if view (r_directory r) q = None \<and> prefix q p then Some None else view (r_directory r) q)"
      using create_view [OF ok pre_process_rel_path rel_path_not_None assms(4)] by blast
    then have "entry r' q = (if entry r q = None \<and> prefix q p then Some None else entry r q)" for q
      by (simp add: entry_def)
    moreover have "V q = Some None" if "prefix q p" for q
      using that up assms(2) None by metis
    ultimately have "\<forall>q. entry r' q = None \<or> entry r' q = V q" "entry r' p \<noteq> None"
      "\<forall>q. entry r q \<noteq> None \<longrightarrow> entry r' q \<noteq> None"
      using low by auto
    then show ?thesis
      using r' None by (auto simp: step_op_def towards_def)
  next
    case (Some c)
    have "prefix q (butlast p) \<Longrightarrow> prefix q p \<and> q \<noteq> p" for q
      using assms(3) by (metis append_butlast_last_id not_Cons_self2 append_self_conv
          prefix_order.antisym prefixI prefix_order.trans)
    then have "no_file_on (butlast p) (r_directory r)"
      using towards_no_file [OF assms(1)] up by blast
    then obtain r' k where r': "put_object_from_filelike ops (ByteStream c) (rel_path p) r = (r', Inr ())"
      "repo_ok r'" "content (r_backend r') = (content (r_backend r))(k \<mapsto> c)"
      "content (r_backend r) k = None \<or> content (r_backend r) k = Some c"
      "\<forall>q. view (r_directory r') q =
        (if q = p then Some (Some k) else if prefix p q then None
         else if view (r_directory r) q = None \<and> prefix q p then Some None
         else view (r_directory r) q)"
      using put_view [OF ok pre_process_rel_path assms(3,4)] by blast
    have below: "entry r q = None" if "prefix p q" "q \<noteq> p" for q
      using that above [of p] assms(2) Some low [of q]
      by (metis append_Nil2 neq_Nil_conv option.distinct(1) option.inject prefix_def)
    have same: "entry r' q = entry r q" if "view (r_directory r') q = view (r_directory r) q" for q
    proof (cases "view (r_directory r) q")
      case (Some v)
      then show ?thesis
        using that r'(3,4) repo_okD [OF ok, of q] by (cases v) (auto simp: entry_def)
    qed (use that in \<open>simp add: entry_def\<close>)
    have e: "entry r' q = (if q = p then Some (Some c) else if prefix p q then None
         else if entry r q = None \<and> prefix q p then Some None else entry r q)" for q
    proof (cases "q = p \<or> prefix p q \<or> (view (r_directory r) q = None \<and> prefix q p)")
      case True
      then show ?thesis using r'(3,5) by (auto simp: entry_def)
    next
      case False
      then show ?thesis using same [of q] r'(5) by (auto simp: entry_None_iff)
    qed
    have "\<forall>q. entry r' q = None \<or> entry r' q = V q" "entry r' p \<noteq> None"
      "\<forall>q. entry r q \<noteq> None \<longrightarrow> entry r' q \<noteq> None"
      using low below up assms(2) Some by (auto simp: e)
    then show ?thesis
      using r'(1,2) Some by (auto simp: step_op_def towards_def)
  qed
qed

lemma steps_towards:
  assumes "towards V r" "\<forall>(p, x) \<in> set steps. V p = Some x \<and> p \<noteq> [] \<and> list_all valid_part p"
    and above: "\<And>q y ys. V (q @ y # ys) \<noteq> None \<Longrightarrow> V q = Some None"
  shows "\<exists>r'. seq_ops (map step_op steps) r = (r', Inr ()) \<and> towards V r' \<and>
    (\<forall>p x. (p, x) \<in> set steps \<longrightarrow> entry r' p \<noteq> None) \<and> (\<forall>q. entry r q \<noteq> None \<longrightarrow> entry r' q \<noteq> None)"
  using assms(1,2)
proof (induction steps arbitrary: r)
  case (Cons s steps)
  obtain p x where s: "s = (p, x)" by fastforce
  obtain r1 where r1: "step_op (p, x) r = (r1, Inr ())" "towards V r1" "entry r1 p \<noteq> None"
    "\<forall>q. entry r q \<noteq> None \<longrightarrow> entry r1 q \<noteq> None"
    using step_towards [OF Cons.prems(1), of p x] Cons.prems(2) above s by auto
  obtain r2 where "seq_ops (map step_op steps) r1 = (r2, Inr ())" "towards V r2"
    "\<forall>p x. (p, x) \<in> set steps \<longrightarrow> entry r2 p \<noteq> None" "\<forall>q. entry r1 q \<noteq> None \<longrightarrow> entry r2 q \<noteq> None"
    using Cons.IH [OF r1(2)] Cons.prems(2) by auto
  then show ?case
    using r1 s by auto
qed auto

text \<open>The steps that cloning a source takes: for each entry of its walk the directories, then the files.\<close>

definition clone_steps :: "(string list \<Rightarrow> bytes) \<Rightarrow> walk_entry list \<Rightarrow> (string list \<times> bytes option) list" where
  "clone_steps C entries =
     concat (map (\<lambda>(root, dirnames, filenames).
       map (\<lambda>n. (path_join root n, None)) dirnames @
       map (\<lambda>n. (path_join root n, Some (C (path_join root n)))) filenames) entries)"

lemma set_concat_map: "y \<in> set (concat (map f es)) \<longleftrightarrow> (\<exists>e \<in> set es. y \<in> set (concat (map f [e])))"
  by simp

lemma clone_steps_mem:
  "y \<in> set (clone_steps C es) \<longleftrightarrow> (\<exists>e \<in> set es. y \<in> set (clone_steps C [e]))"
  unfolding clone_steps_def by (rule set_concat_map)

lemma clone_steps_iff:
  assumes "wf_file d" "file_type d = DIRECTORY"
  shows "(p, x) \<in> set (clone_steps C (walk_dir [] d)) \<longleftrightarrow>
    p \<noteq> [] \<and> (case view d p of None \<Rightarrow> False | Some None \<Rightarrow> x = None | Some (Some k) \<Rightarrow> x = Some (C p))"
    (is "?l \<longleftrightarrow> ?r")
proof -
  have names: "n \<in> set (names_of_type ft (f_objects sub)) \<longleftrightarrow>
      (\<exists>f. lookup (suf @ [n]) d = Some f \<and> file_type f = ft)" "n \<in> set (names_of_type ft (f_objects sub)) \<Longrightarrow> valid_part n"
    if "lookup suf d = Some sub" for suf sub ft n
  proof -
    have wf: "wf_file sub" by (rule wf_lookup [OF assms(1) that])
    show iff: "n \<in> set (names_of_type ft (f_objects sub)) \<longleftrightarrow>
        (\<exists>f. lookup (suf @ [n]) d = Some f \<and> file_type f = ft)"
      using names_of_type_iff [OF wf, of n ft] that by (auto simp: lookup_append split: option.splits)
    show "valid_part n" if "n \<in> set (names_of_type ft (f_objects sub))"
      using that iff wf_lookup_valid [OF assms(1), of "suf @ [n]"] by auto
  qed
  have dir: "file_type sub = DIRECTORY" if "lookup (suf @ [n]) d = Some f" "lookup suf d = Some sub" for suf n f sub
    using that wf_fileD(2) [OF wf_lookup [OF assms(1) that(2)]]
    by (cases "file_type sub") (auto simp: lookup_append split: option.splits)
  let ?kind = "\<lambda>f. case file_type f of DIRECTORY \<Rightarrow> None | FILE \<Rightarrow> Some (C p)"
  have "?l \<longleftrightarrow> (\<exists>suf n f. p = suf @ [n] \<and> lookup (suf @ [n]) d = Some f \<and> x = ?kind f)" (is "_ \<longleftrightarrow> ?m")
  proof
    assume ?l
    then obtain root ds fs n where e: "(root, ds, fs) \<in> set (walk_dir [] d)" "p = path_join root n"
      "n \<in> set ds \<and> x = None \<or> n \<in> set fs \<and> x = Some (C p)"
      by (auto simp: clone_steps_def)
    then obtain sub where sub: "lookup root d = Some sub"
      "ds = names_of_type DIRECTORY (f_objects sub)" "fs = names_of_type FILE (f_objects sub)"
      by (auto simp: walk_dir_lookup(1) [OF assms(1)])
    then have "p = root @ [n]"
      using e names(2) [OF sub(1)] path_join_valid by metis
    then show ?m
      using e(3) sub names(1) [OF sub(1)] by auto
  next
    assume ?m
    then obtain suf n f where f: "p = suf @ [n]" "lookup (suf @ [n]) d = Some f" "x = ?kind f"
      by blast
    then obtain sub where sub: "lookup suf d = Some sub"
      by (auto simp: lookup_append split: option.splits)
    then have "(suf, names_of_type DIRECTORY (f_objects sub), names_of_type FILE (f_objects sub))
        \<in> set (walk_dir [] d)"
      using dir [OF f(2) sub] by (auto simp: walk_dir_lookup(1) [OF assms(1)])
    moreover have n: "n \<in> set (names_of_type (file_type f) (f_objects sub))"
      using names(1) [OF sub] f(2) by blast
    moreover have "path_join suf n = p"
      using names(2) [OF sub n] f(1) by (simp add: path_join_valid)
    moreover have "(p, x) \<in> set (clone_steps C [e]) \<Longrightarrow> e \<in> set (walk_dir [] d) \<Longrightarrow> ?l" for e
      using clone_steps_mem by blast
    moreover have "(p, x) \<in> set (clone_steps C [(suf, names_of_type DIRECTORY (f_objects sub),
        names_of_type FILE (f_objects sub))])"
      using n f(3) \<open>path_join suf n = p\<close> by (cases "file_type f") (auto simp: clone_steps_def)
    ultimately show ?l by blast
  qed
  also have "\<dots> \<longleftrightarrow> ?r"
  proof (cases "lookup p d")
    case None
    then show ?thesis by (auto simp: view_def)
  next
    case (Some f)
    then have "file_type f = FILE \<Longrightarrow> f_key f \<noteq> None"
      using wf_fileD(2) [OF wf_lookup [OF assms(1)]] by blast
    then show ?thesis
      using Some by (cases p rule: rev_cases; cases "file_type f") (auto simp: view_def)
  qed
  finally show ?thesis .
qed

lemma clone_view:
  assumes source: "wf_file (r_directory source)" "file_type (r_directory source) = DIRECTORY"
    and read: "\<And>p k. view (r_directory source) p = Some (Some k) \<Longrightarrow>
      get_object_content sops (rel_path p) source = Inr (C p)"
    and target: "repo_ok r" "is_empty r"
  shows "\<exists>r'. clone ops sops source r = (r', Inr ()) \<and> repo_ok r' \<and>
    (\<forall>p. entry r' p = map_option (map_option (\<lambda>_. C p)) (view (r_directory source) p))"
proof -
  define V where "V p = map_option (map_option (\<lambda>_. C p)) (view (r_directory source) p)" for p
  let ?steps = "clone_steps C (walk_dir [] (r_directory source))"
  have steps: "(p, x) \<in> set ?steps \<longleftrightarrow> p \<noteq> [] \<and> V p = Some x" for p x
    using clone_steps_iff [OF source, of p x C] by (auto simp: V_def split: option.splits)
  have above: "V q = Some None" if "V (q @ y # ys) \<noteq> None" for q y ys
    using that view_above [OF source(1), of q y ys] by (auto simp: V_def)
  have "list_all valid_part p" if "V p \<noteq> None" for p
    using that wf_lookup_valid [OF source(1), of p] by (auto simp: V_def view_def)
  then have ok: "\<forall>(p, x) \<in> set ?steps. V p = Some x \<and> p \<noteq> [] \<and> list_all valid_part p"
    using steps by auto
  have "entry r q = None \<or> entry r q = V q" for q
    using target source(2) by (cases q) (auto simp: entry_def V_def is_empty_def repo_ok_def)
  then have start: "towards V r"
    using target(1) by (simp add: towards_def)
  have "\<exists>r'. seq_ops (map step_op ?steps) r = (r', Inr ()) \<and> towards V r' \<and>
    (\<forall>p x. (p, x) \<in> set ?steps \<longrightarrow> entry r' p \<noteq> None) \<and> (\<forall>q. entry r q \<noteq> None \<longrightarrow> entry r' q \<noteq> None)"
    by (rule steps_towards [OF start ok]) (rule above)
  then obtain r' where r': "seq_ops (map step_op ?steps) r = (r', Inr ())" "towards V r'"
    "\<forall>p x. (p, x) \<in> set ?steps \<longrightarrow> entry r' p \<noteq> None"
    by blast
  have "entry r' p = V p" for p
  proof (cases "p = []")
    case True
    then show ?thesis
      using r'(2) source(2) by (auto simp: towards_def entry_def V_def repo_ok_def)
  next
    case False
    then show ?thesis
      using r'(2,3) steps [of p] unfolding towards_def by (cases "V p") metis+
  qed
  moreover have "concat (map (clone_entry ops sops source) (walk_dir [] (r_directory source))) =
      map step_op ?steps"
  proof -
    have "clone_entry ops sops source (root, ds, fs) = map step_op (clone_steps C [(root, ds, fs)])"
      if "(root, ds, fs) \<in> set (walk_dir [] (r_directory source))" for root ds fs
    proof -
      have "get_object_content sops (rel_path (path_join root n)) source = Inr (C (path_join root n))"
        if "n \<in> set fs" for n
      proof -
        have "(path_join root n, Some (C (path_join root n))) \<in> set ?steps"
          using \<open>(root, ds, fs) \<in> _\<close> that
          by (subst clone_steps_mem, intro bexI [of _ "(root, ds, fs)"]) (auto simp: clone_steps_def)
        then show ?thesis
          using steps read by (auto simp: V_def)
      qed
      then show ?thesis
        by (auto simp: clone_entry_def clone_steps_def step_op_def fun_eq_iff)
    qed
    then show ?thesis
      by (auto simp: clone_steps_def map_concat intro!: arg_cong [of _ _ concat] map_cong)
  qed
  ultimately show ?thesis
    using r'(1,2) source(2)
    by (auto simp: clone_def walk_def get_directory_def get_object_def get_object_at_def
        pre_process_path_def towards_def V_def)
qed

end

section \<open>The sandbox keeps the contract\<close>

text \<open>The identifiers still to come are distinct and name no file of the folder yet.\<close>

definition sandbox_inv :: "sandbox \<Rightarrow> bool" where
  "sandbox_inv s \<longleftrightarrow> inj (sb_uuids s) \<and> range (sb_uuids s) \<inter> fst ` set (sb_files s) = {}"

definition sandbox_content :: "sandbox \<Rightarrow> string \<Rightarrow> bytes option" where
  "sandbox_content s = map_of (sb_files s)"

lemma sandbox_put_law:
  assumes "sandbox_inv s" "sandbox_put s c = (s', k)"
  shows "sandbox_inv s' \<and> sandbox_content s' = (sandbox_content s)(k \<mapsto> c) \<and> sandbox_content s k = None"
proof -
  have s': "k = sb_uuids s 0" "sb_files s' = AList.update k c (sb_files s)"
    "sb_uuids s' = (\<lambda>n. sb_uuids s (Suc n))"
    using assms(2) by (auto simp: sandbox_put_def Let_def sb_files_def)
  have inj: "inj (sb_uuids s)" "\<And>n. sb_uuids s n \<notin> fst ` set (sb_files s)"
    using assms(1) by (auto simp: sandbox_inv_def)
  have "inj (sb_uuids s')"
    using inj(1) by (auto simp: s' inj_on_def)
  moreover have "sb_uuids s' n \<notin> fst ` set (sb_files s')" for n
    using inj(2) [of "Suc n"] injD [OF inj(1), of "Suc n" 0] by (auto simp: s' dom_update)
  moreover have "map_of (sb_files s) k = None"
    using inj(2) [of 0] by (simp add: s' map_of_eq_None_iff)
  ultimately show ?thesis
    by (auto simp: sandbox_inv_def sandbox_content_def s'(2))
qed

interpretation sandbox: repository_backend sandbox_ops sandbox_inv sandbox_content
proof
  fix b :: sandbox and c b' k ks
  assume inv: "sandbox_inv b"
  show "be_put sandbox_ops b c = (b', k) \<Longrightarrow> sandbox_inv b' \<and>
      sandbox_content b' = (sandbox_content b)(k \<mapsto> c) \<and>
      (sandbox_content b k = None \<or> sandbox_content b k = Some c)"
    using sandbox_put_law [OF inv] by (auto simp: sandbox_ops_def)
  show "be_has_objects sandbox_ops b ks = map (\<lambda>k. sandbox_content b k \<noteq> None) ks"
    by (auto simp: sandbox_ops_def sandbox_has_objects_def sandbox_content_def map_of_eq_None_iff
        simp del: not_None_eq)
  show "be_read sandbox_ops b k =
      (case sandbox_content b k of None \<Rightarrow> Inl FileNotFoundError | Some c \<Rightarrow> Inr c)"
    by (simp add: sandbox_ops_def sandbox_open_def sandbox_content_def)
  have key: "sandbox_content b k \<noteq> None \<longleftrightarrow> k \<in> fst ` set (sb_files b)"
    by (auto simp: sandbox_content_def map_of_eq_None_iff simp del: not_None_eq)
  show "sandbox_content b k = None \<Longrightarrow> be_delete_objects sandbox_ops b [k] = (b, Inl FileNotFoundError)"
    using key by (auto simp: sandbox_ops_def sandbox_delete_objects_def sandbox_has_objects_def)
  assume stored: "sandbox_content b k \<noteq> None"
  let ?b = "b\<lparr>sb_folder := Some (AList.delete k (sb_files b))\<rparr>"
  have "sb_files ?b = AList.delete k (sb_files b)"
    by (simp add: sb_files_def)
  moreover have "sandbox_inv ?b"
    using inv calculation by (auto simp: sandbox_inv_def AList_delete_filter)
  ultimately have "sandbox_inv ?b" "sandbox_content ?b = (sandbox_content b)(k := None)"
    by (simp_all add: sandbox_content_def)
  then show "\<exists>b'. be_delete_objects sandbox_ops b [k] = (b', Inr ()) \<and> sandbox_inv b' \<and>
      sandbox_content b' = (sandbox_content b)(k := None)"
    using stored key by (auto simp: sandbox_ops_def sandbox_delete_objects_def sandbox_has_objects_def)
qed

lemma valid_split_parts: "list_all valid_part (split_parts s)"
  using str_split_char [of _ "CHR ''/''" s] by (auto simp: split_parts_def list_all_iff valid_part_def)

section \<open>Properties\<close>

text \<open>A repository over a sandbox is in order when its hierarchy is well-formed, the sandbox is, and
  every file is stored.\<close>

definition sandbox_repo_ok :: "sandbox repository \<Rightarrow> bool" where
  "sandbox_repo_ok r \<longleftrightarrow>
     sandbox_inv (r_backend r) \<and> wf_file (r_directory r) \<and> file_type (r_directory r) = DIRECTORY \<and>
     list_all (\<lambda>k. sandbox_content (r_backend r) k \<noteq> None) (get_file_keys r)"

lemma sandbox_repo_ok_iff: "sandbox_repo_ok r \<longleftrightarrow> sandbox.repo_ok r"
  by (simp add: sandbox_repo_ok_def sandbox.repo_ok_def)

lemma sandbox_repo_okD:
  assumes "sandbox_repo_ok r"
  shows "sandbox_inv (r_backend r)" "wf_file (r_directory r)" "file_type (r_directory r) = DIRECTORY"
  using assms by (auto simp: sandbox_repo_ok_def)

text \<open>Reading through the view, for a repository in order.\<close>

lemma sandbox_read:
  assumes "sandbox_repo_ok r"
  shows "get_object_content sandbox_ops (rel_path p) r =
    (case sandbox.entry r p of
       None \<Rightarrow> Inl FileNotFoundError | Some None \<Rightarrow> Inl IsADirectoryError | Some (Some c) \<Rightarrow> Inr c)"
proof -
  have "sandbox_content (r_backend r) k \<noteq> None" if "view (r_directory r) p = Some (Some k)" for k
    using sandbox.repo_okD that assms by (simp add: sandbox_repo_ok_iff)
  then show ?thesis
    using sandbox.get_object_content_view [OF sandbox_repo_okD(1,2) [OF assms] pre_process_rel_path
        rel_path_not_None, of p]
    by (auto simp: sandbox.entry_def split: option.splits)
qed

definition new_sandbox :: sandbox where
  "new_sandbox = \<lparr>sb_folder = None, sb_uuids = (\<lambda>n. replicate (Suc n) (CHR ''u''))\<rparr>"

lemma new_sandbox_ok: "sandbox_repo_ok (Repository new_sandbox)"
proof -
  have "inj (\<lambda>n. replicate (Suc n) (CHR ''u''))"
    by (rule inj_onI) (metis length_replicate nat.inject)
  then show ?thesis
    by (simp add: sandbox_repo_ok_def new_sandbox_def Repository_def root_file_def sandbox_inv_def
        sb_files_def get_file_keys_def)
qed



text \<open>C39: A repository rebuilt from its serialized metadata is the repository.\<close>

theorem serialize_roundtrip:
  assumes "wf_file (r_directory r)" "file_type (r_directory r) = DIRECTORY" "f_name (r_directory r) = []"
  shows "repo_from_serialized (r_backend r) (serialize r) = Inr r"
proof -
  obtain objs where d: "r_directory r = FileObject [] DIRECTORY None objs"
    using assms by (cases "r_directory r") auto
  have "from_serialized_objects (serialize_objects objs) = Inr objs"
    using assms(1) d by (intro from_serialized_serialize(2)) (auto simp: list_all_iff)
  then show ?thesis
    using d by (cases r)
      (auto simp: serialize_def repo_from_serialized_def Repository_def set_objects_def root_file_def)
qed

theorem serialize_roundtrip_witness:
  "repo_from_serialized ()
     (serialize \<lparr>r_directory = FileObject [] DIRECTORY None
        [(''a'', FileObject ''a'' DIRECTORY None [(''f'', FileObject ''f'' FILE (Some ''k1'') [])]),
         (''b'', FileObject ''b'' DIRECTORY None [])], r_backend = ()\<rparr>) =
   Inr \<lparr>r_directory = FileObject [] DIRECTORY None
        [(''a'', FileObject ''a'' DIRECTORY None [(''f'', FileObject ''f'' FILE (Some ''k1'') [])]),
         (''b'', FileObject ''b'' DIRECTORY None [])], r_backend = ()\<rparr>"
  using serialize_roundtrip [of "\<lparr>r_directory = FileObject [] DIRECTORY None
        [(''a'', FileObject ''a'' DIRECTORY None [(''f'', FileObject ''f'' FILE (Some ''k1'') [])]),
         (''b'', FileObject ''b'' DIRECTORY None [])], r_backend = ()\<rparr>"]
  by (simp add: valid_part_def)

text \<open>C38: Cloning a repository into an empty one succeeds and reproduces every path: the same
  directories and files with the same contents, also empty directories.\<close>

theorem clone_reproduces:
  assumes "sandbox_repo_ok source" "sandbox_repo_ok r" "is_empty r"
  shows "\<exists>r'. clone sandbox_ops sandbox_ops source r = (r', Inr ()) \<and> sandbox_repo_ok r' \<and>
    (\<forall>p. get_object_content sandbox_ops (rel_path p) r' = get_object_content sandbox_ops (rel_path p) source)"
proof -
  define C where "C p = the (the (sandbox.entry source p))" for p
  have ent: "sandbox.entry source p = map_option (map_option (\<lambda>_. C p)) (view (r_directory source) p)" for p
  proof (cases "\<exists>k. view (r_directory source) p = Some (Some k)")
    case True
    then obtain k c where "view (r_directory source) p = Some (Some k)" "sandbox.entry source p = Some (Some c)"
      using sandbox.entry_file [of source p] assms(1) unfolding sandbox_repo_ok_iff by metis
    then show ?thesis by (simp add: C_def)
  next
    case False
    then show ?thesis
      by (cases "view (r_directory source) p") (auto simp: sandbox.entry_def)
  qed
  have "get_object_content sandbox_ops (rel_path p) source = Inr (C p)"
    if "view (r_directory source) p = Some (Some k)" for p k
    using that ent [of p] by (simp add: sandbox_read [OF assms(1)])
  then obtain r' where r': "clone sandbox_ops sandbox_ops source r = (r', Inr ())" "sandbox.repo_ok r'"
    "\<forall>p. sandbox.entry r' p = sandbox.entry source p"
    using sandbox.clone_view [OF sandbox_repo_okD(2,3) [OF assms(1)], of sandbox_ops C r] assms(2,3)
    unfolding sandbox_repo_ok_iff ent by blast
  then show ?thesis
    using sandbox_read [OF assms(1)] sandbox_read [of r'] by (auto simp: sandbox_repo_ok_iff)
qed

definition example_repository :: "sandbox repository" where
  "example_repository =
     \<lparr>r_directory = FileObject [] DIRECTORY None
        [(''a'', FileObject ''a'' DIRECTORY None [(''f'', FileObject ''f'' FILE (Some ''k1'') [])]),
         (''b'', FileObject ''b'' DIRECTORY None [])],
      r_backend = new_sandbox\<lparr>sb_folder := Some [(''k1'', ''content'')]\<rparr>\<rparr>"

lemma example_repository_ok: "sandbox_repo_ok example_repository"
proof -
  have "inj (\<lambda>n. replicate (Suc n) (CHR ''u''))"
    by (rule inj_onI) (metis length_replicate nat.inject)
  moreover have "replicate (Suc n) (CHR ''u'') \<noteq> ''k1''" for n
    by simp
  ultimately show ?thesis
    by (auto simp: sandbox_repo_ok_def example_repository_def new_sandbox_def sandbox_inv_def
        sb_files_def get_file_keys_def valid_part_def sandbox_content_def)
qed

theorem clone_reproduces_witness:
  "\<exists>r'. clone sandbox_ops sandbox_ops example_repository (Repository new_sandbox) = (r', Inr ()) \<and>
    sandbox_repo_ok r' \<and>
    (\<forall>p. get_object_content sandbox_ops (rel_path p) r' =
         get_object_content sandbox_ops (rel_path p) example_repository)"
  by (rule clone_reproduces [OF example_repository_ok new_sandbox_ok])
     (simp add: is_empty_def Repository_def root_file_def)

text \<open>Deleting a file removes that path and nothing else from the hierarchy, whether or not the
  object is also deleted from the backend; deleting a directory or a missing path raises and changes
  nothing.\<close>

theorem delete_object_exact:
  assumes "sandbox_repo_ok r"
  shows "\<exists>r' res. delete_object sandbox_ops (rel_path p) hard r = (r', res) \<and>
    (case view (r_directory r) p of
       None \<Rightarrow> r' = r \<and> res = Inl FileNotFoundError
     | Some None \<Rightarrow> r' = r \<and> res = Inl IsADirectoryError
     | Some (Some k) \<Rightarrow>
         res = Inr () \<and> wf_file (r_directory r') \<and>
         (\<forall>q. view (r_directory r') q = (if q = p then None else view (r_directory r) q)) \<and>
         (\<forall>k'. sandbox_content (r_backend r') k' =
            (if hard \<and> k' = k then None else sandbox_content (r_backend r) k')))"
proof (cases "view (r_directory r) p")
  case None
  then show ?thesis
    by (simp add: delete_object_def get_object_at_def view_def)
next
  case (Some v)
  show ?thesis
  proof (cases v)
    case None
    then obtain f where f: "lookup p (r_directory r) = Some f" "file_type f = FILE \<Longrightarrow> f_key f = None"
      using Some by (auto simp: view_def split: if_splits)
    then have "file_type f = DIRECTORY"
      using wf_fileD(2) [OF wf_lookup [OF sandbox_repo_okD(2) [OF assms]]] by (cases "file_type f") auto
    then show ?thesis
      using Some None f(1) by (simp add: delete_object_def get_object_at_def)
  next
    case (Some k)
    then show ?thesis
      using sandbox.delete_view [of r "rel_path p" p k hard] assms \<open>view (r_directory r) p = Some v\<close>
      by (fastforce simp: sandbox_repo_ok_iff)
  qed
qed

theorem delete_object_exact_witness:
  "\<exists>r' res. delete_object sandbox_ops (rel_path [''a'', ''f'']) True example_repository = (r', res) \<and>
    (case view (r_directory example_repository) [''a'', ''f''] of
       None \<Rightarrow> r' = example_repository \<and> res = Inl FileNotFoundError
     | Some None \<Rightarrow> r' = example_repository \<and> res = Inl IsADirectoryError
     | Some (Some k) \<Rightarrow>
         res = Inr () \<and> wf_file (r_directory r') \<and>
         (\<forall>q. view (r_directory r') q =
            (if q = [''a'', ''f''] then None else view (r_directory example_repository) q)) \<and>
         (\<forall>k'. sandbox_content (r_backend r') k' =
            (if True \<and> k' = k then None else sandbox_content (r_backend example_repository) k')))"
  by (rule delete_object_exact [OF example_repository_ok])

text \<open>Erasing a repository whose files have distinct keys deletes exactly those objects from the
  backend, which keeps everything else, and leaves the repository empty.\<close>

theorem erase_exact:
  assumes "sandbox_repo_ok r" "distinct (get_file_keys r)"
  shows "\<exists>r'. erase sandbox_ops r = (r', Inr ()) \<and> sandbox_repo_ok r' \<and> is_empty r' \<and>
    sandbox_content (r_backend r') =
      (\<lambda>k. if k \<in> set (get_file_keys r) then None else sandbox_content (r_backend r) k)"
  using sandbox.erase_view [of r] assms by (simp add: sandbox_repo_ok_iff)

theorem erase_exact_witness:
  "\<exists>r'. erase sandbox_ops example_repository = (r', Inr ()) \<and> sandbox_repo_ok r' \<and> is_empty r' \<and>
    sandbox_content (r_backend r') =
      (\<lambda>k. if k \<in> set (get_file_keys example_repository) then None
           else sandbox_content (r_backend example_repository) k)"
  by (rule erase_exact [OF example_repository_ok]) (simp add: get_file_keys_def example_repository_def)

text \<open>A second file that shares its key with another, as a backend that addresses objects by their
  content gives two equal files, makes \<open>erase\<close> raise \<open>FileNotFoundError\<close>: the object is gone after
  the first deletion, and the hierarchy is kept although its files no longer exist.\<close>

theorem erase_shared_key_raises:
  assumes "sandbox_repo_ok r" "get_file_keys r = k # k # ks"
  shows "\<exists>r'. erase sandbox_ops r = (r', Inl FileNotFoundError) \<and> r_directory r' = r_directory r \<and>
    sandbox_content (r_backend r') k = None"
proof -
  have inv: "sandbox_inv (r_backend r)" "sandbox_content (r_backend r) k \<noteq> None"
    using assms by (auto simp: sandbox_repo_ok_def)
  obtain b where b: "be_delete_objects sandbox_ops (r_backend r) [k] = (b, Inr ())" "sandbox_inv b"
    "sandbox_content b = (sandbox_content (r_backend r))(k := None)"
    using sandbox.delete_law [OF inv] by blast
  then have "be_delete_objects sandbox_ops b [k] = (b, Inl FileNotFoundError)"
    using sandbox.delete_missing_law [OF b(2)] by simp
  then show ?thesis
    using b assms(2) by (simp add: erase_def backend_delete_object_def)
qed

definition shared_key_repository :: "sandbox repository" where
  "shared_key_repository = example_repository
     \<lparr>r_directory := FileObject [] DIRECTORY None
        [(''f'', FileObject ''f'' FILE (Some ''k1'') []), (''g'', FileObject ''g'' FILE (Some ''k1'') [])]\<rparr>"

theorem erase_shared_key_raises_witness:
  "\<exists>r'. erase sandbox_ops shared_key_repository = (r', Inl FileNotFoundError) \<and>
    r_directory r' = r_directory shared_key_repository \<and> sandbox_content (r_backend r') ''k1'' = None"
proof (rule erase_shared_key_raises)
  show "get_file_keys shared_key_repository = ''k1'' # ''k1'' # []"
    by (simp add: shared_key_repository_def get_file_keys_def)
  then show "sandbox_repo_ok shared_key_repository"
    using example_repository_ok
    by (simp add: sandbox_repo_ok_def shared_key_repository_def valid_part_def example_repository_def
        sandbox_content_def sb_files_def)
qed

text \<open>Nothing stops a file from being stored below another file: both read back, but the second
  is not part of the serialized metadata, so it is lost when the repository is rebuilt from it.\<close>

theorem put_below_file_is_lost:
  "let r0 = Repository new_sandbox;
       r1 = fst (put_object_from_filelike sandbox_ops (ByteStream ''1'') (rel_path [''a'']) r0);
       r2 = fst (put_object_from_filelike sandbox_ops (ByteStream ''2'') (rel_path [''a'', ''b'']) r1)
   in get_object_content sandbox_ops (rel_path [''a'', ''b'']) r2 = Inr ''2'' \<and>
      (\<exists>r3. repo_from_serialized (r_backend r2) (serialize r2) = Inr r3 \<and>
            get_object_content sandbox_ops (rel_path [''a'', ''b'']) r3 = Inl FileNotFoundError)"
  by (simp add: Let_def put_object_from_filelike_def backend_put_object_from_filelike_def rel_path_def
      pre_process_path_def sandbox_ops_def sandbox_put_def new_sandbox_def Repository_def root_file_def
      insert_file_def path_parent_def path_name_def set_objects_def get_object_content_def get_file_def
      get_object_def get_object_at_def backend_get_object_content_def sandbox_open_def sb_files_def
      repo_from_serialized_def serialize_def File_def)

text \<open>The hash does not see directories below the top level: whatever the hash functions, a
  repository with the empty directory \<open>a\<close> and one with \<open>a/b\<close> below it have the same hash.\<close>

theorem hash_ignores_nested_directories:
  "let r0 = Repository new_sandbox;
       r1 = fst (create_directory (rel_path [''a'']) r0);
       r2 = fst (create_directory (rel_path [''a'', ''b'']) r0)
   in \<not> file_eq (r_directory r1) (r_directory r2) \<and>
      repository_hash sha256 make_hash sandbox_ops r1 = repository_hash sha256 make_hash sandbox_ops r2"
proof -
  have "\<not> file_eq (FileObject ''a'' DIRECTORY None [])
      (FileObject ''a'' DIRECTORY None [(''b'', FileObject ''b'' DIRECTORY None [])])"
    by (subst file_eq.simps) simp
  then have "\<not> file_eq (FileObject [] DIRECTORY None [(''a'', FileObject ''a'' DIRECTORY None [])])
      (FileObject [] DIRECTORY None
        [(''a'', FileObject ''a'' DIRECTORY None [(''b'', FileObject ''b'' DIRECTORY None [])])])"
    by (subst file_eq.simps) simp
  then show ?thesis
    by (simp add: Let_def create_directory_def rel_path_def pre_process_path_def Repository_def
        root_file_def set_objects_def repository_hash_def walk_def get_directory_def get_object_def
        get_object_at_def names_of_type_def path_join_valid valid_part_def)
qed

end
