(* ===== verification/Aiida_Provenance.thy ===== *)
theory Aiida_Provenance
  imports Aiida_Escaping Aiida_Links "HOL-Library.Multiset"
begin

text \<open>
  Building the provenance graph: \<open>validate_link\<close> and \<open>link_triple_exists\<close> of
  \<open>orm/utils/links.py\<close>, \<open>NodeLinks\<close> of \<open>orm/nodes/links.py\<close> with the overrides of the process
  classes, \<open>Node.store\<close> of \<open>orm/nodes/node.py\<close> with its backend part of
  \<open>storage/psql_dos/orm/nodes.py\<close>, and sealing (\<open>orm/utils/mixins.py\<close>).

  The graph is a list of nodes, whose positions serve as uuid and pk, and the table of stored links.
  A node that is not stored keeps its incoming links in its cache.  All nodes belong to one backend.
  The \<open>LIKE\<close> operator of the database is a parameter \<open>like string pattern\<close>; what the code
  relies on is that a valid label matches itself.  Successful operations are the steps of
  \<open>prov_step\<close>; the invariants are proved of every graph reachable from the empty one.
\<close>

section \<open>Nodes and links\<close>

datatype node_kind =
  DataNode | CalculationNode | CalcFunctionNode | WorkflowNode | WorkFunctionNode

datatype node_class = DataClass | CalculationClass | WorkflowClass

fun node_isinstance :: "node_kind \<Rightarrow> node_class \<Rightarrow> bool" where
  "node_isinstance DataNode c \<longleftrightarrow> c = DataClass"
| "node_isinstance CalculationNode c \<longleftrightarrow> c = CalculationClass"
| "node_isinstance CalcFunctionNode c \<longleftrightarrow> c = CalculationClass"
| "node_isinstance WorkflowNode c \<longleftrightarrow> c = WorkflowClass"
| "node_isinstance WorkFunctionNode c \<longleftrightarrow> c = WorkflowClass"

definition is_process :: "node_kind \<Rightarrow> bool" where
  "is_process k \<longleftrightarrow> k \<noteq> DataNode"

record node =
  nd_kind :: node_kind
  nd_storable :: bool
  is_stored :: bool
  is_sealed :: bool
  incoming_cache :: "nat link_triple list"

record graph =
  g_nodes :: "node list"
  g_links :: "(nat \<times> nat \<times> link_type \<times> string) list"

definition set_node :: "nat \<Rightarrow> node \<Rightarrow> graph \<Rightarrow> graph" where
  "set_node n nd g = g\<lparr>g_nodes := (g_nodes g)[n := nd]\<rparr>"

definition node_at :: "graph \<Rightarrow> nat \<Rightarrow> node" where
  "node_at g n = g_nodes g ! n"

datatype degree = Unique | UniquePair | UniqueTriple

fun link_mapping :: "link_type \<Rightarrow> node_class \<times> node_class \<times> degree \<times> degree" where
  "link_mapping CALL_CALC = (WorkflowClass, CalculationClass, UniqueTriple, Unique)"
| "link_mapping CALL_WORK = (WorkflowClass, WorkflowClass, UniqueTriple, Unique)"
| "link_mapping CREATE = (CalculationClass, DataClass, UniquePair, Unique)"
| "link_mapping INPUT_CALC = (DataClass, CalculationClass, UniqueTriple, UniquePair)"
| "link_mapping INPUT_WORK = (DataClass, WorkflowClass, UniqueTriple, UniquePair)"
| "link_mapping RETURN = (WorkflowClass, DataClass, UniquePair, UniqueTriple)"

section \<open>Queries\<close>

definition link_triple_exists :: "graph \<Rightarrow> nat \<Rightarrow> nat \<Rightarrow> link_type \<Rightarrow> string \<Rightarrow> bool" where
  "link_triple_exists g source target link_type link_label =
     (if LinkTriple source link_type link_label \<in> set (incoming_cache (node_at g target)) then True
      else if \<not> is_stored (node_at g source) \<or> \<not> is_stored (node_at g target) then False
      else (source, target, link_type, link_label) \<in> set (g_links g))"

definition label_matches :: "(string \<Rightarrow> string \<Rightarrow> bool) \<Rightarrow> string option \<Rightarrow> string \<Rightarrow> bool" where
  "label_matches match filter_opt label = (case filter_opt of None \<Rightarrow> True | Some p \<Rightarrow> match label p)"

text \<open>An empty filter is no filter for the query; an unstored node has no row to match.\<close>

definition get_stored_link_triples ::
  "(string \<Rightarrow> string \<Rightarrow> bool) \<Rightarrow> graph \<Rightarrow> nat \<Rightarrow> link_type list \<Rightarrow> string option \<Rightarrow> bool
     \<Rightarrow> nat link_triple list" where
  "get_stored_link_triples like g n link_types link_label_filter outgoing =
     (if \<not> is_stored (node_at g n) then []
      else
        let flt = (if link_label_filter = Some [] then None else link_label_filter) in
        map (\<lambda>(i, out, t, l). LinkTriple (if outgoing then out else i) t l)
          (filter (\<lambda>(i, out, t, l).
             (if outgoing then i = n else out = n) \<and> (link_types = [] \<or> t \<in> set link_types) \<and>
             label_matches like flt l)
            (g_links g)))"

fun add_cached :: "link_type list \<Rightarrow> string option \<Rightarrow> nat link_triple list \<Rightarrow> nat link_triple list
    \<Rightarrow> nat link_triple list res" where
  "add_cached link_types link_label_filter link_triples [] = Inr link_triples"
| "add_cached link_types link_label_filter link_triples (link_triple # cache) =
     (if link_triple \<in> set link_triples then Inl InternalError
      else
        add_cached link_types link_label_filter
          (if (link_types = [] \<or> lt_type link_triple \<in> set link_types) \<and>
              label_matches sql_string_match link_label_filter (lt_label link_triple)
           then link_triples @ [link_triple] else link_triples)
          cache)"

definition get_incoming ::
  "(string \<Rightarrow> string \<Rightarrow> bool) \<Rightarrow> graph \<Rightarrow> nat \<Rightarrow> link_type list \<Rightarrow> string option
     \<Rightarrow> nat link_triple list res" where
  "get_incoming like g n link_types link_label_filter =
     add_cached link_types link_label_filter
       (if is_stored (node_at g n)
        then get_stored_link_triples like g n link_types link_label_filter False else [])
       (incoming_cache (node_at g n))"

definition get_outgoing ::
  "(string \<Rightarrow> string \<Rightarrow> bool) \<Rightarrow> graph \<Rightarrow> nat \<Rightarrow> link_type list \<Rightarrow> string option
     \<Rightarrow> nat link_triple list" where
  "get_outgoing like g n link_types link_label_filter =
     get_stored_link_triples like g n link_types link_label_filter True"

section \<open>Validation\<close>

definition validate_outdegree ::
  "(string \<Rightarrow> string \<Rightarrow> bool) \<Rightarrow> graph \<Rightarrow> nat \<Rightarrow> nat \<Rightarrow> link_type \<Rightarrow> string \<Rightarrow> degree \<Rightarrow> unit res" where
  "validate_outdegree like g source target link_type link_label outdegree =
     (case outdegree of
        Unique \<Rightarrow> guard (\<not> lm_bool (get_outgoing like g source [link_type] None)) ValueError
      | UniquePair \<Rightarrow>
          guard (\<not> lm_bool (get_outgoing like g source [link_type] (Some link_label))) ValueError
      | UniqueTriple \<Rightarrow>
          guard (\<not> link_triple_exists g source target link_type link_label) ValueError)"

definition validate_indegree ::
  "(string \<Rightarrow> string \<Rightarrow> bool) \<Rightarrow> graph \<Rightarrow> nat \<Rightarrow> nat \<Rightarrow> link_type \<Rightarrow> string \<Rightarrow> degree \<Rightarrow> unit res" where
  "validate_indegree like g source target link_type link_label indegree =
     (case indegree of
        Unique \<Rightarrow>
          bind_res (get_incoming like g target [link_type] None) (\<lambda>links.
            guard (\<not> lm_bool links) ValueError)
      | UniquePair \<Rightarrow>
          bind_res (get_incoming like g target [link_type] (Some link_label)) (\<lambda>links.
            guard (\<not> lm_bool links) ValueError)
      | UniqueTriple \<Rightarrow>
          guard (\<not> link_triple_exists g source target link_type link_label) ValueError)"

definition validate_link ::
  "(string \<Rightarrow> string \<Rightarrow> bool) \<Rightarrow> graph \<Rightarrow> nat \<Rightarrow> nat \<Rightarrow> link_type \<Rightarrow> string \<Rightarrow> unit res" where
  "validate_link like g source target link_type link_label =
     bind_res (guard (source \<noteq> target) ValueError) (\<lambda>_.
     bind_res (validate_link_label link_label) (\<lambda>_.
     case link_mapping link_type of (type_source, type_target, outdegree, indegree) \<Rightarrow>
       bind_res
         (guard (node_isinstance (nd_kind (node_at g source)) type_source \<and>
                 node_isinstance (nd_kind (node_at g target)) type_target) ValueError) (\<lambda>_.
       bind_res (validate_outdegree like g source target link_type link_label outdegree) (\<lambda>_.
         validate_indegree like g source target link_type link_label indegree))))"

text \<open>The links that the recursive ancestor query follows.\<close>

definition data_provenance :: "graph \<Rightarrow> (nat \<times> nat) set" where
  "data_provenance g =
     set (map (\<lambda>(i, out, t, l). (i, out))
       (filter (\<lambda>(i, out, t, l). t \<in> {CREATE, INPUT_CALC}) (g_links g)))"

definition is_ancestor :: "graph \<Rightarrow> nat \<Rightarrow> nat \<Rightarrow> bool" where
  "is_ancestor g parent child \<longleftrightarrow>
     is_stored (node_at g parent) \<and> is_stored (node_at g child) \<and> (parent, child) \<in> (data_provenance g)\<^sup>+"

definition validate_incoming ::
  "(string \<Rightarrow> string \<Rightarrow> bool) \<Rightarrow> graph \<Rightarrow> nat \<Rightarrow> nat \<Rightarrow> link_type \<Rightarrow> string \<Rightarrow> unit res" where
  "validate_incoming like g n source link_type link_label =
     bind_res
       (if is_process (nd_kind (node_at g n)) then
          bind_res (guard (\<not> is_sealed (node_at g n)) ModificationNotAllowed) (\<lambda>_.
            guard (\<not> is_stored (node_at g n)) ValueError)
        else Inr ()) (\<lambda>_.
     bind_res (validate_link like g source n link_type link_label) (\<lambda>_.
       if link_type \<in> {CREATE, INPUT_CALC, INPUT_WORK}
       then guard (\<not> is_ancestor g n source) ValueError else Inr ()))"

definition validate_outgoing :: "graph \<Rightarrow> nat \<Rightarrow> nat \<Rightarrow> link_type \<Rightarrow> unit res" where
  "validate_outgoing g n target link_type =
     (let k = nd_kind (node_at g n) in
      bind_res
        (if is_process k then guard (\<not> is_sealed (node_at g n)) ModificationNotAllowed else Inr ()) (\<lambda>_.
      bind_res
        (if k = CalcFunctionNode
         then guard (\<not> (link_type = CREATE \<and> is_stored (node_at g target))) ValueError else Inr ()) (\<lambda>_.
        if node_isinstance k WorkflowClass
        then guard (\<not> (link_type = RETURN \<and> \<not> is_stored (node_at g target))) ValueError
        else Inr ())))"

section \<open>Adding links and storing nodes\<close>

definition add_incoming_cache :: "graph \<Rightarrow> nat \<Rightarrow> nat \<Rightarrow> link_type \<Rightarrow> string \<Rightarrow> graph res" where
  "add_incoming_cache g n source link_type link_label =
     (let link_triple = LinkTriple source link_type link_label; nd = node_at g n in
      if link_triple \<in> set (incoming_cache nd) then Inl UniquenessError
      else Inr (set_node n (nd\<lparr>incoming_cache := incoming_cache nd @ [link_triple]\<rparr>) g))"

definition backend_add_incoming :: "graph \<Rightarrow> nat \<Rightarrow> nat \<Rightarrow> link_type \<Rightarrow> string \<Rightarrow> graph res" where
  "backend_add_incoming g n source link_type link_label =
     bind_res (guard (is_stored (node_at g n)) ModificationNotAllowed) (\<lambda>_.
     bind_res (guard (is_stored (node_at g source)) ModificationNotAllowed) (\<lambda>_.
       Inr (g\<lparr>g_links := g_links g @ [(source, n, link_type, link_label)]\<rparr>)))"

definition add_incoming ::
  "(string \<Rightarrow> string \<Rightarrow> bool) \<Rightarrow> graph \<Rightarrow> nat \<Rightarrow> nat \<Rightarrow> link_type \<Rightarrow> string \<Rightarrow> graph res" where
  "add_incoming like g n source link_type link_label =
     bind_res (validate_incoming like g n source link_type link_label) (\<lambda>_.
     bind_res (validate_outgoing g source n link_type) (\<lambda>_.
       if is_stored (node_at g n) \<and> is_stored (node_at g source)
       then backend_add_incoming g n source link_type link_label
       else add_incoming_cache g n source link_type link_label))"

definition new_node :: "node_kind \<Rightarrow> bool \<Rightarrow> graph \<Rightarrow> graph" where
  "new_node k can_store g =
     g\<lparr>g_nodes := g_nodes g @ [\<lparr>nd_kind = k, nd_storable = can_store, is_stored = False,
         is_sealed = False, incoming_cache = []\<rparr>]\<rparr>"

definition verify_are_parents_stored :: "graph \<Rightarrow> nat \<Rightarrow> unit res" where
  "verify_are_parents_stored g n =
     guard (list_all (\<lambda>link_triple. is_stored (node_at g (lt_node link_triple)))
       (incoming_cache (node_at g n))) ModificationNotAllowed"

text \<open>\<open>_store\<close>: the backend adds the row of the node and one per cached link, and the cache is
  emptied.\<close>

definition store_node :: "graph \<Rightarrow> nat \<Rightarrow> graph" where
  "store_node g n =
     (let nd = node_at g n in
      (set_node n (nd\<lparr>is_stored := True, incoming_cache := []\<rparr>) g)
        \<lparr>g_links := g_links g @ map (\<lambda>x. (lt_node x, n, lt_type x, lt_label x)) (incoming_cache nd)\<rparr>)"

definition store_plain :: "graph \<Rightarrow> nat \<Rightarrow> graph res" where
  "store_plain g n =
     (if is_stored (node_at g n) then Inr g
      else
        bind_res (guard (nd_storable (node_at g n)) StoringNotAllowed) (\<lambda>_.
        bind_res (verify_are_parents_stored g n) (\<lambda>_. Inr (store_node g n))))"

text \<open>\<open>_add_outputs_from_cache\<close>: a clone of each created output is linked and stored (data nodes are
  never taken from a cache).\<close>

fun add_outputs_from_cache ::
  "(string \<Rightarrow> string \<Rightarrow> bool) \<Rightarrow> graph \<Rightarrow> nat \<Rightarrow> nat link_triple list \<Rightarrow> graph res" where
  "add_outputs_from_cache like g n [] = Inr g"
| "add_outputs_from_cache like g n (entry # entries) =
     (let m = length (g_nodes g);
          g' = new_node (nd_kind (node_at g (lt_node entry))) (nd_storable (node_at g (lt_node entry))) g in
      bind_res (add_incoming like g' m n CREATE (lt_label entry)) (\<lambda>g'.
      bind_res (store_plain g' m) (\<lambda>g'.
        add_outputs_from_cache like g' n entries)))"

text \<open>\<open>Node.store\<close>; \<open>same_node\<close> is the node the caching finds equal, if it is used.\<close>

definition store ::
  "(string \<Rightarrow> string \<Rightarrow> bool) \<Rightarrow> graph \<Rightarrow> nat \<Rightarrow> nat option \<Rightarrow> graph res" where
  "store like g n same_node =
     (case same_node of
        None \<Rightarrow> store_plain g n
      | Some c \<Rightarrow>
          if is_stored (node_at g n) then Inr g
          else
            bind_res (guard (nd_storable (node_at g n)) StoringNotAllowed) (\<lambda>_.
            bind_res (verify_are_parents_stored g n) (\<lambda>_.
            bind_res (guard (nd_kind (node_at g n) = nd_kind (node_at g c)) AssertionError) (\<lambda>_.
            bind_res (guard (\<not> lm_bool (get_outgoing like g c [RETURN] None)) ValueError) (\<lambda>_.
              let g' = store_node g n in
              add_outputs_from_cache like g' n (get_outgoing like g' c [CREATE] None))))))"

definition seal :: "graph \<Rightarrow> nat \<Rightarrow> graph" where
  "seal g n =
     (if is_sealed (node_at g n) then g else set_node n ((node_at g n)\<lparr>is_sealed := True\<rparr>) g)"

section \<open>Reachable graphs\<close>

definition empty_graph :: graph where
  "empty_graph = \<lparr>g_nodes = [], g_links = []\<rparr>"

inductive prov_step :: "(string \<Rightarrow> string \<Rightarrow> bool) \<Rightarrow> graph \<Rightarrow> graph \<Rightarrow> bool" for like where
  step_new: "prov_step like g (new_node k can_store g)"
| step_add: "n < length (g_nodes g) \<Longrightarrow> source < length (g_nodes g) \<Longrightarrow>
    add_incoming like g n source t l = Inr g' \<Longrightarrow> prov_step like g g'"
| step_store: "n < length (g_nodes g) \<Longrightarrow> (\<forall>c. same_node = Some c \<longrightarrow> c < length (g_nodes g)) \<Longrightarrow>
    store like g n same_node = Inr g' \<Longrightarrow> prov_step like g g'"
| step_seal: "n < length (g_nodes g) \<Longrightarrow> is_process (nd_kind (node_at g n)) \<Longrightarrow> prov_step like g (seal g n)"

inductive reachable :: "(string \<Rightarrow> string \<Rightarrow> bool) \<Rightarrow> graph \<Rightarrow> bool" for like where
  reachable_empty: "reachable like empty_graph"
| reachable_step: "reachable like g \<Longrightarrow> prov_step like g g' \<Longrightarrow> reachable like g'"

inductive_cases prov_stepE: "prov_step like g g'"

section \<open>Steps without caching\<close>

text \<open>Storing from a cached node is a sequence of plain steps, so the invariants need only these.\<close>

inductive basic_step :: "(string \<Rightarrow> string \<Rightarrow> bool) \<Rightarrow> graph \<Rightarrow> graph \<Rightarrow> bool" for like where
  basic_new: "basic_step like g (new_node k can_store g)"
| basic_add: "n < length (g_nodes g) \<Longrightarrow> source < length (g_nodes g) \<Longrightarrow>
    add_incoming like g n source t l = Inr g' \<Longrightarrow> basic_step like g g'"
| basic_store: "n < length (g_nodes g) \<Longrightarrow> store_plain g n = Inr g' \<Longrightarrow> basic_step like g g'"
| basic_seal: "n < length (g_nodes g) \<Longrightarrow> is_process (nd_kind (node_at g n)) \<Longrightarrow> basic_step like g (seal g n)"

lemma length_set_node [simp]: "length (g_nodes (set_node n nd g)) = length (g_nodes g)"
  by (simp add: set_node_def)

lemma node_at_set_node:
  "n < length (g_nodes g) \<Longrightarrow> node_at (set_node n nd g) m = (if m = n then nd else node_at g m)"
  by (simp add: node_at_def set_node_def)

lemma g_links_set_node [simp]: "g_links (set_node n nd g) = g_links g"
  by (simp add: set_node_def)

lemma node_at_g_links [simp]: "node_at (g\<lparr>g_links := ls\<rparr>) m = node_at g m"
  by (simp add: node_at_def)

lemma add_incoming_cases:
  assumes "add_incoming like g n source t l = Inr g'"
  obtains (stored) "is_stored (node_at g n)" "is_stored (node_at g source)"
      "g' = g\<lparr>g_links := g_links g @ [(source, n, t, l)]\<rparr>"
    | (cached) "\<not> (is_stored (node_at g n) \<and> is_stored (node_at g source))"
      "LinkTriple source t l \<notin> set (incoming_cache (node_at g n))"
      "g' = set_node n ((node_at g n)
         \<lparr>incoming_cache := incoming_cache (node_at g n) @ [LinkTriple source t l]\<rparr>) g"
  using assms
  by (auto simp: add_incoming_def backend_add_incoming_def add_incoming_cache_def bind_res_Inr_iff
      Let_def guard_def split: if_splits)

lemma store_plain_cases:
  assumes "store_plain g n = Inr g'"
  obtains "is_stored (node_at g n)" "g' = g"
    | "\<not> is_stored (node_at g n)" "g' = store_node g n"
      "\<forall>x \<in> set (incoming_cache (node_at g n)). is_stored (node_at g (lt_node x))"
  using assms
  by (auto simp: store_plain_def verify_are_parents_stored_def list_all_iff guard_def bind_res_Inr_iff
      split: if_splits)

lemma basic_step_length: "basic_step like g g' \<Longrightarrow> length (g_nodes g) \<le> length (g_nodes g')"
  by (induction rule: basic_step.induct)
     (auto simp: new_node_def seal_def store_node_def Let_def elim!: add_incoming_cases store_plain_cases)

lemma basic_steps_length: "(basic_step like)\<^sup>*\<^sup>* g g' \<Longrightarrow> length (g_nodes g) \<le> length (g_nodes g')"
  by (induction rule: rtranclp_induct) (auto dest: basic_step_length)

lemma add_outputs_basic:
  assumes "add_outputs_from_cache like g n entries = Inr g'" "n < length (g_nodes g)"
  shows "(basic_step like)\<^sup>*\<^sup>* g g'"
  using assms
proof (induction like g n entries arbitrary: g' rule: add_outputs_from_cache.induct)
  case (2 like g n entry entries)
  let ?m = "length (g_nodes g)"
  let ?g0 = "new_node (nd_kind (node_at g (lt_node entry))) (nd_storable (node_at g (lt_node entry))) g"
  obtain g1 g2 where g: "add_incoming like ?g0 ?m n CREATE (lt_label entry) = Inr g1"
    "store_plain g1 ?m = Inr g2" "add_outputs_from_cache like g2 n entries = Inr g'"
    using 2(2) by (auto simp: Let_def bind_res_Inr_iff)
  have len: "?m < length (g_nodes ?g0)" "n < length (g_nodes ?g0)"
    using 2(3) by (simp_all add: new_node_def)
  have 01: "basic_step like ?g0 g1"
    by (rule basic_add [OF len g(1)])
  then have "length (g_nodes ?g0) \<le> length (g_nodes g1)"
    by (rule basic_step_length)
  then have 12: "basic_step like g1 g2"
    using len by (intro basic_store [OF _ g(2)]) simp
  then have "n < length (g_nodes g2)"
    using basic_step_length [OF 01] basic_step_length [OF 12] len by simp
  then have "(basic_step like)\<^sup>*\<^sup>* g2 g'"
    using 2(1) [OF refl refl g(3)] by simp
  then show ?case
    using basic_new 01 12 by (metis converse_rtranclp_into_rtranclp)
qed simp

lemma prov_step_basic: "prov_step like g g' \<Longrightarrow> (basic_step like)\<^sup>*\<^sup>* g g'"
proof (induction rule: prov_step.induct)
  case (step_store n g same_node g')
  show ?case
  proof (cases same_node)
    case None
    then show ?thesis
      using step_store by (auto simp: store_def intro: basic_store)
  next
    case (Some c)
    show ?thesis
    proof (cases "is_stored (node_at g n)")
      case True
      then show ?thesis using step_store Some by (simp add: store_def)
    next
      case False
      then have plain: "store_plain g n = Inr (store_node g n)"
        and out: "add_outputs_from_cache like (store_node g n) n
          (get_outgoing like (store_node g n) c [CREATE] None) = Inr g'"
        using step_store(3) Some
        by (auto simp: store_def store_plain_def guard_def Let_def bind_res_Inr_iff split: if_splits)
      have "basic_step like g (store_node g n)"
        by (rule basic_store [OF step_store(1) plain])
      moreover have "(basic_step like)\<^sup>*\<^sup>* (store_node g n) g'"
        using basic_step_length [OF calculation] step_store(1)
        by (intro add_outputs_basic [OF out]) simp
      ultimately show ?thesis by (rule converse_rtranclp_into_rtranclp)
    qed
  qed
qed (auto intro: basic_step.intros)

section \<open>The invariant\<close>

text \<open>All links of a node, stored and cached; all links of the graph.\<close>

definition incoming_all :: "graph \<Rightarrow> nat \<Rightarrow> nat link_triple list" where
  "incoming_all g n =
     map (\<lambda>(i, out, t, l). LinkTriple i t l) (filter (\<lambda>(i, out, t, l). out = n) (g_links g)) @
     incoming_cache (node_at g n)"

definition link_ok :: "graph \<Rightarrow> nat \<Rightarrow> nat link_triple \<Rightarrow> bool" where
  "link_ok g n x \<longleftrightarrow>
     lt_node x < length (g_nodes g) \<and> lt_node x \<noteq> n \<and> is_ok (validate_link_label (lt_label x)) \<and>
     node_isinstance (nd_kind (node_at g (lt_node x))) (fst (link_mapping (lt_type x))) \<and>
     node_isinstance (nd_kind (node_at g n)) (fst (snd (link_mapping (lt_type x))))"

text \<open>The uniqueness that the indegree of a link type demands of the incoming links of one node.\<close>

definition indegree_ok :: "nat link_triple list \<Rightarrow> bool" where
  "indegree_ok xs \<longleftrightarrow>
     (\<forall>t. let ys = filter (\<lambda>x. lt_type x = t) xs in
        case snd (snd (snd (link_mapping t))) of
          Unique \<Rightarrow> length ys \<le> 1
        | UniquePair \<Rightarrow> distinct (map lt_label ys)
        | UniqueTriple \<Rightarrow> distinct ys)"

definition graph_inv :: "graph \<Rightarrow> bool" where
  "graph_inv g \<longleftrightarrow>
     (\<forall>(i, out, t, l) \<in> set (g_links g).
        out < length (g_nodes g) \<and> is_stored (node_at g i) \<and> is_stored (node_at g out)) \<and>
     acyclic (data_provenance g) \<and>
     (\<forall>n < length (g_nodes g).
        list_all (link_ok g n) (incoming_all g n) \<and> indegree_ok (incoming_all g n))"

lemma graph_invD:
  assumes "graph_inv g"
  shows "(i, out, t, l) \<in> set (g_links g) \<Longrightarrow>
      out < length (g_nodes g) \<and> is_stored (node_at g i) \<and> is_stored (node_at g out)"
    and "acyclic (data_provenance g)"
    and "n < length (g_nodes g) \<Longrightarrow> x \<in> set (incoming_all g n) \<Longrightarrow> link_ok g n x"
    and "n < length (g_nodes g) \<Longrightarrow> indegree_ok (incoming_all g n)"
  using assms unfolding graph_inv_def list_all_iff by blast+

lemma indegree_ok_perm: "mset xs = mset ys \<Longrightarrow> indegree_ok xs \<longleftrightarrow> indegree_ok ys"
proof -
  assume eq: "mset xs = mset ys"
  have "mset (filter P xs) = mset (filter P ys)" for P
    by (simp add: eq)
  then have "length (filter P xs) = length (filter P ys)"
    "distinct (filter P xs) = distinct (filter P ys)"
    "distinct (map lt_label (filter P xs)) = distinct (map lt_label (filter P ys))" for P
    by (metis size_mset, metis mset_eq_imp_distinct_iff, metis mset_eq_imp_distinct_iff mset_map)
  then show ?thesis
    by (simp add: indegree_ok_def Let_def split: degree.split)
qed

text \<open>A link may be added when the other links of the node leave room for it.\<close>

definition indegree_room :: "nat link_triple list \<Rightarrow> nat link_triple \<Rightarrow> bool" where
  "indegree_room xs x \<longleftrightarrow>
     (case snd (snd (snd (link_mapping (lt_type x)))) of
        Unique \<Rightarrow> \<forall>y \<in> set xs. lt_type y \<noteq> lt_type x
      | UniquePair \<Rightarrow> \<forall>y \<in> set xs. lt_type y = lt_type x \<longrightarrow> lt_label y \<noteq> lt_label x
      | UniqueTriple \<Rightarrow> x \<notin> set xs)"

lemma indegree_ok_Cons: "indegree_ok xs \<Longrightarrow> indegree_room xs x \<Longrightarrow> indegree_ok (x # xs)"
  unfolding indegree_ok_def indegree_room_def Let_def
  by (intro allI) (auto split: degree.splits simp: filter_empty_conv)

lemma indegree_ok_Nil [simp]: "indegree_ok []"
  by (simp add: indegree_ok_def Let_def split: degree.split)

lemma link_ok_mono:
  assumes "link_ok g n x" "length (g_nodes g) \<le> length (g_nodes g')" "n < length (g_nodes g)"
    "\<And>m. m < length (g_nodes g) \<Longrightarrow> nd_kind (node_at g' m) = nd_kind (node_at g m)"
  shows "link_ok g' n x"
  using assms by (auto simp: link_ok_def)

subsection \<open>What validation guarantees\<close>

lemma add_cached_result:
  assumes "add_cached ts f acc cache = Inr res"
  shows "set acc \<subseteq> set res"
    and "x \<in> set cache \<Longrightarrow> ts = [] \<or> lt_type x \<in> set ts \<Longrightarrow> label_matches sql_string_match f (lt_label x)
      \<Longrightarrow> x \<in> set res"
  using assms by (induction ts f acc cache rule: add_cached.induct) (auto split: if_splits)

lemma get_incoming_empty:
  assumes "get_incoming like g n [t] f = Inr []" "graph_inv g" "x \<in> set (incoming_all g n)"
    "lt_type x = t" "f = None \<or> f = Some (lt_label x) \<and> lt_label x \<noteq> [] \<and> like (lt_label x) (lt_label x) \<and>
       sql_string_match (lt_label x) (lt_label x)"
  shows False
proof (cases "x \<in> set (incoming_cache (node_at g n))")
  case True
  then show False
    using add_cached_result(2) [OF assms(1) [unfolded get_incoming_def] True] assms(4,5)
    by (auto simp: label_matches_def)
next
  case False
  then obtain i l where link: "(i, n, t, l) \<in> set (g_links g)" "x = LinkTriple i t l"
    using assms(3,4) by (auto simp: incoming_all_def)
  then have "is_stored (node_at g n)"
    using graph_invD(1) [OF assms(2)] by blast
  then have "set (get_stored_link_triples like g n [t] f False) = {}"
    using add_cached_result(1) [OF assms(1) [unfolded get_incoming_def]] by simp
  moreover have "x \<in> set (get_stored_link_triples like g n [t] f False)"
    using link assms(5) \<open>is_stored _\<close>
    by (force simp: get_stored_link_triples_def label_matches_def Let_def)
  ultimately show False by simp
qed

lemma valid_label_sql_match:
  assumes "is_ok (validate_link_label l)"
  shows "sql_string_match l l" "l \<noteq> []"
proof -
  have "list_all allowed_character l" "l \<noteq> []"
    using assms by (auto simp: validate_link_label_iff)
  moreover have "\<not> allowed_character backslash" "\<not> allowed_character newline"
    by (auto simp: allowed_character_def is_letter_def is_digit_def less_eq_char_def)
  ultimately show "sql_string_match l l" "l \<noteq> []"
    by (auto intro!: sql_string_match_self simp: list_all_iff)
qed

lemma link_triple_exists_incoming:
  assumes "graph_inv g" "\<not> link_triple_exists g s n t l"
  shows "LinkTriple s t l \<notin> set (incoming_all g n)"
  using assms graph_invD(1) [OF assms(1), of s n t l]
  by (auto simp: link_triple_exists_def incoming_all_def split: if_splits)

lemma validate_link_room:
  assumes "validate_link like g s n t l = Inr ()" "graph_inv g"
    and like: "\<And>l. is_ok (validate_link_label l) \<Longrightarrow> like l l"
  shows "indegree_room (incoming_all g n) (LinkTriple s t l)"
    and "s \<noteq> n" "is_ok (validate_link_label l)"
    "node_isinstance (nd_kind (node_at g s)) (fst (link_mapping t))"
    "node_isinstance (nd_kind (node_at g n)) (fst (snd (link_mapping t)))"
proof -
  obtain ts tt outd ind where map: "link_mapping t = (ts, tt, outd, ind)" by (metis prod_cases4)
  have v: "s \<noteq> n" "validate_link_label l = Inr ()"
    "node_isinstance (nd_kind (node_at g s)) ts" "node_isinstance (nd_kind (node_at g n)) tt"
    "validate_indegree like g s n t l ind = Inr ()"
    using assms(1) by (auto simp: validate_link_def map guard_def bind_res_Inr_iff split: if_splits)
  show "s \<noteq> n" "is_ok (validate_link_label l)"
    "node_isinstance (nd_kind (node_at g s)) (fst (link_mapping t))"
    "node_isinstance (nd_kind (node_at g n)) (fst (snd (link_mapping t)))"
    using v map by simp_all
  have l: "like l l" "sql_string_match l l" "l \<noteq> []"
    using like [of l] valid_label_sql_match [of l] v(2) by simp_all
  show "indegree_room (incoming_all g n) (LinkTriple s t l)"
  proof (cases ind)
    case Unique
    then have "get_incoming like g n [t] None = Inr []"
      using v(5) by (auto simp: validate_indegree_def bind_res_Inr_iff guard_def lm_bool_def split: if_splits)
    then have "lt_type y \<noteq> t" if "y \<in> set (incoming_all g n)" for y
      using get_incoming_empty [of like g n t None y] assms(2) that by blast
    then show ?thesis
      using Unique map by (simp add: indegree_room_def)
  next
    case UniquePair
    then have "get_incoming like g n [t] (Some l) = Inr []"
      using v(5) by (auto simp: validate_indegree_def bind_res_Inr_iff guard_def lm_bool_def split: if_splits)
    then have "lt_label y \<noteq> l" if "y \<in> set (incoming_all g n)" "lt_type y = t" for y
      using get_incoming_empty [of like g n t "Some l" y] assms(2) that l by blast
    then show ?thesis
      using UniquePair map by (simp add: indegree_room_def)
  next
    case UniqueTriple
    then have "\<not> link_triple_exists g s n t l"
      using v(5) by (auto simp: validate_indegree_def guard_def split: if_splits)
    then show ?thesis
      using link_triple_exists_incoming [OF assms(2)] UniqueTriple map by (simp add: indegree_room_def)
  qed
qed

lemma add_incoming_valid:
  assumes "add_incoming like g n s t l = Inr g'"
  shows "validate_link like g s n t l = Inr ()"
    and "is_process (nd_kind (node_at g n)) \<Longrightarrow> \<not> is_sealed (node_at g n) \<and> \<not> is_stored (node_at g n)"
    and "is_process (nd_kind (node_at g s)) \<Longrightarrow> \<not> is_sealed (node_at g s)"
    and "t \<in> {CREATE, INPUT_CALC, INPUT_WORK} \<Longrightarrow> \<not> is_ancestor g n s"
  using assms
  by (auto simp: add_incoming_def validate_incoming_def validate_outgoing_def bind_res_Inr_iff guard_def
      Let_def split: if_splits)

subsection \<open>Every step keeps it\<close>

lemma incoming_all_add:
  assumes "add_incoming like g n s t l = Inr g'" "n < length (g_nodes g)"
  shows "mset (incoming_all g' m) =
      (if m = n then add_mset (LinkTriple s t l) (mset (incoming_all g m)) else mset (incoming_all g m))"
    and "length (g_nodes g') = length (g_nodes g)"
    and "nd_kind (node_at g' m) = nd_kind (node_at g m)"
    and "is_stored (node_at g' m) = is_stored (node_at g m)"
    and "is_sealed (node_at g' m) = is_sealed (node_at g m)"
  by (rule add_incoming_cases [OF assms(1)];
      use assms(2) in \<open>simp add: incoming_all_def node_at_set_node\<close>)+

lemma graph_inv_add:
  assumes "graph_inv g" "add_incoming like g n s t l = Inr g'" "n < length (g_nodes g)"
    "s < length (g_nodes g)" and like: "\<And>l. is_ok (validate_link_label l) \<Longrightarrow> like l l"
  shows "graph_inv g'"
proof -
  note valid = add_incoming_valid [OF assms(2)]
  note room = validate_link_room [OF valid(1) assms(1) like]
  note eff = incoming_all_add [OF assms(2,3)]
  have inc: "set (incoming_all g' m) = (if m = n then insert (LinkTriple s t l) else id) (set (incoming_all g m))" for m
    using eff(1) [of m] by (auto simp flip: set_mset_mset)
  have ok: "link_ok g' m x" if "m < length (g_nodes g)" "link_ok g m x" for m x
    using that eff(2,3) by (auto simp: link_ok_def)
  have new: "link_ok g' n (LinkTriple s t l)"
    using room assms(3,4) eff(2,3) by (simp add: link_ok_def)
  have "list_all (link_ok g' m) (incoming_all g' m) \<and> indegree_ok (incoming_all g' m)"
    if "m < length (g_nodes g')" for m
  proof
    have m: "m < length (g_nodes g)" using that eff(2) by simp
    show "list_all (link_ok g' m) (incoming_all g' m)"
      using inc [of m] ok [OF m] new graph_invD(3) [OF assms(1) m] by (auto simp: list_all_iff split: if_splits)
    show "indegree_ok (incoming_all g' m)"
      using graph_invD(4) [OF assms(1) m] room(1) indegree_ok_Cons eff(1) [of m]
        indegree_ok_perm [of "incoming_all g' m" "LinkTriple s t l # incoming_all g m"]
        indegree_ok_perm [of "incoming_all g' m" "incoming_all g m"]
      by (cases "m = n") auto
  qed
  moreover have "acyclic (data_provenance g')"
  proof (cases rule: add_incoming_cases [OF assms(2)])
    case 1
    have prov: "data_provenance g' =
        (if t \<in> {CREATE, INPUT_CALC} then insert (s, n) (data_provenance g) else data_provenance g)"
      using 1(3) by (auto simp: data_provenance_def)
    show ?thesis
    proof (cases "t \<in> {CREATE, INPUT_CALC}")
      case True
      then have "(n, s) \<notin> (data_provenance g)\<^sup>*"
        using valid(4) 1(1,2) room(2) by (auto simp: is_ancestor_def rtrancl_eq_or_trancl)
      then show ?thesis
        using True prov graph_invD(2) [OF assms(1)] by (simp add: acyclic_insert)
    next
      case False
      then show ?thesis
        using prov graph_invD(2) [OF assms(1)] by simp
    qed
  next
    case 2
    then show ?thesis
      using graph_invD(2) [OF assms(1)] by (simp add: data_provenance_def)
  qed
  moreover have "out < length (g_nodes g') \<and> is_stored (node_at g' i) \<and> is_stored (node_at g' out)"
    if "(i, out, t', l') \<in> set (g_links g')" for i out t' l'
    using that graph_invD(1) [OF assms(1), of i out t' l'] eff(2,4) assms(3)
    by (cases rule: add_incoming_cases [OF assms(2)]) auto
  ultimately show ?thesis
    unfolding graph_inv_def by blast
qed

lemma store_node_effect:
  assumes "n < length (g_nodes g)"
  shows "incoming_all (store_node g n) m = incoming_all g m"
    and "length (g_nodes (store_node g n)) = length (g_nodes g)"
    and "nd_kind (node_at (store_node g n) m) = nd_kind (node_at g m)"
    and "is_stored (node_at (store_node g n) m) \<longleftrightarrow> m = n \<or> is_stored (node_at g m)"
    and "is_sealed (node_at (store_node g n) m) = is_sealed (node_at g m)"
proof -
  have "map (\<lambda>(i, out, t, l). LinkTriple i t l)
      (filter (\<lambda>(i, out, t, l). out = m) (map (\<lambda>x. (lt_node x, n, lt_type x, lt_label x)) xs)) =
      (if m = n then xs else [])" for xs :: "nat link_triple list"
    by (induction xs) (auto simp: LinkTriple_def)
  then show "incoming_all (store_node g n) m = incoming_all g m"
    using assms by (auto simp: incoming_all_def store_node_def Let_def node_at_set_node)
qed (use assms in \<open>auto simp: store_node_def Let_def node_at_set_node\<close>)

lemma acyclic_sink:
  assumes "acyclic r" "n \<notin> Domain r" "finite E" "\<forall>(x, y) \<in> E. y = n \<and> x \<noteq> n"
  shows "acyclic (r \<union> E)"
  using assms(3,4)
proof (induction E)
  case (insert e E)
  then obtain x where x: "e = (x, n)" "x \<noteq> n" by auto
  have "n \<notin> Domain (r \<union> E)"
    using assms(2) insert.prems by auto
  then have "(n, x) \<notin> (r \<union> E)\<^sup>*"
    using x(2) by (auto elim: converse_rtranclE)
  then show ?case
    using insert x by (simp add: acyclic_insert)
qed (simp add: assms(1))

lemma graph_inv_store:
  assumes "graph_inv g" "store_plain g n = Inr g'" "n < length (g_nodes g)"
  shows "graph_inv g'"
  using assms(2)
proof (rule store_plain_cases)
  assume new: "\<not> is_stored (node_at g n)" "g' = store_node g n"
    "\<forall>x \<in> set (incoming_cache (node_at g n)). is_stored (node_at g (lt_node x))"
  note eff = store_node_effect [OF assms(3)]
  let ?cache = "incoming_cache (node_at g n)"
  have links: "g_links g' = g_links g @ map (\<lambda>x. (lt_node x, n, lt_type x, lt_label x)) ?cache"
    by (simp add: new(2) store_node_def Let_def)
  let ?E = "set (map (\<lambda>x. (lt_node x, n)) (filter (\<lambda>x. lt_type x \<in> {CREATE, INPUT_CALC}) ?cache))"
  have "data_provenance g' = data_provenance g \<union> ?E"
    by (force simp: data_provenance_def links)
  moreover have "n \<notin> Domain (data_provenance g)"
    using graph_invD(1) [OF assms(1)] new(1) by (fastforce simp: data_provenance_def)
  moreover have "\<forall>(x, y) \<in> ?E. y = n \<and> x \<noteq> n"
    using new(1,3) by auto
  ultimately have "acyclic (data_provenance g')"
    using graph_invD(2) [OF assms(1)] acyclic_sink [of "data_provenance g" n ?E] by simp
  moreover have "link_ok g' m x" if "m < length (g_nodes g)" "link_ok g m x" for m x
    using that eff(2,3) by (simp add: link_ok_def new(2))
  moreover have "out < length (g_nodes g') \<and> is_stored (node_at g' i) \<and> is_stored (node_at g' out)"
    if "(i, out, t, l) \<in> set (g_links g')" for i out t l
    using that graph_invD(1) [OF assms(1), of i out t l] new(3) assms(3) eff(2,4) unfolding links
    by (auto simp: new(2))
  ultimately show ?thesis
    using graph_invD(3,4) [OF assms(1)] eff(1,2) unfolding graph_inv_def list_all_iff
    by (auto simp: new(2))
qed (use assms(1) in simp)

lemma graph_inv_new: "graph_inv g \<Longrightarrow> graph_inv (new_node k can_store g)"
proof -
  assume inv: "graph_inv g"
  let ?g = "new_node k can_store g"
  have nodes: "node_at ?g m = node_at g m" if "m < length (g_nodes g)" for m
    using that by (simp add: node_at_def new_node_def nth_append)
  have links: "g_links ?g = g_links g" "length (g_nodes ?g) = Suc (length (g_nodes g))"
    by (simp_all add: new_node_def)
  have src: "i < length (g_nodes g)" if "(i, out, t, l) \<in> set (g_links g)" for i out t l
  proof -
    have "LinkTriple i t l \<in> set (incoming_all g out)"
      using that by (force simp: incoming_all_def)
    then show ?thesis
      using graph_invD(1) [OF inv that] graph_invD(3) [OF inv] by (fastforce simp: link_ok_def)
  qed
  have old: "incoming_all ?g m = incoming_all g m" if "m < length (g_nodes g)" for m
    using nodes [OF that] links by (simp add: incoming_all_def)
  have "filter (\<lambda>(i, out, t, l). out = length (g_nodes g)) (g_links g) = []"
    using graph_invD(1) [OF inv] by (fastforce simp: filter_empty_conv)
  then have fresh: "incoming_all ?g (length (g_nodes g)) = []"
    by (simp add: incoming_all_def links node_at_def) (simp add: new_node_def)
  have ok: "link_ok ?g m x" if "m < length (g_nodes g)" "link_ok g m x" for m x
    using that nodes by (simp add: link_ok_def links)
  have "list_all (link_ok ?g m) (incoming_all ?g m) \<and> indegree_ok (incoming_all ?g m)"
    if "m < length (g_nodes ?g)" for m
  proof (cases "m < length (g_nodes g)")
    case True
    then show ?thesis
      using graph_invD(3,4) [OF inv True] ok [OF True] old [OF True] by (simp add: list_all_iff)
  next
    case False
    then show ?thesis
      using that links(2) fresh by (simp add: less_Suc_eq)
  qed
  moreover have "data_provenance ?g = data_provenance g"
    by (simp add: data_provenance_def links)
  moreover have "out < length (g_nodes ?g) \<and> is_stored (node_at ?g i) \<and> is_stored (node_at ?g out)"
    if "(i, out, t, l) \<in> set (g_links ?g)" for i out t l
    using that graph_invD(1) [OF inv] src nodes links by force
  ultimately show ?thesis
    using graph_invD(2) [OF inv] unfolding graph_inv_def by auto
qed

lemma graph_inv_seal:
  assumes "graph_inv g" "n < length (g_nodes g)"
  shows "graph_inv (seal g n)"
proof -
  have "incoming_all (seal g n) m = incoming_all g m" "nd_kind (node_at (seal g n) m) = nd_kind (node_at g m)"
    "is_stored (node_at (seal g n) m) = is_stored (node_at g m)" for m
    using assms(2) by (auto simp: seal_def incoming_all_def node_at_set_node)
  moreover have "g_links (seal g n) = g_links g" "length (g_nodes (seal g n)) = length (g_nodes g)"
    by (simp_all add: seal_def)
  ultimately show ?thesis
    using assms(1) by (simp add: graph_inv_def link_ok_def data_provenance_def list_all_iff)
qed

lemma graph_inv_basic:
  assumes "basic_step like g g'" "graph_inv g"
    and like: "\<And>l. is_ok (validate_link_label l) \<Longrightarrow> like l l"
  shows "graph_inv g'"
  using assms(1,2)
  by (induction rule: basic_step.induct)
     (auto intro: graph_inv_new graph_inv_seal graph_inv_store graph_inv_add [OF _ _ _ _ like])

lemma graph_inv_reachable:
  assumes "reachable like g" and like: "\<And>l. is_ok (validate_link_label l) \<Longrightarrow> like l l"
  shows "graph_inv g"
  using assms(1)
proof (induction rule: reachable.induct)
  case reachable_empty
  then show ?case
    by (simp add: graph_inv_def empty_graph_def data_provenance_def acyclic_def)
next
  case (reachable_step g g')
  from prov_step_basic [OF reachable_step(2)] reachable_step(3) show ?case
    by (induction rule: rtranclp_induct) (auto intro: graph_inv_basic [OF _ _ like])
qed

subsection \<open>What a step can change\<close>

definition links_of :: "graph \<Rightarrow> (nat \<times> nat \<times> link_type \<times> string) set" where
  "links_of g =
     {(lt_node x, m, lt_type x, lt_label x) | m x. m < length (g_nodes g) \<and> x \<in> set (incoming_all g m)}"

definition frozen :: "graph \<Rightarrow> nat \<Rightarrow> bool" where
  "frozen g n \<longleftrightarrow> n < length (g_nodes g) \<and> is_process (nd_kind (node_at g n)) \<and> is_sealed (node_at g n)"

definition started :: "graph \<Rightarrow> nat \<Rightarrow> bool" where
  "started g n \<longleftrightarrow> n < length (g_nodes g) \<and> is_process (nd_kind (node_at g n)) \<and> is_stored (node_at g n)"

lemma links_of_same:
  assumes "length (g_nodes g') = length (g_nodes g)" "\<And>m. set (incoming_all g' m) = set (incoming_all g m)"
  shows "links_of g' = links_of g"
  using assms by (simp add: links_of_def)

lemma new_node_links:
  assumes "graph_inv g"
  shows "links_of (new_node k can_store g) = links_of g"
proof -
  let ?g = "new_node k can_store g"
  have "incoming_all ?g m = incoming_all g m" if "m < length (g_nodes g)" for m
    using that by (simp add: incoming_all_def new_node_def node_at_def nth_append)
  moreover have "filter (\<lambda>(i, out, t, l). out = length (g_nodes g)) (g_links g) = []"
    using graph_invD(1) [OF assms] by (fastforce simp: filter_empty_conv)
  then have "incoming_all ?g (length (g_nodes g)) = []"
    by (simp add: incoming_all_def new_node_def node_at_def)
  moreover have "length (g_nodes ?g) = Suc (length (g_nodes g))"
    by (simp add: new_node_def)
  ultimately show ?thesis
    unfolding links_of_def by (auto simp: less_Suc_eq)
qed

lemma basic_step_links:
  assumes "basic_step like g g'" "graph_inv g"
  shows "links_of g' = links_of g \<or>
    (\<exists>s n t l. links_of g' = insert (s, n, t, l) (links_of g) \<and> \<not> frozen g n \<and> \<not> started g n \<and> \<not> frozen g s)"
  using assms(1)
proof (cases rule: basic_step.cases)
  case (basic_new k can_store)
  then show ?thesis using new_node_links [OF assms(2)] by simp
next
  case (basic_add n source t l)
  note eff = incoming_all_add [OF basic_add(3,1)]
  have inc: "set (incoming_all g' m) =
      (if m = n then insert (LinkTriple source t l) else id) (set (incoming_all g m))" for m
    using eff(1) [of m] by (auto simp flip: set_mset_mset)
  have "links_of g' = insert (source, n, t, l) (links_of g)"
    using basic_add(1) eff(2) inc unfolding links_of_def by (auto split: if_splits) (metis LinkTriple_sel insertI1)+
  moreover have "\<not> frozen g n \<and> \<not> started g n \<and> \<not> frozen g source"
    using add_incoming_valid(2,3) [OF basic_add(3)] by (auto simp: frozen_def started_def)
  ultimately show ?thesis by blast
next
  case (basic_store n)
  from basic_store(2) show ?thesis
    by (rule store_plain_cases) (auto simp: store_node_effect [OF basic_store(1)] intro!: links_of_same)
next
  case (basic_seal n)
  then show ?thesis
    by (intro disjI1 links_of_same) (auto simp: seal_def incoming_all_def node_at_set_node)
qed

lemma basic_step_nodes:
  assumes "basic_step like g g'" "n < length (g_nodes g)"
  shows "n < length (g_nodes g')" "nd_kind (node_at g' n) = nd_kind (node_at g n)"
    "is_sealed (node_at g n) \<Longrightarrow> is_sealed (node_at g' n)"
    "is_stored (node_at g n) \<Longrightarrow> is_stored (node_at g' n)"
proof -
  have "n < length (g_nodes g') \<and> nd_kind (node_at g' n) = nd_kind (node_at g n) \<and>
      (is_sealed (node_at g n) \<longrightarrow> is_sealed (node_at g' n)) \<and>
      (is_stored (node_at g n) \<longrightarrow> is_stored (node_at g' n))"
    using assms(1)
  proof (cases rule: basic_step.cases)
    case (basic_new k can_store)
    then show ?thesis using assms(2) by (simp add: new_node_def node_at_def nth_append)
  next
    case (basic_add m source t l)
    then show ?thesis using assms(2) by (simp add: incoming_all_add [OF basic_add(3,1)])
  next
    case (basic_store m)
    from basic_store(2) show ?thesis
      by (rule store_plain_cases) (use assms(2) in \<open>auto simp: store_node_effect [OF basic_store(1)]\<close>)
  next
    case (basic_seal m)
    then show ?thesis using assms(2) by (auto simp: seal_def node_at_set_node)
  qed
  then show "n < length (g_nodes g')" "nd_kind (node_at g' n) = nd_kind (node_at g n)"
    "is_sealed (node_at g n) \<Longrightarrow> is_sealed (node_at g' n)"
    "is_stored (node_at g n) \<Longrightarrow> is_stored (node_at g' n)"
    by blast+
qed

lemma basic_step_frozen:
  assumes "basic_step like g g'"
  shows "frozen g n \<Longrightarrow> frozen g' n" "started g n \<Longrightarrow> started g' n"
  using basic_step_nodes [OF assms, of n] by (auto simp: frozen_def started_def)

lemma steps_keep:
  assumes "(basic_step like)\<^sup>*\<^sup>* g g'" "graph_inv g"
    and like: "\<And>l. is_ok (validate_link_label l) \<Longrightarrow> like l l"
  shows "graph_inv g' \<and>
    (frozen g n \<longrightarrow> frozen g' n \<and>
       {x \<in> links_of g'. fst x = n \<or> fst (snd x) = n} = {x \<in> links_of g. fst x = n \<or> fst (snd x) = n}) \<and>
    (started g n \<longrightarrow> started g' n \<and> {x \<in> links_of g'. fst (snd x) = n} = {x \<in> links_of g. fst (snd x) = n})"
  using assms(1,2)
proof (induction rule: rtranclp_induct)
  case (step g' g'')
  then have inv: "graph_inv g'" by blast
  show ?case
    using step basic_step_links [OF step(2) inv] basic_step_frozen [OF step(2), of n]
      graph_inv_basic [OF step(2) inv like]
    by auto
qed simp

section \<open>Properties\<close>

text \<open>What the code relies on of the database's \<open>LIKE\<close>: a label without special characters but the
  underscore matches itself.\<close>

definition like_reflexive :: "(string \<Rightarrow> string \<Rightarrow> bool) \<Rightarrow> bool" where
  "like_reflexive like \<longleftrightarrow> (\<forall>l. is_ok (validate_link_label l) \<longrightarrow> like l l)"

lemma like_reflexiveD: "like_reflexive like \<Longrightarrow> is_ok (validate_link_label l) \<Longrightarrow> like l l"
  by (simp add: like_reflexive_def)

text \<open>C16: In every graph that creating nodes, adding links, storing (also from the cache) and sealing can
  build, the stored \<open>CREATE\<close> and \<open>INPUT_CALC\<close> links form no cycle: data provenance stays a
  directed acyclic graph.\<close>

theorem provenance_acyclic:
  assumes "reachable like g" "like_reflexive like"
  shows "acyclic (data_provenance g)"
  using graph_invD(2) [OF graph_inv_reachable [OF assms(1) like_reflexiveD [OF assms(2)]]] .

lemma like_refl_concrete: "like_reflexive sql_string_match"
  by (simp add: like_reflexive_def valid_label_sql_match)

definition example_graph :: graph where
  "example_graph = new_node DataNode True (new_node CalculationNode True empty_graph)"

lemma example_graph_reachable: "reachable like example_graph"
  unfolding example_graph_def by (intro reachable_step [OF _ step_new] reachable_empty)

theorem provenance_acyclic_witness: "acyclic (data_provenance example_graph)"
  by (rule provenance_acyclic [OF example_graph_reachable [of sql_string_match] like_refl_concrete])

text \<open>C17: In every reachable graph, every link, stored or cached, joins nodes of the classes its type
  allows under a valid label, and the incoming links of a node satisfy the uniqueness of their type:
  at most one \<open>CREATE\<close>, \<open>CALL_CALC\<close> and \<open>CALL_WORK\<close> link, distinct labels among
  \<open>INPUT_CALC\<close> and among \<open>INPUT_WORK\<close> links, and no \<open>RETURN\<close> link twice.\<close>

theorem incoming_links_unique:
  assumes "reachable like g" "like_reflexive like" "n < length (g_nodes g)"
  shows "list_all (link_ok g n) (incoming_all g n) \<and> indegree_ok (incoming_all g n)"
  using graph_invD(3,4) [OF graph_inv_reachable [OF assms(1) like_reflexiveD [OF assms(2)]] assms(3)] by (simp add: list_all_iff)

theorem incoming_links_unique_witness:
  "list_all (link_ok example_graph 1) (incoming_all example_graph 1) \<and>
   indegree_ok (incoming_all example_graph 1)"
  by (rule incoming_links_unique [OF example_graph_reachable [of sql_string_match] like_refl_concrete])
     (simp add: example_graph_def new_node_def empty_graph_def)

text \<open>C18: Whatever is done to a reachable graph, the links into and out of a sealed process, and the links
  into a stored process, never change.\<close>

theorem sealed_process_immutable:
  assumes "reachable like g" "like_reflexive like" "prov_step like g g'"
  shows "(frozen g n \<longrightarrow> frozen g' n \<and>
      {x \<in> links_of g'. fst x = n \<or> fst (snd x) = n} = {x \<in> links_of g. fst x = n \<or> fst (snd x) = n}) \<and>
    (started g n \<longrightarrow> started g' n \<and> {x \<in> links_of g'. fst (snd x) = n} = {x \<in> links_of g. fst (snd x) = n})"
  using steps_keep [OF prov_step_basic [OF assms(3)] graph_inv_reachable [OF assms(1) like_reflexiveD [OF assms(2)]]
    like_reflexiveD [OF assms(2)], of n]
  by blast

theorem sealed_process_immutable_witness:
  "frozen (seal example_graph 0) 0 \<and>
   {x \<in> links_of (new_node DataNode True (seal example_graph 0)). fst x = 0 \<or> fst (snd x) = 0} =
   {x \<in> links_of (seal example_graph 0). fst x = 0 \<or> fst (snd x) = 0}"
proof -
  have "prov_step sql_string_match example_graph (seal example_graph 0)"
    by (rule step_seal) (simp_all add: example_graph_def new_node_def empty_graph_def node_at_def is_process_def)
  from reachable_step [OF example_graph_reachable this]
  have reach: "reachable sql_string_match (seal example_graph 0)" .
  have frozen: "frozen (seal example_graph 0) 0"
    by (simp add: frozen_def seal_def example_graph_def new_node_def empty_graph_def node_at_def
        is_process_def set_node_def)
  note sealed_process_immutable [OF reach like_refl_concrete
      step_new [of sql_string_match "seal example_graph 0" DataNode True], of 0]
  from conjunct1 [OF this, THEN mp, OF frozen] frozen show ?thesis
    by (intro conjI) (assumption | erule conjunct2)+
qed

text \<open>\<open>store\<close> refuses a node whose cached links come from an unstored node, and otherwise stores the
  node with exactly its cached links; storing again changes nothing.\<close>

theorem store_plain_exact:
  assumes "n < length (g_nodes g)" "\<not> is_stored (node_at g n)" "nd_storable (node_at g n)"
  shows "store_plain g n =
    (if \<exists>x \<in> set (incoming_cache (node_at g n)). \<not> is_stored (node_at g (lt_node x))
     then Inl ModificationNotAllowed else Inr (store_node g n)) \<and>
    store_plain (store_node g n) n = Inr (store_node g n) \<and>
    incoming_cache (node_at (store_node g n) n) = [] \<and>
    incoming_all (store_node g n) n = incoming_all g n"
  using assms store_node_effect [OF assms(1)]
  by (auto simp: store_plain_def verify_are_parents_stored_def list_all_iff guard_def)
     (simp_all add: store_node_def Let_def node_at_set_node)

theorem store_plain_exact_witness:
  "store_plain example_graph 0 =
    (if \<exists>x \<in> set (incoming_cache (node_at example_graph 0)). \<not> is_stored (node_at example_graph (lt_node x))
     then Inl ModificationNotAllowed else Inr (store_node example_graph 0)) \<and>
    store_plain (store_node example_graph 0) 0 = Inr (store_node example_graph 0) \<and>
    incoming_cache (node_at (store_node example_graph 0) 0) = [] \<and>
    incoming_all (store_node example_graph 0) 0 = incoming_all example_graph 0"
  by (rule store_plain_exact) (simp_all add: example_graph_def new_node_def empty_graph_def node_at_def)

text \<open>The findings below run the code on concrete graphs.\<close>

definition two_outputs :: "graph res" where
  "two_outputs =
     (let like = sql_string_match;
          g = new_node DataNode True (new_node DataNode True (new_node CalculationNode True empty_graph)) in
      bind_res (store like g 0 None) (\<lambda>g.
      bind_res (add_incoming like g 1 0 CREATE ''out'') (\<lambda>g.
      bind_res (add_incoming like g 2 0 CREATE ''out'') (\<lambda>g.
      bind_res (store like g 1 None) (\<lambda>g.
        store like g 2 None)))))"

lemmas run_simps =
  Let_def new_node_def empty_graph_def store_def store_plain_def store_node_def node_at_def set_node_def
  verify_are_parents_stored_def guard_def add_incoming_def validate_incoming_def validate_outgoing_def
  validate_link_def validate_outdegree_def validate_indegree_def get_incoming_def get_outgoing_def
  get_stored_link_triples_def lm_bool_def is_process_def add_incoming_cache_def
  is_ancestor_def backend_add_incoming_def link_triple_exists_def

lemma label_out: "validate_link_label ''out'' = Inr ()"
  by code_simp

text \<open>The outdegree check of \<open>CREATE\<close> links looks at stored links only: two unstored data nodes can
  each get a \<open>CREATE\<close> link with the same label from one calculation, and both can then be stored, so
  that the calculation ends with two outputs of one label.\<close>

theorem create_label_not_unique:
  "map_sum id g_links two_outputs = Inr [(0, 1, CREATE, ''out''), (0, 2, CREATE, ''out'')]"
  by (simp add: two_outputs_def run_simps label_out bind_res_def numeral_2_eq_2)

definition second_input :: "string \<Rightarrow> string \<Rightarrow> graph res" where
  "second_input l l' =
     (let like = sql_string_match;
          g = new_node CalculationNode True (new_node DataNode True empty_graph) in
      bind_res (store like g 0 None) (\<lambda>g.
      bind_res (add_incoming like g 1 0 INPUT_CALC l) (\<lambda>g.
        add_incoming like g 1 0 INPUT_CALC l')))"

lemma labels_a_b:
  "validate_link_label ''a_b'' = Inr ()" "validate_link_label ''axb'' = Inr ()"
  "sql_string_match ''axb'' ''a_b''" "\<not> sql_string_match ''a_b'' ''axb''"
  by code_simp+

text \<open>The uniqueness check of an input label passes the label as a \<open>LIKE\<close> pattern, in which an
  underscore stands for any character: a calculation that has the input \<open>axb\<close> refuses the input
  \<open>a_b\<close>, while the other order of the two is accepted.\<close>

theorem underscore_label_clash:
  "second_input ''axb'' ''a_b'' = Inl ValueError \<and> is_ok (second_input ''a_b'' ''axb'')"
  by (simp add: second_input_def run_simps labels_a_b bind_res_def label_matches_def)

end
