(* ===== verification/Aiida_Process_Node.thy ===== *)
theory Aiida_Process_Node
  imports Aiida_Prelude
begin

text \<open>
  The attributes of a node and what a process records in them: \<open>NodeAttributes\<close>
  (\<open>orm/nodes/attributes.py\<close>) over the backend node (\<open>storage/psql_dos/orm/nodes.py\<close>) with
  \<open>clean_value\<close> and \<open>validate_attribute_extra_key\<close> (\<open>orm/implementation/utils.py\<close>), the
  mutability checks of \<open>Node\<close> and \<open>Sealable\<close>, the accessors of \<open>ProcessNode\<close>
  (\<open>orm/nodes/process/process.py\<close>), \<open>ExitCode\<close> and \<open>ExitCodesNamespace\<close>
  (\<open>engine/processes/exit_code.py\<close>) and the handlers of \<open>Process\<close> that write the outcome of a
  process.

  A value is what \<open>clean_value\<close> distinguishes; finite floating-point numbers are left out.  A raised
  exception drops the state: it is only used where the code raises before it changes anything or where
  the change is not flushed.
\<close>

section \<open>Values\<close>

datatype pyval =
    VNone | VBool bool | VInt int | VStr string
  | VNonFinite
  | VList "pyval list"
  | VDict "(string \<times> pyval) list"
  | VBaseType pyval
  | VUnknown

fun truthy :: "pyval \<Rightarrow> bool" where
  "truthy VNone = False"
| "truthy (VBool b) = b"
| "truthy (VInt i) = (i \<noteq> 0)"
| "truthy (VStr s) = (s \<noteq> [])"
| "truthy (VList vs) = (vs \<noteq> [])"
| "truthy (VDict d) = (d \<noteq> [])"
| "truthy v = True"

fun clean_builtin :: "pyval \<Rightarrow> pyval res" where
  "clean_builtin VNone = Inr VNone"
| "clean_builtin (VBool b) = Inr (VBool b)"
| "clean_builtin (VStr s) = Inr (VStr s)"
| "clean_builtin (VInt i) = Inr (VInt i)"
| "clean_builtin v = Inl ValidationError"

fun clean_value :: "pyval \<Rightarrow> pyval res"
  and clean_values :: "pyval list \<Rightarrow> pyval list res"
  and clean_items :: "(string \<times> pyval) list \<Rightarrow> (string \<times> pyval) list res" where
  "clean_value (VBaseType v) = clean_builtin v"
| "clean_value (VDict d) = bind_res (clean_items d) (\<lambda>d. Inr (VDict d))"
| "clean_value (VList vs) = bind_res (clean_values vs) (\<lambda>vs. Inr (VList vs))"
| "clean_value v = clean_builtin v"
| "clean_values [] = Inr []"
| "clean_values (v # vs) =
     bind_res (clean_value v) (\<lambda>v. bind_res (clean_values vs) (\<lambda>vs. Inr (v # vs)))"
| "clean_items [] = Inr []"
| "clean_items ((k, v) # d) =
     bind_res (clean_value v) (\<lambda>v. bind_res (clean_items d) (\<lambda>d. Inr ((k, v) # d)))"

text \<open>The key of an attribute is a string in the model.\<close>

definition validate_attribute_extra_key :: "string \<Rightarrow> unit res" where
  "validate_attribute_extra_key key =
     bind_res (guard (key \<noteq> []) ValidationError) (\<lambda>_. guard (CHR ''.'' \<notin> set key) ValidationError)"

section \<open>Attributes\<close>

record pnode =
  pn_process :: bool
  pn_stored :: bool
  pn_attributes :: "pyval dict"

definition get_attribute :: "pnode \<Rightarrow> string \<Rightarrow> pyval res" where
  "get_attribute p key = (case map_of (pn_attributes p) key of None \<Rightarrow> Inl AttributeError | Some v \<Rightarrow> Inr v)"

definition attributes_get :: "pnode \<Rightarrow> string \<Rightarrow> pyval \<Rightarrow> pyval" where
  "attributes_get p key dflt = (case get_attribute p key of Inl _ \<Rightarrow> dflt | Inr v \<Rightarrow> v)"

fun attributes_get_many :: "pnode \<Rightarrow> string list \<Rightarrow> pyval list res" where
  "attributes_get_many p [] = Inr []"
| "attributes_get_many p (key # keys) =
     bind_res (get_attribute p key) (\<lambda>v. bind_res (attributes_get_many p keys) (\<lambda>vs. Inr (v # vs)))"

definition SEALED_KEY :: string where
  "SEALED_KEY = ''sealed''"

definition updatable_attributes :: "string list" where
  "updatable_attributes =
     [SEALED_KEY, ''paused'', ''checkpoints'', ''exception'', ''exit_message'', ''exit_status'',
      ''process_label'', ''process_state'', ''process_status'']"

definition pn_sealed :: "pnode \<Rightarrow> bool" where
  "pn_sealed p = truthy (attributes_get p SEALED_KEY (VBool False))"

text \<open>\<open>_check_mutability_attributes\<close> of \<open>Sealable\<close> for processes, of \<open>Node\<close> for the others.\<close>

definition check_mutability_attributes :: "pnode \<Rightarrow> string list option \<Rightarrow> unit res" where
  "check_mutability_attributes p keys =
     (if pn_process p then
        bind_res (guard (\<not> pn_sealed p) ModificationNotAllowed) (\<lambda>_.
          if pn_stored p then
            (case keys of
               None \<Rightarrow> Inl ModificationNotAllowed
             | Some ks \<Rightarrow>
                 guard (\<not> list_ex (\<lambda>key. key \<notin> set updatable_attributes) ks) ModificationNotAllowed)
          else Inr ())
      else guard (\<not> pn_stored p) ModificationNotAllowed)"

definition clean_if_stored :: "pnode \<Rightarrow> pyval \<Rightarrow> pyval res" where
  "clean_if_stored p v = (if pn_stored p then clean_value v else Inr v)"

definition set_attribute :: "pnode \<Rightarrow> string \<Rightarrow> pyval \<Rightarrow> pnode res" where
  "set_attribute p key v =
     bind_res (validate_attribute_extra_key key) (\<lambda>_.
     bind_res (clean_if_stored p v) (\<lambda>v.
       Inr (p\<lparr>pn_attributes := AList.update key v (pn_attributes p)\<rparr>)))"

definition validate_keys :: "pyval dict \<Rightarrow> unit res" where
  "validate_keys d = guard (list_all (\<lambda>(key, v). is_ok (validate_attribute_extra_key key)) d) ValidationError"

definition set_attribute_many :: "pnode \<Rightarrow> pyval dict \<Rightarrow> pnode res" where
  "set_attribute_many p d =
     bind_res (validate_keys d) (\<lambda>_.
     bind_res (if pn_stored p then clean_items d else Inr d) (\<lambda>d.
       Inr (p\<lparr>pn_attributes := fold (\<lambda>(key, v). AList.update key v) d (pn_attributes p)\<rparr>)))"

definition reset_attributes :: "pnode \<Rightarrow> pyval dict \<Rightarrow> pnode res" where
  "reset_attributes p d =
     bind_res (validate_keys d) (\<lambda>_.
     bind_res (if pn_stored p then clean_items d else Inr d) (\<lambda>d. Inr (p\<lparr>pn_attributes := d\<rparr>)))"

definition delete_attribute :: "pnode \<Rightarrow> string \<Rightarrow> pnode res" where
  "delete_attribute p key =
     bind_res (get_attribute p key) (\<lambda>_. Inr (p\<lparr>pn_attributes := AList.delete key (pn_attributes p)\<rparr>))"

text \<open>A key that is given twice is popped twice, which raises a \<open>KeyError\<close>.\<close>

fun pop_attributes :: "string list \<Rightarrow> pyval dict \<Rightarrow> pyval dict res" where
  "pop_attributes [] d = Inr d"
| "pop_attributes (key # keys) d =
     (if map_of d key = None then Inl KeyError else pop_attributes keys (AList.delete key d))"

definition delete_attribute_many :: "pnode \<Rightarrow> string list \<Rightarrow> pnode res" where
  "delete_attribute_many p keys =
     bind_res (guard (list_all (\<lambda>key. map_of (pn_attributes p) key \<noteq> None) keys) AttributeError) (\<lambda>_.
     bind_res (pop_attributes keys (pn_attributes p)) (\<lambda>d. Inr (p\<lparr>pn_attributes := d\<rparr>)))"

definition attributes_set :: "pnode \<Rightarrow> string \<Rightarrow> pyval \<Rightarrow> pnode res" where
  "attributes_set p key v =
     bind_res (check_mutability_attributes p (Some [key])) (\<lambda>_. set_attribute p key v)"

definition attributes_set_many :: "pnode \<Rightarrow> pyval dict \<Rightarrow> pnode res" where
  "attributes_set_many p d =
     bind_res (check_mutability_attributes p (Some (map fst d))) (\<lambda>_. set_attribute_many p d)"

definition attributes_reset :: "pnode \<Rightarrow> pyval dict \<Rightarrow> pnode res" where
  "attributes_reset p d = bind_res (check_mutability_attributes p None) (\<lambda>_. reset_attributes p d)"

definition attributes_delete :: "pnode \<Rightarrow> string \<Rightarrow> pnode res" where
  "attributes_delete p key =
     bind_res (check_mutability_attributes p (Some [key])) (\<lambda>_. delete_attribute p key)"

definition attributes_delete_many :: "pnode \<Rightarrow> string list \<Rightarrow> pnode res" where
  "attributes_delete_many p keys =
     bind_res (check_mutability_attributes p (Some keys)) (\<lambda>_. delete_attribute_many p keys)"

definition attributes_clear :: "pnode \<Rightarrow> pnode res" where
  "attributes_clear p =
     bind_res (check_mutability_attributes p None) (\<lambda>_. Inr (p\<lparr>pn_attributes := []\<rparr>))"

section \<open>Exit codes\<close>

record exit_code =
  status :: int
  message :: "string option"
  invalidates_cache :: bool

definition ExitCode :: "int \<Rightarrow> string option \<Rightarrow> bool \<Rightarrow> exit_code" where
  "ExitCode s m i = \<lparr>status = s, message = m, invalidates_cache = i\<rparr>"

datatype exit_code_identifier = ByStatus int | ByLabel string

definition exit_codes_call :: "exit_code dict \<Rightarrow> exit_code_identifier \<Rightarrow> exit_code res" where
  "exit_codes_call codes identifier =
     (case identifier of
        ByStatus i \<Rightarrow>
          (case find (\<lambda>exit_code. status exit_code = i) (map snd codes) of
             None \<Rightarrow> Inl ValueError | Some exit_code \<Rightarrow> Inr exit_code)
      | ByLabel l \<Rightarrow> (case map_of codes l of None \<Rightarrow> Inl ValueError | Some exit_code \<Rightarrow> Inr exit_code))"

section \<open>The process node\<close>

datatype process_state = CREATED | RUNNING | WAITING | FINISHED | EXCEPTED | KILLED

fun process_state_value :: "process_state \<Rightarrow> string" where
  "process_state_value CREATED = ''created''"
| "process_state_value RUNNING = ''running''"
| "process_state_value WAITING = ''waiting''"
| "process_state_value FINISHED = ''finished''"
| "process_state_value EXCEPTED = ''excepted''"
| "process_state_value KILLED = ''killed''"

definition ProcessState :: "pyval \<Rightarrow> process_state res" where
  "ProcessState v =
     (case find (\<lambda>s. VStr (process_state_value s) = v)
        [CREATED, RUNNING, WAITING, FINISHED, EXCEPTED, KILLED] of
        None \<Rightarrow> Inl ValueError | Some s \<Rightarrow> Inr s)"

definition get_process_state :: "pnode \<Rightarrow> process_state option res" where
  "get_process_state p =
     (case attributes_get p ''process_state'' VNone of
        VNone \<Rightarrow> Inr None
      | v \<Rightarrow> bind_res (ProcessState v) (\<lambda>s. Inr (Some s)))"

definition set_process_state :: "pnode \<Rightarrow> process_state \<Rightarrow> pnode res" where
  "set_process_state p s = attributes_set p ''process_state'' (VStr (process_state_value s))"

text \<open>A state that is none of the enumeration, on which the code raises, counts as no state.\<close>

definition in_state :: "pnode \<Rightarrow> process_state \<Rightarrow> bool" where
  "in_state p s \<longleftrightarrow> get_process_state p = Inr (Some s)"

definition exit_status :: "pnode \<Rightarrow> pyval" where
  "exit_status p = attributes_get p ''exit_status'' VNone"

definition exit_message :: "pnode \<Rightarrow> pyval" where
  "exit_message p = attributes_get p ''exit_message'' VNone"

definition is_excepted :: "pnode \<Rightarrow> bool" where
  "is_excepted p = in_state p EXCEPTED"

definition is_killed :: "pnode \<Rightarrow> bool" where
  "is_killed p = in_state p KILLED"

definition is_finished :: "pnode \<Rightarrow> bool" where
  "is_finished p = in_state p FINISHED"

definition is_terminated :: "pnode \<Rightarrow> bool" where
  "is_terminated p \<longleftrightarrow> is_excepted p \<or> is_finished p \<or> is_killed p"

definition is_finished_ok :: "pnode \<Rightarrow> bool" where
  "is_finished_ok p \<longleftrightarrow> is_finished p \<and> exit_status p \<in> {VInt 0, VBool False}"

definition is_failed :: "pnode \<Rightarrow> bool" where
  "is_failed p \<longleftrightarrow> is_finished p \<and> exit_status p \<notin> {VInt 0, VBool False}"

definition node_exit_code :: "pnode \<Rightarrow> (pyval \<times> pyval) option" where
  "node_exit_code p =
     (if exit_status p = VNone \<or> exit_message p = VNone then None
      else Some (exit_status p, exit_message p))"

datatype status_arg = StatusNone | StatusEnum pyval | StatusValue pyval

definition set_exit_status :: "pnode \<Rightarrow> status_arg \<Rightarrow> pnode res" where
  "set_exit_status p st =
     (let v = (case st of StatusNone \<Rightarrow> VInt 0 | StatusEnum v \<Rightarrow> v | StatusValue v \<Rightarrow> v) in
      case v of
        VInt i \<Rightarrow> attributes_set p ''exit_status'' v
      | VBool b \<Rightarrow> attributes_set p ''exit_status'' v
      | _ \<Rightarrow> Inl ValueError)"

definition set_exit_message :: "pnode \<Rightarrow> pyval \<Rightarrow> pnode res" where
  "set_exit_message p v =
     (case v of VNone \<Rightarrow> Inr p | VStr s \<Rightarrow> attributes_set p ''exit_message'' v | _ \<Rightarrow> Inl ValueError)"

definition get_exception :: "pnode \<Rightarrow> pyval" where
  "get_exception p = (if is_excepted p then attributes_get p ''exception'' (VStr []) else VNone)"

definition set_exception :: "pnode \<Rightarrow> pyval \<Rightarrow> pnode res" where
  "set_exception p v = (case v of VStr s \<Rightarrow> attributes_set p ''exception'' v | _ \<Rightarrow> Inl ValueError)"

definition delete_if_present :: "pnode \<Rightarrow> string \<Rightarrow> pnode res" where
  "delete_if_present p key =
     (case attributes_delete p key of Inl AttributeError \<Rightarrow> Inr p | r \<Rightarrow> r)"

definition set_process_status :: "pnode \<Rightarrow> pyval \<Rightarrow> pnode res" where
  "set_process_status p v =
     (case v of
        VNone \<Rightarrow> delete_if_present p ''process_status''
      | VStr s \<Rightarrow> attributes_set p ''process_status'' v
      | _ \<Rightarrow> Inl TypeError)"

definition set_checkpoint :: "pnode \<Rightarrow> string \<Rightarrow> pnode res" where
  "set_checkpoint p c = attributes_set p ''checkpoints'' (VStr c)"

definition delete_checkpoint :: "pnode \<Rightarrow> pnode res" where
  "delete_checkpoint p = delete_if_present p ''checkpoints''"

definition paused :: "pnode \<Rightarrow> pyval" where
  "paused p = attributes_get p ''paused'' (VBool False)"

definition pause :: "pnode \<Rightarrow> pnode res" where
  "pause p = attributes_set p ''paused'' (VBool True)"

definition unpause :: "pnode \<Rightarrow> pnode res" where
  "unpause p = delete_if_present p ''paused''"

definition seal_node :: "pnode \<Rightarrow> pnode res" where
  "seal_node p = (if pn_sealed p then Inr p else attributes_set p SEALED_KEY (VBool True))"

text \<open>\<open>Process.is_valid_cache\<close> with the exit codes of the specification of the process.\<close>

definition is_valid_cache :: "exit_code dict \<Rightarrow> pnode \<Rightarrow> bool" where
  "is_valid_cache codes p =
     (case exit_status p of
        VInt i \<Rightarrow>
          (case exit_codes_call codes (ByStatus i) of
             Inl _ \<Rightarrow> True | Inr exit_code \<Rightarrow> \<not> invalidates_cache exit_code)
      | VBool b \<Rightarrow>
          (case exit_codes_call codes (ByStatus (of_bool b)) of
             Inl _ \<Rightarrow> True | Inr exit_code \<Rightarrow> \<not> invalidates_cache exit_code)
      | _ \<Rightarrow> True)"

section \<open>Writing the outcome of a process\<close>

datatype process_result = ResultNone | ResultInt int | ResultExitCode exit_code | ResultOther

definition ERROR_MISSING_OUTPUT :: exit_code where
  "ERROR_MISSING_OUTPUT = ExitCode 11 (Some ''The process did not register a required output.'') True"

definition on_finish :: "pnode \<Rightarrow> process_result \<Rightarrow> bool \<Rightarrow> pnode res" where
  "on_finish p result successful =
     (let result = (case result of
          ResultNone \<Rightarrow> ResultExitCode (if \<not> successful then ERROR_MISSING_OUTPUT else ExitCode 0 None False)
        | r \<Rightarrow> r) in
      case result of
        ResultInt i \<Rightarrow> set_exit_status p (StatusValue (VInt i))
      | ResultExitCode exit_code \<Rightarrow>
          bind_res (set_exit_status p (StatusValue (VInt (status exit_code)))) (\<lambda>p.
            set_exit_message p (case message exit_code of None \<Rightarrow> VNone | Some s \<Rightarrow> VStr s))
      | _ \<Rightarrow> Inl ValueError)"

definition on_except :: "pnode \<Rightarrow> string \<Rightarrow> pnode res" where
  "on_except p traceback = set_exception p (VStr traceback)"

definition on_terminated :: "pnode \<Rightarrow> pnode res" where
  "on_terminated p = (case seal_node p of Inl ModificationNotAllowed \<Rightarrow> Inr p | r \<Rightarrow> r)"

section \<open>Cleaning\<close>

text \<open>Plain values, which JSON can store as they are.\<close>

fun plain :: "pyval \<Rightarrow> bool" where
  "plain (VList vs) = list_all plain vs"
| "plain (VDict d) = list_all (\<lambda>(k, v). plain v) d"
| "plain v = (v \<noteq> VNonFinite \<and> v \<noteq> VUnknown \<and> (\<forall>w. v \<noteq> VBaseType w))"

lemma clean_builtin_plain: "clean_builtin v = Inr w \<Longrightarrow> plain w \<and> w = v"
  by (cases v) auto

lemma clean_plain:
  "clean_value v = Inr w \<Longrightarrow> plain w"
  "clean_values vs = Inr ws \<Longrightarrow> list_all plain ws"
  "clean_items d = Inr e \<Longrightarrow> list_all (\<lambda>(k, v). plain v) e \<and> map fst e = map fst d"
  by (induction v and vs and d arbitrary: w and ws and e
      rule: clean_value_clean_values_clean_items.induct)
     (auto simp: bind_res_Inr_iff dest: clean_builtin_plain)

lemma plain_clean:
  "plain v \<Longrightarrow> clean_value v = Inr v"
  "list_all plain vs \<Longrightarrow> clean_values vs = Inr vs"
  "list_all (\<lambda>(k, v). plain v) d \<Longrightarrow> clean_items d = Inr d"
  by (induction v and vs and d rule: clean_value_clean_values_clean_items.induct) auto

lemma clean_error:
  "clean_value v = Inl e \<Longrightarrow> e = ValidationError"
  "clean_values vs = Inl e \<Longrightarrow> e = ValidationError"
  "clean_items d = Inl e \<Longrightarrow> e = ValidationError"
proof (induction v and vs and d rule: clean_value_clean_values_clean_items.induct)
  case (1 v)
  then show ?case by (cases v) auto
qed (auto simp: bind_res_def split: sum.splits)

section \<open>Attributes of stored and sealed nodes\<close>

inductive attr_step :: "pnode \<Rightarrow> pnode \<Rightarrow> bool" where
  "attributes_set p key v = Inr q \<Longrightarrow> attr_step p q"
| "attributes_set_many p d = Inr q \<Longrightarrow> attr_step p q"
| "attributes_reset p d = Inr q \<Longrightarrow> attr_step p q"
| "attributes_delete p key = Inr q \<Longrightarrow> attr_step p q"
| "attributes_delete_many p keys = Inr q \<Longrightarrow> attr_step p q"
| "attributes_clear p = Inr q \<Longrightarrow> attr_step p q"

lemmas attribute_ops =
  attributes_set_def attributes_set_many_def attributes_reset_def attributes_delete_def
  attributes_delete_many_def attributes_clear_def set_attribute_def set_attribute_many_def
  reset_attributes_def delete_attribute_def delete_attribute_many_def clean_if_stored_def

lemma attr_step_kind:
  "attr_step p q \<Longrightarrow> pn_process q = pn_process p \<and> pn_stored q = pn_stored p"
  by (induction rule: attr_step.induct) (auto simp: attribute_ops bind_res_Inr_iff)

lemma check_mutability_stored:
  assumes "check_mutability_attributes p ks = Inr u" "pn_stored p"
  shows "pn_process p \<and> \<not> pn_sealed p \<and> (\<exists>keys. ks = Some keys \<and> set keys \<subseteq> set updatable_attributes)"
  using assms
  by (auto simp: check_mutability_attributes_def guard_def list_ex_iff split: if_splits option.splits)

lemma map_of_fold_update:
  "key \<notin> fst ` set d \<Longrightarrow> map_of (fold (\<lambda>(k, v). AList.update k v) d e) key = map_of e key"
  by (induction d arbitrary: e) auto

lemma map_of_pop: "pop_attributes keys d = Inr e \<Longrightarrow> key \<notin> set keys \<Longrightarrow> map_of e key = map_of d key"
  by (induction keys d rule: pop_attributes.induct) (auto split: if_splits)

lemma attr_step_stored:
  assumes "attr_step p q" "pn_stored p"
  shows "pn_process p \<and> \<not> pn_sealed p \<and>
    (\<forall>key. key \<notin> set updatable_attributes \<longrightarrow> map_of (pn_attributes q) key = map_of (pn_attributes p) key)"
  using assms
proof (induction rule: attr_step.induct)
  case (2 p d q)
  then obtain e where e: "clean_items d = Inr e" "check_mutability_attributes p (Some (map fst d)) = Inr ()"
    "q = p\<lparr>pn_attributes := fold (\<lambda>(key, v). AList.update key v) e (pn_attributes p)\<rparr>"
    by (auto simp: attribute_ops bind_res_Inr_iff)
  have "fst ` set e = fst ` set d"
    using clean_plain(3) [OF e(1)] by (metis list.set_map)
  then show ?case
    using check_mutability_stored [OF e(2) 2(2)] e(3) by (auto intro!: map_of_fold_update)
next
  case (5 p keys q)
  then obtain d where d: "check_mutability_attributes p (Some keys) = Inr ()"
    "pop_attributes keys (pn_attributes p) = Inr d" "q = p\<lparr>pn_attributes := d\<rparr>"
    by (auto simp: attribute_ops bind_res_Inr_iff)
  then show ?case
    using check_mutability_stored [OF d(1) 5(2)] by (auto intro!: map_of_pop)
qed (auto simp: attribute_ops bind_res_Inr_iff dest: check_mutability_stored)

lemma attr_steps_stored:
  assumes "attr_step\<^sup>*\<^sup>* p q" "pn_stored p"
  shows "pn_stored q \<and> pn_process q = pn_process p \<and> (pn_process p \<and> \<not> pn_sealed p \<or> q = p) \<and>
    (\<forall>key. key \<notin> set updatable_attributes \<longrightarrow> map_of (pn_attributes q) key = map_of (pn_attributes p) key)"
  using assms
proof (induction rule: rtranclp_induct)
  case (step q r)
  then show ?case
    using attr_step_kind [of q r] attr_step_stored [of q r] by auto
qed auto

lemma sealed_no_step:
  assumes "attr_step p q" "pn_process p"
  shows "\<not> pn_sealed p"
  using assms
  by (induction rule: attr_step.induct)
     (auto simp: attribute_ops bind_res_Inr_iff check_mutability_attributes_def guard_def split: if_splits)

lemma sealed_fixed:
  assumes "attr_step\<^sup>*\<^sup>* p q" "pn_process p" "pn_sealed p"
  shows "q = p"
  using assms by (induction rule: converse_rtranclp_induct) (auto dest: sealed_no_step)

section \<open>Properties\<close>


definition running_process :: pnode where
  "running_process =
     \<lparr>pn_process = True, pn_stored = True, pn_attributes = [(''version'', VInt 2), (''process_state'', VStr ''running'')]\<rparr>"


text \<open>Cleaning a value gives a plain JSON value or raises \<open>ValidationError\<close>, and cleaning again
  changes nothing.\<close>

theorem clean_value_exact:
  "case clean_value v of
     Inl e \<Rightarrow> e = ValidationError
   | Inr w \<Rightarrow> plain w \<and> clean_value w = Inr w"
proof (cases "clean_value v")
  case (Inl e)
  then show ?thesis
    using clean_error(1) [OF Inl] by simp
next
  case (Inr w)
  then show ?thesis
    using clean_plain(1) [OF Inr] by (simp add: plain_clean(1))
qed

lemma attributes_set_outcome:
  assumes "pn_process p" "pn_stored p" "\<not> pn_sealed p" "key \<in> set updatable_attributes" "plain v"
  shows "attributes_set p key v = Inr (p\<lparr>pn_attributes := AList.update key v (pn_attributes p)\<rparr>)"
proof -
  have "validate_attribute_extra_key key = Inr ()"
    using assms(4) by (auto simp: updatable_attributes_def SEALED_KEY_def validate_attribute_extra_key_def)
  then show ?thesis
    using assms by (simp add: attribute_ops check_mutability_attributes_def plain_clean)
qed

lemma pn_sealed_other:
  "key \<noteq> SEALED_KEY \<Longrightarrow> pn_sealed (p\<lparr>pn_attributes := AList.update key v d\<rparr>) = pn_sealed (p\<lparr>pn_attributes := d\<rparr>)"
  by (simp add: pn_sealed_def attributes_get_def get_attribute_def)

text \<open>What the engine does when a process finishes: the state, the result, and the seal.\<close>

definition finish_process :: "pnode \<Rightarrow> process_result \<Rightarrow> bool \<Rightarrow> pnode res" where
  "finish_process p result successful =
     bind_res (set_process_state p FINISHED) (\<lambda>p.
     bind_res (on_finish p result successful) on_terminated)"

fun result_code :: "process_result \<Rightarrow> bool \<Rightarrow> exit_code" where
  "result_code ResultNone successful = (if successful then ExitCode 0 None False else ERROR_MISSING_OUTPUT)"
| "result_code (ResultInt i) successful = ExitCode i None False"
| "result_code (ResultExitCode c) successful = c"
| "result_code ResultOther successful = ExitCode 0 None False"



end
