(* ===== verification/Aiida_Work_Chain.thy ===== *)
theory Aiida_Work_Chain
  imports Aiida_Process_Node "HOL-Library.Multiset"
begin

text \<open>
  The work chain and its context (\<open>engine/processes/workchains/workchain.py\<close>, \<open>awaitable.py\<close> and
  \<open>context.py\<close>): awaitables, their placeholders in the nested context, \<open>to_context\<close>,
  \<open>_do_step\<close> and the callback when a child process has terminated.

  The stepper, which executes the user's outline, is third-party code and a parameter of
  \<open>do_step\<close>.  A context is a dictionary whose values are nested attribute dictionaries, lists,
  placeholders and other values.  A raised exception makes the process excepted; the context it leaves
  behind is not described.
\<close>

section \<open>Awaitables\<close>

datatype awaitable_action = ASSIGN | APPEND

record awaitable =
  aw_pk :: int
  aw_action :: awaitable_action
  aw_outputs :: bool
  aw_key :: string

datatype awaitable_target = TargetAwaitable awaitable | TargetProcess int | TargetOther

definition construct_awaitable :: "awaitable_target \<Rightarrow> awaitable res" where
  "construct_awaitable target =
     (case target of
        TargetAwaitable a \<Rightarrow> Inr a
      | TargetProcess pk \<Rightarrow> Inr \<lparr>aw_pk = pk, aw_action = ASSIGN, aw_outputs = False, aw_key = []\<rparr>
      | TargetOther \<Rightarrow> Inl ValueError)"

definition assign_target :: "awaitable_target \<Rightarrow> awaitable res" where
  "assign_target target = bind_res (construct_awaitable target) (\<lambda>a. Inr (a\<lparr>aw_action := ASSIGN\<rparr>))"

definition append_target :: "awaitable_target \<Rightarrow> awaitable res" where
  "append_target target = bind_res (construct_awaitable target) (\<lambda>a. Inr (a\<lparr>aw_action := APPEND\<rparr>))"

section \<open>The context\<close>

datatype 'v ctx_value =
    CDict "(string \<times> 'v ctx_value) list"
  | CList "'v ctx_value list"
  | CAwait awaitable
  | CVal 'v

type_synonym 'v ctx = "(string \<times> 'v ctx_value) list"

text \<open>\<open>_resolve_nested_context\<close> gives the dictionary that holds the last key; here the update at that
  dictionary is passed in.\<close>

fun with_nested_context :: "string list \<Rightarrow> (string \<Rightarrow> 'v ctx \<Rightarrow> 'v ctx res) \<Rightarrow> 'v ctx \<Rightarrow> 'v ctx res" where
  "with_nested_context [] f ctx = Inr ctx"
| "with_nested_context [key] f ctx = f key ctx"
| "with_nested_context (path # q # ps) f ctx =
     (case map_of ctx path of
        None \<Rightarrow>
          bind_res (with_nested_context (q # ps) f []) (\<lambda>sub. Inr (AList.update path (CDict sub) ctx))
      | Some (CDict sub) \<Rightarrow>
          bind_res (with_nested_context (q # ps) f sub) (\<lambda>sub. Inr (AList.update path (CDict sub) ctx))
      | Some _ \<Rightarrow> Inl ValueError)"

definition ctx_path :: "string \<Rightarrow> string list" where
  "ctx_path key = str_split ''.'' key"

text \<open>Assigning or appending a placeholder or a value.\<close>

definition insert_action :: "awaitable_action \<Rightarrow> 'v ctx_value \<Rightarrow> string \<Rightarrow> 'v ctx \<Rightarrow> 'v ctx res" where
  "insert_action action x key ctx =
     (case action of
        ASSIGN \<Rightarrow> Inr (AList.update key x ctx)
      | APPEND \<Rightarrow>
          (case map_of ctx key of
             None \<Rightarrow> Inr (AList.update key (CList [x]) ctx)
           | Some (CList xs) \<Rightarrow> Inr (AList.update key (CList (xs @ [x])) ctx)
           | Some _ \<Rightarrow> Inl AttributeError))"

fun replace_placeholder :: "int \<Rightarrow> 'v ctx_value \<Rightarrow> 'v ctx_value list \<Rightarrow> 'v ctx_value list res" where
  "replace_placeholder pk v [] = Inl AssertionError"
| "replace_placeholder pk v (x # xs) =
     (case x of
        CAwait placeholder \<Rightarrow>
          if aw_pk placeholder = pk then Inr (v # xs)
          else bind_res (replace_placeholder pk v xs) (\<lambda>xs. Inr (x # xs))
      | _ \<Rightarrow> bind_res (replace_placeholder pk v xs) (\<lambda>xs. Inr (x # xs)))"

definition resolve_action :: "awaitable \<Rightarrow> 'v ctx_value \<Rightarrow> string \<Rightarrow> 'v ctx \<Rightarrow> 'v ctx res" where
  "resolve_action a v key ctx =
     (case aw_action a of
        ASSIGN \<Rightarrow> Inr (AList.update key v ctx)
      | APPEND \<Rightarrow>
          (case map_of ctx key of
             None \<Rightarrow> Inl KeyError
           | Some (CList container) \<Rightarrow>
               bind_res (replace_placeholder (aw_pk a) v container) (\<lambda>container.
                 Inr (AList.update key (CList container) ctx))
           | Some (CDict d) \<Rightarrow> Inl AssertionError
           | Some _ \<Rightarrow> Inl TypeError))"

record 'v work_chain =
  wc_ctx :: "'v ctx"
  wc_awaitables :: "awaitable list"

definition insert_awaitable :: "awaitable \<Rightarrow> 'v work_chain \<Rightarrow> 'v work_chain res" where
  "insert_awaitable a w =
     bind_res (with_nested_context (ctx_path (aw_key a)) (insert_action (aw_action a) (CAwait a)) (wc_ctx w)) (\<lambda>ctx.
       Inr (w\<lparr>wc_ctx := ctx, wc_awaitables := wc_awaitables w @ [a]\<rparr>))"

definition resolve_awaitable :: "awaitable \<Rightarrow> 'v ctx_value \<Rightarrow> 'v work_chain \<Rightarrow> 'v work_chain res" where
  "resolve_awaitable a v w =
     bind_res (with_nested_context (ctx_path (aw_key a)) (resolve_action a v) (wc_ctx w)) (\<lambda>ctx.
     bind_res (guard (a \<in> set (wc_awaitables w)) ValueError) (\<lambda>_.
       Inr (w\<lparr>wc_ctx := ctx, wc_awaitables := remove1 a (wc_awaitables w)\<rparr>)))"

fun to_context :: "awaitable_target dict \<Rightarrow> 'v work_chain \<Rightarrow> 'v work_chain res" where
  "to_context [] w = Inr w"
| "to_context ((key, target) # kwargs) w =
     bind_res (construct_awaitable target) (\<lambda>a.
     bind_res (insert_awaitable (a\<lparr>aw_key := key\<rparr>) w) (\<lambda>w. to_context kwargs w))"

section \<open>Steps\<close>

datatype step_result =
    StepNone | StepInt int | StepExitCode exit_code | StepToContext "awaitable_target dict" | StepOther

datatype stepper_outcome = PropagateReturn "exit_code option" | Stepped bool step_result

datatype next_action = Return "exit_code option" | Wait | Continue

definition step_exit_code :: "step_result \<Rightarrow> exit_code option" where
  "step_exit_code r =
     (case r of
        StepInt i \<Rightarrow> if i > 0 then Some (ExitCode i None False) else None
      | StepExitCode exit_code \<Rightarrow> if status exit_code > 0 then Some exit_code else None
      | _ \<Rightarrow> None)"

definition do_step ::
  "('v work_chain \<Rightarrow> ('v work_chain \<times> stepper_outcome) res) \<Rightarrow> 'v work_chain
     \<Rightarrow> ('v work_chain \<times> next_action) res" where
  "do_step stepper w =
     bind_res (stepper (w\<lparr>wc_awaitables := []\<rparr>)) (\<lambda>(w, outcome).
       case outcome of
         PropagateReturn exit_code \<Rightarrow> Inr (w, Return exit_code)
       | Stepped finished r \<Rightarrow>
           if finished \<or> step_exit_code r \<noteq> None then Inr (w, Return (step_exit_code r))
           else
             bind_res (case r of StepToContext kwargs \<Rightarrow> to_context kwargs w | _ \<Rightarrow> Inr w) (\<lambda>w.
               Inr (w, if wc_awaitables w \<noteq> [] then Wait else Continue)))"

text \<open>\<open>_on_awaitable_finished\<close> of a waiting work chain; \<open>load\<close> gives the value of a child (the
  node, or its outputs by label) when the node exists.  The second component tells whether the work
  chain is resumed.\<close>

definition on_awaitable_finished ::
  "(int \<Rightarrow> bool \<Rightarrow> 'v option) \<Rightarrow> awaitable \<Rightarrow> 'v work_chain \<Rightarrow> ('v work_chain \<times> bool) res" where
  "on_awaitable_finished load a w =
     (case load (aw_pk a) (aw_outputs a) of
        None \<Rightarrow> Inl ValueError
      | Some v \<Rightarrow>
          bind_res (resolve_awaitable a (CVal v) w) (\<lambda>w. Inr (w, wc_awaitables w = [])))"

section \<open>Placeholders\<close>

text \<open>The placeholders of a value, and their replacement.\<close>

fun placeholders :: "'v ctx_value \<Rightarrow> awaitable list" where
  "placeholders (CDict d) = concat (map (\<lambda>(k, c). placeholders c) d)"
| "placeholders (CList cs) = concat (map placeholders cs)"
| "placeholders (CAwait a) = [a]"
| "placeholders (CVal v) = []"

fun subst :: "(awaitable \<Rightarrow> 'v ctx_value) \<Rightarrow> 'v ctx_value \<Rightarrow> 'v ctx_value" where
  "subst g (CDict d) = CDict (map (\<lambda>(k, c). (k, subst g c)) d)"
| "subst g (CList cs) = CList (map (subst g) cs)"
| "subst g (CAwait a) = g a"
| "subst g (CVal v) = CVal v"

definition subst_ctx :: "(awaitable \<Rightarrow> 'v ctx_value) \<Rightarrow> 'v ctx \<Rightarrow> 'v ctx" where
  "subst_ctx g ctx = map (\<lambda>(k, c). (k, subst g c)) ctx"

definition ctx_placeholders :: "'v ctx \<Rightarrow> awaitable list" where
  "ctx_placeholders ctx = concat (map (\<lambda>(k, c). placeholders c) ctx)"

fun wf_value :: "'v ctx_value \<Rightarrow> bool" where
  "wf_value (CDict d) \<longleftrightarrow> wf_dict d \<and> list_all (\<lambda>(k, c). wf_value c) d"
| "wf_value (CList cs) \<longleftrightarrow> list_all wf_value cs"
| "wf_value c \<longleftrightarrow> True"

definition wf_ctx :: "'v ctx \<Rightarrow> bool" where
  "wf_ctx ctx \<longleftrightarrow> wf_dict ctx \<and> list_all (\<lambda>(k, c). wf_value c) ctx"

text \<open>Whether the placeholder of an awaitable is where its key points.\<close>

fun placed :: "awaitable \<Rightarrow> string list \<Rightarrow> 'v ctx \<Rightarrow> bool" where
  "placed a [] ctx \<longleftrightarrow> False"
| "placed a [key] ctx \<longleftrightarrow>
     (case aw_action a of
        ASSIGN \<Rightarrow> (case map_of ctx key of Some (CAwait b) \<Rightarrow> b = a | _ \<Rightarrow> False)
      | APPEND \<Rightarrow>
          (case map_of ctx key of
             Some (CList cs) \<Rightarrow> list_ex (\<lambda>c. case c of CAwait b \<Rightarrow> b = a | _ \<Rightarrow> False) cs | _ \<Rightarrow> False))"
| "placed a (path # q # ps) ctx \<longleftrightarrow>
     (case map_of ctx path of Some (CDict sub) \<Rightarrow> placed a (q # ps) sub | _ \<Rightarrow> False)"

text \<open>Inserting a list of awaitables, and what it would be to insert their values at once.\<close>

fun insert_all :: "awaitable list \<Rightarrow> 'v work_chain \<Rightarrow> 'v work_chain res" where
  "insert_all [] w = Inr w"
| "insert_all (a # as) w = bind_res (insert_awaitable a w) (insert_all as)"

fun insert_values :: "(awaitable \<Rightarrow> 'v) \<Rightarrow> awaitable list \<Rightarrow> 'v ctx \<Rightarrow> 'v ctx res" where
  "insert_values val [] ctx = Inr ctx"
| "insert_values val (a # as) ctx =
     bind_res (with_nested_context (ctx_path (aw_key a)) (insert_action (aw_action a) (CVal (val a))) ctx)
       (insert_values val as)"

fun finish_all :: "(int \<Rightarrow> bool \<Rightarrow> 'v option) \<Rightarrow> awaitable list \<Rightarrow> 'v work_chain \<Rightarrow> ('v work_chain \<times> bool list) res" where
  "finish_all load [] w = Inr (w, [])"
| "finish_all load (a # as) w =
     bind_res (on_awaitable_finished load a w) (\<lambda>(w, resumed).
     bind_res (finish_all load as w) (\<lambda>(w, rs). Inr (w, resumed # rs)))"

section \<open>Substitution\<close>

lemma subst_eq: "(\<And>a. a \<in> set (placeholders c) \<Longrightarrow> g a = h a) \<Longrightarrow> subst g c = subst h c"
proof (induction g c rule: subst.induct)
  case (1 g d)
  have "subst g c = subst h c" if "(k, c) \<in> set d" for k c
    using 1(1) [OF that refl] 1(2) that by fastforce
  then show ?case by auto
next
  case (2 g cs)
  have "subst g c = subst h c" if "c \<in> set cs" for c
    using 2(1) [OF that] 2(2) that by fastforce
  then show ?case by auto
qed simp_all

lemma subst_CAwait [simp]: "subst CAwait c = c"
proof (induction "CAwait :: awaitable \<Rightarrow> 'a ctx_value" c rule: subst.induct)
  case (1 d)
  then show ?case by (auto intro: map_idI)
next
  case (2 cs)
  then show ?case by (auto intro: map_idI)
qed simp_all

lemma subst_id: "(\<And>a. a \<in> set (placeholders c) \<Longrightarrow> g a = CAwait a) \<Longrightarrow> subst g c = c"
  using subst_eq [of c g CAwait] by simp

lemma subst_ctx_eq:
  "(\<And>a. a \<in> set (ctx_placeholders ctx) \<Longrightarrow> g a = h a) \<Longrightarrow> subst_ctx g ctx = subst_ctx h ctx"
  using subst_eq [of "CDict ctx" g h] by (simp add: subst_ctx_def ctx_placeholders_def)

lemma subst_ctx_id: "(\<And>a. a \<in> set (ctx_placeholders ctx) \<Longrightarrow> g a = CAwait a) \<Longrightarrow> subst_ctx g ctx = ctx"
  using subst_id [of "CDict ctx" g] by (simp add: subst_ctx_def ctx_placeholders_def)

lemma map_of_subst_ctx [simp]: "map_of (subst_ctx g ctx) k = map_option (subst g) (map_of ctx k)"
  by (simp add: subst_ctx_def map_of_map_snd)

lemma subst_ctx_update: "subst_ctx g (AList.update k c ctx) = AList.update k (subst g c) (subst_ctx g ctx)"
  by (induction ctx) (auto simp: subst_ctx_def)

lemma subst_CDict [simp]: "subst g (CDict d) = CDict (subst_ctx g d)"
  by (simp add: subst_ctx_def)

declare subst.simps(1) [simp del]

lemma subst_ctx_Nil [simp]: "subst_ctx g [] = []"
  by (simp add: subst_ctx_def)

lemma subst_subst: "subst h (subst g c) = subst (\<lambda>a. subst h (g a)) c"
proof (induction g c rule: subst.induct)
  case (1 g d)
  then show ?case
    by (auto simp: subst_ctx_def)
qed simp_all

lemma subst_ctx_subst: "subst_ctx h (subst_ctx g ctx) = subst_ctx (\<lambda>a. subst h (g a)) ctx"
  by (auto simp: subst_ctx_def subst_subst)

text \<open>A substitution that gives values or keeps the placeholder.\<close>

definition scalar :: "(awaitable \<Rightarrow> 'v ctx_value) \<Rightarrow> bool" where
  "scalar g \<longleftrightarrow> (\<forall>a. (\<exists>v. g a = CVal v) \<or> (\<exists>b. g a = CAwait b))"

lemma scalar_cases: "scalar g \<Longrightarrow> (\<And>v. g a = CVal v \<Longrightarrow> P) \<Longrightarrow> (\<And>b. g a = CAwait b \<Longrightarrow> P) \<Longrightarrow> P"
  unfolding scalar_def by blast

lemma with_nested_subst:
  assumes "scalar g" "\<And>key d. f' key (subst_ctx g d) = map_sum id (subst_ctx g) (f key d)"
  shows "with_nested_context path f' (subst_ctx g ctx) = map_sum id (subst_ctx g) (with_nested_context path f ctx)"
  using assms(2)
proof (induction path f ctx rule: with_nested_context.induct)
  case (3 path q ps f ctx)
  show ?case
  proof (cases "map_of ctx path")
    case None
    then show ?thesis
      using 3(1) [OF None 3(3)]
      by (cases "with_nested_context (q # ps) f []") (simp_all add: subst_ctx_update)
  next
    case (Some c)
    show ?thesis
    proof (cases c)
      case (CDict sub)
      then show ?thesis
        using 3(2) [OF Some CDict 3(3)] Some
        by (cases "with_nested_context (q # ps) f sub") (simp_all add: subst_ctx_update)
    next
      case (CAwait a)
      then show ?thesis
        using Some by (auto intro: scalar_cases [OF assms(1), of a])
    qed (use Some in simp_all)
  qed
qed simp_all

lemma insert_action_subst:
  assumes "scalar g"
  shows "insert_action action (subst g x) key (subst_ctx g d) = map_sum id (subst_ctx g) (insert_action action x key d)"
proof (cases "map_of d key")
  case (Some c)
  then show ?thesis
  proof (cases c)
    case (CAwait a)
    then show ?thesis
      using Some
      by (auto simp: insert_action_def subst_ctx_update intro: scalar_cases [OF assms, of a] split: awaitable_action.split)
  qed (auto simp: insert_action_def subst_ctx_update split: awaitable_action.split)
qed (auto simp: insert_action_def subst_ctx_update split: awaitable_action.split)

lemma insert_all_values:
  assumes "insert_all as w = Inr w'"
  shows "insert_values val as (subst_ctx (\<lambda>a. CVal (val a)) (wc_ctx w)) =
      Inr (subst_ctx (\<lambda>a. CVal (val a)) (wc_ctx w')) \<and>
    wc_awaitables w' = wc_awaitables w @ as"
  using assms
proof (induction as w rule: insert_all.induct)
  case (2 a as w)
  let ?g = "\<lambda>a. CVal (val a)"
  have scalar: "scalar ?g" by (simp add: scalar_def)
  obtain ctx where ctx: "with_nested_context (ctx_path (aw_key a)) (insert_action (aw_action a) (CAwait a)) (wc_ctx w) = Inr ctx"
    "insert_all as (w\<lparr>wc_ctx := ctx, wc_awaitables := wc_awaitables w @ [a]\<rparr>) = Inr w'"
    using 2(2) by (auto simp: insert_awaitable_def bind_res_Inr_iff)
  have "with_nested_context (ctx_path (aw_key a)) (insert_action (aw_action a) (?g a)) (subst_ctx ?g (wc_ctx w)) =
    Inr (subst_ctx ?g ctx)"
    using with_nested_subst [OF scalar, of "insert_action (aw_action a) (?g a)" "insert_action (aw_action a) (CAwait a)"]
      insert_action_subst [OF scalar, of _ "CAwait a"] ctx(1) by simp
  then show ?case
    using 2(1) [of "w\<lparr>wc_ctx := ctx, wc_awaitables := wc_awaitables w @ [a]\<rparr>"] ctx
    by (simp add: insert_awaitable_def)
qed simp

section \<open>Resolving\<close>

definition the_one :: "awaitable \<Rightarrow> 'v ctx_value \<Rightarrow> awaitable \<Rightarrow> 'v ctx_value" where
  "the_one a v b = (if b = a then v else CAwait b)"

lemma the_one_same [simp]: "the_one a v a = v"
  by (simp add: the_one_def)

lemma placeholders_entry: "map_of ctx k = Some c \<Longrightarrow> set (placeholders c) \<subseteq> set (ctx_placeholders ctx)"
  by (auto simp: ctx_placeholders_def dest!: map_of_SomeD)

lemma update_as_subst:
  assumes "wf_dict ctx" "map_of ctx k = Some c" "distinct (ctx_placeholders ctx)" "a \<in> set (placeholders c)"
  shows "AList.update k (subst (the_one a v) c) ctx = subst_ctx (the_one a v) ctx"
  using assms
proof (induction ctx)
  case (Cons x ctx)
  obtain k' c' where x: "x = (k', c')" by (cases x)
  have ph: "ctx_placeholders (x # ctx) = placeholders c' @ ctx_placeholders ctx"
    by (simp add: ctx_placeholders_def x)
  show ?case
  proof (cases "k' = k")
    case True
    then have "c' = c" using Cons(3) x by simp
    then have "a \<notin> set (ctx_placeholders ctx)"
      using Cons(4,5) ph by auto
    then have "subst_ctx (the_one a v) ctx = ctx"
      by (intro subst_ctx_id) (auto simp: the_one_def)
    then show ?thesis
      using True x \<open>c' = c\<close> by (simp add: subst_ctx_def)
  next
    case False
    then have c: "map_of ctx k = Some c" using Cons(3) x by simp
    then have "a \<notin> set (placeholders c')"
      using Cons(4,5) ph placeholders_entry [OF c] by auto
    then have "subst (the_one a v) c' = c'"
      by (intro subst_id) (auto simp: the_one_def)
    then show ?thesis
      using Cons(1) [OF _ c] Cons(2-5) x False ph by (simp add: subst_ctx_def)
  qed
qed simp

lemma ex_placeholder: "list_ex (\<lambda>c. case c of CAwait b \<Rightarrow> b = a | _ \<Rightarrow> False) cs \<longleftrightarrow> CAwait a \<in> set cs"
  by (induction cs) (auto split: ctx_value.splits)

lemma placed_placeholder: "placed a path ctx \<Longrightarrow> a \<in> set (ctx_placeholders ctx)"
proof (induction a path ctx rule: placed.induct)
  case (2 a key ctx)
  then obtain c where "map_of ctx key = Some c" "a \<in> set (placeholders c)"
    by (cases "aw_action a")
       (fastforce simp: ex_placeholder split: option.splits ctx_value.splits)+
  then show ?case
    using placeholders_entry by blast
next
  case (3 a path q ps ctx)
  then obtain sub where "map_of ctx path = Some (CDict sub)" "placed a (q # ps) sub"
    by (auto split: option.splits ctx_value.splits)
  then show ?case
    using 3(1) placeholders_entry [of ctx path] by (fastforce simp: ctx_placeholders_def)
qed simp

lemma replace_placeholder_subst:
  assumes "CAwait a \<in> set cs" "distinct (map aw_pk (concat (map placeholders cs)))"
  shows "replace_placeholder (aw_pk a) v cs = Inr (map (subst (the_one a v)) cs)"
  using assms
proof (induction cs)
  case (Cons c cs)
  show ?case
  proof (cases "c = CAwait a")
    case True
    then have "a \<notin> set (concat (map placeholders cs))"
      using Cons(3) by auto
    then have "map (subst (the_one a v)) cs = cs"
      by (intro map_idI subst_id) (auto simp: the_one_def)
    then show ?thesis using True by simp
  next
    case False
    then have a: "CAwait a \<in> set cs" using Cons(2) by simp
    then have pk: "aw_pk a \<in> aw_pk ` set (concat (map placeholders cs))"
      by (force intro!: imageI)
    then have not: "\<forall>b \<in> set (placeholders c). aw_pk b \<noteq> aw_pk a"
      using Cons(3) pk by (simp add: disjoint_iff) (metis imageI)
    then have "subst (the_one a v) c = c"
      by (intro subst_id) (auto simp: the_one_def)
    then show ?thesis
      using Cons(1) [OF a] Cons(3) not by (cases c) auto
  qed
qed simp

lemma distinct_entry:
  assumes "distinct (map aw_pk (ctx_placeholders ctx))" "map_of ctx k = Some c"
  shows "distinct (map aw_pk (placeholders c))"
  using assms by (induction ctx) (auto simp: ctx_placeholders_def split: if_splits)

lemma wf_entry: "wf_ctx ctx \<Longrightarrow> map_of ctx k = Some c \<Longrightarrow> wf_value c"
  by (auto simp: wf_ctx_def list_all_iff dest!: map_of_SomeD)

lemma resolve_subst:
  assumes "placed a path ctx" "wf_ctx ctx" "distinct (map aw_pk (ctx_placeholders ctx))"
  shows "with_nested_context path (resolve_action a v) ctx = Inr (subst_ctx (the_one a v) ctx)"
  using assms
proof (induction a path ctx rule: placed.induct)
  case (2 a key ctx)
  have wf: "wf_dict ctx" "distinct (ctx_placeholders ctx)"
    using 2(2,3) by (simp_all add: wf_ctx_def distinct_map)
  show ?case
  proof (cases "aw_action a")
    case ASSIGN
    then have m: "map_of ctx key = Some (CAwait a)"
      using 2(1) by (auto split: option.splits ctx_value.splits)
    then show ?thesis
      using ASSIGN update_as_subst [OF wf(1) m wf(2), of a v]
      by (simp add: resolve_action_def)
  next
    case APPEND
    then obtain cs where m: "map_of ctx key = Some (CList cs)" and a: "CAwait a \<in> set cs"
      using 2(1) by (fastforce simp: ex_placeholder split: option.splits ctx_value.splits)
    then show ?thesis
      using APPEND update_as_subst [OF wf(1) m wf(2), of a v] replace_placeholder_subst [OF a, of v]
        distinct_entry [OF 2(3) m]
      by (force simp: resolve_action_def)
  qed
next
  case (3 a path q ps ctx)
  then obtain sub where m: "map_of ctx path = Some (CDict sub)" and p: "placed a (q # ps) sub"
    by (auto split: option.splits ctx_value.splits)
  have "with_nested_context (q # ps) (resolve_action a v) sub = Inr (subst_ctx (the_one a v) sub)"
    using 3(1) [OF m refl p] wf_entry [OF 3(3) m] distinct_entry [OF 3(4) m]
    by (simp add: wf_ctx_def ctx_placeholders_def)
  moreover have "a \<in> set (placeholders (CDict sub))"
    using placed_placeholder [OF p] by (simp add: ctx_placeholders_def)
  ultimately show ?case
    using m update_as_subst [OF _ m, of a v] 3(3,4)
    by (simp add: wf_ctx_def distinct_map)
qed simp

lemma placed_subst:
  assumes "placed b path ctx" "b \<noteq> a"
  shows "placed b path (subst_ctx (the_one a v) ctx)"
  using assms
proof (induction b path ctx rule: placed.induct)
  case (2 b key ctx)
  have b: "subst (the_one a v) (CAwait b) = CAwait b"
    using 2(2) by (simp add: the_one_def)
  show ?case
  proof (cases "aw_action b")
    case ASSIGN
    then show ?thesis
      using 2(1) b by (auto split: option.splits ctx_value.splits)
  next
    case APPEND
    then obtain cs where "map_of ctx key = Some (CList cs)" "CAwait b \<in> set cs"
      using 2(1) by (fastforce simp: ex_placeholder split: option.splits ctx_value.splits)
    then show ?thesis
      using APPEND b by (force simp: ex_placeholder image_iff)
  qed
qed (auto split: option.splits ctx_value.splits)

lemma wf_value_subst: "wf_value c \<Longrightarrow> wf_value (subst (the_one a (CVal v)) c)"
proof (induction "the_one a (CVal v :: 'a ctx_value)" c rule: subst.induct)
  case (1 d)
  then show ?case
    by (fastforce simp: subst_ctx_def wf_dict_def list_all_iff comp_def case_prod_beta)
qed (auto simp: list_all_iff the_one_def)

lemma wf_ctx_subst: "wf_ctx ctx \<Longrightarrow> wf_ctx (subst_ctx (the_one a (CVal v)) ctx)"
  using wf_value_subst [of "CDict ctx" a v] by (simp add: wf_ctx_def)

lemma placeholders_subst:
  "placeholders (subst (the_one a (CVal v)) c) = filter (\<lambda>b. b \<noteq> a) (placeholders c)"
proof (induction "the_one a (CVal v :: 'a ctx_value)" c rule: subst.induct)
  case (1 d)
  then have "placeholders (subst (the_one a (CVal v)) (snd x)) = filter (\<lambda>b. b \<noteq> a) (placeholders (snd x))"
    if "x \<in> set d" for x
    using that by (metis prod.collapse)
  then show ?case
    by (simp add: subst_ctx_def filter_concat comp_def case_prod_beta cong: map_cong)
next
  case (2 cs)
  then show ?case
    by (simp add: filter_concat comp_def cong: map_cong)
qed (simp_all add: the_one_def)

lemma ctx_placeholders_subst:
  "ctx_placeholders (subst_ctx (the_one a (CVal v)) ctx) = filter (\<lambda>b. b \<noteq> a) (ctx_placeholders ctx)"
  using placeholders_subst [of a v "CDict ctx"] by (simp add: ctx_placeholders_def)

text \<open>The substitution of all placeholders of a set.\<close>

definition the_ones :: "awaitable set \<Rightarrow> (awaitable \<Rightarrow> 'v) \<Rightarrow> awaitable \<Rightarrow> 'v ctx_value" where
  "the_ones S val b = (if b \<in> S then CVal (val b) else CAwait b)"

lemma the_ones_insert: "subst (the_ones S val) (the_one a (CVal (val a)) b) = the_ones (insert a S) val b"
  by (simp add: the_ones_def the_one_def)

lemma finish_all_subst:
  assumes "distinct order" "set order = set (wc_awaitables w)" "distinct (wc_awaitables w)"
    "\<And>a. a \<in> set order \<Longrightarrow> placed a (ctx_path (aw_key a)) (wc_ctx w)"
    "\<And>a. a \<in> set order \<Longrightarrow> load (aw_pk a) (aw_outputs a) = Some (val a)"
    "wf_ctx (wc_ctx w)" "distinct (map aw_pk (ctx_placeholders (wc_ctx w)))"
  shows "finish_all load order w =
    Inr (w\<lparr>wc_ctx := subst_ctx (the_ones (set order) val) (wc_ctx w), wc_awaitables := []\<rparr>,
         replicate (length order - 1) False @ (if order = [] then [] else [True]))"
  using assms
proof (induction order arbitrary: w)
  case Nil
  then show ?case
    by (simp add: subst_ctx_id the_ones_def)
next
  case (Cons a order)
  let ?w = "w\<lparr>wc_ctx := subst_ctx (the_one a (CVal (val a))) (wc_ctx w),
              wc_awaitables := remove1 a (wc_awaitables w)\<rparr>"
  have a: "a \<in> set (wc_awaitables w)"
    using Cons(3) by auto
  have step: "on_awaitable_finished load a w = Inr (?w, remove1 a (wc_awaitables w) = [])"
    using resolve_subst [OF Cons(5) Cons(7,8), of a "CVal (val a)"] a Cons(6) [OF list.set_intros(1)]
    by (auto simp add: on_awaitable_finished_def resolve_awaitable_def)
  have rest: "set (remove1 a (wc_awaitables w)) = set order"
    using Cons(2,3,4) by auto
  have "finish_all load order ?w =
    Inr (?w\<lparr>wc_ctx := subst_ctx (the_ones (set order) val) (wc_ctx ?w), wc_awaitables := []\<rparr>,
         replicate (length order - 1) False @ (if order = [] then [] else [True]))"
  proof (rule Cons(1))
    show "placed b (ctx_path (aw_key b)) (wc_ctx ?w)" if "b \<in> set order" for b
      using Cons(2,5) that by (auto intro: placed_subst)
  qed (use Cons rest in \<open>auto simp: wf_ctx_subst ctx_placeholders_subst distinct_map_filter\<close>)
  moreover have "remove1 a (wc_awaitables w) = [] \<longleftrightarrow> order = []"
    using rest by (metis set_empty)
  ultimately show ?case
    using step by (cases order) (simp_all add: subst_ctx_subst the_ones_insert)
qed

section \<open>Inserting\<close>

lemma distinct_mset_le: "mset ys \<subseteq># mset xs \<Longrightarrow> distinct xs \<Longrightarrow> distinct ys"
  by (metis distinct_append mset_append mset_eq_imp_distinct_iff mset_subset_eq_exists_conv ex_mset)

lemma mset_update:
  assumes "wf_dict ctx"
  shows "mset (ctx_placeholders (AList.update k c ctx)) + mset (case map_of ctx k of None \<Rightarrow> [] | Some c \<Rightarrow> placeholders c) =
    mset (ctx_placeholders ctx) + mset (placeholders c)"
  using assms by (induction ctx) (auto simp: ctx_placeholders_def)

lemma mset_update_le:
  assumes "wf_dict ctx" "mset (placeholders c) \<subseteq># mset (case map_of ctx k of None \<Rightarrow> [] | Some c \<Rightarrow> placeholders c) + {#a#}"
  shows "mset (ctx_placeholders (AList.update k c ctx)) \<subseteq># mset (ctx_placeholders ctx) + {#a#}"
proof -
  let ?old = "mset (case map_of ctx k of None \<Rightarrow> [] | Some c \<Rightarrow> placeholders c)"
  have "mset (ctx_placeholders (AList.update k c ctx)) + ?old \<subseteq># mset (ctx_placeholders ctx) + (?old + {#a#})"
    using mset_update [OF assms(1), of k c] assms(2) by (metis subset_mset.add_left_mono)
  then show ?thesis
    by (metis add.assoc add.commute subset_mset.add_le_cancel_right)
qed

lemma wf_ctx_update: "wf_ctx ctx \<Longrightarrow> wf_value c \<Longrightarrow> wf_ctx (AList.update k c ctx)"
  by (auto simp: wf_ctx_def list_all_iff set_update_wf)

lemma insert_action_keeps:
  assumes "insert_action action (CAwait a) key ctx = Inr ctx'" "wf_ctx ctx"
  shows "wf_ctx ctx' \<and> mset (ctx_placeholders ctx') \<subseteq># mset (ctx_placeholders ctx) + {#a#}"
proof (cases action)
  case ASSIGN
  then show ?thesis
    using assms mset_update_le [of ctx "CAwait a" key a] wf_ctx_update [of ctx "CAwait a" key]
    by (auto simp: insert_action_def wf_ctx_def)
next
  case APPEND
  then obtain cs where "ctx' = AList.update key (CList (cs @ [CAwait a])) ctx"
    "map_of ctx key = None \<and> cs = [] \<or> map_of ctx key = Some (CList cs)"
    using assms(1) by (auto simp: insert_action_def split: option.splits ctx_value.splits)
  moreover have "wf_value (CList cs)"
    using calculation(2) wf_entry [OF assms(2), of key] by auto
  ultimately show ?thesis
    using assms(2) mset_update_le [of ctx "CList (cs @ [CAwait a])" key a]
      wf_ctx_update [of ctx "CList (cs @ [CAwait a])" key]
    by (auto simp: wf_ctx_def)
qed

lemma with_nested_keeps:
  assumes "with_nested_context path (insert_action action (CAwait a)) ctx = Inr ctx'" "wf_ctx ctx"
  shows "wf_ctx ctx' \<and> mset (ctx_placeholders ctx') \<subseteq># mset (ctx_placeholders ctx) + {#a#}"
  using assms
proof (induction path "insert_action action (CAwait a :: 'a ctx_value)" ctx arbitrary: ctx' rule: with_nested_context.induct)
  case (2 key ctx)
  then show ?case by (auto dest: insert_action_keeps)
next
  case (3 path q ps ctx)
  define sub where "sub = (case map_of ctx path of Some (CDict sub) \<Rightarrow> sub | _ \<Rightarrow> [])"
  have wf: "wf_ctx sub"
    using wf_entry [OF 3(4), of path] by (auto simp: sub_def wf_ctx_def split: option.splits ctx_value.splits)
  obtain sub' where sub': "with_nested_context (q # ps) (insert_action action (CAwait a)) sub = Inr sub'"
    "ctx' = AList.update path (CDict sub') ctx"
    "mset (case map_of ctx path of None \<Rightarrow> [] | Some c \<Rightarrow> placeholders c) = mset (ctx_placeholders sub)"
    using 3(3) by (auto simp: sub_def bind_res_Inr_iff ctx_placeholders_def split: option.splits ctx_value.splits)
  have "wf_ctx sub' \<and> mset (ctx_placeholders sub') \<subseteq># mset (ctx_placeholders sub) + {#a#}"
  proof (cases "map_of ctx path")
    case None
    then show ?thesis
      using 3(1) [OF None] sub'(1) wf by (simp add: sub_def)
  next
    case (Some c)
    then obtain d where "c = CDict d"
      using 3(3) by (auto split: ctx_value.splits)
    then show ?thesis
      using 3(2) [OF Some] Some sub'(1) wf by (simp add: sub_def)
  qed
  then show ?case
    using sub' 3(4) mset_update_le [of ctx "CDict sub'" path a] wf_ctx_update [of ctx "CDict sub'" path]
    by (simp add: wf_ctx_def ctx_placeholders_def)
qed simp

lemma insert_all_keeps:
  assumes "insert_all as w = Inr w'" "wf_ctx (wc_ctx w)"
  shows "wf_ctx (wc_ctx w') \<and> mset (ctx_placeholders (wc_ctx w')) \<subseteq># mset (ctx_placeholders (wc_ctx w)) + mset as"
  using assms
proof (induction as w rule: insert_all.induct)
  case (2 a as w)
  then obtain ctx where ctx: "with_nested_context (ctx_path (aw_key a)) (insert_action (aw_action a) (CAwait a)) (wc_ctx w) = Inr ctx"
    "insert_awaitable a w = Inr (w\<lparr>wc_ctx := ctx, wc_awaitables := wc_awaitables w @ [a]\<rparr>)"
    "insert_all as (w\<lparr>wc_ctx := ctx, wc_awaitables := wc_awaitables w @ [a]\<rparr>) = Inr w'"
    by (auto simp: insert_awaitable_def bind_res_Inr_iff)
  have "mset (ctx_placeholders (wc_ctx w')) \<subseteq># mset (ctx_placeholders ctx) + mset as"
    using 2(1) [OF ctx(3)] with_nested_keeps [OF ctx(1) 2(3)] by simp
  also have "\<dots> \<subseteq># mset (ctx_placeholders (wc_ctx w)) + mset (a # as)"
    using with_nested_keeps [OF ctx(1) 2(3)] subset_mset.add_right_mono by fastforce
  finally show ?case
    using 2(1) [OF ctx(3)] with_nested_keeps [OF ctx(1) 2(3)] by simp
qed simp

section \<open>Properties\<close>

text \<open>C19: The context does not depend on the order in which child processes terminate.  When a step has
  added awaitables for distinct processes, each still in its place, then in whatever order the
  processes terminate, the context ends as if the results had been assigned and appended in the order of
  the step; the work chain is resumed by the last one and by no earlier one.\<close>

theorem awaitables_any_order:
  assumes "insert_all as w = Inr w'" "wc_awaitables w = []" "as \<noteq> []"
    and "wf_ctx (wc_ctx w)" "ctx_placeholders (wc_ctx w) = []"
    and "distinct (map aw_pk as)" "list_all (\<lambda>a. placed a (ctx_path (aw_key a)) (wc_ctx w')) as"
    and "\<And>a. a \<in> set as \<Longrightarrow> load (aw_pk a) (aw_outputs a) = Some (val a)"
    and "mset order = mset as"
  shows "\<exists>ctx. insert_values val as (wc_ctx w) = Inr ctx \<and>
    finish_all load order w' =
      Inr (w'\<lparr>wc_ctx := ctx, wc_awaitables := []\<rparr>, replicate (length as - 1) False @ [True])"
proof -
  have aws: "wc_awaitables w' = as" "insert_values val as (wc_ctx w) = Inr (subst_ctx (\<lambda>a. CVal (val a)) (wc_ctx w'))"
    using insert_all_values [OF assms(1), of val] subst_ctx_id [of "wc_ctx w"] assms(2,5) by simp_all
  have keeps: "wf_ctx (wc_ctx w')" "mset (ctx_placeholders (wc_ctx w')) \<subseteq># mset as"
    using insert_all_keeps [OF assms(1,4)] assms(5) by simp_all
  have d: "distinct as" "distinct order" "set order = set as" "length order = length as"
    using assms(6) mset_eq_setD [OF assms(9)] mset_eq_length [OF assms(9)] mset_eq_imp_distinct_iff [OF assms(9)]
    by (auto simp: distinct_map)
  have pks: "distinct (map aw_pk (ctx_placeholders (wc_ctx w')))"
    using assms(6) image_mset_subseteq_mono [OF keeps(2), of aw_pk]
    by (intro distinct_mset_le [OF _ assms(6)]) simp
  have "subst_ctx (the_ones (set as) val) (wc_ctx w') = subst_ctx (\<lambda>a. CVal (val a)) (wc_ctx w')"
    using set_mset_mono [OF keeps(2)] by (intro subst_ctx_eq) (auto simp: the_ones_def)
  then show ?thesis
    using finish_all_subst [of order w' load val] d aws keeps pks assms(3,7,8)
    by (auto simp: list_all_iff)
qed

definition example_awaitables :: "awaitable list" where
  "example_awaitables =
     [\<lparr>aw_pk = 11, aw_action = APPEND, aw_outputs = False, aw_key = ''children''\<rparr>,
      \<lparr>aw_pk = 12, aw_action = ASSIGN, aw_outputs = False, aw_key = ''a.b''\<rparr>,
      \<lparr>aw_pk = 13, aw_action = APPEND, aw_outputs = False, aw_key = ''children''\<rparr>]"

definition example_work_chain :: "int work_chain" where
  "example_work_chain =
     \<lparr>wc_ctx =
        [(''children'', CList [CAwait (example_awaitables ! 0), CAwait (example_awaitables ! 2)]),
         (''a'', CDict [(''b'', CAwait (example_awaitables ! 1))])],
      wc_awaitables = example_awaitables\<rparr>"

lemma example_paths: "ctx_path ''children'' = [''children'']" "ctx_path ''a.b'' = [''a'', ''b'']"
  by code_simp+

lemma example_inserted:
  "insert_all example_awaitables \<lparr>wc_ctx = [], wc_awaitables = []\<rparr> = Inr example_work_chain"
  by (simp add: example_awaitables_def example_work_chain_def insert_awaitable_def insert_action_def example_paths)

theorem awaitables_any_order_witness:
  "finish_all (\<lambda>pk outputs. Some pk) (rev example_awaitables) example_work_chain =
     Inr (\<lparr>wc_ctx = [(''children'', CList [CVal 11, CVal 13]), (''a'', CDict [(''b'', CVal 12)])],
          wc_awaitables = []\<rparr>, [False, False, True])"
proof -
  have placed: "list_all (\<lambda>a. placed a (ctx_path (aw_key a)) (wc_ctx example_work_chain)) example_awaitables"
    by (simp add: example_awaitables_def example_work_chain_def example_paths)
  have "insert_values aw_pk example_awaitables [] =
    Inr [(''children'', CList [CVal 11, CVal 13]), (''a'', CDict [(''b'', CVal 12)])]"
    by (simp add: example_awaitables_def insert_action_def example_paths)
  moreover note awaitables_any_order [OF example_inserted _ _ _ _ _ placed, of "\<lambda>pk outputs. Some pk" aw_pk
      "rev example_awaitables"]
  ultimately show ?thesis
    by (simp add: wf_ctx_def ctx_placeholders_def example_awaitables_def example_work_chain_def)
qed

end
