(* ===== verification/Aiida_Restart.thy ===== *)
theory Aiida_Restart
  imports Aiida_Work_Chain "HOL-Library.List_Lexorder" "HOL-Library.Char_ord"
begin

text \<open>
  \<open>BaseRestartWorkChain\<close> (\<open>engine/processes/workchains/restart.py\<close>) with the process handlers of
  \<open>engine/processes/workchains/utils.py\<close>.

  The body of a process handler is code of the sub class and a field of the handler.  How a launched
  process ends is a parameter \<open>run\<close>: from the inputs and the iteration to its terminated node, or
  to the exception that submitting raises; the wait in between is the subject of
  \<open>Aiida_Work_Chain\<close>.  The outline is the one the documentation of the class gives: the loop of
  \<open>run_process\<close> and \<open>inspect_process\<close>, then \<open>results\<close>, each result taken as
  \<open>_do_step\<close> takes it.  Report messages are left out.
\<close>

section \<open>Inputs\<close>

datatype input_value =
    InDict "(string \<times> input_value) list"
  | InDictNode "(string \<times> input_value) list"
  | InStr string
  | InOther nat

type_synonym inputs = "(string \<times> input_value) list"

datatype input_port = Port bool | Namespace "(string \<times> input_port) list"

text \<open>\<open>Port b\<close>: whether \<open>orm.Dict\<close> is among the valid types.\<close>

fun wrap_bare_dict_inputs :: "(string \<times> input_port) list \<Rightarrow> inputs \<Rightarrow> inputs res"
  and wrap_value :: "input_port \<Rightarrow> input_value \<Rightarrow> input_value res" where
  "wrap_bare_dict_inputs port_namespace [] = Inr []"
| "wrap_bare_dict_inputs port_namespace ((key, v) # inputs) =
     bind_res (case map_of port_namespace key of None \<Rightarrow> Inr v | Some port \<Rightarrow> wrap_value port v) (\<lambda>w.
     bind_res (wrap_bare_dict_inputs port_namespace inputs) (\<lambda>wrapped. Inr ((key, w) # wrapped)))"
| "wrap_value (Namespace ns) (InDict d) = bind_res (wrap_bare_dict_inputs ns d) (\<lambda>d. Inr (InDict d))"
| "wrap_value (Namespace ns) (InDictNode d) = bind_res (wrap_bare_dict_inputs ns d) (\<lambda>d. Inr (InDict d))"
| "wrap_value (Namespace ns) v = Inl AttributeError"
| "wrap_value (Port True) (InDict d) = Inr (InDictNode d)"
| "wrap_value (Port b) v = Inr v"

section \<open>Handlers\<close>

record process_handler_report =
  do_break :: bool
  report_exit_code :: exit_code

definition ProcessHandlerReport :: process_handler_report where
  "ProcessHandlerReport = \<lparr>do_break = False, report_exit_code = ExitCode 0 None False\<rparr>"

datatype handler_result = NoReport | Report process_handler_report | NotAReport

datatype considered_result = ConsideredNone | ConsideredReport bool int | ConsideredOther

datatype override_value = OvNone | OvBool bool | OvInt int

datatype handler_override = OverrideBool bool | OverrideDict "override_value dict" | OverrideOther

record restart_state =
  ctx_inputs :: "inputs option"
  ctx_handler_overrides :: "handler_override dict"
  ctx_unhandled_failure :: bool
  ctx_is_finished :: bool
  ctx_iteration :: int
  ctx_children :: "pnode list option"
  considered_handlers :: "(string \<times> considered_result) list list"
  wc_outputs :: "nat dict"

record handler =
  handler_name :: string
  handler_priority :: int
  handler_enabled :: bool
  handler_exit_codes :: "exit_code list option"
  handler_body :: "restart_state \<Rightarrow> pnode \<Rightarrow> (restart_state \<times> handler_result) res"

datatype decorator_arg = ArgNone | ArgInt int | ArgBool bool | ArgExitCode exit_code | ArgList "decorator_arg list" | ArgOther

record wrapped_function =
  wf_is_function :: bool
  wf_name :: string
  wf_n_args :: nat
  wf_body :: "restart_state \<Rightarrow> pnode \<Rightarrow> (restart_state \<times> handler_result) res"

fun the_exit_codes :: "decorator_arg list \<Rightarrow> exit_code list res" where
  "the_exit_codes [] = Inr []"
| "the_exit_codes (ArgExitCode c # args) = bind_res (the_exit_codes args) (\<lambda>cs. Inr (c # cs))"
| "the_exit_codes (_ # args) = Inl TypeError"

text \<open>\<open>isinstance(priority, int)\<close> holds of a boolean too.\<close>

definition process_handler :: "wrapped_function \<Rightarrow> decorator_arg \<Rightarrow> decorator_arg \<Rightarrow> decorator_arg \<Rightarrow> handler res" where
  "process_handler wrapped priority exit_codes enabled =
     bind_res (guard (wf_is_function wrapped) TypeError) (\<lambda>_.
     bind_res (case priority of ArgInt i \<Rightarrow> Inr i | ArgBool b \<Rightarrow> Inr (of_bool b) | _ \<Rightarrow> Inl TypeError) (\<lambda>prio.
     bind_res (case exit_codes of
         ArgNone \<Rightarrow> Inr None
       | ArgList args \<Rightarrow> bind_res (the_exit_codes args) (\<lambda>cs. Inr (Some cs))
       | arg \<Rightarrow> bind_res (the_exit_codes [arg]) (\<lambda>cs. Inr (Some cs))) (\<lambda>codes.
     bind_res (case enabled of ArgBool b \<Rightarrow> Inr b | _ \<Rightarrow> Inl TypeError) (\<lambda>enabled.
     bind_res (guard (wf_n_args wrapped = 2) TypeError) (\<lambda>_.
       Inr \<lparr>handler_name = wf_name wrapped, handler_priority = prio, handler_enabled = enabled,
            handler_exit_codes = codes, handler_body = wf_body wrapped\<rparr>)))))"

definition exit_status_int :: "pnode \<Rightarrow> int option" where
  "exit_status_int node = (case exit_status node of VInt i \<Rightarrow> Some i | VBool b \<Rightarrow> Some (of_bool b) | _ \<Rightarrow> None)"

definition handler_applies :: "handler \<Rightarrow> pnode \<Rightarrow> bool" where
  "handler_applies h node =
     (case handler_exit_codes h of
        None \<Rightarrow> True
      | Some codes \<Rightarrow> exit_status_int node \<in> set (map (\<lambda>c. Some (status c)) codes))"

fun serialize_result :: "handler_result \<Rightarrow> considered_result" where
  "serialize_result NoReport = ConsideredNone"
| "serialize_result (Report r) = ConsideredReport (do_break r) (status (report_exit_code r))"
| "serialize_result NotAReport = ConsideredOther"

definition add_considered :: "string \<Rightarrow> handler_result \<Rightarrow> restart_state \<Rightarrow> restart_state" where
  "add_considered name result st =
     (if considered_handlers st = [] then st
      else st\<lparr>considered_handlers := butlast (considered_handlers st) @
             [last (considered_handlers st) @ [(name, serialize_result result)]]\<rparr>)"

text \<open>The wrapper that the decorator puts around the method.\<close>

definition call_handler :: "handler \<Rightarrow> restart_state \<Rightarrow> pnode \<Rightarrow> (restart_state \<times> handler_result) res" where
  "call_handler h st node =
     bind_res (if handler_applies h node then handler_body h st node else Inr (st, NoReport)) (\<lambda>(st, result).
       Inr (add_considered (handler_name h) result st, result))"

datatype class_member = HandlerMember handler | OtherMember

type_synonym restart_class = "class_member dict"

definition is_process_handler :: "restart_class \<Rightarrow> string \<Rightarrow> bool" where
  "is_process_handler cls name = (case map_of cls name of Some (HandlerMember h) \<Rightarrow> True | _ \<Rightarrow> False)"

text \<open>\<open>inspect.getmembers\<close> lists the members by name.\<close>

definition get_process_handlers :: "restart_class \<Rightarrow> handler list" where
  "get_process_handlers cls =
     concat (map (\<lambda>(name, m). case m of HandlerMember h \<Rightarrow> [h] | OtherMember \<Rightarrow> []) (sort_key fst cls))"

datatype override_error = NotAHandler string | NotBoolOrDict string | UnsupportedKey string string

fun validate_handler_overrides :: "restart_class \<Rightarrow> handler_override dict \<Rightarrow> override_error option" where
  "validate_handler_overrides cls [] = None"
| "validate_handler_overrides cls ((name, overrides) # rest) =
     (if \<not> is_process_handler cls name then Some (NotAHandler name)
      else
        case overrides of
          OverrideOther \<Rightarrow> Some (NotBoolOrDict name)
        | OverrideBool b \<Rightarrow> validate_handler_overrides cls rest
        | OverrideDict d \<Rightarrow>
            (case find (\<lambda>key. key \<notin> {''enabled'', ''priority''}) (map fst d) of
               Some key \<Rightarrow> Some (UnsupportedKey name key)
             | None \<Rightarrow> validate_handler_overrides cls rest))"

fun override_priority :: "override_value option \<Rightarrow> int \<Rightarrow> int" where
  "override_priority (Some (OvInt i)) dflt = (if i \<noteq> 0 then i else dflt)"
| "override_priority (Some (OvBool True)) dflt = 1"
| "override_priority _ dflt = dflt"

text \<open>\<open>enabled\<close> and \<open>priority\<close> of an override; a value that is neither a boolean nor a dictionary
  has no \<open>get\<close>.\<close>

fun override_fields :: "handler_override option \<Rightarrow> (override_value option \<times> override_value option) res" where
  "override_fields None = Inr (None, None)"
| "override_fields (Some (OverrideBool b)) = Inr (Some (OvBool b), None)"
| "override_fields (Some (OverrideDict d)) = Inr (map_of d ''enabled'', map_of d ''priority'')"
| "override_fields (Some OverrideOther) = Inl AttributeError"

fun handlers_by_priority :: "handler_override dict \<Rightarrow> handler list \<Rightarrow> (int \<times> handler) list res" where
  "handlers_by_priority ovs [] = Inr []"
| "handlers_by_priority ovs (h # hs) =
     bind_res (override_fields (map_of ovs (handler_name h))) (\<lambda>(enabled, priority).
     bind_res (handlers_by_priority ovs hs) (\<lambda>handlers.
       if enabled = Some (OvBool False) \<or> enabled \<in> {None, Some OvNone} \<and> \<not> handler_enabled h
       then Inr handlers
       else Inr ((override_priority priority (handler_priority h), h) # handlers)))"

definition get_process_handlers_by_priority :: "restart_class \<Rightarrow> restart_state \<Rightarrow> (int \<times> handler) list res" where
  "get_process_handlers_by_priority cls st =
     handlers_by_priority (ctx_handler_overrides st) (get_process_handlers cls)"

section \<open>The steps of the outline\<close>

definition setup_restart :: "handler_override dict option \<Rightarrow> restart_state \<Rightarrow> restart_state" where
  "setup_restart overrides st =
     st\<lparr>ctx_handler_overrides := (case overrides of None \<Rightarrow> [] | Some d \<Rightarrow> d),
        ctx_unhandled_failure := False, ctx_is_finished := False, ctx_iteration := 0\<rparr>"

definition should_run_process :: "int \<Rightarrow> restart_state \<Rightarrow> bool" where
  "should_run_process max_iterations st \<longleftrightarrow> \<not> ctx_is_finished st \<and> ctx_iteration st < max_iterations"

fun digits :: "nat \<Rightarrow> string" where
  "digits n = (if n < 10 then [char_of (48 + n)] else digits (n div 10) @ [char_of (48 + n mod 10)])"

definition call_link_label :: "int \<Rightarrow> string" where
  "call_link_label i = ''iteration_'' @ (let ds = digits (nat i) in replicate (2 - length ds) CHR ''0'' @ ds)"

definition set_call_link_label :: "string \<Rightarrow> inputs \<Rightarrow> inputs res" where
  "set_call_link_label label inputs =
     (case map_of inputs ''metadata'' of
        None \<Rightarrow> Inr (AList.update ''metadata'' (InDict [(''call_link_label'', InStr label)]) inputs)
      | Some (InDict d) \<Rightarrow> Inr (AList.update ''metadata'' (InDict (AList.update ''call_link_label'' (InStr label) d)) inputs)
      | Some (InDictNode d) \<Rightarrow> Inr (AList.update ''metadata'' (InDictNode (AList.update ''call_link_label'' (InStr label) d)) inputs)
      | Some _ \<Rightarrow> Inl TypeError)"

definition run_process ::
  "(string \<times> input_port) list \<Rightarrow> (inputs \<Rightarrow> int \<Rightarrow> pnode res) \<Rightarrow> restart_state \<Rightarrow> restart_state res" where
  "run_process spec_inputs run st =
     (let st = st\<lparr>ctx_iteration := ctx_iteration st + 1\<rparr> in
      case ctx_inputs st of
        None \<Rightarrow> Inl AttributeError
      | Some unwrapped_inputs \<Rightarrow>
          bind_res (set_call_link_label (call_link_label (ctx_iteration st)) unwrapped_inputs) (\<lambda>unwrapped_inputs.
          bind_res (wrap_bare_dict_inputs spec_inputs unwrapped_inputs) (\<lambda>inputs.
          bind_res (run inputs (ctx_iteration st)) (\<lambda>node.
            Inr (st\<lparr>ctx_inputs := Some unwrapped_inputs,
                    considered_handlers := considered_handlers st @ [[]],
                    ctx_children := Some ((case ctx_children st of None \<Rightarrow> [] | Some cs \<Rightarrow> cs) @ [node])\<rparr>)))))"

text \<open>\<open>xs[i]\<close> with the negative indices of Python.\<close>

definition py_index :: "'a list \<Rightarrow> int \<Rightarrow> 'a res" where
  "py_index xs i =
     (let j = (if i < 0 then i + int (length xs) else i) in
      if 0 \<le> j \<and> j < int (length xs) then Inr (xs ! nat j) else Inl IndexError)"

definition last_child :: "restart_state \<Rightarrow> pnode res" where
  "last_child st =
     (case ctx_children st of
        None \<Rightarrow> Inl AttributeError
      | Some children \<Rightarrow> py_index children (ctx_iteration st - 1))"

fun call_handlers ::
  "handler list \<Rightarrow> pnode \<Rightarrow> restart_state \<Rightarrow> process_handler_report option
     \<Rightarrow> (restart_state \<times> process_handler_report option) res" where
  "call_handlers [] node st last_report = Inr (st, last_report)"
| "call_handlers (h # hs) node st last_report =
     bind_res (call_handler h st node) (\<lambda>(st, report).
       case report of
         NotAReport \<Rightarrow> Inl RuntimeError
       | NoReport \<Rightarrow> call_handlers hs node st last_report
       | Report r \<Rightarrow> if do_break r then Inr (st, Some r) else call_handlers hs node st (Some r))"

definition ERROR_SUB_PROCESS_EXCEPTED :: exit_code where
  "ERROR_SUB_PROCESS_EXCEPTED = ExitCode 301 (Some ''The sub process excepted.'') False"

definition ERROR_SUB_PROCESS_KILLED :: exit_code where
  "ERROR_SUB_PROCESS_KILLED = ExitCode 302 (Some ''The sub process was killed.'') False"

definition ERROR_MAXIMUM_ITERATIONS_EXCEEDED :: exit_code where
  "ERROR_MAXIMUM_ITERATIONS_EXCEEDED =
     ExitCode 401 (Some ''The maximum number of iterations was exceeded.'') False"

definition ERROR_SECOND_CONSECUTIVE_UNHANDLED_FAILURE :: exit_code where
  "ERROR_SECOND_CONSECUTIVE_UNHANDLED_FAILURE =
     ExitCode 402 (Some ''The process failed for an unknown reason, twice in a row.'') False"

definition sorted_handlers :: "(int \<times> handler) list \<Rightarrow> handler list" where
  "sorted_handlers hs = map snd (sort_key (\<lambda>e. - fst e) hs)"

definition inspect_process :: "restart_class \<Rightarrow> restart_state \<Rightarrow> (restart_state \<times> exit_code option) res" where
  "inspect_process cls st =
     bind_res (last_child st) (\<lambda>node.
       if is_excepted node then Inr (st, Some ERROR_SUB_PROCESS_EXCEPTED)
       else if is_killed node then Inr (st, Some ERROR_SUB_PROCESS_KILLED)
       else
         bind_res (get_process_handlers_by_priority cls st) (\<lambda>handlers.
         bind_res (call_handlers (sorted_handlers handlers) node st None) (\<lambda>(st, last_report).
           if is_failed node \<and> last_report = None then
             (if ctx_unhandled_failure st then Inr (st, Some ERROR_SECOND_CONSECUTIVE_UNHANDLED_FAILURE)
              else Inr (st\<lparr>ctx_unhandled_failure := True\<rparr>, None))
           else
             let st = st\<lparr>ctx_unhandled_failure := False\<rparr> in
             case last_report of
               Some r \<Rightarrow>
                 bind_res (guard (is_finished_ok node \<or> is_failed node) UnboundLocalError) (\<lambda>_.
                   Inr (st, Some (report_exit_code r)))
             | None \<Rightarrow> Inr (st\<lparr>ctx_is_finished := True\<rparr>, None))))"

text \<open>\<open>ports\<close>: the output ports with whether they are required; \<open>outputs\<close>: the outputs of a node.\<close>

definition attach_outputs :: "(string \<times> bool) list \<Rightarrow> (pnode \<Rightarrow> nat dict) \<Rightarrow> pnode \<Rightarrow> restart_state \<Rightarrow> restart_state" where
  "attach_outputs ports outputs node st =
     (let existing_outputs = map fst (wc_outputs st) in
      fold (\<lambda>(name, required) st.
          case map_of (outputs node) name of
            None \<Rightarrow> st
          | Some output \<Rightarrow>
              if name \<in> set existing_outputs then st
              else st\<lparr>wc_outputs := AList.update name output (wc_outputs st)\<rparr>) ports st)"

definition results_restart ::
  "(string \<times> bool) list \<Rightarrow> (pnode \<Rightarrow> nat dict) \<Rightarrow> int \<Rightarrow> restart_state \<Rightarrow> (restart_state \<times> exit_code option) res" where
  "results_restart ports outputs max_iterations st =
     bind_res (last_child st) (\<lambda>node.
       if \<not> ctx_is_finished st \<and> ctx_iteration st \<ge> max_iterations
       then Inr (st, Some ERROR_MAXIMUM_ITERATIONS_EXCEEDED)
       else Inr (attach_outputs ports outputs node st, None))"

record restart_setting =
  rs_class :: restart_class
  rs_spec_inputs :: "(string \<times> input_port) list"
  rs_run :: "inputs \<Rightarrow> int \<Rightarrow> pnode res"
  rs_ports :: "(string \<times> bool) list"
  rs_outputs :: "pnode \<Rightarrow> nat dict"
  rs_max_iterations :: int
  rs_overrides :: "handler_override dict option"

definition exit_of :: "exit_code option \<Rightarrow> exit_code option" where
  "exit_of r = step_exit_code (case r of None \<Rightarrow> StepNone | Some c \<Rightarrow> StepExitCode c)"

text \<open>The loop of the outline, with fuel: a handler could reset the iteration and go on forever.\<close>

fun restart_loop :: "nat \<Rightarrow> restart_setting \<Rightarrow> restart_state \<Rightarrow> (restart_state \<times> exit_code option) res option" where
  "restart_loop 0 s st = None"
| "restart_loop (Suc fuel) s st =
     (if should_run_process (rs_max_iterations s) st then
        (case bind_res (run_process (rs_spec_inputs s) (rs_run s) st) (inspect_process (rs_class s)) of
           Inl e \<Rightarrow> Some (Inl e)
         | Inr (st, r) \<Rightarrow>
             (case exit_of r of
                Some exit_code \<Rightarrow> Some (Inr (st, Some exit_code))
              | None \<Rightarrow> restart_loop fuel s st))
      else Some (bind_res (results_restart (rs_ports s) (rs_outputs s) (rs_max_iterations s) st) (\<lambda>(st, r).
             Inr (st, exit_of r))))"

definition run_restart :: "nat \<Rightarrow> restart_setting \<Rightarrow> restart_state \<Rightarrow> (restart_state \<times> exit_code option) res option" where
  "run_restart fuel s st = restart_loop fuel s (setup_restart (rs_overrides s) st)"

section \<open>What the handlers may change\<close>

definition handler_keeps :: "(restart_state \<Rightarrow> 'b) \<Rightarrow> handler \<Rightarrow> bool" where
  "handler_keeps field h \<longleftrightarrow>
     (\<forall>st node st' r. handler_body h st node = Inr (st', r) \<longrightarrow> field st' = field st)"

definition keeps_counters :: "restart_setting \<Rightarrow> bool" where
  "keeps_counters s \<longleftrightarrow>
     (\<forall>h \<in> set (get_process_handlers (rs_class s)).
        handler_keeps (\<lambda>st. (ctx_iteration st, ctx_children st)) h)"

definition keeps_finished :: "restart_setting \<Rightarrow> bool" where
  "keeps_finished s \<longleftrightarrow> (\<forall>h \<in> set (get_process_handlers (rs_class s)). handler_keeps ctx_is_finished h)"

lemma add_considered_fields [simp]:
  "ctx_iteration (add_considered n r st) = ctx_iteration st"
  "ctx_children (add_considered n r st) = ctx_children st"
  "ctx_is_finished (add_considered n r st) = ctx_is_finished st"
  "ctx_unhandled_failure (add_considered n r st) = ctx_unhandled_failure st"
  by (simp_all add: add_considered_def)

lemma call_handler_keeps:
  assumes "handler_keeps field h" "call_handler h st node = Inr (st', r)"
    and "\<And>n r st. field (add_considered n r st) = field st"
  shows "field st' = field st"
proof (cases "handler_applies h node")
  case True
  then obtain st1 where "handler_body h st node = Inr (st1, r)" "st' = add_considered (handler_name h) r st1"
    using assms(2) by (auto simp: call_handler_def bind_res_Inr_iff)
  then show ?thesis
    using assms(1,3) unfolding handler_keeps_def by metis
qed (use assms(2,3) in \<open>auto simp: call_handler_def\<close>)

lemma call_handlers_keeps:
  assumes "\<And>h. h \<in> set hs \<Longrightarrow> handler_keeps field h" "call_handlers hs node st r = Inr (st', r')"
    and "\<And>n r st. field (add_considered n r st) = field st"
  shows "field st' = field st"
  using assms(1,2)
proof (induction hs node st r rule: call_handlers.induct)
  case (2 h hs node st r)
  obtain st1 r1 where c: "call_handler h st node = Inr (st1, r1)"
    using 2(4) by (auto simp: bind_res_Inr_iff)
  then have "field st1 = field st"
    using call_handler_keeps [OF _ c assms(3)] 2(3) by auto
  then show ?case
    using 2 c by (auto split: handler_result.splits if_splits)
qed simp

lemma handlers_by_priority_subset:
  "handlers_by_priority ovs hs = Inr es \<Longrightarrow> snd ` set es \<subseteq> set hs"
  by (induction ovs hs arbitrary: es rule: handlers_by_priority.induct)
     (fastforce simp: bind_res_Inr_iff split: if_splits)+

lemma sorted_handlers_subset:
  "get_process_handlers_by_priority cls st = Inr es \<Longrightarrow> set (sorted_handlers es) \<subseteq> set (get_process_handlers cls)"
  by (auto simp: get_process_handlers_by_priority_def sorted_handlers_def dest!: handlers_by_priority_subset)

text \<open>The outcome of \<open>inspect_process\<close>, by cases.\<close>

lemma inspect_process_cases:
  assumes "inspect_process cls st = Inr (st', r)"
  obtains (excepted) node where "last_child st = Inr node" "is_excepted node" "st' = st" "r = Some ERROR_SUB_PROCESS_EXCEPTED"
    | (killed) node where "last_child st = Inr node" "\<not> is_excepted node" "is_killed node" "st' = st"
        "r = Some ERROR_SUB_PROCESS_KILLED"
    | (inspected) node hs st1 report where "last_child st = Inr node" "\<not> is_excepted node" "\<not> is_killed node"
        "get_process_handlers_by_priority cls st = Inr hs"
        "call_handlers (sorted_handlers hs) node st None = Inr (st1, report)"
        "is_failed node \<and> report = None \<and> ctx_unhandled_failure st1 \<and> st' = st1 \<and>
           r = Some ERROR_SECOND_CONSECUTIVE_UNHANDLED_FAILURE \<or>
         is_failed node \<and> report = None \<and> \<not> ctx_unhandled_failure st1 \<and>
           st' = st1\<lparr>ctx_unhandled_failure := True\<rparr> \<and> r = None \<or>
         report \<noteq> None \<and> st' = st1\<lparr>ctx_unhandled_failure := False\<rparr> \<and> r = map_option report_exit_code report \<or>
         \<not> is_failed node \<and> report = None \<and>
           st' = st1\<lparr>ctx_unhandled_failure := False, ctx_is_finished := True\<rparr> \<and> r = None"
proof -
  obtain node where node: "last_child st = Inr node"
    using assms by (auto simp: inspect_process_def bind_res_Inr_iff)
  consider "is_excepted node" | "\<not> is_excepted node" "is_killed node" | "\<not> is_excepted node" "\<not> is_killed node"
    by blast
  then show ?thesis
  proof cases
    case 3
    then obtain hs st1 report where h: "get_process_handlers_by_priority cls st = Inr hs"
      "call_handlers (sorted_handlers hs) node st None = Inr (st1, report)"
      using assms node by (auto simp: inspect_process_def bind_res_Inr_iff)
    show ?thesis
      by (rule inspected [OF node 3 h])
         (use assms node 3 h in \<open>auto simp: inspect_process_def bind_guard_Inr_iff Let_def split: if_splits option.splits\<close>)
  next
    case 1
    show ?thesis
      by (rule excepted [OF node 1]) (use assms node 1 in \<open>simp_all add: inspect_process_def\<close>)
  next
    case 2
    show ?thesis
      by (rule killed [OF node 2]) (use assms node 2 in \<open>simp_all add: inspect_process_def\<close>)
  qed
qed

lemma inspect_process_keeps:
  assumes "inspect_process cls st = Inr (st', r)"
    and "\<And>h. h \<in> set (get_process_handlers cls) \<Longrightarrow> handler_keeps field h"
    and "\<And>n r st. field (add_considered n r st) = field st"
    and "\<And>b st. field (st\<lparr>ctx_unhandled_failure := b\<rparr>) = field st"
    and "\<And>b st. field (st\<lparr>ctx_is_finished := b\<rparr>) = field st"
  shows "field st' = field st"
  using assms(1)
proof (cases rule: inspect_process_cases)
  case (inspected node hs st1 report)
  have "field st1 = field st"
    by (rule call_handlers_keeps [OF _ inspected(5) assms(3)])
       (use sorted_handlers_subset [OF inspected(4)] assms(2) in blast)
  then show ?thesis
    using inspected(6) assms(4,5) by (auto; metis)
qed auto

section \<open>The loop ends\<close>

definition children_of :: "restart_state \<Rightarrow> pnode list" where
  "children_of st = (case ctx_children st of None \<Rightarrow> [] | Some cs \<Rightarrow> cs)"

lemma run_process_effect:
  assumes "run_process spec run st = Inr st'"
  obtains node where "ctx_iteration st' = ctx_iteration st + 1" "ctx_children st' = Some (children_of st @ [node])"
    "ctx_is_finished st' = ctx_is_finished st" "ctx_unhandled_failure st' = ctx_unhandled_failure st"
    "considered_handlers st' = considered_handlers st @ [[]]"
    "ctx_handler_overrides st' = ctx_handler_overrides st"
    "\<exists>inputs. run inputs (ctx_iteration st + 1) = Inr node"
  using assms
  by (auto simp: run_process_def children_of_def Let_def bind_res_Inr_iff split: option.splits) blast+

lemma attach_outputs_fields:
  "ctx_iteration (attach_outputs ports outputs node st) = ctx_iteration st \<and>
   ctx_children (attach_outputs ports outputs node st) = ctx_children st \<and>
   ctx_is_finished (attach_outputs ports outputs node st) = ctx_is_finished st"
proof -
  have "ctx_iteration (fold f ports st) = ctx_iteration st \<and> ctx_children (fold f ports st) = ctx_children st \<and>
      ctx_is_finished (fold f ports st) = ctx_is_finished st"
    if "\<And>p st. ctx_iteration (f p st) = ctx_iteration st \<and> ctx_children (f p st) = ctx_children st \<and>
      ctx_is_finished (f p st) = ctx_is_finished st" for f :: "string \<times> bool \<Rightarrow> restart_state \<Rightarrow> restart_state" and st
    by (induction ports arbitrary: st) (auto simp: that)
  then show ?thesis
    unfolding attach_outputs_def Let_def by (auto split: option.splits)
qed

definition loop_inv :: "int \<Rightarrow> restart_state \<Rightarrow> bool" where
  "loop_inv max_iterations st \<longleftrightarrow>
     0 \<le> ctx_iteration st \<and> ctx_iteration st \<le> max 0 max_iterations \<and>
     ctx_iteration st = int (length (children_of st)) \<and>
     (ctx_children st = None \<longleftrightarrow> ctx_iteration st = 0)"

lemma loop_inv_step:
  assumes "keeps_counters s" "loop_inv (rs_max_iterations s) st" "should_run_process (rs_max_iterations s) st"
    "run_process (rs_spec_inputs s) (rs_run s) st = Inr st1" "inspect_process (rs_class s) st1 = Inr (st2, r)"
  shows "loop_inv (rs_max_iterations s) st2 \<and> ctx_iteration st2 = ctx_iteration st + 1"
proof -
  have "(ctx_iteration st2, ctx_children st2) = (ctx_iteration st1, ctx_children st1)"
    by (rule inspect_process_keeps [OF assms(5)]) (use assms(1) in \<open>auto simp: keeps_counters_def\<close>)
  moreover obtain node where "ctx_iteration st1 = ctx_iteration st + 1"
    "ctx_children st1 = Some (children_of st @ [node])"
    by (rule run_process_effect [OF assms(4)])
  ultimately show ?thesis
    using assms(2,3) by (auto simp: loop_inv_def should_run_process_def children_of_def)
qed

lemma restart_loop_ends:
  assumes "keeps_counters s" "loop_inv (rs_max_iterations s) st"
    "nat (rs_max_iterations s - ctx_iteration st) < fuel"
  shows "\<exists>r. restart_loop fuel s st = Some r \<and>
    (\<forall>st' c. r = Inr (st', c) \<longrightarrow> loop_inv (rs_max_iterations s) st')"
  using assms(2,3)
proof (induction fuel arbitrary: st)
  case (Suc fuel)
  show ?case
  proof (cases "should_run_process (rs_max_iterations s) st")
    case True
    show ?thesis
    proof (cases "bind_res (run_process (rs_spec_inputs s) (rs_run s) st) (inspect_process (rs_class s))")
      case (Inr x)
      then obtain st1 st2 r where x: "x = (st2, r)" "run_process (rs_spec_inputs s) (rs_run s) st = Inr st1"
        "inspect_process (rs_class s) st1 = Inr (st2, r)"
        by (cases x) (auto simp: bind_res_Inr_iff)
      note inv = loop_inv_step [OF assms(1) Suc(2) True x(2,3)]
      show ?thesis
      proof (cases "exit_of r")
        case None
        moreover have "nat (rs_max_iterations s - ctx_iteration st2) < fuel"
          using inv Suc(3) True by (auto simp: should_run_process_def)
        ultimately show ?thesis
          using Suc(1) [of st2] inv True Inr x by simp
      qed (use inv True Inr x in simp)
    qed (use True in simp)
  next
    case False
    have "loop_inv (rs_max_iterations s) st'"
      if "results_restart (rs_ports s) (rs_outputs s) (rs_max_iterations s) st = Inr (st', c)" for st' c
    proof -
      have "ctx_iteration st' = ctx_iteration st \<and> ctx_children st' = ctx_children st"
        using that attach_outputs_fields by (auto simp: results_restart_def bind_res_Inr_iff split: if_splits)
      then show ?thesis using Suc(2) by (simp add: loop_inv_def children_of_def)
    qed
    then show ?thesis
      using False by (auto simp: bind_res_Inr_iff)
  qed
qed simp

section \<open>Outcomes\<close>

lemma last_child_effect:
  assumes "ctx_iteration st = int (length (children_of st))" "children_of st \<noteq> []"
  shows "last_child st = Inr (last (children_of st))"
  using assms by (cases "ctx_children st")
    (auto simp: last_child_def children_of_def py_index_def last_conv_nth nat_diff_distrib' Let_def)

text \<open>How a work chain that was left with a result is left.\<close>

definition outcome_ok :: "restart_state \<Rightarrow> exit_code option \<Rightarrow> bool" where
  "outcome_ok st r \<longleftrightarrow>
     children_of st \<noteq> [] \<and>
     (let node = last (children_of st) in
        (r = None \<longrightarrow> is_terminated node \<longrightarrow> is_finished_ok node) \<and>
        (is_excepted node \<longrightarrow> r = Some ERROR_SUB_PROCESS_EXCEPTED) \<and>
        (is_killed node \<longrightarrow> r = Some ERROR_SUB_PROCESS_KILLED))"

lemma states_exclusive:
  "is_excepted p \<Longrightarrow> \<not> is_killed p" "is_finished p \<Longrightarrow> \<not> is_excepted p \<and> \<not> is_killed p"
  by (simp_all add: is_excepted_def is_killed_def is_finished_def in_state_def)

lemma not_failed_ok: "is_terminated p \<Longrightarrow> \<not> is_excepted p \<Longrightarrow> \<not> is_killed p \<Longrightarrow> \<not> is_failed p \<Longrightarrow> is_finished_ok p"
  by (auto simp: is_terminated_def is_failed_def is_finished_ok_def)

text \<open>The states in which the loop is entered again: not finished after a run that was not aborted, or
  finished with a last process that is ok.\<close>

definition entry_ok :: "restart_state \<Rightarrow> bool" where
  "entry_ok st \<longleftrightarrow>
     children_of st \<noteq> [] \<longrightarrow>
       (let node = last (children_of st) in
          \<not> is_excepted node \<and> \<not> is_killed node \<and>
          (ctx_is_finished st \<longrightarrow> is_terminated node \<longrightarrow> is_finished_ok node))"

lemma exit_of_simps [simp]:
  "exit_of None = None"
  "exit_of (Some c) = (if status c > 0 then Some c else None)"
  by (simp_all add: exit_of_def step_exit_code_def)

lemma abort_codes_positive [simp]:
  "status ERROR_SUB_PROCESS_EXCEPTED = 301" "status ERROR_SUB_PROCESS_KILLED = 302"
  "status ERROR_MAXIMUM_ITERATIONS_EXCEEDED = 401" "status ERROR_SECOND_CONSECUTIVE_UNHANDLED_FAILURE = 402"
  by (simp_all add: ERROR_SUB_PROCESS_EXCEPTED_def ERROR_SUB_PROCESS_KILLED_def ExitCode_def
      ERROR_MAXIMUM_ITERATIONS_EXCEEDED_def ERROR_SECOND_CONSECUTIVE_UNHANDLED_FAILURE_def)

lemma inspect_outcome:
  assumes "keeps_counters s" "keeps_finished s" "inspect_process (rs_class s) st = Inr (st', r)"
    "last_child st = Inr (last (children_of st))" "children_of st \<noteq> []" "\<not> ctx_is_finished st"
  shows "(exit_of r \<noteq> None \<longrightarrow> outcome_ok st' (exit_of r)) \<and> (exit_of r = None \<longrightarrow> entry_ok st')"
proof -
  have counters: "(ctx_iteration st', ctx_children st') = (ctx_iteration st, ctx_children st)"
    by (rule inspect_process_keeps [OF assms(3)]) (use assms(1) in \<open>auto simp: keeps_counters_def\<close>)
  then have children: "children_of st' = children_of st"
    by (simp add: children_of_def)
  show ?thesis
    using assms(3)
  proof (cases rule: inspect_process_cases)
    case (inspected node hs st1 report)
    then have node: "node = last (children_of st)"
      using assms(4) by simp
    have "ctx_is_finished st1 = ctx_is_finished st"
      by (rule call_handlers_keeps [OF _ inspected(5)])
         (use assms(2) sorted_handlers_subset [OF inspected(4)] in \<open>auto simp: keeps_finished_def\<close>)
    then have "ctx_is_finished st' \<longrightarrow> \<not> is_failed node"
      using inspected(6) assms(6) by auto
    then show ?thesis
      using inspected(2,3) node children assms(5)
      by (auto simp: outcome_ok_def entry_ok_def Let_def not_failed_ok)
  qed (use assms(4,5) children in \<open>auto simp: outcome_ok_def entry_ok_def Let_def states_exclusive\<close>)
qed

lemma run_then_child:
  assumes "run_process spec run st = Inr st'" "loop_inv m st"
  shows "children_of st' \<noteq> [] \<and> last_child st' = Inr (last (children_of st')) \<and>
    ctx_is_finished st' = ctx_is_finished st"
proof -
  obtain node where "ctx_iteration st' = ctx_iteration st + 1" "ctx_children st' = Some (children_of st @ [node])"
    "ctx_is_finished st' = ctx_is_finished st"
    by (rule run_process_effect [OF assms(1)])
  then show ?thesis
    using assms(2) last_child_effect [of st'] by (auto simp: children_of_def loop_inv_def)
qed

lemma restart_loop_outcome:
  assumes "keeps_counters s" "keeps_finished s" "loop_inv (rs_max_iterations s) st" "entry_ok st"
    "restart_loop fuel s st = Some (Inr (st', r))"
  shows "outcome_ok st' r"
  using assms(3-5)
proof (induction fuel arbitrary: st)
  case (Suc fuel)
  show ?case
  proof (cases "should_run_process (rs_max_iterations s) st")
    case True
    then obtain st1 st2 c where run: "run_process (rs_spec_inputs s) (rs_run s) st = Inr st1"
      "inspect_process (rs_class s) st1 = Inr (st2, c)"
      using Suc(4) by (auto simp: bind_res_Inr_iff split: sum.splits)
    have fin: "children_of st1 \<noteq> []" "last_child st1 = Inr (last (children_of st1))" "\<not> ctx_is_finished st1"
      using run_then_child [OF run(1) Suc(2)] True by (auto simp: should_run_process_def)
    note out = inspect_outcome [OF assms(1,2) run(2) fin(2,1,3)]
    show ?thesis
    proof (cases "exit_of c")
      case None
      then have "restart_loop fuel s st2 = Some (Inr (st', r))"
        using Suc(4) True run by simp
      then show ?thesis
        using Suc(1) [of st2] loop_inv_step [OF assms(1) Suc(2) True run] out None by blast
    next
      case (Some code)
      then have "st' = st2" "r = exit_of c"
        using Suc(4) True run by simp_all
      then show ?thesis using out Some by simp
    qed
  next
    case False
    then obtain node where node: "last_child st = Inr node"
      using Suc(4) by (auto simp: results_restart_def bind_res_Inr_iff)
    then obtain cs where "ctx_children st = Some cs"
      by (auto simp: last_child_def split: option.splits)
    then have ne: "children_of st \<noteq> []"
      using Suc(2) by (auto simp: loop_inv_def children_of_def)
    have "ctx_children (attach_outputs (rs_ports s) (rs_outputs s) node st) = ctx_children st"
      using attach_outputs_fields by blast
    then have same: "children_of (attach_outputs (rs_ports s) (rs_outputs s) node st) = children_of st"
      by (simp add: children_of_def)
    have r: "(st', r) = (if \<not> ctx_is_finished st then (st, Some ERROR_MAXIMUM_ITERATIONS_EXCEEDED)
        else (attach_outputs (rs_ports s) (rs_outputs s) node st, None))"
      using Suc(4) False node by (auto simp: results_restart_def should_run_process_def split: if_splits)
    show ?thesis
      using Suc(3) ne same r by (cases "ctx_is_finished st") (simp_all add: entry_ok_def outcome_ok_def Let_def)
  qed
qed simp

section \<open>Properties\<close>

text \<open>C20: A restart work chain always ends.  If no handler changes the iteration counter or the list of
  children, then \<open>max_iterations\<close> rounds and one more test are enough, and when it ends with a
  result it has launched at most \<open>max_iterations\<close> processes, one per iteration.\<close>

theorem restart_terminates:
  assumes "keeps_counters s" "ctx_children st = None" "nat (rs_max_iterations s) < fuel"
  shows "\<exists>r. run_restart fuel s st = Some r \<and>
    (\<forall>st' c. r = Inr (st', c) \<longrightarrow>
       int (length (children_of st')) = ctx_iteration st' \<and> ctx_iteration st' \<le> max 0 (rs_max_iterations s))"
proof -
  have "loop_inv (rs_max_iterations s) (setup_restart (rs_overrides s) st)"
    using assms(2) by (simp add: loop_inv_def setup_restart_def children_of_def)
  from restart_loop_ends [OF assms(1) this, of fuel] assms(3)
  show ?thesis
    by (auto simp: run_restart_def loop_inv_def setup_restart_def)
qed

text \<open>A concrete setting: the first process fails with exit status 7, the second one finishes ok; one
  handler, for status 7, reports an exit code.\<close>

definition child_node :: "string \<Rightarrow> int \<Rightarrow> pnode" where
  "child_node state i =
     \<lparr>pn_process = True, pn_stored = True,
      pn_attributes = [(''process_state'', VStr state), (''exit_status'', VInt i)]\<rparr>"

definition example_handler :: "exit_code \<Rightarrow> handler" where
  "example_handler code =
     \<lparr>handler_name = ''handle_seven'', handler_priority = 0, handler_enabled = True,
      handler_exit_codes = Some [ExitCode 7 None False],
      handler_body = (\<lambda>st node. Inr (st, Report \<lparr>do_break = False, report_exit_code = code\<rparr>))\<rparr>"

definition example_setting :: "class_member dict \<Rightarrow> (int \<Rightarrow> pnode) \<Rightarrow> int \<Rightarrow> restart_setting" where
  "example_setting cls run max_iterations =
     \<lparr>rs_class = cls, rs_spec_inputs = [], rs_run = (\<lambda>inputs i. Inr (run i)), rs_ports = [(''out'', True)],
      rs_outputs = (\<lambda>node. [(''out'', 1)]), rs_max_iterations = max_iterations, rs_overrides = None\<rparr>"

definition initial_state :: restart_state where
  "initial_state =
     \<lparr>ctx_inputs = Some [], ctx_handler_overrides = [], ctx_unhandled_failure = False, ctx_is_finished = False,
      ctx_iteration = 0, ctx_children = None, considered_handlers = [], wc_outputs = []\<rparr>"

definition first_fails :: "int \<Rightarrow> pnode" where
  "first_fails i = child_node ''finished'' (if i = 1 then 7 else 0)"

lemma keeps_example:
  "keeps_counters (example_setting [(''handle_seven'', HandlerMember (example_handler c))] run m)"
  "keeps_finished (example_setting [(''handle_seven'', HandlerMember (example_handler c))] run m)"
  by (simp_all add: keeps_counters_def keeps_finished_def example_setting_def get_process_handlers_def
      example_handler_def handler_keeps_def)

theorem restart_terminates_witness:
  "\<exists>r. run_restart 6 (example_setting [(''handle_seven'', HandlerMember (example_handler (ExitCode 0 None False)))]
     first_fails 5) initial_state = Some r"
  using restart_terminates [OF keeps_example(1), of initial_state "ExitCode 0 None False" first_fails 5 6]
  by (auto simp: initial_state_def example_setting_def)


lemmas restart_run_simps =
  run_restart_def setup_restart_def should_run_process_def run_process_def inspect_process_def
  results_restart_def last_child_def py_index_def get_process_handlers_by_priority_def get_process_handlers_def
  sorted_handlers_def call_handler_def handler_applies_def exit_status_int_def add_considered_def
  set_call_link_label_def attach_outputs_def children_of_def Let_def

lemmas child_simps =
  child_node_def is_excepted_def is_killed_def is_failed_def is_finished_def is_finished_ok_def is_terminated_def
  in_state_def get_process_state_def ProcessState_def exit_status_def attributes_get_def get_attribute_def

lemmas example_simps = example_setting_def example_handler_def initial_state_def first_fails_def

lemma child_finished [simp]:
  "\<not> is_excepted (child_node ''finished'' i)" "\<not> is_killed (child_node ''finished'' i)"
  "is_failed (child_node ''finished'' i) \<longleftrightarrow> i \<noteq> 0" "is_finished_ok (child_node ''finished'' i) \<longleftrightarrow> i = 0"
  "is_terminated (child_node ''finished'' i)" "exit_status (child_node ''finished'' i) = VInt i"
  by (simp_all add: child_simps)

lemma example_run:
  assumes "status c \<le> 0"
  shows "\<exists>st. run_restart 6 (example_setting [(''handle_seven'', HandlerMember (example_handler c))] first_fails 5)
    initial_state = Some (Inr (st, None)) \<and>
    children_of st = [child_node ''finished'' 7, child_node ''finished'' 0]"
  using assms
  by (simp add: numeral_eq_Suc restart_run_simps example_simps ExitCode_def)


text \<open>A handler that reports a negative exit status does not abort the work chain, although
  \<open>inspect_process\<close> takes every status other than zero as an unrecoverable problem: the step only
  counts a positive status as an exit, so the process is restarted and the work chain can succeed.\<close>

theorem negative_report_restarts:
  "\<exists>st. run_restart 6 (example_setting [(''handle_seven'', HandlerMember (example_handler (ExitCode (- 1) None False)))]
     first_fails 5) initial_state = Some (Inr (st, None)) \<and>
   children_of st = [child_node ''finished'' 7, child_node ''finished'' 0]"
  by (rule example_run) (simp add: ExitCode_def)

text \<open>With a maximum of zero iterations or less no process is launched, and the results step raises
  \<open>AttributeError\<close> instead of returning the exit code for too many iterations.\<close>

theorem no_iterations_raises:
  assumes "rs_max_iterations s \<le> 0" "ctx_children st = None"
  shows "run_restart (Suc fuel) s st = Some (Inl AttributeError)"
  using assms by (simp add: run_restart_def setup_restart_def should_run_process_def results_restart_def last_child_def)

theorem no_iterations_raises_witness:
  "run_restart 1 (example_setting [] first_fails 0) initial_state = Some (Inl AttributeError)"
  using no_iterations_raises [of "example_setting [] first_fails 0" initial_state 0]
  by (simp add: example_simps)

section \<open>The order of the handlers\<close>

definition enabled_for :: "handler_override dict \<Rightarrow> handler \<Rightarrow> bool" where
  "enabled_for ovs h \<longleftrightarrow>
     (case override_fields (map_of ovs (handler_name h)) of
        Inr (Some (OvBool False), _) \<Rightarrow> False
      | Inr (None, _) \<Rightarrow> handler_enabled h
      | Inr (Some OvNone, _) \<Rightarrow> handler_enabled h
      | _ \<Rightarrow> True)"

definition priority_for :: "handler_override dict \<Rightarrow> handler \<Rightarrow> int" where
  "priority_for ovs h =
     (case override_fields (map_of ovs (handler_name h)) of
        Inr (_, p) \<Rightarrow> override_priority p (handler_priority h) | Inl _ \<Rightarrow> handler_priority h)"

lemma handlers_by_priority_exact:
  "handlers_by_priority ovs hs = Inr es \<Longrightarrow>
     es = map (\<lambda>h. (priority_for ovs h, h)) (filter (enabled_for ovs) hs)"
proof (induction ovs hs arbitrary: es rule: handlers_by_priority.induct)
  case (2 ovs h hs)
  obtain enabled priority es' where f: "override_fields (map_of ovs (handler_name h)) = Inr (enabled, priority)"
    "handlers_by_priority ovs hs = Inr es'"
    using 2(2) by (auto simp: bind_res_Inr_iff)
  have "es' = map (\<lambda>h. (priority_for ovs h, h)) (filter (enabled_for ovs) hs)"
    using 2(1) f by simp
  moreover have "enabled_for ovs h \<longleftrightarrow>
      \<not> (enabled = Some (OvBool False) \<or> enabled \<in> {None, Some OvNone} \<and> \<not> handler_enabled h)"
    using f(1) by (auto simp: enabled_for_def split: option.splits override_value.splits bool.splits)
  moreover have "priority_for ovs h = override_priority priority (handler_priority h)"
    using f(1) by (simp add: priority_for_def)
  ultimately show ?case
    using 2(2) f by auto
qed simp

text \<open>The handlers that were called, as the wrapper recorded them.\<close>

lemma call_handlers_considered:
  assumes "\<And>h. h \<in> set hs \<Longrightarrow> handler_keeps considered_handlers h" "considered_handlers st = cs @ [c]"
    "call_handlers hs node st r = Inr (st', r')"
  shows "\<exists>n rs. considered_handlers st' = cs @ [c @ zip (map handler_name (take n hs)) rs] \<and>
    length rs = n \<and> n \<le> length hs \<and>
    (n < length hs \<longrightarrow> n > 0 \<and> (\<exists>rep. r' = Some rep \<and> do_break rep))"
  using assms
proof (induction hs arbitrary: st r c)
  case Nil
  then show ?case by auto
next
  case (Cons h hs)
  obtain st1 r1 where c1: "call_handler h st node = Inr (st1, r1)"
    using Cons(4) by (auto simp: bind_res_Inr_iff)
  obtain st0 where st0: "st1 = add_considered (handler_name h) r1 st0"
    "st0 = st \<or> handler_body h st node = Inr (st0, r1)"
    using c1 by (auto simp: call_handler_def bind_res_Inr_iff split: if_splits)
  have "considered_handlers st0 = considered_handlers st"
    using st0(2) Cons(2) [of h] unfolding handler_keeps_def by fastforce
  then have con: "considered_handlers st1 = cs @ [c @ [(handler_name h, serialize_result r1)]]"
    using Cons(3) st0(1) by (simp add: add_considered_def)
  show ?case
  proof (cases "\<exists>rep. r1 = Report rep \<and> do_break rep")
    case True
    then have "st' = st1" "\<exists>rep. r' = Some rep \<and> do_break rep"
      using Cons(4) c1 by auto
    then show ?thesis
      using con by (intro exI [of _ 1] exI [of _ "[serialize_result r1]"]) simp
  next
    case False
    then obtain r2 where r2: "call_handlers hs node st1 r2 = Inr (st', r')"
      using Cons(4) c1 by (auto split: handler_result.splits if_splits)
    obtain n rs where "considered_handlers st' =
          cs @ [(c @ [(handler_name h, serialize_result r1)]) @ zip (map handler_name (take n hs)) rs]"
        "length rs = n" "n \<le> length hs" "n < length hs \<longrightarrow> n > 0 \<and> (\<exists>rep. r' = Some rep \<and> do_break rep)"
      using Cons(1) [OF Cons(2) con r2] by auto
    then show ?thesis
      by (intro exI [of _ "Suc n"] exI [of _ "serialize_result r1 # rs"]) auto
  qed
qed

lemma sorted_handlers_map:
  "sorted_handlers (map (\<lambda>h. (p h, h)) hs) = sort_key (\<lambda>h. - p h) hs"
proof -
  have "map snd (insort_key (\<lambda>e. - fst e) (p h, h) (map (\<lambda>h. (p h, h)) hs)) = insort_key (\<lambda>h. - p h) h hs" for h hs
    by (induction hs) (auto simp: comp_def)
  moreover have "sort_key (\<lambda>e. - fst e) (map (\<lambda>h. (p h, h)) hs) = map (\<lambda>h. (p h, h)) (sort_key (\<lambda>h. - p h) hs)" for hs
  proof (induction hs)
    case (Cons h hs)
    have "insort_key (\<lambda>e. - fst e) (p h, h) (map (\<lambda>h. (p h, h)) ks) = map (\<lambda>h. (p h, h)) (insort_key (\<lambda>h. - p h) h ks)" for ks
      by (induction ks) auto
    then show ?case using Cons by simp
  qed simp
  ultimately show ?thesis
    by (simp add: sorted_handlers_def comp_def)
qed


definition quiet_handler :: "string \<Rightarrow> int \<Rightarrow> handler" where
  "quiet_handler name p =
     \<lparr>handler_name = name, handler_priority = p, handler_enabled = True, handler_exit_codes = None,
      handler_body = (\<lambda>st node. Inr (st, NoReport))\<rparr>"

definition quiet_class :: restart_class where
  "quiet_class = [(''a'', HandlerMember (quiet_handler ''a'' 1)), (''b'', HandlerMember (quiet_handler ''b'' 5))]"

definition inspected_state :: restart_state where
  "inspected_state =
     initial_state\<lparr>ctx_iteration := 1, ctx_children := Some [child_node ''finished'' 0], considered_handlers := [[]]\<rparr>"

lemma quiet_handlers: "get_process_handlers quiet_class = [quiet_handler ''a'' 1, quiet_handler ''b'' 5]"
  by (simp add: get_process_handlers_def quiet_class_def)


text \<open>An override that sets the priority of a handler to zero has no effect: the handlers and their
  priorities are those that the override without its priority gives.\<close>

theorem zero_priority_override_ignored:
  "handlers_by_priority ((name, OverrideDict [(''enabled'', e), (''priority'', OvInt 0)]) # ovs) hs =
   handlers_by_priority ((name, OverrideDict [(''enabled'', e)]) # ovs) hs"
  by (induction hs) (auto cong: if_cong)

section \<open>Unhandled failures\<close>

lemma add_considered_eq: "\<exists>cs. add_considered n r st = st\<lparr>considered_handlers := cs\<rparr>"
  by (cases "considered_handlers st = []") (auto simp: add_considered_def intro: exI [of _ "[]"] exI)

lemma call_quiet_handlers:
  assumes "\<And>h st. h \<in> set hs \<Longrightarrow> handler_body h st node = Inr (st, NoReport)"
  shows "\<exists>cs. call_handlers hs node st r = Inr (st\<lparr>considered_handlers := cs\<rparr>, r)"
  using assms
proof (induction hs arbitrary: st)
  case Nil
  show ?case by (intro exI [of _ "considered_handlers st"]) simp
next
  case (Cons h hs)
  obtain cs where "call_handler h st node = Inr (st\<lparr>considered_handlers := cs\<rparr>, NoReport)"
    using Cons(2) [of h] add_considered_eq [of "handler_name h" NoReport st]
    by (auto simp: call_handler_def)
  then show ?case
    using Cons(1) [of "st\<lparr>considered_handlers := cs\<rparr>"] Cons(2) by fastforce
qed

text \<open>A failed process without a report is restarted the first time and aborts the second time.\<close>

lemma inspect_unhandled:
  assumes "last_child st = Inr node" "is_failed node" "get_process_handlers_by_priority cls st = Inr hs"
    and "\<And>h st. h \<in> set (get_process_handlers cls) \<Longrightarrow> handler_body h st node = Inr (st, NoReport)"
  shows "\<exists>cs. inspect_process cls st =
    Inr (st\<lparr>considered_handlers := cs, ctx_unhandled_failure := True\<rparr>,
      if ctx_unhandled_failure st then Some ERROR_SECOND_CONSECUTIVE_UNHANDLED_FAILURE else None)"
proof -
  obtain cs where "call_handlers (sorted_handlers hs) node st None = Inr (st\<lparr>considered_handlers := cs\<rparr>, None)"
    using call_quiet_handlers [of "sorted_handlers hs" node st None] sorted_handlers_subset [OF assms(3)] assms(4) by blast
  moreover have "\<not> is_excepted node" "\<not> is_killed node"
    using assms(2) states_exclusive(2) by (auto simp: is_failed_def)
  ultimately show ?thesis
    using assms(1-3) by (intro exI [of _ cs]) (cases st, auto simp: inspect_process_def)
qed

lemma wrap_no_ports: "wrap_bare_dict_inputs [] ins = Inr ins"
  by (induction ins) auto

definition labelled_inputs :: "restart_state \<Rightarrow> bool" where
  "labelled_inputs st \<longleftrightarrow>
     (case ctx_inputs st of
        None \<Rightarrow> False
      | Some ins \<Rightarrow> (case map_of ins ''metadata'' of None \<Rightarrow> True | Some (InDict d) \<Rightarrow> True | _ \<Rightarrow> False))"

lemma run_process_ok:
  assumes "\<And>inputs i. \<exists>node. run inputs i = Inr node \<and> is_failed node" "labelled_inputs st"
  shows "\<exists>st1. run_process [] run st = Inr st1 \<and> labelled_inputs st1 \<and> is_failed (last (children_of st1))"
proof -
  obtain ins where ins: "ctx_inputs st = Some ins"
    using assms(2) by (auto simp: labelled_inputs_def split: option.splits)
  obtain ins' d where ins': "set_call_link_label (call_link_label (ctx_iteration st + 1)) ins = Inr ins'"
    "map_of ins' ''metadata'' = Some (InDict d)"
    using assms(2) ins by (auto simp: labelled_inputs_def set_call_link_label_def split: option.splits input_value.splits)
  obtain node where "run ins' (ctx_iteration st + 1) = Inr node" "is_failed node"
    using assms(1) by blast
  then show ?thesis
    using ins ins' by (simp add: run_process_def Let_def wrap_no_ports labelled_inputs_def children_of_def)
qed

text \<open>One round of the loop in which the process fails and no handler reports.\<close>

lemma unhandled_round:
  assumes run: "\<And>inputs i. \<exists>node. rs_run s inputs i = Inr node \<and> is_failed node"
    and quiet: "\<And>h st node. h \<in> set (get_process_handlers (rs_class s)) \<Longrightarrow> handler_body h st node = Inr (st, NoReport)"
    and "rs_spec_inputs s = []" "loop_inv (rs_max_iterations s) st" "should_run_process (rs_max_iterations s) st"
    and "labelled_inputs st" "ctx_handler_overrides st = []"
  shows "\<exists>st2. restart_loop (Suc fuel) s st =
      (if ctx_unhandled_failure st then Some (Inr (st2, Some ERROR_SECOND_CONSECUTIVE_UNHANDLED_FAILURE))
       else restart_loop fuel s st2) \<and>
    ctx_unhandled_failure st2 \<and> \<not> ctx_is_finished st2 \<and> ctx_handler_overrides st2 = [] \<and> labelled_inputs st2 \<and>
    loop_inv (rs_max_iterations s) st2 \<and> ctx_iteration st2 = ctx_iteration st + 1"
proof -
  obtain st1 where st1: "run_process (rs_spec_inputs s) (rs_run s) st = Inr st1" "labelled_inputs st1"
    "is_failed (last (children_of st1))"
    using run_process_ok [of "rs_run s" st] run assms(3,6) by auto
  obtain node where eff: "ctx_iteration st1 = ctx_iteration st + 1" "ctx_children st1 = Some (children_of st @ [node])"
    "ctx_is_finished st1 = ctx_is_finished st" "ctx_unhandled_failure st1 = ctx_unhandled_failure st"
    "ctx_handler_overrides st1 = ctx_handler_overrides st"
    by (rule run_process_effect [OF st1(1)])
  have "\<exists>es. handlers_by_priority [] hs = Inr es" for hs
    by (induction hs) auto
  then obtain es where "get_process_handlers_by_priority (rs_class s) st1 = Inr es"
    using eff(5) assms(7) by (auto simp: get_process_handlers_by_priority_def)
  from inspect_unhandled [OF _ st1(3) this quiet] run_then_child [OF st1(1) assms(4)]
  obtain cs where cs: "inspect_process (rs_class s) st1 =
    Inr (st1\<lparr>considered_handlers := cs, ctx_unhandled_failure := True\<rparr>,
      if ctx_unhandled_failure st1 then Some ERROR_SECOND_CONSECUTIVE_UNHANDLED_FAILURE else None)"
    by blast
  show ?thesis
    using st1(1,2) cs eff assms(4,5,7)
    by (intro exI [of _ "st1\<lparr>considered_handlers := cs, ctx_unhandled_failure := True\<rparr>"])
       (auto simp: should_run_process_def loop_inv_def children_of_def labelled_inputs_def)
qed



end
