(* ===== verification/Aiida_Calcjob.thy ===== *)
theory Aiida_Calcjob
  imports Aiida_Process_Node "HOL-Library.List_Lexorder" "HOL-Library.Char_ord"
begin

text \<open>
  The engine side of a calculation job: \<open>exponential_backoff_retry\<close> (\<open>engine/utils.py\<close>), the
  transport tasks and the waiting state of \<open>engine/processes/calcjobs/tasks.py\<close>, the job monitors of
  \<open>engine/processes/calcjobs/monitors.py\<close>, and of \<open>engine/daemon/execmanager.py\<close> the submission
  and killing of a job.

  A coroutine is a function on a state that ends with a value or an exception.  The state holds the
  sub state of the job, what the waiting state keeps, and the outside world \<open>'e\<close>; what happens
  outside (transports, scheduler, file transfers, monitor functions, the clock) are operations on the
  world in a record of type \<open>world\<close>.  An interruption that reaches a task while it waits is an
  exception of the operation it waits for.  Logging and the process status are left out.
\<close>

section \<open>Coroutines\<close>

text \<open>\<open>CancelledError\<close> is not an \<open>Exception\<close> for Python; the other kinds of interruption are.\<close>

datatype task_exc =
    CancelledError | Interruption | KillInterruption | PauseInterruption
  | PreSubmitException | TransportTaskException | TaskError py_exc

fun is_interruption :: "task_exc \<Rightarrow> bool" where
  "is_interruption Interruption = True"
| "is_interruption KillInterruption = True"
| "is_interruption PauseInterruption = True"
| "is_interruption _ = False"

type_synonym ('s, 'a) coro = "'s \<Rightarrow> 's \<times> (task_exc + 'a)"

definition co_return :: "'a \<Rightarrow> ('s, 'a) coro" where
  "co_return a s = (s, Inr a)"

definition co_raise :: "task_exc \<Rightarrow> ('s, 'a) coro" where
  "co_raise e s = (s, Inl e)"

definition co_bind :: "('s, 'a) coro \<Rightarrow> ('a \<Rightarrow> ('s, 'b) coro) \<Rightarrow> ('s, 'b) coro" where
  "co_bind m f s = (case m s of (s, Inl e) \<Rightarrow> (s, Inl e) | (s, Inr a) \<Rightarrow> f a s)"

definition co_modify :: "('s \<Rightarrow> 's) \<Rightarrow> ('s, unit) coro" where
  "co_modify f s = (f s, Inr ())"

definition co_try :: "('s, 'a) coro \<Rightarrow> (task_exc \<Rightarrow> ('s, 'a) coro) \<Rightarrow> ('s, 'a) coro" where
  "co_try m handler s = (case m s of (s, Inl e) \<Rightarrow> handler e s | (s, Inr a) \<Rightarrow> (s, Inr a))"

section \<open>Retrying\<close>

text \<open>The loop over \<open>range(max_attempts)\<close>; the third component lists the intervals that were slept.\<close>

fun backoff_loop ::
  "('s, 'a) coro \<Rightarrow> (task_exc \<Rightarrow> bool) \<Rightarrow> int \<Rightarrow> nat list \<Rightarrow> int \<Rightarrow> 's
     \<Rightarrow> 's \<times> (task_exc + 'a option) \<times> int list" where
  "backoff_loop coro ignore max_attempts [] interval s = (s, Inr None, [])"
| "backoff_loop coro ignore max_attempts (iteration # rest) interval s =
     (case coro s of
        (s, Inr a) \<Rightarrow> (s, Inr (Some a), [])
      | (s, Inl e) \<Rightarrow>
          if e = CancelledError \<or> ignore e then (s, Inl e, [])
          else if int iteration = max_attempts - 1 then (s, Inl e, [])
          else
            (case backoff_loop coro ignore max_attempts rest (interval * 2) s of
               (s, r, sleeps) \<Rightarrow> (s, r, interval # sleeps)))"

definition exponential_backoff_retry ::
  "('s, 'a) coro \<Rightarrow> int \<Rightarrow> int \<Rightarrow> (task_exc \<Rightarrow> bool) \<Rightarrow> 's \<Rightarrow> 's \<times> (task_exc + 'a option) \<times> int list" where
  "exponential_backoff_retry coro initial_interval max_attempts ignore s =
     backoff_loop coro ignore max_attempts [0..<nat max_attempts] initial_interval s"

text \<open>\<open>prepare_inputs\<close> of a launch.\<close>

definition prepare_inputs :: "'v dict option \<Rightarrow> 'v dict \<Rightarrow> 'v dict res" where
  "prepare_inputs inputs kwargs =
     bind_res (guard (\<not> (inputs \<noteq> None \<and> kwargs \<noteq> [])) ValueError) (\<lambda>_.
       Inr (if kwargs \<noteq> [] then kwargs else case inputs of None \<Rightarrow> [] | Some d \<Rightarrow> d))"

section \<open>Monitors\<close>

datatype monitor_action = KILL | DISABLE_ALL | DISABLE_SELF

record monitor_result =
  mr_key :: "string option"
  mr_message :: "string option"
  mr_action :: monitor_action
  mr_retrieve :: bool
  mr_parse :: bool
  mr_override_exit_code :: bool
  mr_outputs :: "(string \<times> nat) list"

definition CalcJobMonitorResult ::
  "string option \<Rightarrow> monitor_action \<Rightarrow> bool \<Rightarrow> bool \<Rightarrow> bool \<Rightarrow> (string \<times> nat) list \<Rightarrow> monitor_result res" where
  "CalcJobMonitorResult msg action retrieve parse override_exit_code outputs =
     bind_res (guard (\<not> (\<not> retrieve \<and> parse)) ValueError) (\<lambda>_.
       Inr \<lparr>mr_key = None, mr_message = msg, mr_action = action, mr_retrieve = retrieve,
            mr_parse = parse, mr_override_exit_code = override_exit_code, mr_outputs = outputs\<rparr>)"

datatype monitor_return = ReturnedNone | ReturnedStr string | ReturnedResult monitor_result

record 'e monitor =
  mon_priority :: int
  mon_minimum_poll_interval :: "int option"
  mon_call_timestamp :: "int option"
  mon_disabled :: bool
  mon_function :: "('e, monitor_return) coro"

type_synonym 'e monitors = "(string \<times> 'e monitor) list"

definition CalcJobMonitors :: "'e monitors \<Rightarrow> 'e monitors" where
  "CalcJobMonitors monitors = sort_key (\<lambda>x. - mon_priority (snd x)) (sort_key (\<lambda>x. fst x) monitors)"

fun returned_result :: "string \<Rightarrow> monitor_return \<Rightarrow> monitor_result option" where
  "returned_result key ReturnedNone = None"
| "returned_result key (ReturnedStr s) =
     Some \<lparr>mr_key = Some key, mr_message = Some s, mr_action = KILL, mr_retrieve = True, mr_parse = True,
           mr_override_exit_code = True, mr_outputs = []\<rparr>"
| "returned_result key (ReturnedResult r) = Some (r\<lparr>mr_key := Some key\<rparr>)"

definition skip_monitor :: "int \<Rightarrow> 'e monitor \<Rightarrow> bool" where
  "skip_monitor now m \<longleftrightarrow>
     mon_disabled m \<or>
     (case (mon_minimum_poll_interval m, mon_call_timestamp m) of
        (Some interval, Some timestamp) \<Rightarrow> interval \<noteq> 0 \<and> now - timestamp < interval
      | _ \<Rightarrow> False)"

fun process_monitors :: "('e \<Rightarrow> int) \<Rightarrow> 'e monitors \<Rightarrow> 'e \<Rightarrow> 'e \<times> 'e monitors \<times> (task_exc + monitor_result option)" where
  "process_monitors now [] e = (e, [], Inr None)"
| "process_monitors now ((key, m) # ms) e =
     (if skip_monitor (now e) m then
        (case process_monitors now ms e of (e, ms, r) \<Rightarrow> (e, (key, m) # ms, r))
      else
        let m = m\<lparr>mon_call_timestamp := Some (now e)\<rparr> in
        case mon_function m e of
          (e, Inl x) \<Rightarrow> (e, (key, m) # ms, Inl x)
        | (e, Inr returned) \<Rightarrow>
            (case returned_result key returned of
               Some r \<Rightarrow> (e, (key, m) # ms, Inr (Some r))
             | None \<Rightarrow> (case process_monitors now ms e of (e, ms, r) \<Rightarrow> (e, (key, m) # ms, r))))"

section \<open>The job\<close>

datatype calcjob_state = UPLOADING | SUBMITTING | WITHSCHEDULER | STASHING | RETRIEVING | PARSING

datatype job_state = UNDETERMINED | QUEUED | QUEUED_HELD | JOB_RUNNING | SUSPENDED | DONE

datatype submit_result = JobId string | SubmitExit exit_code

datatype kill_future = NoKilling | KillPending | KillDone bool

text \<open>\<open>submissions\<close> counts the jobs that the scheduler accepted.\<close>

record 'e calcjob =
  cj_state :: "calcjob_state option"
  cj_job_id :: "string option"
  cj_scheduler_state :: "job_state option"
  cj_stash :: bool
  cj_outputs :: "(string \<times> nat) list"
  cj_monitors :: "'e monitors option"
  cj_monitor_result :: "monitor_result option"
  cj_killing :: kill_future
  cj_world :: 'e
  submissions :: nat

record 'e world =
  request_transport :: "('e, unit) coro"
  presubmit :: "'e \<Rightarrow> 'e \<times> (py_exc + bool option)"
  upload_files :: "('e, nat option) coro"
  submit_job :: "('e, submit_result) coro"
  request_job_info :: "('e, job_state option) coro"
  stash_files :: "('e, unit) coro"
  retrieve_files :: "('e, nat option) coro"
  scheduler_kill_job :: "('e, bool) coro"
  scheduler_get_job :: "('e, job_state option) coro"
  clock :: "'e \<Rightarrow> int"
  retry_interval :: int
  maximum_attempts :: int

definition on_world :: "('e, 'a) coro \<Rightarrow> ('e calcjob, 'a) coro" where
  "on_world m c = (case m (cj_world c) of (e, r) \<Rightarrow> (c\<lparr>cj_world := e\<rparr>, r))"

definition set_state :: "calcjob_state \<Rightarrow> ('e calcjob, unit) coro" where
  "set_state st = co_modify (\<lambda>c. c\<lparr>cj_state := Some st\<rparr>)"

definition process_out :: "string \<Rightarrow> nat option \<Rightarrow> ('e calcjob, unit) coro" where
  "process_out label node =
     (case node of
        None \<Rightarrow> co_return ()
      | Some n \<Rightarrow> co_modify (\<lambda>c. c\<lparr>cj_outputs := AList.update label n (cj_outputs c)\<rparr>))"

text \<open>A task: the coroutine with retries; what is left after the last attempt becomes a
  \<open>TransportTaskException\<close>, but for the exceptions that are passed on.\<close>

definition with_retries ::
  "'e world \<Rightarrow> (task_exc \<Rightarrow> bool) \<Rightarrow> (task_exc \<Rightarrow> bool) \<Rightarrow> ('e calcjob, 'a) coro \<Rightarrow> ('e calcjob, 'a option) coro" where
  "with_retries w ignore passed_on coro c =
     (case exponential_backoff_retry coro (retry_interval w) (maximum_attempts w) ignore c of
        (c, Inr r, sleeps) \<Rightarrow> (c, Inr r)
      | (c, Inl e, sleeps) \<Rightarrow>
          (c, Inl (if e = CancelledError \<or> passed_on e then e else TransportTaskException)))"

definition do_upload :: "'e world \<Rightarrow> ('e calcjob, bool) coro" where
  "do_upload w =
     co_bind (on_world (request_transport w)) (\<lambda>_.
     co_bind (on_world (\<lambda>e. case presubmit w e of
         (e, Inl x) \<Rightarrow> (e, Inl PreSubmitException) | (e, Inr info) \<Rightarrow> (e, Inr info))) (\<lambda>skip_submit.
     co_bind (on_world (upload_files w)) (\<lambda>remote_folder.
     co_bind (process_out ''remote_folder'' remote_folder) (\<lambda>_.
       co_return (case skip_submit of None \<Rightarrow> False | Some b \<Rightarrow> b)))))"

definition task_upload_job :: "'e world \<Rightarrow> ('e calcjob, bool option) coro" where
  "task_upload_job w c =
     (if cj_state c = Some SUBMITTING then (c, Inr None)
      else
        co_bind (with_retries w (\<lambda>e. is_interruption e \<or> e = PreSubmitException)
            (\<lambda>e. is_interruption e \<or> e = PreSubmitException) (do_upload w)) (\<lambda>skip_submit.
        co_bind (set_state SUBMITTING) (\<lambda>_. co_return skip_submit)) c)"

definition submit_calculation :: "'e world \<Rightarrow> ('e calcjob, submit_result) coro" where
  "submit_calculation w c =
     (case cj_job_id c of
        Some job_id \<Rightarrow> (c, Inr (JobId job_id))
      | None \<Rightarrow>
          co_bind (on_world (submit_job w)) (\<lambda>result.
            case result of
              JobId i \<Rightarrow>
                co_bind (co_modify (\<lambda>c. c\<lparr>cj_job_id := Some i, submissions := submissions c + 1\<rparr>)) (\<lambda>_. co_return result)
            | SubmitExit exit_code \<Rightarrow> co_return result) c)"

definition task_submit_job :: "'e world \<Rightarrow> ('e calcjob, submit_result option) coro" where
  "task_submit_job w c =
     (if cj_state c = Some WITHSCHEDULER then
        (case cj_job_id c of
           None \<Rightarrow> (c, Inl (TaskError AssertionError))
         | Some job_id \<Rightarrow> (c, Inr (Some (JobId job_id))))
      else
        co_bind (with_retries w is_interruption is_interruption
            (co_bind (on_world (request_transport w)) (\<lambda>_. submit_calculation w))) (\<lambda>result.
        co_bind (set_state WITHSCHEDULER) (\<lambda>_. co_return result)) c)"

definition do_update :: "'e world \<Rightarrow> ('e calcjob, bool) coro" where
  "do_update w =
     co_bind (on_world (request_job_info w)) (\<lambda>job_info.
     co_bind (co_modify (\<lambda>c. c\<lparr>cj_scheduler_state := Some (case job_info of None \<Rightarrow> DONE | Some s \<Rightarrow> s)\<rparr>)) (\<lambda>_.
       co_return (job_info = None \<or> job_info = Some DONE)))"

text \<open>Without any attempt the result is \<open>None\<close>, which is not true.\<close>

definition is_true :: "bool option \<Rightarrow> bool" where
  "is_true r \<longleftrightarrow> r = Some True"

definition task_update_job :: "'e world \<Rightarrow> ('e calcjob, bool option) coro" where
  "task_update_job w c =
     (if cj_state c \<in> {Some RETRIEVING, Some STASHING} then (c, Inr (Some True))
      else
        co_bind (with_retries w is_interruption is_interruption (do_update w)) (\<lambda>job_done.
        co_bind (if is_true job_done then set_state STASHING else co_return ()) (\<lambda>_. co_return job_done)) c)"

definition run_monitors :: "'e world \<Rightarrow> ('e calcjob, monitor_result option) coro" where
  "run_monitors w c =
     (case cj_monitors c of
        None \<Rightarrow> (c, Inr None)
      | Some ms \<Rightarrow>
          (case process_monitors (clock w) ms (cj_world c) of
             (e, ms, r) \<Rightarrow> (c\<lparr>cj_world := e, cj_monitors := Some ms\<rparr>, r)))"

definition task_monitor_job :: "'e world \<Rightarrow> ('e calcjob, monitor_result option) coro" where
  "task_monitor_job w c =
     (if cj_state c \<in> {Some RETRIEVING, Some STASHING} then (c, Inr None)
      else
        co_bind (with_retries w is_interruption is_interruption
            (co_bind (on_world (request_transport w)) (\<lambda>_. run_monitors w))) (\<lambda>r.
          co_return (case r of None \<Rightarrow> None | Some r \<Rightarrow> r)) c)"

definition do_retrieve :: "'e world \<Rightarrow> ('e calcjob, nat option) coro" where
  "do_retrieve w =
     co_bind (on_world (request_transport w)) (\<lambda>_.
     co_bind (on_world (retrieve_files w)) (\<lambda>retrieved.
     co_bind (process_out ''retrieved'' retrieved) (\<lambda>_. co_return retrieved)))"

definition task_retrieve_job :: "'e world \<Rightarrow> ('e calcjob, unit) coro" where
  "task_retrieve_job w c =
     (if cj_state c = Some PARSING then (c, Inr ())
      else
        co_bind (with_retries w is_interruption is_interruption (do_retrieve w)) (\<lambda>_. set_state PARSING) c)"

definition task_stash_job :: "'e world \<Rightarrow> ('e calcjob, unit) coro" where
  "task_stash_job w c =
     (if cj_state c = Some RETRIEVING then (c, Inr ())
      else
        co_bind (with_retries w is_interruption is_interruption
            (co_bind (on_world (request_transport w)) (\<lambda>_. on_world (stash_files w)))) (\<lambda>_. set_state RETRIEVING) c)"

definition kill_calculation :: "'e world \<Rightarrow> ('e calcjob, unit) coro" where
  "kill_calculation w c =
     (case cj_job_id c of
        None \<Rightarrow> (c, Inr ())
      | Some job_id \<Rightarrow>
          co_bind (on_world (scheduler_kill_job w)) (\<lambda>result.
            if result then co_return ()
            else
              co_bind (on_world (scheduler_get_job w)) (\<lambda>job.
                if job \<noteq> None \<and> job \<noteq> Some DONE then co_raise (TaskError RemoteOperationError)
                else co_return ())) c)"

text \<open>No exception is ignored while killing: an interruption is retried like a failure.\<close>

definition task_kill_job :: "'e world \<Rightarrow> ('e calcjob, unit) coro" where
  "task_kill_job w c =
     (if cj_state c \<in> {Some UPLOADING, Some SUBMITTING} then (c, Inr ())
      else
        co_bind (with_retries w (\<lambda>e. False) is_interruption
            (co_bind (on_world (request_transport w)) (\<lambda>_. kill_calculation w))) (\<lambda>_.
          co_modify (\<lambda>c. c\<lparr>cj_scheduler_state := Some DONE\<rparr>)) c)"

section \<open>The waiting state\<close>

datatype command = UPLOAD_COMMAND | SUBMIT_COMMAND | UPDATE_COMMAND | STASH_COMMAND | RETRIEVE_COMMAND | UnknownCommand

datatype process_next =
    Waiting command "monitor_result option"
  | Terminate exit_code
  | Parse "exit_code option"

definition STOPPED_BY_MONITOR :: "string option \<Rightarrow> exit_code" where
  "STOPPED_BY_MONITOR msg = ExitCode 150 (Some (case msg of None \<Rightarrow> ''None'' | Some s \<Rightarrow> s)) True"

definition kill_job :: "'e world \<Rightarrow> ('e calcjob, unit) coro" where
  "kill_job w =
     co_bind (task_kill_job w) (\<lambda>_ c.
       case cj_killing c of
         NoKilling \<Rightarrow> (c, Inr ())
       | KillPending \<Rightarrow> (c\<lparr>cj_killing := KillDone True\<rparr>, Inr ())
       | KillDone b \<Rightarrow> (c, Inl (TaskError InvalidStateError)))"

definition disable_monitor :: "string option \<Rightarrow> 'e monitors \<Rightarrow> 'e monitors" where
  "disable_monitor key ms = map (\<lambda>(k, m). (k, if Some k = key then m\<lparr>mon_disabled := True\<rparr> else m)) ms"

definition monitor_job :: "'e world \<Rightarrow> ('e calcjob, monitor_result option) coro" where
  "monitor_job w c =
     (if cj_monitors c = None then (c, Inr None)
      else if \<exists>r. cj_monitor_result c = Some r \<and> mr_action r = DISABLE_ALL then (c, Inr None)
      else
        co_bind (task_monitor_job w) (\<lambda>result.
          case result of
            None \<Rightarrow> co_return None
          | Some r \<Rightarrow>
              co_bind (co_modify (\<lambda>c.
                c\<lparr>cj_outputs := fold (\<lambda>(label, n). AList.update label n) (mr_outputs r) (cj_outputs c),
                  cj_monitors := (if mr_action r = DISABLE_SELF then map_option (disable_monitor (mr_key r)) (cj_monitors c)
                                  else cj_monitors c),
                  cj_monitor_result := Some r\<rparr>)) (\<lambda>_. co_return (Some r))) c)"

text \<open>One round of the loop of the update command: poll the scheduler, call the monitors, and kill the job if
  one of them says so.\<close>

definition update_round :: "'e world \<Rightarrow> ('e calcjob, bool \<times> monitor_result option) coro" where
  "update_round w =
     co_bind (task_update_job w) (\<lambda>job_done.
     co_bind (monitor_job w) (\<lambda>monitor_result.
     co_bind (if \<exists>r. monitor_result = Some r \<and> mr_action r = KILL
              then co_bind (kill_job w) (\<lambda>_. co_return True) else co_return (is_true job_done)) (\<lambda>job_done.
       co_return (job_done, monitor_result))))"

text \<open>The loop of the update command; it polls until the job is done, and may do so forever.\<close>

fun update_loop :: "nat \<Rightarrow> 'e world \<Rightarrow> 'e calcjob \<Rightarrow> ('e calcjob \<times> (task_exc + process_next)) option" where
  "update_loop 0 w c = None"
| "update_loop (Suc fuel) w c =
     (case update_round w c of
        (c, Inl e) \<Rightarrow> Some (c, Inl e)
      | (c, Inr (job_done, monitor_result)) \<Rightarrow>
          (case monitor_result of
             Some r \<Rightarrow>
               if \<not> mr_retrieve r then Some (c, Inr (Terminate (STOPPED_BY_MONITOR (mr_message r))))
               else if job_done then Some (c, Inr (Waiting STASH_COMMAND monitor_result))
               else update_loop fuel w c
           | None \<Rightarrow>
               if job_done then Some (c, Inr (Waiting STASH_COMMAND None)) else update_loop fuel w c))"

definition execute_command :: "nat \<Rightarrow> 'e world \<Rightarrow> command \<Rightarrow> 'e calcjob \<Rightarrow> ('e calcjob \<times> (task_exc + process_next)) option" where
  "execute_command fuel w cmd c =
     (case cmd of
        UPLOAD_COMMAND \<Rightarrow>
          Some (co_bind (task_upload_job w) (\<lambda>skip_submit c.
            co_return (if is_true skip_submit then Waiting STASH_COMMAND (cj_monitor_result c)
                       else Waiting SUBMIT_COMMAND None) c) c)
      | SUBMIT_COMMAND \<Rightarrow>
          Some (co_bind (task_submit_job w) (\<lambda>result.
            co_return (case result of
                Some (SubmitExit exit_code) \<Rightarrow> Terminate exit_code
              | _ \<Rightarrow> Waiting UPDATE_COMMAND None)) c)
      | UPDATE_COMMAND \<Rightarrow> update_loop fuel w c
      | STASH_COMMAND \<Rightarrow>
          Some (co_bind (if cj_stash c then task_stash_job w else co_return ()) (\<lambda>_ c.
            co_return (Waiting RETRIEVE_COMMAND (cj_monitor_result c)) c) c)
      | RETRIEVE_COMMAND \<Rightarrow>
          Some (co_bind (task_retrieve_job w) (\<lambda>_ c.
            co_return (case cj_monitor_result c of
                None \<Rightarrow> Parse None
              | Some r \<Rightarrow>
                  if \<not> mr_parse r then Terminate (STOPPED_BY_MONITOR (mr_message r))
                  else if mr_override_exit_code r then Parse (Some (STOPPED_BY_MONITOR (mr_message r)))
                  else Parse None) c) c)
      | UnknownCommand \<Rightarrow> Some (c, Inl (TaskError RuntimeError)))"

definition execute_handler :: "'e world \<Rightarrow> task_exc \<Rightarrow> ('e calcjob, process_next) coro" where
  "execute_handler w e =
     (case e of
        TransportTaskException \<Rightarrow> co_raise PauseInterruption
      | KillInterruption \<Rightarrow>
          co_bind (kill_job w) (\<lambda>_ c. co_return (Waiting RETRIEVE_COMMAND (cj_monitor_result c)) c)
      | _ \<Rightarrow> co_raise e)"

definition resolve_killing :: "'e calcjob \<Rightarrow> 'e calcjob" where
  "resolve_killing c = (if cj_killing c = KillPending then c\<lparr>cj_killing := KillDone False\<rparr> else c)"

definition execute :: "nat \<Rightarrow> 'e world \<Rightarrow> command \<Rightarrow> 'e calcjob \<Rightarrow> ('e calcjob \<times> (task_exc + process_next)) option" where
  "execute fuel w cmd c =
     map_option (\<lambda>(c, r).
       case (case r of Inl e \<Rightarrow> execute_handler w e c | Inr next \<Rightarrow> (c, Inr next)) of
         (c, r) \<Rightarrow> (resolve_killing c, r))
       (execute_command fuel w cmd c)"

text \<open>Entering a waiting state: a new instance, with the monitor result that was passed along.\<close>

definition enter_waiting :: "monitor_result option \<Rightarrow> 'e calcjob \<Rightarrow> 'e calcjob" where
  "enter_waiting mr c = c\<lparr>cj_monitor_result := mr, cj_killing := NoKilling\<rparr>"

definition interrupt_killing :: "'e calcjob \<Rightarrow> 'e calcjob" where
  "interrupt_killing c = (if cj_killing c = NoKilling then c\<lparr>cj_killing := KillPending\<rparr> else c)"

text \<open>The commands of a job one after the other, as long as each gives the next one.\<close>

fun run_commands ::
  "nat \<Rightarrow> nat \<Rightarrow> 'e world \<Rightarrow> command \<Rightarrow> 'e calcjob \<Rightarrow> ('e calcjob \<times> command list \<times> (task_exc + process_next)) option" where
  "run_commands 0 fuel w cmd c = None"
| "run_commands (Suc n) fuel w cmd c =
     (case execute fuel w cmd c of
        None \<Rightarrow> None
      | Some (c, r) \<Rightarrow>
          (case r of
             Inr (Waiting cmd' mr) \<Rightarrow>
               map_option (\<lambda>(c, cmds, r). (c, cmd # cmds, r)) (run_commands n fuel w cmd' (enter_waiting mr c))
           | _ \<Rightarrow> Some (c, [cmd], r)))"

section \<open>Retrying, exactly\<close>

text \<open>\<open>retried k s s'\<close>: the first \<open>k\<close> attempts from \<open>s\<close> fail with exceptions that are retried, and
  leave the state \<open>s'\<close>.\<close>

fun retried :: "('s, 'a) coro \<Rightarrow> (task_exc \<Rightarrow> bool) \<Rightarrow> nat \<Rightarrow> 's \<Rightarrow> 's \<Rightarrow> bool" where
  "retried coro ignore 0 s s' \<longleftrightarrow> s' = s"
| "retried coro ignore (Suc k) s s' \<longleftrightarrow>
     (case coro s of
        (s1, Inl e) \<Rightarrow> e \<noteq> CancelledError \<and> \<not> ignore e \<and> retried coro ignore k s1 s'
      | _ \<Rightarrow> False)"

definition backoff_sleeps :: "int \<Rightarrow> nat \<Rightarrow> int list" where
  "backoff_sleeps interval k = map (\<lambda>i. interval * 2 ^ i) [0..<k]"

lemma backoff_sleeps_Suc: "backoff_sleeps interval (Suc k) = interval # backoff_sleeps (interval * 2) k"
  unfolding backoff_sleeps_def
  by (simp add: upt_conv_Cons map_Suc_upt [symmetric] comp_def del: upt_Suc)

lemma backoff_loop_exact:
  assumes "m = i + n" "0 < n"
  shows "\<exists>k s'. k < n \<and> retried coro ignore k s s' \<and>
    (case coro s' of
       (s2, Inr a) \<Rightarrow>
         backoff_loop coro ignore (int m) [i..<m] interval s = (s2, Inr (Some a), backoff_sleeps interval k)
     | (s2, Inl e) \<Rightarrow> (e = CancelledError \<or> ignore e \<or> k = n - 1) \<and>
         backoff_loop coro ignore (int m) [i..<m] interval s = (s2, Inl e, backoff_sleeps interval k))"
  using assms
proof (induction n arbitrary: i s interval)
  case (Suc n)
  have range: "[i..<m] = i # [Suc i..<m]"
    using Suc(2) by (simp add: upt_conv_Cons)
  obtain s1 r where c: "coro s = (s1, r)" by (cases "coro s")
  show ?case
  proof (cases "\<exists>e. r = Inl e \<and> e \<noteq> CancelledError \<and> \<not> ignore e \<and> n \<noteq> 0")
    case True
    then obtain e where e: "r = Inl e" "e \<noteq> CancelledError" "\<not> ignore e" "0 < n" by blast
    obtain k s' where k: "k < n" "retried coro ignore k s1 s'"
      "case coro s' of
         (s2, Inr a) \<Rightarrow>
           backoff_loop coro ignore (int m) [Suc i..<m] (interval * 2) s1 = (s2, Inr (Some a), backoff_sleeps (interval * 2) k)
       | (s2, Inl e) \<Rightarrow> (e = CancelledError \<or> ignore e \<or> k = n - 1) \<and>
           backoff_loop coro ignore (int m) [Suc i..<m] (interval * 2) s1 = (s2, Inl e, backoff_sleeps (interval * 2) k)"
      using Suc(1) [of "Suc i" s1 "interval * 2"] Suc(2) e(4) by auto
    have "int i \<noteq> int m - 1"
      using Suc(2) e(4) by simp
    then show ?thesis
      using k c e unfolding range
      by (intro exI [of _ "Suc k"] exI [of _ s']) (auto simp: backoff_sleeps_Suc split: prod.splits sum.splits)
  next
    case False
    then show ?thesis
      using c Suc(2) unfolding range
      by (intro exI [of _ 0] exI [of _ s]) (auto simp: backoff_sleeps_def split: sum.splits)
  qed
qed simp

text \<open>C26: \<open>exponential_backoff_retry\<close> calls the coroutine at most \<open>max_attempts\<close> times.  It stops at
  the first call that succeeds, at the first exception that is to be ignored, or at the last call, and
  gives what that call gave; between the calls it sleeps the initial interval, doubled every time.\<close>

theorem backoff_exact:
  assumes "0 < max_attempts"
  shows "\<exists>k s'. k < nat max_attempts \<and> retried coro ignore k s s' \<and>
    (case coro s' of
       (s2, Inr a) \<Rightarrow>
         exponential_backoff_retry coro interval max_attempts ignore s = (s2, Inr (Some a), backoff_sleeps interval k)
     | (s2, Inl e) \<Rightarrow> (e = CancelledError \<or> ignore e \<or> k = nat max_attempts - 1) \<and>
         exponential_backoff_retry coro interval max_attempts ignore s = (s2, Inl e, backoff_sleeps interval k))"
  using backoff_loop_exact [of "nat max_attempts" 0 "nat max_attempts" coro ignore s interval] assms
  by (simp add: exponential_backoff_retry_def)

definition third_time :: "(nat, string) coro" where
  "third_time n = (Suc n, if n < 2 then Inl (TaskError OSError) else Inr ''done'')"

lemma third_time_run:
  "exponential_backoff_retry third_time 10 5 (\<lambda>e. False) 0 = (3, Inr (Some ''done''), [10, 20])"
  by code_simp

theorem backoff_exact_witness:
  "\<exists>k s'. k < 5 \<and> retried third_time (\<lambda>e. False) k 0 s' \<and> backoff_sleeps 10 k = [10, 20]"
proof -
  obtain k s' where k: "k < nat 5" "retried third_time (\<lambda>e. False) k 0 s'"
    "case third_time s' of
       (s2, Inr a) \<Rightarrow>
         exponential_backoff_retry third_time 10 5 (\<lambda>e. False) 0 = (s2, Inr (Some a), backoff_sleeps 10 k)
     | (s2, Inl e) \<Rightarrow> (e = CancelledError \<or> False \<or> k = nat 5 - 1) \<and>
         exponential_backoff_retry third_time 10 5 (\<lambda>e. False) 0 = (s2, Inl e, backoff_sleeps 10 k)"
    using backoff_exact [of 5 third_time "\<lambda>e. False" 0 10] by auto
  obtain s2 r where "third_time s' = (s2, r)" by (cases "third_time s'")
  then show ?thesis
    using k third_time_run by (cases r) auto
qed

section \<open>Invariants of the job\<close>

text \<open>A property of the job id and of the number of submissions that submitting keeps is kept by
  everything the engine does.\<close>

locale submission_property =
  fixes P :: "string option \<Rightarrow> nat \<Rightarrow> bool"
  assumes submitted: "P None n \<Longrightarrow> P (Some i) (Suc n)"
begin

definition holds :: "'e calcjob \<Rightarrow> bool" where
  "holds c \<longleftrightarrow> P (cj_job_id c) (submissions c)"

definition keeps :: "('e calcjob, 'a) coro \<Rightarrow> bool" where
  "keeps m \<longleftrightarrow> (\<forall>c. holds c \<longrightarrow> holds (fst (m c)))"

lemma keepsD: "keeps m \<Longrightarrow> holds c \<Longrightarrow> m c = (c', r) \<Longrightarrow> holds c'"
  unfolding keeps_def by (metis fst_conv)

lemma keeps_return [simp]: "keeps (co_return a)"
  by (simp add: keeps_def co_return_def)

lemma keeps_raise [simp]: "keeps (co_raise e)"
  by (simp add: keeps_def co_raise_def)

lemma keeps_bind: "keeps m \<Longrightarrow> (\<And>a. keeps (f a)) \<Longrightarrow> keeps (co_bind m f)"
  unfolding keeps_def co_bind_def by (auto split: prod.splits sum.splits)

lemma keeps_on_world [simp]: "keeps (on_world m)"
  by (auto simp: keeps_def on_world_def holds_def split: prod.splits)

lemma keeps_modify: "(\<And>c. holds c \<Longrightarrow> holds (f c)) \<Longrightarrow> keeps (co_modify f)"
  by (simp add: keeps_def co_modify_def)

lemma keeps_if: "(b \<Longrightarrow> keeps m) \<Longrightarrow> (\<not> b \<Longrightarrow> keeps n) \<Longrightarrow> keeps (if b then m else n)"
  by simp

lemma keeps_backoff:
  assumes "keeps m" "holds c"
  shows "holds (fst (backoff_loop m ignore k xs interval c))"
  using assms(2)
proof (induction xs arbitrary: c interval)
  case (Cons i xs)
  obtain c' r where c': "m c = (c', r)" by (cases "m c")
  then have "holds c'" by (rule keepsD [OF assms(1) Cons(2)])
  then show ?case
    using c' Cons(1) [of c'] by (auto split: sum.splits prod.splits) (metis fst_conv)
qed simp

lemma keeps_with_retries: "keeps m \<Longrightarrow> keeps (with_retries w ignore passed m)"
  using keeps_backoff [of m]
  by (auto simp: keeps_def with_retries_def exponential_backoff_retry_def split: prod.splits sum.splits) (metis fst_conv)+

lemma keeps_set_state [simp]: "keeps (set_state st)"
  by (auto simp: set_state_def holds_def intro: keeps_modify)

lemma keeps_process_out [simp]: "keeps (process_out label node)"
  by (auto simp: process_out_def holds_def intro: keeps_modify split: option.split)

lemma keeps_submit: "keeps (submit_calculation w)"
  unfolding keeps_def submit_calculation_def
  by (auto simp: co_bind_def on_world_def co_modify_def co_return_def holds_def submitted
      split: option.splits prod.splits sum.splits submit_result.splits)

lemma keeps_kill_calculation: "keeps (kill_calculation w)"
proof -
  have "keeps (co_bind (on_world (scheduler_kill_job w)) (\<lambda>result.
            if result then co_return ()
            else
              co_bind (on_world (scheduler_get_job w)) (\<lambda>job.
                if job \<noteq> None \<and> job \<noteq> Some DONE then co_raise (TaskError RemoteOperationError)
                else co_return ())))"
    by (intro keeps_bind keeps_if keeps_on_world keeps_return keeps_raise)
  then show ?thesis
    by (auto simp: keeps_def kill_calculation_def split: option.splits)
qed

lemmas keeps_intros =
  keeps_bind keeps_if keeps_on_world keeps_return keeps_raise keeps_with_retries keeps_set_state
  keeps_process_out keeps_submit keeps_kill_calculation

text \<open>A task that returns at once in some states, and runs a coroutine otherwise.\<close>

lemma keeps_guarded:
  assumes "keeps m" "\<And>c. f c = m c \<or> fst (f c) = c"
  shows "keeps f"
  using assms unfolding keeps_def by metis

lemma keeps_modify_fields:
  "keeps (co_modify (\<lambda>c. c\<lparr>cj_scheduler_state := f c\<rparr>))"
  "keeps (co_modify (\<lambda>c. c\<lparr>cj_outputs := g c, cj_monitors := h c, cj_monitor_result := k c\<rparr>))"
  by (auto simp: holds_def intro!: keeps_modify)

lemma keeps_task_upload: "keeps (task_upload_job w)"
  by (rule keeps_guarded [where m = "co_bind (with_retries w (\<lambda>e. is_interruption e \<or> e = PreSubmitException)
            (\<lambda>e. is_interruption e \<or> e = PreSubmitException) (do_upload w)) (\<lambda>skip_submit.
        co_bind (set_state SUBMITTING) (\<lambda>_. co_return skip_submit))"])
     (auto simp: task_upload_job_def do_upload_def intro!: keeps_intros)

lemma keeps_task_submit: "keeps (task_submit_job w)"
  by (rule keeps_guarded [where m = "co_bind (with_retries w is_interruption is_interruption
            (co_bind (on_world (request_transport w)) (\<lambda>_. submit_calculation w))) (\<lambda>result.
        co_bind (set_state WITHSCHEDULER) (\<lambda>_. co_return result))"])
     (auto simp: task_submit_job_def intro!: keeps_intros split: option.split)

lemma keeps_task_update: "keeps (task_update_job w)"
  by (rule keeps_guarded [where m = "co_bind (with_retries w is_interruption is_interruption (do_update w)) (\<lambda>job_done.
        co_bind (if is_true job_done then set_state STASHING else co_return ()) (\<lambda>_. co_return job_done))"])
     (auto simp: task_update_job_def do_update_def intro!: keeps_intros keeps_modify_fields)

lemma keeps_run_monitors: "keeps (run_monitors w)"
  by (auto simp: keeps_def run_monitors_def holds_def split: option.splits prod.splits)

lemma keeps_task_monitor: "keeps (task_monitor_job w)"
  by (rule keeps_guarded [where m = "co_bind (with_retries w is_interruption is_interruption
            (co_bind (on_world (request_transport w)) (\<lambda>_. run_monitors w))) (\<lambda>r.
          co_return (case r of None \<Rightarrow> None | Some r \<Rightarrow> r))"])
     (auto simp: task_monitor_job_def intro!: keeps_intros keeps_run_monitors)

lemma keeps_task_retrieve: "keeps (task_retrieve_job w)"
  by (rule keeps_guarded [where m = "co_bind (with_retries w is_interruption is_interruption (do_retrieve w)) (\<lambda>_. set_state PARSING)"])
     (auto simp: task_retrieve_job_def do_retrieve_def intro!: keeps_intros)

lemma keeps_task_stash: "keeps (task_stash_job w)"
  by (rule keeps_guarded [where m = "co_bind (with_retries w is_interruption is_interruption
            (co_bind (on_world (request_transport w)) (\<lambda>_. on_world (stash_files w)))) (\<lambda>_. set_state RETRIEVING)"])
     (auto simp: task_stash_job_def intro!: keeps_intros)

lemma keeps_task_kill: "keeps (task_kill_job w)"
  by (rule keeps_guarded [where m = "co_bind (with_retries w (\<lambda>e. False) is_interruption
            (co_bind (on_world (request_transport w)) (\<lambda>_. kill_calculation w))) (\<lambda>_.
          co_modify (\<lambda>c. c\<lparr>cj_scheduler_state := Some DONE\<rparr>))"])
     (auto simp: task_kill_job_def intro!: keeps_intros keeps_modify_fields)

lemma keeps_kill_job: "keeps (kill_job w)"
  unfolding kill_job_def
  by (rule keeps_bind [OF keeps_task_kill]) (auto simp: keeps_def holds_def split: kill_future.splits)

lemma keeps_monitor_job: "keeps (monitor_job w)"
proof (rule keeps_guarded)
  show "keeps (co_bind (task_monitor_job w) (\<lambda>result.
          case result of
            None \<Rightarrow> co_return None
          | Some r \<Rightarrow>
              co_bind (co_modify (\<lambda>c.
                c\<lparr>cj_outputs := fold (\<lambda>(label, n). AList.update label n) (mr_outputs r) (cj_outputs c),
                  cj_monitors := (if mr_action r = DISABLE_SELF then map_option (disable_monitor (mr_key r)) (cj_monitors c)
                                  else cj_monitors c),
                  cj_monitor_result := Some r\<rparr>)) (\<lambda>_. co_return (Some r))))"
    by (auto intro!: keeps_intros keeps_task_monitor keeps_modify_fields split: option.split)
qed (auto simp: monitor_job_def)

lemma keeps_round: "keeps (update_round w)"
  unfolding update_round_def by (intro keeps_intros keeps_task_update keeps_monitor_job keeps_kill_job)

lemma update_loop_holds: "holds c \<Longrightarrow> update_loop fuel w c = Some (c', r) \<Longrightarrow> holds c'"
proof (induction fuel arbitrary: c)
  case (Suc fuel)
  obtain c1 r1 where c1: "update_round w c = (c1, r1)" by (cases "update_round w c")
  then have "holds c1" by (rule keepsD [OF keeps_round Suc(2)])
  then show ?case
    using Suc(1) [of c1] Suc(3) c1
    by (auto split: sum.splits option.splits if_splits)
qed simp

lemma execute_command_holds:
  assumes "holds c" "execute_command fuel w cmd c = Some (c', r)"
  shows "holds c'"
proof (cases cmd)
  case UPDATE_COMMAND
  then show ?thesis
    using assms update_loop_holds by (simp add: execute_command_def)
next
  case STASH_COMMAND
  have "keeps (co_bind (if cj_stash c then task_stash_job w else co_return ()) (\<lambda>_ c.
            co_return (Waiting RETRIEVE_COMMAND (cj_monitor_result c)) c))"
    by (intro keeps_bind keeps_if keeps_task_stash keeps_return) (simp add: keeps_def co_return_def)
  then show ?thesis
    using STASH_COMMAND assms by (auto simp: execute_command_def dest: keepsD)
next
  case RETRIEVE_COMMAND
  have "keeps (co_bind (task_retrieve_job w) (\<lambda>_ c.
            co_return (case cj_monitor_result c of
                None \<Rightarrow> Parse None
              | Some r \<Rightarrow>
                  if \<not> mr_parse r then Terminate (STOPPED_BY_MONITOR (mr_message r))
                  else if mr_override_exit_code r then Parse (Some (STOPPED_BY_MONITOR (mr_message r)))
                  else Parse None) c))"
    by (intro keeps_bind keeps_task_retrieve) (simp add: keeps_def co_return_def)
  then show ?thesis
    using RETRIEVE_COMMAND assms by (auto simp: execute_command_def dest: keepsD)
next
  case UPLOAD_COMMAND
  have "keeps (co_bind (task_upload_job w) (\<lambda>skip_submit c.
            co_return (if is_true skip_submit then Waiting STASH_COMMAND (cj_monitor_result c)
                       else Waiting SUBMIT_COMMAND None) c))"
    by (intro keeps_bind keeps_task_upload) (simp add: keeps_def co_return_def)
  then show ?thesis
    using UPLOAD_COMMAND assms by (auto simp: execute_command_def dest: keepsD)
next
  case SUBMIT_COMMAND
  have "keeps (co_bind (task_submit_job w) (\<lambda>result.
            co_return (case result of
                Some (SubmitExit exit_code) \<Rightarrow> Terminate exit_code
              | _ \<Rightarrow> Waiting UPDATE_COMMAND None)))"
    by (intro keeps_bind keeps_task_submit keeps_return)
  then show ?thesis
    using SUBMIT_COMMAND assms by (auto simp: execute_command_def dest: keepsD)
qed (use assms in \<open>auto simp: execute_command_def\<close>)

lemma keeps_execute_handler: "keeps (execute_handler w e)"
proof -
  have "keeps (co_bind (kill_job w) (\<lambda>_ c. co_return (Waiting RETRIEVE_COMMAND (cj_monitor_result c)) c))"
    by (intro keeps_bind keeps_kill_job) (simp add: keeps_def co_return_def)
  then show ?thesis
    by (cases e) (simp_all add: execute_handler_def)
qed

lemma execute_holds:
  assumes "holds c" "execute fuel w cmd c = Some (c', r)"
  shows "holds c'"
proof -
  obtain c1 r1 where c1: "execute_command fuel w cmd c = Some (c1, r1)"
    using assms(2) by (auto simp: execute_def)
  have "holds c1" by (rule execute_command_holds [OF assms(1) c1])
  then have "holds (fst (case r1 of Inl e \<Rightarrow> execute_handler w e c1 | Inr next \<Rightarrow> (c1, Inr next)))"
    using keeps_execute_handler by (auto simp: keeps_def split: sum.split)
  then show ?thesis
    using assms(2) c1 by (auto simp: execute_def resolve_killing_def holds_def split: prod.splits if_splits)
qed

end

section \<open>What the engine does with a job\<close>

text \<open>The engine executes the current command.  When that gives the next waiting state, it enters it; when
  it ends with an exception, or when the daemon is stopped before the transition is recorded, the same
  command is executed again later.  Requests to kill may come at any time, and the world changes.\<close>

inductive calc_step :: "'e world \<Rightarrow> command \<times> 'e calcjob \<Rightarrow> command \<times> 'e calcjob \<Rightarrow> bool" for w where
  advance: "execute fuel w cmd c = Some (c', Inr (Waiting cmd' mr)) \<Longrightarrow> calc_step w (cmd, c) (cmd', enter_waiting mr c')"
| again: "execute fuel w cmd c = Some (c', r) \<Longrightarrow> calc_step w (cmd, c) (cmd, enter_waiting mr c')"
| interrupted: "calc_step w (cmd, c) (cmd, interrupt_killing c)"
| world_changes: "calc_step w (cmd, c) (cmd, c\<lparr>cj_world := e\<rparr>)"

inductive_cases calc_stepE: "calc_step w (cmd, c) y"

definition new_job :: "'e calcjob \<Rightarrow> bool" where
  "new_job c \<longleftrightarrow> cj_job_id c = None \<and> submissions c = 0"

context submission_property
begin

lemma calc_step_holds: "calc_step w x y \<Longrightarrow> holds (snd x) \<Longrightarrow> holds (snd y)"
proof (induction rule: calc_step.induct)
  case (advance fuel cmd c c' cmd' mr)
  then show ?case using execute_holds [of c] by (simp add: enter_waiting_def holds_def)
next
  case (again fuel cmd c c' r mr)
  then show ?case using execute_holds [of c] by (simp add: enter_waiting_def holds_def)
qed (simp_all add: interrupt_killing_def holds_def)

lemma calc_steps_hold: "(calc_step w)\<^sup>*\<^sup>* x y \<Longrightarrow> holds (snd x) \<Longrightarrow> holds (snd y)"
  by (induction rule: rtranclp_induct) (auto intro: calc_step_holds)

end

interpretation submitted_once: submission_property "\<lambda>job_id n. n = (if job_id = None then 0 else 1)"
  by unfold_locales simp

interpretation same_job: submission_property "\<lambda>job_id n. job_id = Some i" for i
  by unfold_locales simp


text \<open>A concrete world: every operation succeeds, the state of the world is the number of polls that still
  find the job running.\<close>

definition calm_world :: "bool \<Rightarrow> submit_result \<Rightarrow> nat world" where
  "calm_world skip result =
     \<lparr>request_transport = (\<lambda>e. (e, Inr ())), presubmit = (\<lambda>e. (e, Inr (Some skip))),
      upload_files = (\<lambda>e. (e, Inr (Some 1))), submit_job = (\<lambda>e. (e, Inr result)),
      request_job_info = (\<lambda>e. (e - 1, Inr (if e = 0 then None else Some JOB_RUNNING))),
      stash_files = (\<lambda>e. (e, Inr ())), retrieve_files = (\<lambda>e. (e, Inr (Some 2))),
      scheduler_kill_job = (\<lambda>e. (e, Inr True)), scheduler_get_job = (\<lambda>e. (e, Inr None)),
      clock = (\<lambda>e. 0), retry_interval = 10, maximum_attempts = 5\<rparr>"

definition calm_job :: "nat \<Rightarrow> nat calcjob" where
  "calm_job polls =
     \<lparr>cj_state = None, cj_job_id = None, cj_scheduler_state = None, cj_stash = False, cj_outputs = [],
      cj_monitors = None, cj_monitor_result = None, cj_killing = NoKilling, cj_world = polls, submissions = 0\<rparr>"

text \<open>A task whose first attempt succeeds.\<close>

lemma with_retries_ok:
  "0 < maximum_attempts w \<Longrightarrow> m c = (c', Inr a) \<Longrightarrow> with_retries w ignore passed m c = (c', Inr (Some a))"
  by (simp add: with_retries_def exponential_backoff_retry_def upt_conv_Cons)

lemmas coro_simps =
  co_bind_def co_return_def co_raise_def co_modify_def on_world_def set_state_def process_out_def

lemma calm_upload:
  "execute 0 (calm_world skip result) UPLOAD_COMMAND (calm_job n) =
     Some ((calm_job n)\<lparr>cj_state := Some SUBMITTING, cj_outputs := [(''remote_folder'', 1)]\<rparr>,
       Inr (if skip then Waiting STASH_COMMAND None else Waiting SUBMIT_COMMAND None))"
proof -
  have "do_upload (calm_world skip result) (calm_job n) = ((calm_job n)\<lparr>cj_outputs := [(''remote_folder'', 1)]\<rparr>, Inr skip)"
    by (simp add: do_upload_def coro_simps calm_world_def calm_job_def)
  from with_retries_ok [of "calm_world skip result" "do_upload (calm_world skip result)", OF _ this]
  have "task_upload_job (calm_world skip result) (calm_job n) =
    ((calm_job n)\<lparr>cj_outputs := [(''remote_folder'', 1)], cj_state := Some SUBMITTING\<rparr>, Inr (Some skip))"
    by (simp add: task_upload_job_def coro_simps calm_world_def calm_job_def)
  then show ?thesis
    by (simp add: execute_def execute_command_def co_bind_def co_return_def is_true_def resolve_killing_def calm_job_def)
qed


text \<open>The commands are executed in the order that the documentation of \<open>Waiting.execute\<close> gives: upload,
  submit, update, stash, retrieve, where the submission and the updates can be skipped together and a
  killed job goes to retrieve; only from submit, update and retrieve the waiting ends.\<close>

theorem execute_order:
  assumes "execute fuel w cmd c = Some (c', Inr n)"
  shows "case n of
      Waiting cmd' mr \<Rightarrow>
        (cmd, cmd') \<in> {(UPLOAD_COMMAND, SUBMIT_COMMAND), (UPLOAD_COMMAND, STASH_COMMAND), (SUBMIT_COMMAND, UPDATE_COMMAND),
          (UPDATE_COMMAND, STASH_COMMAND), (STASH_COMMAND, RETRIEVE_COMMAND)} \<or> cmd' = RETRIEVE_COMMAND
    | Terminate code \<Rightarrow> cmd \<in> {SUBMIT_COMMAND, UPDATE_COMMAND, RETRIEVE_COMMAND}
    | Parse code \<Rightarrow> cmd = RETRIEVE_COMMAND"
proof -
  obtain c1 r1 where c1: "execute_command fuel w cmd c = Some (c1, r1)"
    using assms by (auto simp: execute_def)
  show ?thesis
  proof (cases r1)
    case (Inl e)
    then have "\<exists>mr. n = Waiting RETRIEVE_COMMAND mr"
      using assms c1
      by (cases e) (auto simp: execute_def execute_handler_def co_raise_def co_bind_def co_return_def split: prod.splits sum.splits)
    then show ?thesis by auto
  next
    case (Inr n')
    then have n: "n' = n"
      using assms c1 by (auto simp: execute_def)
    have update: "\<exists>mr. n = Waiting STASH_COMMAND mr \<or> (\<exists>code. n = Terminate code)"
      if "update_loop fuel w c = Some (c1, Inr n)" for fuel c
      using that by (induction fuel arbitrary: c) (auto split: prod.splits sum.splits option.splits if_splits)
    show ?thesis
      using c1 Inr n
      by (cases cmd)
         (auto simp: execute_command_def co_bind_def co_return_def dest: update
           split: prod.splits sum.splits option.splits if_splits submit_result.splits)
  qed
qed

theorem execute_order_witness:
  "\<exists>c'. execute 0 (calm_world True (JobId ''1'')) UPLOAD_COMMAND (calm_job 2) = Some (c', Inr (Waiting STASH_COMMAND None)) \<and>
     (UPLOAD_COMMAND, STASH_COMMAND) \<in> {(UPLOAD_COMMAND, SUBMIT_COMMAND), (UPLOAD_COMMAND, STASH_COMMAND), (SUBMIT_COMMAND, UPDATE_COMMAND),
          (UPDATE_COMMAND, STASH_COMMAND), (STASH_COMMAND, RETRIEVE_COMMAND)}"
proof -
  obtain c' where c': "execute 0 (calm_world True (JobId ''1'')) UPLOAD_COMMAND (calm_job 2) =
      Some (c', Inr (Waiting STASH_COMMAND None))"
    using calm_upload [of True "JobId ''1''" 2] by simp
  from execute_order [OF this] c' show ?thesis
    by simp
qed

section \<open>A job that meets no failure\<close>

text \<open>A world in which every operation succeeds, and a measure of the time until the scheduler reports the
  job as done.\<close>

definition succeeds :: "('e, 'a) coro \<Rightarrow> bool" where
  "succeeds m \<longleftrightarrow> (\<forall>e. \<exists>e' a. m e = (e', Inr a))"

definition no_failures :: "'e world \<Rightarrow> ('e \<Rightarrow> nat) \<Rightarrow> bool" where
  "no_failures w remaining \<longleftrightarrow>
     0 < maximum_attempts w \<and> succeeds (request_transport w) \<and> (\<forall>e. \<exists>e'. presubmit w e = (e', Inr (Some False))) \<and>
     succeeds (upload_files w) \<and> (\<forall>e. \<exists>e' i. submit_job w e = (e', Inr (JobId i))) \<and> succeeds (stash_files w) \<and>
     succeeds (retrieve_files w) \<and>
     (\<forall>e. \<exists>e' info. request_job_info w e = (e', Inr info) \<and>
        (info \<in> {None, Some DONE} \<or> remaining e' < remaining e))"

lemma attempts: "no_failures w \<mu> \<Longrightarrow> 0 < maximum_attempts w"
  by (simp add: no_failures_def)

lemma bind_ok: "m c = (c1, Inr a) \<Longrightarrow> co_bind m f c = f a c1"
  by (simp add: co_bind_def)

definition untouched :: "'e calcjob \<Rightarrow> 'e calcjob \<Rightarrow> bool" where
  "untouched c c' \<longleftrightarrow> cj_stash c' = cj_stash c \<and> cj_monitors c' = cj_monitors c \<and>
     cj_monitor_result c' = cj_monitor_result c \<and> cj_killing c' = cj_killing c"

lemma untouched_refl [simp]: "untouched c c" by (simp add: untouched_def)

lemma execute_ok:
  "execute_command fuel w cmd c = Some (c', Inr n) \<Longrightarrow> cj_killing c' = NoKilling \<Longrightarrow> execute fuel w cmd c = Some (c', Inr n)"
  by (simp add: execute_def resolve_killing_def)

lemma upload_ok:
  assumes "no_failures w \<mu>" "cj_state c = None" "cj_killing c = NoKilling"
  shows "\<exists>c'. execute fuel w UPLOAD_COMMAND c = Some (c', Inr (Waiting SUBMIT_COMMAND None)) \<and> untouched c c' \<and>
    cj_job_id c' = cj_job_id c \<and> cj_state c' = Some SUBMITTING"
proof -
  obtain e1 where e1: "request_transport w (cj_world c) = (e1, Inr ())"
    using assms(1) unfolding no_failures_def succeeds_def by (metis old.unit.exhaust)
  obtain e2 where e2: "presubmit w e1 = (e2, Inr (Some False))"
    using assms(1) unfolding no_failures_def by blast
  obtain e3 f where e3: "upload_files w e2 = (e3, Inr f)"
    using assms(1) unfolding no_failures_def succeeds_def by blast
  obtain c1 where c1: "do_upload w c = (c1, Inr False)" "untouched c c1" "cj_job_id c1 = cj_job_id c"
    using e1 e2 e3 by (cases f) (simp_all add: do_upload_def coro_simps untouched_def)
  have "task_upload_job w c = (c1\<lparr>cj_state := Some SUBMITTING\<rparr>, Inr (Some False))"
    using with_retries_ok [of w "do_upload w", OF attempts [OF assms(1)] c1(1)] assms(2)
    by (simp add: task_upload_job_def coro_simps)
  then show ?thesis
    using c1 assms(3)
    by (intro exI [of _ "c1\<lparr>cj_state := Some SUBMITTING\<rparr>"] conjI execute_ok)
       (simp_all add: execute_command_def coro_simps is_true_def untouched_def)
qed

lemma submit_ok:
  assumes "no_failures w \<mu>" "cj_state c = Some SUBMITTING" "cj_killing c = NoKilling"
  shows "\<exists>c'. execute fuel w SUBMIT_COMMAND c = Some (c', Inr (Waiting UPDATE_COMMAND None)) \<and> untouched c c' \<and>
    cj_job_id c' \<noteq> None \<and> cj_state c' = Some WITHSCHEDULER"
proof -
  obtain e1 where e1: "request_transport w (cj_world c) = (e1, Inr ())"
    using assms(1) unfolding no_failures_def succeeds_def by (metis old.unit.exhaust)
  obtain e2 i where e2: "submit_job w e1 = (e2, Inr (JobId i))"
    using assms(1) unfolding no_failures_def by blast
  obtain c1 j where c1: "co_bind (on_world (request_transport w)) (\<lambda>_. submit_calculation w) c = (c1, Inr (JobId j))"
    "untouched c c1" "cj_job_id c1 = Some j"
    using e1 e2 by (cases "cj_job_id c") (simp_all add: submit_calculation_def coro_simps untouched_def)
  have "task_submit_job w c = (c1\<lparr>cj_state := Some WITHSCHEDULER\<rparr>, Inr (Some (JobId j)))"
    using with_retries_ok [of w "co_bind (on_world (request_transport w)) (\<lambda>_. submit_calculation w)",
        OF attempts [OF assms(1)] c1(1)] assms(2)
    by (simp add: task_submit_job_def) (simp add: coro_simps)
  then show ?thesis
    using c1 assms(3)
    by (intro exI [of _ "c1\<lparr>cj_state := Some WITHSCHEDULER\<rparr>"] conjI execute_ok)
       (simp_all add: execute_command_def coro_simps untouched_def)
qed

lemma update_round_ok:
  assumes "no_failures w \<mu>" "cj_state c = Some WITHSCHEDULER" "cj_monitors c = None"
  shows "\<exists>c' b. update_round w c = (c', Inr (b, None)) \<and> untouched c c' \<and> cj_job_id c' = cj_job_id c \<and>
    (if b then cj_state c' = Some STASHING
     else cj_state c' = Some WITHSCHEDULER \<and> \<mu> (cj_world c') < \<mu> (cj_world c))"
proof -
  obtain e info where e: "request_job_info w (cj_world c) = (e, Inr info)"
    "info \<in> {None, Some DONE} \<or> \<mu> e < \<mu> (cj_world c)"
    using assms(1) unfolding no_failures_def by blast
  define b where "b \<longleftrightarrow> info = None \<or> info = Some DONE"
  define c1 where "c1 = c\<lparr>cj_world := e, cj_scheduler_state := Some (case info of None \<Rightarrow> DONE | Some s \<Rightarrow> s)\<rparr>"
  have "do_update w c = (c1, Inr b)"
    using e(1) by (simp add: do_update_def coro_simps c1_def b_def)
  from with_retries_ok [of w "do_update w", OF attempts [OF assms(1)] this]
  have "task_update_job w c = (if b then c1\<lparr>cj_state := Some STASHING\<rparr> else c1, Inr (Some b))"
    using assms(2) by (simp add: task_update_job_def coro_simps is_true_def)
  moreover have "cj_monitors (if b then c1\<lparr>cj_state := Some STASHING\<rparr> else c1) = None"
    using assms(3) by (simp add: c1_def)
  ultimately have "update_round w c = (if b then c1\<lparr>cj_state := Some STASHING\<rparr> else c1, Inr (b, None))"
    by (simp add: update_round_def bind_ok monitor_job_def is_true_def) (simp add: coro_simps)
  then show ?thesis
    using e(2) assms(2)
    by (intro exI [of _ "if b then c1\<lparr>cj_state := Some STASHING\<rparr> else c1"] exI [of _ b])
       (auto simp: c1_def b_def untouched_def)
qed

lemma update_ok:
  assumes "no_failures w \<mu>" "cj_state c = Some WITHSCHEDULER" "cj_monitors c = None" "cj_killing c = NoKilling"
    "\<mu> (cj_world c) < fuel"
  shows "\<exists>c'. execute fuel w UPDATE_COMMAND c = Some (c', Inr (Waiting STASH_COMMAND None)) \<and> untouched c c' \<and>
    cj_job_id c' = cj_job_id c \<and> cj_state c' = Some STASHING"
proof -
  have "\<exists>c'. update_loop fuel w c = Some (c', Inr (Waiting STASH_COMMAND None)) \<and> untouched c c' \<and>
    cj_job_id c' = cj_job_id c \<and> cj_state c' = Some STASHING"
    using assms(2,3,5)
  proof (induction fuel arbitrary: c)
    case (Suc fuel)
    obtain c1 b where c1: "update_round w c = (c1, Inr (b, None))" "untouched c c1" "cj_job_id c1 = cj_job_id c"
      "if b then cj_state c1 = Some STASHING
       else cj_state c1 = Some WITHSCHEDULER \<and> \<mu> (cj_world c1) < \<mu> (cj_world c)"
      using update_round_ok [OF assms(1) Suc(2,3)] by blast
    show ?case
    proof (cases b)
      case False
      then have "cj_state c1 = Some WITHSCHEDULER" "cj_monitors c1 = None" "\<mu> (cj_world c1) < fuel"
        using c1 Suc(3,4) by (simp_all add: untouched_def)
      from Suc(1) [OF this] show ?thesis
        using c1 False by (auto simp: untouched_def)
    qed (use c1 in simp)
  qed simp
  then obtain c' where "execute_command fuel w UPDATE_COMMAND c = Some (c', Inr (Waiting STASH_COMMAND None))"
    "untouched c c'" "cj_job_id c' = cj_job_id c" "cj_state c' = Some STASHING"
    by (auto simp: execute_command_def)
  then show ?thesis
    using assms(4) by (intro exI [of _ c'] conjI execute_ok) (simp_all add: untouched_def)
qed

lemma stash_ok:
  assumes "no_failures w \<mu>" "cj_state c = Some STASHING" "cj_killing c = NoKilling"
  shows "\<exists>c'. execute fuel w STASH_COMMAND c = Some (c', Inr (Waiting RETRIEVE_COMMAND (cj_monitor_result c))) \<and>
    untouched c c' \<and> cj_job_id c' = cj_job_id c \<and> cj_state c' \<noteq> Some PARSING"
proof -
  obtain e1 where e1: "request_transport w (cj_world c) = (e1, Inr ())"
    using assms(1) unfolding no_failures_def succeeds_def by (metis old.unit.exhaust)
  obtain e2 where e2: "stash_files w e1 = (e2, Inr ())"
    using assms(1) unfolding no_failures_def succeeds_def by (metis old.unit.exhaust)
  have "co_bind (on_world (request_transport w)) (\<lambda>_. on_world (stash_files w)) c = (c\<lparr>cj_world := e2\<rparr>, Inr ())"
    using e1 e2 by (simp add: coro_simps)
  from with_retries_ok [of w "co_bind (on_world (request_transport w)) (\<lambda>_. on_world (stash_files w))",
      OF attempts [OF assms(1)] this]
  have "task_stash_job w c = (c\<lparr>cj_world := e2, cj_state := Some RETRIEVING\<rparr>, Inr ())"
    using assms(2) by (simp add: task_stash_job_def) (simp add: coro_simps)
  then show ?thesis
    using assms(2,3)
    by (intro exI [of _ "if cj_stash c then c\<lparr>cj_world := e2, cj_state := Some RETRIEVING\<rparr> else c"] conjI execute_ok)
       (simp_all add: execute_command_def coro_simps untouched_def)
qed

lemma retrieve_ok:
  assumes "no_failures w \<mu>" "cj_state c \<noteq> Some PARSING" "cj_killing c = NoKilling" "cj_monitor_result c = None"
  shows "\<exists>c'. execute fuel w RETRIEVE_COMMAND c = Some (c', Inr (Parse None)) \<and> cj_job_id c' = cj_job_id c \<and>
    cj_state c' = Some PARSING"
proof -
  obtain e1 where e1: "request_transport w (cj_world c) = (e1, Inr ())"
    using assms(1) unfolding no_failures_def succeeds_def by (metis old.unit.exhaust)
  obtain e2 f where e2: "retrieve_files w e1 = (e2, Inr f)"
    using assms(1) unfolding no_failures_def succeeds_def by blast
  obtain c1 where c1: "do_retrieve w c = (c1, Inr f)" "untouched c c1" "cj_job_id c1 = cj_job_id c"
    using e1 e2 by (cases f) (simp_all add: do_retrieve_def coro_simps untouched_def)
  have "task_retrieve_job w c = (c1\<lparr>cj_state := Some PARSING\<rparr>, Inr ())"
    using with_retries_ok [of w "do_retrieve w", OF attempts [OF assms(1)] c1(1)] assms(2)
    by (simp add: task_retrieve_job_def coro_simps)
  then show ?thesis
    using c1 assms(3,4)
    by (intro exI [of _ "c1\<lparr>cj_state := Some PARSING\<rparr>"] conjI execute_ok)
       (simp_all add: execute_command_def coro_simps untouched_def)
qed

lemma execute_fuel: "cmd \<noteq> UPDATE_COMMAND \<Longrightarrow> execute fuel w cmd c = execute fuel' w cmd c"
  by (cases cmd) (simp_all add: execute_def execute_command_def)

lemma enter_waiting_fields [simp]:
  "cj_state (enter_waiting mr c) = cj_state c" "cj_killing (enter_waiting mr c) = NoKilling"
  "cj_monitor_result (enter_waiting mr c) = mr" "cj_monitors (enter_waiting mr c) = cj_monitors c"
  "cj_job_id (enter_waiting mr c) = cj_job_id c" "cj_world (enter_waiting mr c) = cj_world c"
  by (simp_all add: enter_waiting_def)

text \<open>C25: A job without monitors that meets no failure, and which the scheduler reports as done at some time,
  is uploaded, submitted, polled until it is done, stashed and retrieved, and then parsed.\<close>

theorem calcjob_completes:
  assumes "no_failures w \<mu>" "cj_state c = None" "cj_monitors c = None" "cj_killing c = NoKilling"
  shows "\<exists>fuel c'. run_commands 5 fuel w UPLOAD_COMMAND c =
      Some (c', [UPLOAD_COMMAND, SUBMIT_COMMAND, UPDATE_COMMAND, STASH_COMMAND, RETRIEVE_COMMAND], Inr (Parse None)) \<and>
    cj_job_id c' \<noteq> None \<and> cj_state c' = Some PARSING"
proof -
  obtain c1 where c1: "execute 0 w UPLOAD_COMMAND c = Some (c1, Inr (Waiting SUBMIT_COMMAND None))" "untouched c c1"
    "cj_state c1 = Some SUBMITTING"
    using upload_ok [OF assms(1,2,4)] by blast
  obtain c2 where c2: "execute 0 w SUBMIT_COMMAND (enter_waiting None c1) = Some (c2, Inr (Waiting UPDATE_COMMAND None))"
    "untouched (enter_waiting None c1) c2" "cj_job_id c2 \<noteq> None" "cj_state c2 = Some WITHSCHEDULER"
    using submit_ok [OF assms(1), of "enter_waiting None c1" 0] c1(3) by auto
  define fuel where "fuel = Suc (\<mu> (cj_world c2))"
  obtain c3 where c3: "execute fuel w UPDATE_COMMAND (enter_waiting None c2) = Some (c3, Inr (Waiting STASH_COMMAND None))"
    "cj_job_id c3 = cj_job_id c2" "cj_state c3 = Some STASHING"
    using update_ok [OF assms(1), of "enter_waiting None c2" fuel] c2 c1(2) assms(3) by (auto simp: untouched_def fuel_def)
  obtain c4 where c4: "execute fuel w STASH_COMMAND (enter_waiting None c3) = Some (c4, Inr (Waiting RETRIEVE_COMMAND None))"
    "cj_job_id c4 = cj_job_id c3" "cj_state c4 \<noteq> Some PARSING"
    using stash_ok [OF assms(1), of "enter_waiting None c3" fuel] c3 by auto
  obtain c5 where c5: "execute fuel w RETRIEVE_COMMAND (enter_waiting None c4) = Some (c5, Inr (Parse None))"
    "cj_job_id c5 = cj_job_id c4" "cj_state c5 = Some PARSING"
    using retrieve_ok [OF assms(1), of "enter_waiting None c4" fuel] c4 by auto
  show ?thesis
    using c1(1) c2(1,3) c3(1,2) c4(1,2) c5 execute_fuel [of UPLOAD_COMMAND fuel w c 0]
      execute_fuel [of SUBMIT_COMMAND fuel w "enter_waiting None c1" 0]
    by (intro exI [of _ fuel] exI [of _ c5]) (simp add: numeral_eq_Suc)
qed

lemma calm_no_failures: "no_failures (calm_world False (JobId ''1'')) id"
  by (auto simp: no_failures_def succeeds_def calm_world_def)

theorem calcjob_completes_witness:
  "\<exists>fuel c'. run_commands 5 fuel (calm_world False (JobId ''1'')) UPLOAD_COMMAND (calm_job 3) =
      Some (c', [UPLOAD_COMMAND, SUBMIT_COMMAND, UPDATE_COMMAND, STASH_COMMAND, RETRIEVE_COMMAND], Inr (Parse None))"
  using calcjob_completes [OF calm_no_failures, of "calm_job 3"] by (auto simp: calm_job_def)

section \<open>Executing a command again\<close>

lemma upload_again: "cj_state c = Some SUBMITTING \<Longrightarrow> execute fuel w UPLOAD_COMMAND c =
    Some (resolve_killing c, Inr (Waiting SUBMIT_COMMAND None))"
  by (simp add: execute_def execute_command_def task_upload_job_def co_bind_def co_return_def is_true_def)

text \<open>The upload command does not remember that the submission is to be skipped.  When it is executed
  again after it has gone to stash, because the daemon stopped before the transition was recorded, it
  goes to submit.\<close>

theorem skip_submit_forgotten:
  assumes "execute fuel w UPLOAD_COMMAND c = Some (c', Inr (Waiting STASH_COMMAND mr))"
  shows "\<exists>c''. execute fuel' w UPLOAD_COMMAND (enter_waiting mr' c') = Some (c'', Inr (Waiting SUBMIT_COMMAND None))"
proof -
  obtain c1 r1 where c1: "execute_command fuel w UPLOAD_COMMAND c = Some (c1, r1)"
    using assms by (auto simp: execute_def)
  have "r1 = Inr (Waiting STASH_COMMAND mr)"
    using assms c1
    by (cases r1)
       (auto simp: execute_def execute_handler_def co_raise_def co_bind_def co_return_def
         split: prod.splits sum.splits task_exc.splits)
  then have "cj_state c1 = Some SUBMITTING"
    using c1
    by (auto simp: execute_command_def task_upload_job_def co_bind_def co_return_def co_modify_def set_state_def is_true_def
        split: prod.splits sum.splits if_splits)
  then have "cj_state c' = Some SUBMITTING"
    using assms c1 \<open>r1 = _\<close> by (auto simp: execute_def resolve_killing_def)
  then show ?thesis
    using upload_again [of "enter_waiting mr' c'" fuel' w] by simp
qed

theorem skip_submit_forgotten_witness:
  "\<exists>c' c''. execute 0 (calm_world True (JobId ''1'')) UPLOAD_COMMAND (calm_job 0) = Some (c', Inr (Waiting STASH_COMMAND None)) \<and>
     execute 0 (calm_world True (JobId ''1'')) UPLOAD_COMMAND (enter_waiting None c') = Some (c'', Inr (Waiting SUBMIT_COMMAND None))"
proof -
  obtain c' where c': "execute 0 (calm_world True (JobId ''1'')) UPLOAD_COMMAND (calm_job 0) =
      Some (c', Inr (Waiting STASH_COMMAND None))"
    using calm_upload [of True "JobId ''1''" 0] by simp
  then show ?thesis
    using skip_submit_forgotten [OF c', of 0 None] by blast
qed

lemma backoff_result: "backoff_loop m ignore k xs interval s = (s', Inr (Some a), sleeps) \<Longrightarrow> \<exists>s1. m s1 = (s', Inr a)"
  by (induction xs arbitrary: s interval sleeps) (auto split: prod.splits sum.splits if_splits)

lemma with_retries_result: "with_retries w ignore passed m c = (c', Inr (Some a)) \<Longrightarrow> \<exists>c1. m c1 = (c', Inr a)"
  by (auto simp: with_retries_def exponential_backoff_retry_def split: prod.splits sum.splits dest: backoff_result)

lemma submit_exit_no_id:
  "co_bind (on_world (request_transport w)) (\<lambda>_. submit_calculation w) c = (c', Inr (SubmitExit code)) \<Longrightarrow> cj_job_id c' = None"
  by (auto simp: submit_calculation_def coro_simps split: prod.splits sum.splits option.splits submit_result.splits)

lemma set_state_then: "co_bind (set_state st) (\<lambda>_. co_return a) c = (c\<lparr>cj_state := Some st\<rparr>, Inr a)"
  by (simp add: coro_simps)

lemma submit_exit_state:
  assumes "execute_command fuel w SUBMIT_COMMAND c = Some (c1, Inr (Terminate code))"
  shows "cj_state c1 = Some WITHSCHEDULER \<and> cj_job_id c1 = None"
proof -
  let ?m = "co_bind (on_world (request_transport w)) (\<lambda>_. submit_calculation w)"
  have t: "task_submit_job w c = (c1, Inr (Some (SubmitExit code)))"
    using assms by (auto simp: execute_command_def co_bind_def co_return_def
        split: prod.splits sum.splits option.splits submit_result.splits)
  then have "cj_state c \<noteq> Some WITHSCHEDULER"
    by (auto simp: task_submit_job_def split: option.splits)
  with t obtain c2 where c2: "with_retries w is_interruption is_interruption ?m c = (c2, Inr (Some (SubmitExit code)))"
    "c1 = c2\<lparr>cj_state := Some WITHSCHEDULER\<rparr>"
    by (auto simp: task_submit_job_def co_bind_def [of "with_retries _ _ _ _"] set_state_then split: prod.splits sum.splits)
  then show ?thesis
    using with_retries_result [OF c2(1)] submit_exit_no_id by fastforce
qed

text \<open>When the scheduler refuses a job with an exit code, the job is marked as being with the scheduler
  all the same.  If the daemon stops before the job is terminated, executing the command again raises
  an \<open>AssertionError\<close> instead of terminating the job with the exit code.\<close>

theorem refused_submission_again:
  assumes "execute fuel w SUBMIT_COMMAND c = Some (c', Inr (Terminate code))"
  shows "\<exists>c''. execute fuel' w SUBMIT_COMMAND (enter_waiting mr c') = Some (c'', Inl (TaskError AssertionError))"
proof -
  obtain c1 r1 where c1: "execute_command fuel w SUBMIT_COMMAND c = Some (c1, r1)"
    using assms by (auto simp: execute_def)
  have r1: "r1 = Inr (Terminate code)"
    using assms c1
    by (cases r1)
       (auto simp: execute_def execute_handler_def co_raise_def co_bind_def co_return_def
         split: prod.splits sum.splits task_exc.splits)
  then have "cj_state c' = Some WITHSCHEDULER" "cj_job_id c' = None"
    using submit_exit_state [of fuel w c c1 code] c1 assms by (auto simp: execute_def resolve_killing_def)
  then show ?thesis
    by (simp add: execute_def execute_command_def task_submit_job_def co_bind_def execute_handler_def co_raise_def)
qed

lemma calm_refused:
  "\<exists>c'. execute 0 (calm_world False (SubmitExit code)) SUBMIT_COMMAND (calm_job 0) = Some (c', Inr (Terminate code))"
proof -
  let ?w = "calm_world False (SubmitExit code)"
  have "co_bind (on_world (request_transport ?w)) (\<lambda>_. submit_calculation ?w) (calm_job 0) = (calm_job 0, Inr (SubmitExit code))"
    by (simp add: submit_calculation_def coro_simps calm_world_def calm_job_def)
  from with_retries_ok [of ?w "co_bind (on_world (request_transport ?w)) (\<lambda>_. submit_calculation ?w)", OF _ this]
  have "task_submit_job ?w (calm_job 0) = ((calm_job 0)\<lparr>cj_state := Some WITHSCHEDULER\<rparr>, Inr (Some (SubmitExit code)))"
    by (simp add: task_submit_job_def calm_job_def calm_world_def) (simp add: coro_simps)
  then show ?thesis
    by (simp add: execute_def execute_command_def co_bind_def co_return_def)
qed

theorem refused_submission_again_witness:
  "\<exists>c' c''. execute 0 (calm_world False (SubmitExit (ExitCode 131 None False))) SUBMIT_COMMAND (calm_job 0) =
       Some (c', Inr (Terminate (ExitCode 131 None False))) \<and>
     execute 0 (calm_world False (SubmitExit (ExitCode 131 None False))) SUBMIT_COMMAND (enter_waiting None c') =
       Some (c'', Inl (TaskError AssertionError))"
proof -
  obtain c' where c': "execute 0 (calm_world False (SubmitExit (ExitCode 131 None False))) SUBMIT_COMMAND (calm_job 0) =
       Some (c', Inr (Terminate (ExitCode 131 None False)))"
    using calm_refused by blast
  then show ?thesis
    using refused_submission_again [OF c', of 0 None] by blast
qed

text \<open>A transport task that fails in every attempt pauses the process, but not when it is the task that
  kills the job on request: then the exception is raised out of the waiting state.\<close>

theorem failed_kill_not_paused:
  assumes "execute_command fuel w cmd c = Some (c1, Inl e)"
  shows "(e = TransportTaskException \<longrightarrow> execute fuel w cmd c = Some (resolve_killing c1, Inl PauseInterruption)) \<and>
    (e = KillInterruption \<longrightarrow> snd (kill_job w c1) = Inl TransportTaskException \<longrightarrow>
       execute fuel w cmd c = Some (resolve_killing (fst (kill_job w c1)), Inl TransportTaskException))"
  using assms by (cases "kill_job w c1") (auto simp: execute_def execute_handler_def co_raise_def co_bind_def)

definition stubborn_world :: "nat world" where
  "stubborn_world =
     (calm_world False (JobId ''1''))\<lparr>request_job_info := (\<lambda>e. (e, Inl KillInterruption)),
        scheduler_kill_job := (\<lambda>e. (e, Inl (TaskError OSError))), maximum_attempts := 1\<rparr>"

definition stubborn_job :: "nat calcjob" where
  "stubborn_job = (calm_job 0)\<lparr>cj_state := Some WITHSCHEDULER, cj_job_id := Some ''1''\<rparr>"

lemma stubborn_poll: "execute_command 1 stubborn_world UPDATE_COMMAND stubborn_job = Some (stubborn_job, Inl KillInterruption)"
  by (simp add: execute_command_def numeral_eq_Suc update_round_def task_update_job_def with_retries_def do_update_def
      exponential_backoff_retry_def stubborn_world_def stubborn_job_def calm_job_def calm_world_def coro_simps)

lemma stubborn_kill: "snd (kill_job stubborn_world stubborn_job) = Inl TransportTaskException"
  by (simp add: kill_job_def task_kill_job_def with_retries_def kill_calculation_def
      exponential_backoff_retry_def stubborn_world_def stubborn_job_def calm_job_def calm_world_def coro_simps)

theorem failed_kill_not_paused_witness:
  "execute 1 stubborn_world UPDATE_COMMAND stubborn_job =
     Some (resolve_killing (fst (kill_job stubborn_world stubborn_job)), Inl TransportTaskException)"
  using failed_kill_not_paused [OF stubborn_poll] stubborn_kill by blast

end
