(* ===== verification/Aiida_Event_Loop.thy ===== *)
theory Aiida_Event_Loop
  imports Aiida_Prelude
begin

text \<open>
  What the components that live on the event loop share: the futures of \<open>asyncio\<close>, the states
  that a sequence of events reaches, and the principle that what every event keeps holds in all of
  them.  An event is one uninterrupted stretch of code between two \<open>await\<close>s or one callback of
  the loop; the loop runs one at a time.
\<close>

section \<open>Futures\<close>

datatype 'v future = Pending | Result 'v | Excepted py_exc | Cancelled

fun future_done :: "'v future \<Rightarrow> bool" where
  "future_done Pending \<longleftrightarrow> False"
| "future_done _ \<longleftrightarrow> True"

lemma not_done_iff [simp]: "\<not> future_done f \<longleftrightarrow> f = Pending"
  by (cases f) auto

text \<open>\<open>set_result\<close> and \<open>set_exception\<close> raise when the future is done, \<open>cancel\<close> then has no effect.\<close>

definition future_set_result :: "'v \<Rightarrow> 'v future \<Rightarrow> 'v future res" where
  "future_set_result v f = (if future_done f then Inl InvalidStateError else Inr (Result v))"

definition future_set_exception :: "py_exc \<Rightarrow> 'v future \<Rightarrow> 'v future res" where
  "future_set_exception e f = (if future_done f then Inl InvalidStateError else Inr (Excepted e))"

definition cancel :: "'v future \<Rightarrow> 'v future" where
  "cancel f = (if future_done f then f else Cancelled)"

section \<open>Sequences of events\<close>

text \<open>The states that events allowed by \<open>ok\<close> reach from \<open>s\<close>: an event happens only when it is enabled.\<close>

inductive reaches :: "('s \<Rightarrow> 'e \<Rightarrow> bool) \<Rightarrow> ('e \<Rightarrow> 's \<Rightarrow> 's) \<Rightarrow> ('e \<Rightarrow> bool) \<Rightarrow> 's \<Rightarrow> 's \<Rightarrow> bool"
  for enabled apply_event ok where
  reaches_refl [intro!, simp]: "reaches enabled apply_event ok s s"
| reaches_step: "\<lbrakk> reaches enabled apply_event ok s t; enabled t e; ok e \<rbrakk>
    \<Longrightarrow> reaches enabled apply_event ok s (apply_event e t)"

lemma reaches_trans:
  assumes "reaches enabled apply_event ok t u" "reaches enabled apply_event ok s t"
  shows "reaches enabled apply_event ok s u"
  using assms by (induction rule: reaches.induct) (auto intro: reaches_step)

lemma reaches_weaken:
  assumes "reaches enabled apply_event ok s t" "\<And>e. ok e \<Longrightarrow> ok' e"
  shows "reaches enabled apply_event ok' s t"
  using assms by (induction rule: reaches.induct) (auto intro: reaches_step)

text \<open>Executing a list of events, for concrete runs: \<open>None\<close> when one of them is not enabled.\<close>

fun run_events :: "('s \<Rightarrow> 'e \<Rightarrow> bool) \<Rightarrow> ('e \<Rightarrow> 's \<Rightarrow> 's) \<Rightarrow> 'e list \<Rightarrow> 's \<Rightarrow> 's option" where
  "run_events enabled apply_event [] s = Some s"
| "run_events enabled apply_event (e # es) s =
     (if enabled s e then run_events enabled apply_event es (apply_event e s) else None)"

lemma run_events_reaches:
  assumes "run_events enabled apply_event es s = Some t" "list_all ok es"
  shows "reaches enabled apply_event ok s t"
  using assms
proof (induction es arbitrary: s)
  case Nil
  then show ?case by simp
next
  case (Cons e es)
  then have "enabled s e" "reaches enabled apply_event ok (apply_event e s) t"
    by (auto split: if_splits)
  moreover have "reaches enabled apply_event ok s (apply_event e s)"
    using Cons.prems \<open>enabled s e\<close> by (auto intro: reaches_step)
  ultimately show ?case
    by (blast intro: reaches_trans)
qed

text \<open>The contract of a component: an invariant that holds at the start and that every allowed event
  keeps.  Then it holds in every state the component reaches.\<close>

locale event_invariant =
  fixes enabled :: "'s \<Rightarrow> 'e \<Rightarrow> bool"
    and apply_event :: "'e \<Rightarrow> 's \<Rightarrow> 's"
    and ok :: "'e \<Rightarrow> bool"
    and start :: "'s \<Rightarrow> bool"
    and invar :: "'s \<Rightarrow> bool"
  assumes invar_start: "start s \<Longrightarrow> invar s"
    and invar_event: "\<lbrakk> invar s; enabled s e; ok e \<rbrakk> \<Longrightarrow> invar (apply_event e s)"
begin

lemma invar_reaches:
  assumes "reaches enabled apply_event ok s t" "invar s"
  shows "invar t"
  using assms by (induction rule: reaches.induct) (auto intro: invar_event)

lemma invar_reachable: "\<lbrakk> reaches enabled apply_event ok s t; start s \<rbrakk> \<Longrightarrow> invar t"
  by (blast intro: invar_reaches invar_start)

lemma invar_run:
  assumes "run_events enabled apply_event es s = Some t" "list_all ok es" "start s"
  shows "invar t"
  using run_events_reaches [OF assms(1,2)] assms(3) by (rule invar_reachable)

end

end
