(* ===== verification/Aiida_Transport_Queue.thy ===== *)
theory Aiida_Transport_Queue
  imports Aiida_Event_Loop
begin

text \<open>
  The transport queue of \<open>engine/transports.py\<close>: clients enter and leave the context manager
  \<open>request_transport\<close>; all clients of one \<open>AuthInfo\<close> share a \<open>TransportRequest\<close>, whose transport
  is opened by a callback of the loop after the safe interval and closed when the last client leaves.

  The \<open>TransportRequest\<close> objects are the elements of a list, in the order of their creation, so that
  the closure \<open>do_open\<close> and a client keep the object they captured when the dictionary changes.
  What happens outside enters with the events: whether \<open>authinfo.get_transport()\<close>, \<open>transport.open()\<close>
  and \<open>transport.close()\<close> raise.  Times are integers; the clock of the loop never goes back.  No client
  cancels the future it was given, so the state \<open>Cancelled\<close> does not occur here.
\<close>

section \<open>State\<close>

text \<open>A request with its transport and the handle of its callback: \<open>tr_open\<close> is the state of the
  transport, \<open>tr_scheduled\<close> whether the callback is still to come, \<open>tr_due\<close> its time.\<close>

record transport_request =
  tr_pk :: nat
  tr_future :: "unit future"
  tr_count :: int
  tr_open :: bool
  tr_scheduled :: bool
  tr_due :: int

text \<open>A client of the queue keeps the object and whether it got the handle of the callback.
  \<open>tq_opens\<close> records the calls of \<open>transport.open()\<close>, the last first.\<close>

record transport_queue =
  tq_now :: int
  tq_objects :: "transport_request list"
  tq_requests :: "nat \<rightharpoonup> nat"
  tq_clients :: "nat \<rightharpoonup> nat \<times> bool"
  tq_opens :: "(nat \<times> int) list"

definition new_queue :: "int \<Rightarrow> transport_queue" where
  "new_queue now = \<lparr>tq_now = now, tq_objects = [], tq_requests = Map.empty, tq_clients = Map.empty, tq_opens = []\<rparr>"

definition update_object ::
  "nat \<Rightarrow> (transport_request \<Rightarrow> transport_request) \<Rightarrow> transport_queue \<Rightarrow> transport_queue" where
  "update_object i f q = q\<lparr>tq_objects := (tq_objects q)[i := f (tq_objects q ! i)]\<rparr>"

section \<open>Operations\<close>

text \<open>Entering \<open>request_transport\<close>.  The argument \<open>transport\<close> is the outcome of
  \<open>authinfo.get_transport()\<close>: the safe open interval of the transport, or an exception, which leaves the
  generator after the new request was put in the dictionary.\<close>

definition enter_request :: "nat \<Rightarrow> nat \<Rightarrow> int res \<Rightarrow> transport_queue \<Rightarrow> transport_queue \<times> py_exc option" where
  "enter_request client pk transport q =
     (case tq_requests q pk of
        Some i \<Rightarrow>
          ((update_object i (\<lambda>tr. tr\<lparr>tr_count := tr_count tr + 1\<rparr>) q)
             \<lparr>tq_clients := (tq_clients q)(client \<mapsto> (i, False))\<rparr>, None)
      | None \<Rightarrow>
          (let i = length (tq_objects q);
               tr = \<lparr>tr_pk = pk, tr_future = Pending, tr_count = 0, tr_open = False,
                     tr_scheduled = False, tr_due = 0\<rparr>;
               q = q\<lparr>tq_objects := tq_objects q @ [tr], tq_requests := (tq_requests q)(pk \<mapsto> i)\<rparr>
           in case transport of
                Inl e \<Rightarrow> (q, Some e)
              | Inr safe_open_interval \<Rightarrow>
                  ((update_object i
                      (\<lambda>tr. tr\<lparr>tr_scheduled := True, tr_due := tq_now q + safe_open_interval, tr_count := 1\<rparr>) q)
                     \<lparr>tq_clients := (tq_clients q)(client \<mapsto> (i, True))\<rparr>, None)))"

text \<open>The callback \<open>do_open\<close>; \<open>opened\<close> is the outcome of \<open>transport.open()\<close>.\<close>

definition do_open :: "nat \<Rightarrow> unit res \<Rightarrow> transport_queue \<Rightarrow> transport_queue \<times> py_exc option" where
  "do_open i opened q =
     (let tr = tq_objects q ! i;
          q = update_object i (\<lambda>tr. tr\<lparr>tr_scheduled := False\<rparr>) q
      in if tr_count tr > 0 then
           (let q = q\<lparr>tq_opens := (tr_pk tr, tq_now q) # tq_opens q\<rparr>
            in case opened of
                 Inl e \<Rightarrow>
                   (case future_set_exception e (tr_future tr) of
                      Inl e' \<Rightarrow> (q, Some e')
                    | Inr f \<Rightarrow>
                        ((update_object i (\<lambda>tr. tr\<lparr>tr_future := f\<rparr>) q)
                           \<lparr>tq_requests := (tq_requests q)(tr_pk tr := None)\<rparr>, None))
               | Inr _ \<Rightarrow>
                   (let q = update_object i (\<lambda>tr. tr\<lparr>tr_open := True\<rparr>) q
                    in case future_set_result () (tr_future tr) of
                         Inl e' \<Rightarrow> (q, Some e')
                       | Inr f \<Rightarrow> (update_object i (\<lambda>tr. tr\<lparr>tr_future := f\<rparr>) q, None)))
         else (q, None))"

text \<open>Leaving the context, the \<open>finally\<close> block; \<open>closed\<close> is the outcome of \<open>transport.close()\<close>.
  \<open>future.result()\<close> raises the exception of the future.\<close>

definition leave_request :: "nat \<Rightarrow> unit res \<Rightarrow> transport_queue \<Rightarrow> transport_queue \<times> py_exc option" where
  "leave_request client closed q =
     (case tq_clients q client of
        None \<Rightarrow> (q, None)
      | Some (i, has_handle) \<Rightarrow>
          (let q = (update_object i (\<lambda>tr. tr\<lparr>tr_count := tr_count tr - 1\<rparr>) q)
                     \<lparr>tq_clients := (tq_clients q)(client := None)\<rparr>;
               tr = tq_objects q ! i;
               pop = (\<lambda>q. q\<lparr>tq_requests := (tq_requests q)(tr_pk tr := None)\<rparr>)
           in if tr_count tr < 0 then (q, Some AssertionError)
              else if tr_count tr = 0 then
                (case tr_future tr of
                   Result _ \<Rightarrow>
                     (case closed of
                        Inl e \<Rightarrow> (q, Some e)
                      | Inr _ \<Rightarrow> (pop (update_object i (\<lambda>tr. tr\<lparr>tr_open := False\<rparr>) q), None))
                 | Excepted e \<Rightarrow> (q, Some e)
                 | Cancelled \<Rightarrow> (q, Some RuntimeError)
                 | Pending \<Rightarrow>
                     (pop (if has_handle then update_object i (\<lambda>tr. tr\<lparr>tr_scheduled := False\<rparr>) q else q), None))
              else (q, None)))"

section \<open>Events\<close>

datatype tq_event =
    Enter nat nat "int res"
  | DoOpen nat "unit res"
  | Leave nat "unit res"
  | Advance int

fun tq_enabled :: "transport_queue \<Rightarrow> tq_event \<Rightarrow> bool" where
  "tq_enabled q (Enter client pk transport) \<longleftrightarrow> tq_clients q client = None"
| "tq_enabled q (DoOpen i opened) \<longleftrightarrow>
     i < length (tq_objects q) \<and> tr_scheduled (tq_objects q ! i) \<and> tr_due (tq_objects q ! i) \<le> tq_now q"
| "tq_enabled q (Leave client closed) \<longleftrightarrow> tq_clients q client \<noteq> None"
| "tq_enabled q (Advance d) \<longleftrightarrow> 0 \<le> d"

fun tq_outcome :: "tq_event \<Rightarrow> transport_queue \<Rightarrow> transport_queue \<times> py_exc option" where
  "tq_outcome (Enter client pk transport) q = enter_request client pk transport q"
| "tq_outcome (DoOpen i opened) q = do_open i opened q"
| "tq_outcome (Leave client closed) q = leave_request client closed q"
| "tq_outcome (Advance d) q = (q\<lparr>tq_now := tq_now q + d\<rparr>, None)"

definition tq_apply :: "tq_event \<Rightarrow> transport_queue \<Rightarrow> transport_queue" where
  "tq_apply e q = fst (tq_outcome e q)"

abbreviation tq_reaches :: "(tq_event \<Rightarrow> bool) \<Rightarrow> transport_queue \<Rightarrow> transport_queue \<Rightarrow> bool" where
  "tq_reaches \<equiv> reaches tq_enabled tq_apply"

text \<open>Restrictions on what happens outside: the transport of every \<open>AuthInfo\<close> can be constructed, with
  the interval configured for it, and closing a transport does not raise.\<close>

fun configured :: "(nat \<Rightarrow> int) \<Rightarrow> tq_event \<Rightarrow> bool" where
  "configured interval (Enter client pk transport) \<longleftrightarrow> transport = Inr (interval pk)"
| "configured interval _ \<longleftrightarrow> True"

fun closes :: "tq_event \<Rightarrow> bool" where
  "closes (Leave client closed) \<longleftrightarrow> closed = Inr ()"
| "closes _ \<longleftrightarrow> True"

section \<open>The invariant\<close>

definition clients_of :: "transport_queue \<Rightarrow> nat \<Rightarrow> nat set" where
  "clients_of q i = {c. map_option fst (tq_clients q c) = Some i}"

fun excepted :: "'v future \<Rightarrow> bool" where
  "excepted (Excepted e) \<longleftrightarrow> True"
| "excepted _ \<longleftrightarrow> False"

text \<open>A request with clients is the one in the dictionary until opening its transport fails; an open
  transport always is.\<close>

definition request_ok :: "transport_queue \<Rightarrow> nat \<Rightarrow> bool" where
  "request_ok q i \<longleftrightarrow>
     (let tr = tq_objects q ! i in
        tr_count tr = int (card (clients_of q i))
      \<and> (tr_scheduled tr \<longrightarrow> tr_future tr = Pending)
      \<and> tr_future tr \<noteq> Cancelled
      \<and> (tr_open tr \<longrightarrow> tr_future tr = Result () \<and> tq_requests q (tr_pk tr) = Some i)
      \<and> (tr_count tr > 0 \<longrightarrow> excepted (tr_future tr) \<or> tq_requests q (tr_pk tr) = Some i))"

definition tq_inv :: "transport_queue \<Rightarrow> bool" where
  "tq_inv q \<longleftrightarrow>
     finite (dom (tq_clients q))
   \<and> (\<forall>c i h. tq_clients q c = Some (i, h) \<longrightarrow> i < length (tq_objects q))
   \<and> (\<forall>pk i. tq_requests q pk = Some i \<longrightarrow> i < length (tq_objects q) \<and> tr_pk (tq_objects q ! i) = pk
        \<and> \<not> excepted (tr_future (tq_objects q ! i)))
   \<and> (\<forall>i < length (tq_objects q). request_ok q i)"

lemmas tq_defs = enter_request_def do_open_def leave_request_def update_object_def future_set_result_def
  future_set_exception_def Let_def

lemma tq_invD:
  assumes "tq_inv q"
  shows "finite (dom (tq_clients q))"
    and "tq_clients q c = Some (i, h) \<Longrightarrow> i < length (tq_objects q)"
    and "tq_requests q pk = Some i \<Longrightarrow> i < length (tq_objects q)"
    and "tq_requests q pk = Some i \<Longrightarrow> tr_pk (tq_objects q ! i) = pk"
    and "tq_requests q pk = Some i \<Longrightarrow> \<not> excepted (tr_future (tq_objects q ! i))"
    and "i < length (tq_objects q) \<Longrightarrow> request_ok q i"
  using assms by (auto simp: tq_inv_def)

lemma request_okD:
  assumes "request_ok q i"
  shows "tr_count (tq_objects q ! i) = int (card (clients_of q i))"
    and "tr_scheduled (tq_objects q ! i) \<Longrightarrow> tr_future (tq_objects q ! i) = Pending"
    and "tr_future (tq_objects q ! i) \<noteq> Cancelled"
    and "tr_open (tq_objects q ! i) \<Longrightarrow> tr_future (tq_objects q ! i) = Result ()"
    and "tr_open (tq_objects q ! i) \<Longrightarrow> tq_requests q (tr_pk (tq_objects q ! i)) = Some i"
    and "\<lbrakk> tr_count (tq_objects q ! i) > 0; \<not> excepted (tr_future (tq_objects q ! i)) \<rbrakk>
      \<Longrightarrow> tq_requests q (tr_pk (tq_objects q ! i)) = Some i"
  using assms by (auto simp: request_ok_def Let_def)

lemma clients_of_finite: "tq_inv q \<Longrightarrow> finite (clients_of q i)"
  by (rule finite_subset [of _ "dom (tq_clients q)"]) (auto simp: clients_of_def tq_inv_def)

lemma clients_of_enter:
  assumes "tq_clients q c = None"
  shows "clients_of (q'\<lparr>tq_clients := (tq_clients q)(c \<mapsto> (i, h))\<rparr>) j =
    (if j = i then insert c (clients_of q j) else clients_of q j)"
  using assms by (auto simp: clients_of_def)

lemma clients_of_leave:
  assumes "tq_clients q c = Some (i, h)"
  shows "clients_of (q'\<lparr>tq_clients := (tq_clients q)(c := None)\<rparr>) j =
    (if j = i then clients_of q j - {c} else clients_of q j)"
  using assms by (auto simp: clients_of_def)

lemma not_client: "tq_clients q c = None \<Longrightarrow> c \<notin> clients_of q i"
  by (simp add: clients_of_def)

lemma is_client: "tq_clients q c = Some (i, h) \<Longrightarrow> c \<in> clients_of q i"
  by (simp add: clients_of_def)

lemma clients_of_cong: "tq_clients q = tq_clients q' \<Longrightarrow> clients_of q = clients_of q'"
  by (auto simp: clients_of_def)

lemma no_clients_yet: "tq_inv q \<Longrightarrow> clients_of q (length (tq_objects q)) = {}"
  using tq_invD(2) by (fastforce simp: clients_of_def)

lemma tq_inv_enter:
  assumes inv: "tq_inv q" and new: "tq_clients q c = None"
  shows "tq_inv (fst (enter_request c pk transport q))"
proof (cases "tq_requests q pk")
  case (Some i)
  note i = tq_invD(3-5) [OF inv Some]
  let ?q = "fst (enter_request c pk transport q)"
  have c: "clients_of ?q j = (if j = i then insert c (clients_of q j) else clients_of q j)" for j
    using new Some by (auto simp: tq_defs clients_of_def)
  have "request_ok ?q j" if "j < length (tq_objects q)" for j
    using tq_invD(6) [OF inv that] i Some new clients_of_finite [OF inv]
    by (auto simp: request_ok_def c not_client)
       (auto simp: tq_defs nth_list_update not_client)
  then show ?thesis
    using inv Some i by (auto simp: tq_inv_def tq_defs nth_list_update)
next
  case None
  let ?n = "length (tq_objects q)"
  let ?q = "fst (enter_request c pk transport q)"
  have c: "clients_of ?q j = (if j = ?n \<and> is_ok transport then {c} else clients_of q j)" for j
    using new None no_clients_yet [OF inv]
    by (auto simp: tq_defs clients_of_def is_ok_def split: sum.splits)
  have "request_ok ?q j" if "j < Suc ?n" for j
  proof (cases "j = ?n")
    case True
    then show ?thesis
      using None no_clients_yet [OF inv] unfolding request_ok_def c
      by (auto simp: tq_defs is_ok_def split: sum.splits)
  next
    case False
    then have j: "j < ?n" using that by simp
    then have "tq_requests q (tr_pk (tq_objects q ! j)) = Some j" if "tr_count (tq_objects q ! j) > 0"
        "\<not> excepted (tr_future (tq_objects q ! j))"
      using request_okD(6) [OF tq_invD(6) [OF inv]] that by blast
    then show ?thesis
      using tq_invD(6) [OF inv j] None j unfolding request_ok_def c
      by (auto simp: tq_defs nth_append split: sum.splits)
  qed
  then show ?thesis
    using inv None by (auto simp: tq_inv_def tq_defs nth_append less_Suc_eq split: sum.splits if_splits)
qed

lemma request_ok_other:
  assumes "request_ok q j" "tq_objects q' ! j = tq_objects q ! j" "clients_of q' j = clients_of q j"
    and "tq_requests q' = tq_requests q
      \<or> tq_requests q' = (tq_requests q)(pk := None) \<and> tq_requests q pk = Some i \<and> i \<noteq> j"
  shows "request_ok q' j"
  using assms by (auto simp: request_ok_def Let_def split: if_splits)

lemma tq_inv_open:
  assumes inv: "tq_inv q" and en: "tq_enabled q (DoOpen i opened)"
  shows "tq_inv (fst (do_open i opened q))"
proof -
  let ?q = "fst (do_open i opened q)"
  let ?tr = "tq_objects q ! i"
  have i: "i < length (tq_objects q)" and "tr_scheduled ?tr"
    using en by auto
  note ok = tq_invD(6) [OF inv i]
  have pend: "tr_future ?tr = Pending"
    using request_okD(2) [OF ok] \<open>tr_scheduled ?tr\<close> .
  have c: "clients_of ?q j = clients_of q j" for j
    by (rule fun_cong [OF clients_of_cong]) (auto simp: tq_defs split: sum.splits)
  have len: "length (tq_objects ?q) = length (tq_objects q)"
    by (auto simp: tq_defs split: sum.splits)
  have "request_ok ?q j" if j: "j < length (tq_objects q)" for j
  proof (cases "j = i")
    case True
    then show ?thesis
      using ok pend i request_okD(6) [OF ok] unfolding request_ok_def c
      by (auto simp: tq_defs split: sum.splits)
  next
    case False
    moreover have "tq_requests ?q = tq_requests q
        \<or> tq_requests ?q = (tq_requests q)(tr_pk ?tr := None) \<and> tq_requests q (tr_pk ?tr) = Some i"
      using pend request_okD(6) [OF ok] by (auto simp: tq_defs split: sum.splits)
    moreover have "tq_objects ?q ! j = tq_objects q ! j"
      using False by (auto simp: tq_defs split: sum.splits)
    ultimately show ?thesis
      using request_ok_other [OF tq_invD(6) [OF inv j], of ?q "tr_pk ?tr" i] c by blast
  qed
  then show ?thesis
    using inv pend i request_okD(6) [OF ok] unfolding tq_inv_def len
    by (auto simp: tq_defs nth_list_update split: sum.splits if_splits)
qed

lemma tq_inv_leave:
  assumes inv: "tq_inv q" and en: "tq_clients q c = Some (i, h)"
  shows "tq_inv (fst (leave_request c closed q))"
proof -
  let ?q = "fst (leave_request c closed q)"
  let ?tr = "tq_objects q ! i"
  have i: "i < length (tq_objects q)"
    using tq_invD(2) [OF inv en] .
  note ok = tq_invD(6) [OF inv i]
  have cl: "tq_clients ?q = (tq_clients q)(c := None)"
    using en by (auto simp: tq_defs split: sum.splits future.splits)
  have c: "clients_of ?q j = (if j = i then clients_of q j - {c} else clients_of q j)" for j
    using en unfolding clients_of_def cl by auto
  have card: "card (clients_of q i - {c}) = card (clients_of q i) - 1" "card (clients_of q i) > 0"
    using is_client [OF en] clients_of_finite [OF inv] by (auto simp: card_gt_0_iff)
  have len: "length (tq_objects ?q) = length (tq_objects q)"
    using en by (auto simp: tq_defs split: sum.splits future.splits)
  have "request_ok ?q j" if j: "j < length (tq_objects q)" for j
  proof (cases "j = i")
    case True
    then show ?thesis
      using ok en i card unfolding request_ok_def c
      by (auto simp: tq_defs nth_list_update split: sum.splits future.splits)
  next
    case False
    moreover have "tq_requests ?q = tq_requests q
        \<or> tq_requests ?q = (tq_requests q)(tr_pk ?tr := None) \<and> tq_requests q (tr_pk ?tr) = Some i"
      using i en card(2) request_okD(1,6) [OF ok] by (auto simp: tq_defs split: sum.splits future.splits)
    moreover have "tq_objects ?q ! j = tq_objects q ! j"
      using en False by (auto simp: tq_defs split: sum.splits future.splits)
    ultimately show ?thesis
      using request_ok_other [OF tq_invD(6) [OF inv j], of ?q "tr_pk ?tr" i] c by auto
  qed
  then show ?thesis
    using inv i en unfolding tq_inv_def len cl
    by (auto simp: tq_defs nth_list_update split: sum.splits if_splits future.splits)
qed

lemma tq_inv_event: "\<lbrakk> tq_inv q; tq_enabled q e \<rbrakk> \<Longrightarrow> tq_inv (tq_apply e q)"
proof (cases e)
  case (Advance d)
  assume "tq_inv q"
  then show ?thesis
    unfolding tq_inv_def Advance tq_apply_def by (auto simp: request_ok_def clients_of_def)
qed (auto simp: tq_apply_def intro: tq_inv_enter tq_inv_open tq_inv_leave)



lemma count_pos:
  assumes "tq_inv q" "tq_clients q c = Some (i, h)"
  shows "tr_count (tq_objects q ! i) > 0"
  using request_okD(1) [OF tq_invD(6) [OF assms(1) tq_invD(2) [OF assms]]]
    clients_of_finite [OF assms(1)] is_client [OF assms(2)] by (auto simp: card_gt_0_iff)

section \<open>What holds when nothing fails outside\<close>

text \<open>Without failures of \<open>close()\<close> a transport is open only while it has clients; when transports can
  be constructed, a pending request in the dictionary has its callback scheduled.\<close>

definition used :: "transport_queue \<Rightarrow> bool" where
  "used q \<longleftrightarrow> (\<forall>i < length (tq_objects q). tr_open (tq_objects q ! i) \<longrightarrow> tr_count (tq_objects q ! i) > 0)"

definition answered :: "transport_queue \<Rightarrow> bool" where
  "answered q \<longleftrightarrow>
     (\<forall>pk i. tq_requests q pk = Some i \<longrightarrow> tr_future (tq_objects q ! i) = Pending \<longrightarrow>
        tr_scheduled (tq_objects q ! i) \<and> tr_count (tq_objects q ! i) > 0)"

lemma used_event:
  assumes inv: "tq_inv q" and "used q" "tq_enabled q e" "closes e"
  shows "used (tq_apply e q)"
proof (cases e)
  case (Enter c pk transport)
  show ?thesis
  proof (cases "tq_requests q pk")
    case None
    then show ?thesis
      using assms(2) unfolding used_def tq_apply_def Enter
      by (auto simp: tq_defs nth_append less_Suc_eq split: sum.splits)
  next
    case (Some i)
    then show ?thesis
      using assms(2) tq_invD(3) [OF inv Some] unfolding used_def tq_apply_def Enter
      by (auto simp: tq_defs nth_list_update)
  qed
next
  case (DoOpen i opened)
  then have "i < length (tq_objects q)"
    using assms(3) by auto
  then show ?thesis
    using assms(2) unfolding used_def tq_apply_def DoOpen
    by (auto simp: tq_defs nth_list_update split: sum.splits)
next
  case (Leave c closed)
  then obtain i h where c: "tq_clients q c = Some (i, h)"
    using assms(3) by auto
  have i: "i < length (tq_objects q)"
    using tq_invD(2) [OF inv c] .
  have "tr_open (tq_objects q ! i) \<Longrightarrow> tr_future (tq_objects q ! i) = Result ()"
    using request_okD(4) [OF tq_invD(6) [OF inv i]] .
  then show ?thesis
    using assms(2,4) c i count_pos [OF inv c] unfolding used_def tq_apply_def Leave
    by (auto simp: tq_defs nth_list_update split: sum.splits future.splits)
qed (use assms(2) in \<open>auto simp: used_def tq_apply_def\<close>)

lemma answered_event:
  assumes inv: "tq_inv q" and "answered q" "tq_enabled q e" "configured interval e"
  shows "answered (tq_apply e q)"
proof (cases e)
  case (Enter c pk transport)
  show ?thesis
  proof (cases "tq_requests q pk")
    case None
    then show ?thesis
      using assms(2,4) tq_invD(3) [OF inv] unfolding answered_def tq_apply_def Enter
      by (auto simp: tq_defs nth_append dest: order.strict_implies_not_eq)
  next
    case (Some i)
    then show ?thesis
      using assms(2) tq_invD(3) [OF inv] unfolding answered_def tq_apply_def Enter
      by (auto simp: tq_defs nth_list_update intro: less_imp_le)
  qed
next
  case (DoOpen i opened)
  then have i: "i < length (tq_objects q)" "tr_scheduled (tq_objects q ! i)"
    using assms(3) by auto
  then have pend: "tr_future (tq_objects q ! i) = Pending"
    using request_okD(2) [OF tq_invD(6) [OF inv i(1)]] by simp
  then have "tr_count (tq_objects q ! i) > 0" if "tq_requests q pk = Some i" for pk
    using assms(2) that by (auto simp: answered_def)
  then show ?thesis
    using assms(2) i pend unfolding answered_def tq_apply_def DoOpen
    by (auto simp: tq_defs nth_list_update split: sum.splits if_splits)
next
  case (Leave c closed)
  then obtain i h where c: "tq_clients q c = Some (i, h)"
    using assms(3) by auto
  have i: "i < length (tq_objects q)"
    using tq_invD(2) [OF inv c] .
  then show ?thesis
    using assms(2) c i tq_invD(4) [OF inv] count_pos [OF inv c]
    unfolding answered_def tq_apply_def Leave
    by (auto simp: tq_defs nth_list_update split: sum.splits future.splits if_splits)
qed (use assms(2) in \<open>auto simp: answered_def tq_apply_def\<close>)

text \<open>Calls of \<open>open()\<close> for one \<open>AuthInfo\<close> keep the distance of its interval, and the next one does too.\<close>

definition spaced :: "(nat \<Rightarrow> int) \<Rightarrow> (nat \<times> int) list \<Rightarrow> bool" where
  "spaced interval = sorted_wrt (\<lambda>(pk, t) (pk', t'). pk = pk' \<longrightarrow> t' + interval pk \<le> t)"

definition opens_ok :: "(nat \<Rightarrow> int) \<Rightarrow> transport_queue \<Rightarrow> bool" where
  "opens_ok interval q \<longleftrightarrow>
     (\<forall>(pk, t) \<in> set (tq_opens q). t \<le> tq_now q)
   \<and> spaced interval (tq_opens q)
   \<and> (\<forall>pk i t. tq_requests q pk = Some i \<longrightarrow> tr_scheduled (tq_objects q ! i) \<longrightarrow> (pk, t) \<in> set (tq_opens q) \<longrightarrow>
        t + interval pk \<le> tr_due (tq_objects q ! i))"

lemma opens_ok_event:
  assumes inv: "tq_inv q" and "opens_ok interval q" "tq_enabled q e" "configured interval e"
  shows "opens_ok interval (tq_apply e q)"
proof (cases e)
  case (Enter c pk transport)
  show ?thesis
  proof (cases "tq_requests q pk")
    case None
    then show ?thesis
      using assms(2,4) tq_invD(3) [OF inv] unfolding opens_ok_def tq_apply_def Enter
      by (auto simp: tq_defs nth_append dest: order.strict_implies_not_eq)
  next
    case (Some i)
    then show ?thesis
      using assms(2) tq_invD(3) [OF inv] unfolding opens_ok_def tq_apply_def Enter
      by (auto simp: tq_defs nth_list_update)
  qed
next
  case (DoOpen i opened)
  then have i: "i < length (tq_objects q)" "tr_scheduled (tq_objects q ! i)" "tr_due (tq_objects q ! i) \<le> tq_now q"
    using assms(3) by auto
  have pend: "tr_future (tq_objects q ! i) = Pending"
    using request_okD(2) [OF tq_invD(6) [OF inv i(1)]] i(2) by simp
  let ?pk = "tr_pk (tq_objects q ! i)"
  have reg: "tq_requests q ?pk = Some i" if "tr_count (tq_objects q ! i) > 0"
    using request_okD(6) [OF tq_invD(6) [OF inv i(1)] that] pend by simp
  have "t + interval ?pk \<le> tq_now q" if "tr_count (tq_objects q ! i) > 0" "(?pk, t) \<in> set (tq_opens q)" for t
    using assms(2) i reg [OF that(1)] that(2) unfolding opens_ok_def by force
  then show ?thesis
    using assms(2) i pend reg tq_invD(4) [OF inv] unfolding opens_ok_def tq_apply_def DoOpen spaced_def
    by (auto simp: tq_defs nth_list_update split: sum.splits if_splits)
next
  case (Leave c closed)
  then obtain i h where c: "tq_clients q c = Some (i, h)"
    using assms(3) by auto
  then show ?thesis
    using assms(2) c tq_invD(2) [OF inv c] tq_invD(4) [OF inv] unfolding opens_ok_def tq_apply_def Leave
    by (auto simp: tq_defs nth_list_update split: sum.splits future.splits if_splits)
qed (use assms(2,3) in \<open>fastforce simp: opens_ok_def tq_apply_def\<close>)

text \<open>The three invariants hold in all reachable states, each under its restriction on the events.\<close>

definition is_new :: "transport_queue \<Rightarrow> bool" where
  "is_new q \<longleftrightarrow> q = new_queue (tq_now q)"

lemma new_invs:
  assumes "is_new q"
  shows "tq_inv q" "used q" "answered q" "opens_ok interval q"
proof -
  have "tq_inv (new_queue now) \<and> used (new_queue now) \<and> answered (new_queue now) \<and> opens_ok interval (new_queue now)" for now
    by (simp add: tq_inv_def used_def answered_def opens_ok_def spaced_def new_queue_def)
  from this [of "tq_now q"] show "tq_inv q" "used q" "answered q" "opens_ok interval q"
    using assms by (simp_all add: is_new_def)
qed

interpretation tq: event_invariant tq_enabled tq_apply "\<lambda>e. True" is_new tq_inv
  by unfold_locales (auto intro: tq_inv_event new_invs)

interpretation tq_closing: event_invariant tq_enabled tq_apply closes is_new "\<lambda>q. tq_inv q \<and> used q"
  by unfold_locales (auto intro: tq_inv_event used_event new_invs)

interpretation tq_configured: event_invariant tq_enabled tq_apply "configured interval" is_new
    "\<lambda>q. tq_inv q \<and> answered q \<and> opens_ok interval q" for interval
  by unfold_locales (auto intro: tq_inv_event answered_event opens_ok_event new_invs)

section \<open>Properties\<close>

text \<open>C29: At any time an \<open>AuthInfo\<close> has at most one open transport, it is the one that new clients are
  given, and the assertion that the number of clients is not negative never fails.\<close>

theorem one_open_transport:
  assumes "is_new q0" "tq_reaches (\<lambda>e. True) q0 q"
    and "i < length (tq_objects q)" "tr_open (tq_objects q ! i)"
    and "j < length (tq_objects q)" "tr_open (tq_objects q ! j)"
    and "tr_pk (tq_objects q ! i) = tr_pk (tq_objects q ! j)"
  shows "i = j \<and> tq_requests q (tr_pk (tq_objects q ! i)) = Some i
    \<and> (\<forall>c k h. tq_clients q c = Some (k, h) \<longrightarrow> 0 < tr_count (tq_objects q ! k))"
proof -
  have inv: "tq_inv q"
    using tq.invar_reachable [OF assms(2,1)] .
  have i: "tq_requests q (tr_pk (tq_objects q ! i)) = Some i" and j: "tq_requests q (tr_pk (tq_objects q ! j)) = Some j"
    by (rule request_okD(5) [OF tq_invD(6) [OF inv]], use assms(3-6) in simp_all)+
  have "i = j"
    using i j unfolding assms(7) by simp
  then show ?thesis
    using i count_pos [OF inv] by simp
qed

text \<open>A run with two clients of one \<open>AuthInfo\<close>, both served by the same transport.\<close>

abbreviation two_clients :: transport_queue where
  "two_clients \<equiv> \<lparr>tq_now = 30,
     tq_objects = [\<lparr>tr_pk = 7, tr_future = Result (), tr_count = 2, tr_open = True, tr_scheduled = False, tr_due = 30\<rparr>],
     tq_requests = [7 \<mapsto> 0], tq_clients = [1 \<mapsto> (0, True), 2 \<mapsto> (0, False)], tq_opens = [(7, 30)]\<rparr>"

lemma two_clients_run:
  "run_events tq_enabled tq_apply
     [Enter 1 7 (Inr 30), Advance 30, Enter 2 7 (Inr 30), DoOpen 0 (Inr ())] (new_queue 0) = Some two_clients"
  by (simp add: tq_apply_def tq_defs new_queue_def)

lemma is_new_queue [simp]: "is_new (new_queue now)"
  by (simp add: is_new_def new_queue_def)

theorem one_open_transport_witness:
  "tq_requests two_clients 7 = Some 0 \<and> 0 < tr_count (tq_objects two_clients ! 0)"
  using one_open_transport [OF is_new_queue run_events_reaches [OF two_clients_run], of 0 0] by simp

text \<open>As long as closing does not raise, a transport is open only while a client holds it: when the last
  client leaves, it is closed and the next client gets a new one.\<close>

theorem open_only_while_used:
  assumes "is_new q0" "tq_reaches closes q0 q" "i < length (tq_objects q)" "tr_open (tq_objects q ! i)"
  shows "\<exists>c h. tq_clients q c = Some (i, h)"
proof -
  have inv: "tq_inv q" "used q"
    using tq_closing.invar_reachable [OF assms(2,1)] by auto
  then have "card (clients_of q i) > 0"
    using assms(3,4) request_okD(1) [OF tq_invD(6) [OF inv(1) assms(3)]] by (auto simp: used_def)
  then have "clients_of q i \<noteq> {}"
    by auto
  then show ?thesis
    by (auto simp: clients_of_def)
qed

theorem open_only_while_used_witness: "\<exists>c h. tq_clients two_clients c = Some (0, h)"
  using open_only_while_used [OF is_new_queue run_events_reaches [OF two_clients_run], of 0] by simp

text \<open>When every transport can be constructed, two calls of \<open>open()\<close> for the same \<open>AuthInfo\<close> are at least
  the safe open interval of its transport apart, in whatever order clients come and go.\<close>

theorem opens_keep_interval:
  assumes "is_new q0" "tq_reaches (configured interval) q0 q"
    and "m < n" "n < length (tq_opens q)" "tq_opens q ! m = (pk, t)" "tq_opens q ! n = (pk, t')"
  shows "t' + interval pk \<le> t"
proof -
  have "spaced interval (tq_opens q)"
    using tq_configured.invar_reachable [OF assms(2,1)] by (auto simp: opens_ok_def)
  then show ?thesis
    using assms(3-6) sorted_wrt_nth_less [of _ "tq_opens q" m n] by (fastforce simp: spaced_def)
qed

theorem opens_keep_interval_witness: "(30::int) + 30 \<le> 60"
proof -
  let ?q = "\<lparr>tq_now = 60,
     tq_objects =
       [\<lparr>tr_pk = 7, tr_future = Result (), tr_count = 0, tr_open = False, tr_scheduled = False, tr_due = 30\<rparr>,
        \<lparr>tr_pk = 7, tr_future = Result (), tr_count = 1, tr_open = True, tr_scheduled = False, tr_due = 60\<rparr>],
     tq_requests = [7 \<mapsto> 1], tq_clients = [2 \<mapsto> (1, True)], tq_opens = [(7, 60), (7, 30)]\<rparr>"
  have "run_events tq_enabled tq_apply
     [Enter 1 7 (Inr 30), Advance 30, DoOpen 0 (Inr ()), Leave 1 (Inr ()), Enter 2 7 (Inr 30), Advance 30,
      DoOpen 1 (Inr ())] (new_queue 0) = Some ?q"
    by (simp add: tq_apply_def tq_defs new_queue_def fun_eq_iff)
  from opens_keep_interval [OF is_new_queue run_events_reaches [OF this, of "configured (\<lambda>pk. 30)"], of 0 1 7 60 30]
  show ?thesis by simp
qed

text \<open>C30: When every transport can be constructed, no client waits in vain: if the future of a client is
  pending, its callback is scheduled, can run once its time has come, and then the future is done,
  whatever \<open>open()\<close> does.\<close>

theorem client_is_answered:
  assumes "is_new q0" "tq_reaches (configured interval) q0 q"
    and "tq_clients q c = Some (i, h)" "tr_future (tq_objects q ! i) = Pending"
  shows "tq_enabled (tq_apply (Advance (max 0 (tr_due (tq_objects q ! i) - tq_now q))) q) (DoOpen i opened)
    \<and> future_done (tr_future (tq_objects
        (tq_apply (DoOpen i opened) (tq_apply (Advance (max 0 (tr_due (tq_objects q ! i) - tq_now q))) q)) ! i))"
proof -
  have inv: "tq_inv q" "answered q"
    using tq_configured.invar_reachable [OF assms(2,1)] by auto
  have i: "i < length (tq_objects q)"
    using tq_invD(2) [OF inv(1) assms(3)] .
  have "tq_requests q (tr_pk (tq_objects q ! i)) = Some i"
    using request_okD(6) [OF tq_invD(6) [OF inv(1) i] count_pos [OF inv(1) assms(3)]] assms(4) by simp
  then have "tr_scheduled (tq_objects q ! i)" "tr_count (tq_objects q ! i) > 0"
    using inv(2) assms(4) by (auto simp: answered_def)
  then show ?thesis
    using i assms(4) by (auto simp: tq_apply_def tq_defs split: sum.splits)
qed

text \<open>A client that has just entered.\<close>

abbreviation waiting_client :: transport_queue where
  "waiting_client \<equiv> \<lparr>tq_now = 0,
     tq_objects = [\<lparr>tr_pk = 7, tr_future = Pending, tr_count = 1, tr_open = False, tr_scheduled = True, tr_due = 30\<rparr>],
     tq_requests = [7 \<mapsto> 0], tq_clients = [1 \<mapsto> (0, True)], tq_opens = []\<rparr>"

lemma waiting_client_run: "run_events tq_enabled tq_apply [Enter 1 7 (Inr 30)] (new_queue 0) = Some waiting_client"
  by (simp add: tq_apply_def tq_defs new_queue_def)

theorem client_is_answered_witness:
  "tq_enabled (tq_apply (Advance 30) waiting_client) (DoOpen 0 (Inl OSError))
   \<and> future_done (tr_future (tq_objects
        (tq_apply (DoOpen 0 (Inl OSError)) (tq_apply (Advance 30) waiting_client)) ! 0))"
  using client_is_answered [OF is_new_queue run_events_reaches [OF waiting_client_run, of "configured (\<lambda>pk. 30)"],
      of 1 0 True "Inl OSError"] by simp

text \<open>A request whose callback is not scheduled stays pending for ever.\<close>

definition stuck :: "nat \<Rightarrow> transport_queue \<Rightarrow> bool" where
  "stuck i q \<longleftrightarrow> i < length (tq_objects q) \<and> tr_future (tq_objects q ! i) = Pending
     \<and> \<not> tr_scheduled (tq_objects q ! i)"

lemma nth_update_if: "j < length xs \<Longrightarrow> xs[i := x] ! j = (if i = j then x else xs ! j)"
  by (cases "i < length xs") auto

lemma stuck_event:
  assumes "stuck i q" "tq_enabled q e" "tq_inv q"
  shows "stuck i (tq_apply e q)"
proof (cases e)
  case (Enter c pk transport)
  then show ?thesis
    using assms by (auto simp: stuck_def tq_apply_def tq_defs nth_append nth_update_if split: option.splits sum.splits)
next
  case (DoOpen j opened)
  then have "j \<noteq> i"
    using assms by (auto simp: stuck_def)
  then show ?thesis
    using assms(1) by (auto simp: stuck_def tq_apply_def tq_defs DoOpen split: sum.splits)
next
  case (Leave c closed)
  then obtain j h where c: "tq_clients q c = Some (j, h)"
    using assms(2) by auto
  show ?thesis
    using assms(1) c tq_invD(2) [OF assms(3) c] unfolding Leave
    by (auto simp: stuck_def tq_apply_def tq_defs nth_list_update split: sum.splits future.splits)
qed (use assms in \<open>auto simp: stuck_def tq_apply_def\<close>)

interpretation tq_stuck: event_invariant tq_enabled tq_apply "\<lambda>e. True" "\<lambda>q. tq_inv q \<and> stuck i q"
    "\<lambda>q. tq_inv q \<and> stuck i q" for i
  by unfold_locales (auto intro: stuck_event tq_inv_event)

text \<open>C36: When \<open>get_transport()\<close> raises, the new request stays in the dictionary with no callback: the next
  client of the \<open>AuthInfo\<close>, for instance the next attempt of the same task, gets a future that no later
  event resolves.\<close>

theorem failed_construction_starves:
  assumes "is_new q0" "tq_reaches (\<lambda>e. True) q0 q" "tq_requests q pk = None" "tq_clients q c = None"
    and "tq_reaches (\<lambda>e. True) (fst (enter_request c pk transport (fst (enter_request c pk (Inl e) q)))) q'"
  shows "enter_request c pk (Inl e) q = (fst (enter_request c pk (Inl e) q), Some e)
    \<and> (\<exists>i. tq_clients (fst (enter_request c pk transport (fst (enter_request c pk (Inl e) q)))) c = Some (i, False)
        \<and> tr_future (tq_objects q' ! i) = Pending)"
proof -
  let ?q = "fst (enter_request c pk transport (fst (enter_request c pk (Inl e) q)))"
  have inv: "tq_inv q"
    using tq.invar_reachable [OF assms(2,1)] .
  have "tq_inv ?q"
    by (rule tq_inv_enter [OF tq_inv_enter [OF inv assms(4)]]) (use assms(3,4) in \<open>simp add: tq_defs\<close>)
  moreover have "stuck (length (tq_objects q)) ?q"
    using assms(3) by (simp add: stuck_def tq_defs)
  ultimately have "stuck (length (tq_objects q)) q'"
    using tq_stuck.invar_reaches [OF assms(5)] by blast
  then show ?thesis
    using assms(3) by (auto simp: tq_defs stuck_def)
qed

theorem failed_construction_starves_witness:
  "enter_request 1 7 (Inl ValueError) (new_queue 0) = (fst (enter_request 1 7 (Inl ValueError) (new_queue 0)), Some ValueError)
    \<and> (\<exists>i. tq_clients (fst (enter_request 1 7 (Inr 30) (fst (enter_request 1 7 (Inl ValueError) (new_queue 0))))) 1 = Some (i, False)
        \<and> tr_future (tq_objects (tq_apply (Advance 30)
            (fst (enter_request 1 7 (Inr 30) (fst (enter_request 1 7 (Inl ValueError) (new_queue 0)))))) ! i) = Pending)"
proof (rule failed_construction_starves [OF is_new_queue reaches_refl])
  let ?q = "fst (enter_request 1 7 (Inr 30) (fst (enter_request 1 7 (Inl ValueError) (new_queue 0))))"
  show "tq_reaches (\<lambda>e. True) ?q (tq_apply (Advance 30) ?q)"
    by (rule reaches_step) simp_all
qed (simp_all add: new_queue_def)

text \<open>When \<open>close()\<close> raises as the last client leaves, the request stays in the dictionary: the next
  client is given the same transport object, and no transport is opened for it.\<close>

theorem failed_close_keeps_transport:
  assumes "is_new q0" "tq_reaches (\<lambda>e. True) q0 q" "tq_clients q c = Some (i, h)"
    and "tr_count (tq_objects q ! i) = 1" "tr_future (tq_objects q ! i) = Result ()" "tq_clients q c' = None"
  shows "snd (leave_request c (Inl e) q) = Some e
    \<and> (let q' = fst (enter_request c' (tr_pk (tq_objects q ! i)) transport (fst (leave_request c (Inl e) q)))
       in tq_clients q' c' = Some (i, False) \<and> tr_future (tq_objects q' ! i) = Result () \<and> tq_opens q' = tq_opens q)"
proof -
  have inv: "tq_inv q"
    using tq.invar_reachable [OF assms(2,1)] .
  have i: "i < length (tq_objects q)"
    using tq_invD(2) [OF inv assms(3)] .
  have "tq_requests q (tr_pk (tq_objects q ! i)) = Some i"
    using request_okD(6) [OF tq_invD(6) [OF inv i]] assms(4,5) by simp
  then show ?thesis
    using assms(3-6) i by (auto simp: tq_defs)
qed

theorem failed_close_keeps_transport_witness:
  "snd (leave_request 1 (Inl OSError) (tq_apply (Leave 2 (Inr ())) two_clients)) = Some OSError
    \<and> (let q' = fst (enter_request 3 7 (Inr 30)
                   (fst (leave_request 1 (Inl OSError) (tq_apply (Leave 2 (Inr ())) two_clients))))
       in tq_clients q' 3 = Some (0, False) \<and> tr_future (tq_objects q' ! 0) = Result () \<and> tq_opens q' = [(7, 30)])"
proof -
  let ?q = "tq_apply (Leave 2 (Inr ())) two_clients"
  have "tq_reaches (\<lambda>e. True) (new_queue 0) ?q"
    by (rule reaches_step [OF run_events_reaches [OF two_clients_run]]) simp_all
  from failed_close_keeps_transport [OF is_new_queue this, of 1 0 True 3 OSError "Inr 30"]
  show ?thesis by (simp add: tq_apply_def tq_defs)
qed

end
