(* ===== verification/Aiida_Job_Manager.thy ===== *)
theory Aiida_Job_Manager
  imports Aiida_Event_Loop
begin

text \<open>
  The job manager of \<open>engine/processes/calcjobs/manager.py\<close>: clients ask for the state of a job and get a
  future; a \<open>JobsList\<close> collects the requests of one \<open>AuthInfo\<close> and answers them all with one call of the
  scheduler, which it schedules so that the minimum poll interval of the computer is respected.

  The futures are the elements of a list in the order of their creation, so that clients keep them when the
  dictionary of requests is replaced.  The coroutine \<open>updating\<close> has two stretches of code: up to the
  \<open>await\<close> of the transport (event \<open>StartUpdate\<close>) and from there to its end (event \<open>Respond\<close>).  What the
  transport and the scheduler do enters with the second.  Times are integers; \<open>time.time()\<close> and the
  clock of the loop are one clock that never goes back.  The task of the update is never cancelled.
\<close>

section \<open>State\<close>

text \<open>\<open>_update_handle\<close>: no handle, a timer with the time it is due, or the handle of a timer that has
  fired, whose coroutine waits for its transport.\<close>

datatype update_handle = NoHandle | Timer int | Updating

text \<open>\<open>jl_polls\<close> records the calls of \<open>scheduler.get_jobs\<close>, the last first: the time, whether the call
  returned, and the argument \<open>jobs\<close> (none when the scheduler is queried by user).\<close>

record 'i jobs_list =
  jl_now :: int
  jl_minimum_interval :: int
  jl_jobs_cache :: "string \<rightharpoonup> 'i"
  jl_futures :: "'i option future list"
  jl_job_update_requests :: "(string \<times> nat) list"
  jl_last_updated :: "int option"
  jl_update_handle :: update_handle
  jl_polls :: "(int \<times> bool \<times> string list option) list"

definition JobsList :: "int \<Rightarrow> int \<Rightarrow> int option \<Rightarrow> 'i jobs_list" where
  "JobsList now minimum_interval last_updated =
     \<lparr>jl_now = now, jl_minimum_interval = minimum_interval, jl_jobs_cache = Map.empty, jl_futures = [],
      jl_job_update_requests = [], jl_last_updated = last_updated, jl_update_handle = NoHandle, jl_polls = []\<rparr>"

section \<open>Operations\<close>

definition update_requests_outstanding :: "'i jobs_list \<Rightarrow> bool" where
  "update_requests_outstanding s \<longleftrightarrow>
     list_ex (\<lambda>(job_id, f). \<not> future_done (jl_futures s ! f)) (jl_job_update_requests s)"

definition get_jobs_with_scheduler :: "'i jobs_list \<Rightarrow> string list" where
  "get_jobs_with_scheduler s = map fst (jl_job_update_requests s)"

definition get_next_update_delay :: "'i jobs_list \<Rightarrow> int" where
  "get_next_update_delay s =
     (case jl_last_updated s of
        None \<Rightarrow> 0
      | Some last_updated \<Rightarrow>
          (let elapsed = jl_now s - last_updated in max (jl_minimum_interval s - elapsed) 0))"

definition schedule_update :: "'i jobs_list \<Rightarrow> 'i jobs_list" where
  "schedule_update s = s\<lparr>jl_update_handle := Timer (jl_now s + get_next_update_delay s)\<rparr>"

definition ensure_updating :: "'i jobs_list \<Rightarrow> 'i jobs_list" where
  "ensure_updating s = (if jl_update_handle s = NoHandle then schedule_update s else s)"

text \<open>\<open>request_job_info_update\<close> up to its \<open>yield\<close>; \<open>minimum_interval\<close> is that of the computer of the
  \<open>AuthInfo\<close> it is given.  Leaving the context of the manager cancels the future.\<close>

definition request_job_info_update :: "int \<Rightarrow> string \<Rightarrow> 'i jobs_list \<Rightarrow> 'i jobs_list \<times> nat res" where
  "request_job_info_update minimum_interval job_id s =
     (let s = s\<lparr>jl_minimum_interval := minimum_interval\<rparr>;
          (s, f) =
            (case map_of (jl_job_update_requests s) job_id of
               Some f \<Rightarrow> (s, f)
             | None \<Rightarrow>
                 (s\<lparr>jl_futures := jl_futures s @ [Pending],
                    jl_job_update_requests := jl_job_update_requests s @ [(job_id, length (jl_futures s))]\<rparr>,
                  length (jl_futures s)))
      in if future_done (jl_futures s ! f) then (s, Inl AssertionError)
         else (ensure_updating s, Inr f))"

definition leave_update :: "nat \<Rightarrow> 'i jobs_list \<Rightarrow> 'i jobs_list" where
  "leave_update f s = s\<lparr>jl_futures := (jl_futures s)[f := cancel (jl_futures s ! f)]\<rparr>"

text \<open>The end of \<open>updating\<close>, after \<open>_update_job_info\<close> returned.\<close>

definition updating_end :: "'i jobs_list \<Rightarrow> 'i jobs_list" where
  "updating_end s =
     (if update_requests_outstanding s then schedule_update s else s\<lparr>jl_update_handle := NoHandle\<rparr>)"

text \<open>The start of the update: it returns at once when nobody waits any more; the \<open>finally\<close> block empties the
  requests then too.\<close>

definition update_job_info_start :: "'i jobs_list \<Rightarrow> 'i jobs_list" where
  "update_job_info_start s =
     (if \<not> update_requests_outstanding s then updating_end (s\<lparr>jl_job_update_requests := []\<rparr>)
      else s\<lparr>jl_update_handle := Updating\<rparr>)"

text \<open>Setting the futures of the requests that are not done.\<close>

fun set_futures ::
  "(string \<times> nat) list \<Rightarrow> (string \<Rightarrow> 'v future) \<Rightarrow> 'v future list \<Rightarrow> 'v future list" where
  "set_futures [] value_of futures = futures"
| "set_futures ((job_id, f) # requests) value_of futures =
     set_futures requests value_of
       (if future_done (futures ! f) then futures else futures[f := value_of job_id])"

text \<open>What the awaited part of \<open>_get_jobs_from_scheduler\<close> does: requesting the transport fails, the call
  of the scheduler fails, or it returns the jobs; leaving the context of the transport may raise then.\<close>

datatype 'i response =
    TransportFailed py_exc
  | SchedulerFailed py_exc
  | SchedulerReturned "string \<rightharpoonup> 'i" "unit res"

definition get_jobs_from_scheduler ::
  "bool \<Rightarrow> 'i response \<Rightarrow> 'i jobs_list \<Rightarrow> 'i jobs_list \<times> (string \<rightharpoonup> 'i) res" where
  "get_jobs_from_scheduler can_query_by_user response s =
     (let jobs = (if can_query_by_user then None else Some (get_jobs_with_scheduler s))
      in case response of
           TransportFailed e \<Rightarrow> (s, Inl e)
         | SchedulerFailed e \<Rightarrow> (s\<lparr>jl_polls := (jl_now s, False, jobs) # jl_polls s\<rparr>, Inl e)
         | SchedulerReturned scheduler_response closed \<Rightarrow>
             (s\<lparr>jl_polls := (jl_now s, True, jobs) # jl_polls s, jl_last_updated := Some (jl_now s)\<rparr>,
              bind_res closed (\<lambda>_. Inr scheduler_response)))"

definition update_job_info_end :: "bool \<Rightarrow> 'i response \<Rightarrow> 'i jobs_list \<Rightarrow> 'i jobs_list" where
  "update_job_info_end can_query_by_user response s =
     (case get_jobs_from_scheduler can_query_by_user response s of
        (s, Inl e) \<Rightarrow>
          s\<lparr>jl_futures := set_futures (jl_job_update_requests s) (\<lambda>job_id. Excepted e) (jl_futures s),
            jl_update_handle := NoHandle,
            jl_job_update_requests := []\<rparr>
      | (s, Inr jobs_cache) \<Rightarrow>
          updating_end
            (s\<lparr>jl_jobs_cache := jobs_cache,
               jl_futures := set_futures (jl_job_update_requests s) (\<lambda>job_id. Result (jobs_cache job_id)) (jl_futures s),
               jl_job_update_requests := []\<rparr>))"

text \<open>The manager: one list per \<open>AuthInfo\<close>, created at its first request.\<close>

type_synonym 'i job_manager = "nat \<rightharpoonup> 'i jobs_list"

definition get_jobs_list :: "int \<Rightarrow> nat \<Rightarrow> int \<Rightarrow> 'i job_manager \<Rightarrow> 'i jobs_list" where
  "get_jobs_list now pk minimum_interval jm =
     (case jm pk of None \<Rightarrow> JobsList now minimum_interval None | Some s \<Rightarrow> s)"

definition manager_request :: "int \<Rightarrow> nat \<Rightarrow> int \<Rightarrow> string \<Rightarrow> 'i job_manager \<Rightarrow> 'i job_manager \<times> nat res" where
  "manager_request now pk minimum_interval job_id jm =
     (case request_job_info_update minimum_interval job_id (get_jobs_list now pk minimum_interval jm) of
        (s, r) \<Rightarrow> (jm(pk \<mapsto> s), r))"

section \<open>Events\<close>

datatype 'i jl_event =
    Request int string
  | LeaveUpdate nat
  | StartUpdate
  | Respond bool "'i response"
  | Advance int

fun jl_enabled :: "'i jobs_list \<Rightarrow> 'i jl_event \<Rightarrow> bool" where
  "jl_enabled s (Request minimum_interval job_id) \<longleftrightarrow> True"
| "jl_enabled s (LeaveUpdate f) \<longleftrightarrow> f < length (jl_futures s)"
| "jl_enabled s StartUpdate \<longleftrightarrow> (case jl_update_handle s of Timer due \<Rightarrow> due \<le> jl_now s | _ \<Rightarrow> False)"
| "jl_enabled s (Respond by_user response) \<longleftrightarrow> jl_update_handle s = Updating"
| "jl_enabled s (Advance d) \<longleftrightarrow> 0 \<le> d"

fun jl_apply :: "'i jl_event \<Rightarrow> 'i jobs_list \<Rightarrow> 'i jobs_list" where
  "jl_apply (Request minimum_interval job_id) s = fst (request_job_info_update minimum_interval job_id s)"
| "jl_apply (LeaveUpdate f) s = leave_update f s"
| "jl_apply StartUpdate s = update_job_info_start s"
| "jl_apply (Respond by_user response) s = update_job_info_end by_user response s"
| "jl_apply (Advance d) s = s\<lparr>jl_now := jl_now s + d\<rparr>"

abbreviation jl_reaches :: "('i jl_event \<Rightarrow> bool) \<Rightarrow> 'i jobs_list \<Rightarrow> 'i jobs_list \<Rightarrow> bool" where
  "jl_reaches \<equiv> reaches jl_enabled jl_apply"

text \<open>The poll interval of the computer is not changed.\<close>

fun same_interval :: "int \<Rightarrow> 'i jl_event \<Rightarrow> bool" where
  "same_interval interval (Request minimum_interval job_id) \<longleftrightarrow> minimum_interval = interval"
| "same_interval interval _ \<longleftrightarrow> True"

section \<open>The invariant\<close>

text \<open>Every pending future belongs to a request of the dictionary, and while there is one an update is
  scheduled or under way.\<close>

definition jl_inv :: "'i jobs_list \<Rightarrow> bool" where
  "jl_inv s \<longleftrightarrow>
     distinct (map fst (jl_job_update_requests s))
   \<and> distinct (map snd (jl_job_update_requests s))
   \<and> (\<forall>f \<in> snd ` set (jl_job_update_requests s). f < length (jl_futures s))
   \<and> (\<forall>f < length (jl_futures s). jl_futures s ! f = Pending \<longrightarrow>
        f \<in> snd ` set (jl_job_update_requests s) \<and> jl_update_handle s \<noteq> NoHandle)"

lemma length_set_futures [simp]: "length (set_futures requests v futures) = length futures"
  by (induction requests v futures rule: set_futures.induct) auto

lemma set_futures_done:
  "future_done (futures ! f) \<Longrightarrow> set_futures requests v futures ! f = futures ! f"
proof (induction requests v futures rule: set_futures.induct)
  case (2 job_id g requests v futures)
  then show ?case by (cases "g = f") auto
qed simp

lemma set_futures_other:
  "f \<notin> snd ` set requests \<Longrightarrow> set_futures requests v futures ! f = futures ! f"
  by (induction requests v futures rule: set_futures.induct) auto

lemma set_futures_request:
  assumes "(job_id, f) \<in> set requests" "distinct (map snd requests)" "f < length futures" "futures ! f = Pending"
  shows "set_futures requests v futures ! f = v job_id"
  using assms
proof (induction requests v futures rule: set_futures.induct)
  case (2 j g requests v futures)
  show ?case
  proof (cases "g = f")
    case True
    then have "(job_id, f) \<notin> set requests" "job_id = j" "f \<notin> snd ` set requests"
      using 2(2,3) by force+
    then show ?thesis
      using True 2(4,5) by (simp add: set_futures_other)
  next
    case False
    then show ?thesis
      using 2 by auto
  qed
qed simp

text \<open>The requests are empty when an update ends, so \<open>updating\<close> never schedules the next one itself.\<close>

lemma updating_end_empty:
  "jl_job_update_requests s = [] \<Longrightarrow> updating_end s = s\<lparr>jl_update_handle := NoHandle\<rparr>"
  by (simp add: updating_end_def update_requests_outstanding_def)

lemma outstanding_iff:
  "update_requests_outstanding s \<longleftrightarrow> (\<exists>f \<in> snd ` set (jl_job_update_requests s). jl_futures s ! f = Pending)"
  by (force simp: update_requests_outstanding_def list_ex_iff)

lemma ensure_updating_fields [simp]:
  "jl_job_update_requests (ensure_updating s) = jl_job_update_requests s"
  "jl_futures (ensure_updating s) = jl_futures s"
  "jl_now (ensure_updating s) = jl_now s"
  "jl_polls (ensure_updating s) = jl_polls s"
  "jl_last_updated (ensure_updating s) = jl_last_updated s"
  "jl_minimum_interval (ensure_updating s) = jl_minimum_interval s"
  "jl_update_handle (ensure_updating s) \<noteq> NoHandle"
  by (auto simp: ensure_updating_def schedule_update_def)

text \<open>One lemma for the end of an update, whatever the response.\<close>

lemma update_job_info_end_fields:
  shows "jl_job_update_requests (update_job_info_end u r s) = []"
    and "jl_update_handle (update_job_info_end u r s) = NoHandle"
    and "jl_now (update_job_info_end u r s) = jl_now s"
    and "jl_futures (update_job_info_end u r s) = set_futures (jl_job_update_requests s)
      (\<lambda>job_id. case snd (get_jobs_from_scheduler u r s) of Inl e \<Rightarrow> Excepted e | Inr jobs \<Rightarrow> Result (jobs job_id))
      (jl_futures s)"
    and "jl_polls (update_job_info_end u r s) = jl_polls (fst (get_jobs_from_scheduler u r s))"
    and "jl_last_updated (update_job_info_end u r s) = jl_last_updated (fst (get_jobs_from_scheduler u r s))"
    and "jl_minimum_interval (update_job_info_end u r s) = jl_minimum_interval s"
proof -
  have f: "jl_job_update_requests (fst (get_jobs_from_scheduler u r s)) = jl_job_update_requests s"
    "jl_futures (fst (get_jobs_from_scheduler u r s)) = jl_futures s"
    "jl_now (fst (get_jobs_from_scheduler u r s)) = jl_now s"
    "jl_minimum_interval (fst (get_jobs_from_scheduler u r s)) = jl_minimum_interval s"
    by (auto simp: get_jobs_from_scheduler_def Let_def split: response.split)
  show "jl_job_update_requests (update_job_info_end u r s) = []"
    "jl_update_handle (update_job_info_end u r s) = NoHandle"
    "jl_now (update_job_info_end u r s) = jl_now s"
    "jl_futures (update_job_info_end u r s) = set_futures (jl_job_update_requests s)
      (\<lambda>job_id. case snd (get_jobs_from_scheduler u r s) of Inl e \<Rightarrow> Excepted e | Inr jobs \<Rightarrow> Result (jobs job_id))
      (jl_futures s)"
    "jl_polls (update_job_info_end u r s) = jl_polls (fst (get_jobs_from_scheduler u r s))"
    "jl_last_updated (update_job_info_end u r s) = jl_last_updated (fst (get_jobs_from_scheduler u r s))"
    "jl_minimum_interval (update_job_info_end u r s) = jl_minimum_interval s"
    using f by (auto simp: update_job_info_end_def updating_end_empty split: prod.splits sum.splits)
qed

lemma jl_inv_end:
  assumes "jl_inv s"
  shows "\<forall>f < length (jl_futures s). future_done (jl_futures (update_job_info_end u r s) ! f)"
proof (intro allI impI)
  fix f
  assume f: "f < length (jl_futures s)"
  show "future_done (jl_futures (update_job_info_end u r s) ! f)"
  proof (cases "jl_futures s ! f = Pending")
    case True
    then obtain job_id where "(job_id, f) \<in> set (jl_job_update_requests s)"
      using assms f by (force simp: jl_inv_def)
    then show ?thesis
      using assms f True by (simp add: jl_inv_def update_job_info_end_fields set_futures_request split: sum.split)
  next
    case False
    then show ?thesis
      by (metis not_done_iff set_futures_done update_job_info_end_fields(4))
  qed
qed

lemma jl_inv_request:
  assumes "jl_inv s"
  shows "jl_inv (fst (request_job_info_update c job_id s))"
proof (cases "map_of (jl_job_update_requests s) job_id")
  case None
  then have "job_id \<notin> fst ` set (jl_job_update_requests s)"
    by (simp add: map_of_eq_None_iff)
  then show ?thesis
    using assms None
    by (auto simp: jl_inv_def request_job_info_update_def Let_def nth_append less_Suc_eq)
next
  case (Some f)
  then show ?thesis
    using assms by (auto simp: jl_inv_def request_job_info_update_def Let_def)
qed

lemma jl_inv_event:
  assumes "jl_inv s" "jl_enabled s e"
  shows "jl_inv (jl_apply e s)"
proof (cases e)
  case (LeaveUpdate f)
  then show ?thesis
    using assms by (auto simp: jl_inv_def leave_update_def cancel_def nth_list_update split: if_splits)
next
  case StartUpdate
  then show ?thesis
    using assms by (auto simp: jl_inv_def update_job_info_start_def updating_end_empty outstanding_iff)
next
  case (Respond u r)
  then show ?thesis
    using jl_inv_end [OF assms(1), of u r] by (auto simp: jl_inv_def update_job_info_end_fields)
next
  case (Request c job_id)
  then show ?thesis
    using jl_inv_request [OF assms(1)] by simp
next
  case (Advance d)
  then show ?thesis
    using assms(1) by (simp add: jl_inv_def)
qed

section \<open>The minimum interval\<close>

text \<open>\<open>poll_gaps\<close>: a call of the scheduler comes at least the interval after every earlier call that returned.\<close>

definition poll_gaps :: "int \<Rightarrow> (int \<times> bool \<times> 'a) list \<Rightarrow> bool" where
  "poll_gaps interval = sorted_wrt (\<lambda>(t, returned, jobs) (t', returned', jobs'). returned' \<longrightarrow> t' + interval \<le> t)"

definition next_poll_ok :: "'i jobs_list \<Rightarrow> int \<Rightarrow> bool" where
  "next_poll_ok s t \<longleftrightarrow> (\<forall>l. jl_last_updated s = Some l \<longrightarrow> l + jl_minimum_interval s \<le> t)"

definition polls_ok :: "int \<Rightarrow> 'i jobs_list \<Rightarrow> bool" where
  "polls_ok interval s \<longleftrightarrow>
     jl_minimum_interval s = interval
   \<and> poll_gaps interval (jl_polls s)
   \<and> (\<forall>(t, returned, jobs) \<in> set (jl_polls s). returned \<longrightarrow> (\<exists>l. jl_last_updated s = Some l \<and> t \<le> l))
   \<and> (case jl_update_handle s of NoHandle \<Rightarrow> True | Timer due \<Rightarrow> next_poll_ok s due | Updating \<Rightarrow> next_poll_ok s (jl_now s))
   \<and> (\<forall>l. jl_last_updated s = Some l \<longrightarrow> l \<le> jl_now s)"

lemma schedule_update_ok:
  "polls_ok interval s \<Longrightarrow> polls_ok interval (schedule_update s)"
  by (auto simp: polls_ok_def schedule_update_def next_poll_ok_def get_next_update_delay_def Let_def split: option.splits)

lemma polls_ok_request:
  assumes "polls_ok interval s"
  shows "polls_ok interval (fst (request_job_info_update interval job_id s))"
proof -
  have e: "polls_ok interval (ensure_updating s')" if "polls_ok interval s'" for s'
    using schedule_update_ok [OF that] that by (simp add: ensure_updating_def)
  show ?thesis
    using assms unfolding request_job_info_update_def Let_def
    by (auto split: option.split intro!: e) (auto simp: polls_ok_def next_poll_ok_def split: update_handle.splits)
qed

lemma polls_ok_respond:
  assumes "polls_ok interval s" "jl_update_handle s = Updating" "0 \<le> interval"
  shows "polls_ok interval (update_job_info_end u r s)"
proof (cases r)
  case (SchedulerFailed e)
  have "t + interval \<le> jl_now s" if "(t, True, jobs) \<in> set (jl_polls s)" for t jobs
    using assms that by (fastforce simp: polls_ok_def next_poll_ok_def)
  then show ?thesis
    using assms SchedulerFailed unfolding polls_ok_def update_job_info_end_fields
    by (auto simp: get_jobs_from_scheduler_def poll_gaps_def)
next
  case (SchedulerReturned jobs closed)
  have "t + interval \<le> jl_now s" if "(t, True, jobs) \<in> set (jl_polls s)" for t jobs
    using assms that by (fastforce simp: polls_ok_def next_poll_ok_def)
  moreover from this have "t \<le> jl_now s" if "(t, True, jobs) \<in> set (jl_polls s)" for t jobs
    using assms(3) that by force
  ultimately show ?thesis
    using assms SchedulerReturned unfolding polls_ok_def update_job_info_end_fields
    by (auto simp: get_jobs_from_scheduler_def poll_gaps_def)
qed (use assms in \<open>auto simp: polls_ok_def update_job_info_end_fields get_jobs_from_scheduler_def\<close>)

lemma polls_ok_event:
  assumes "polls_ok interval s" "jl_enabled s e" "same_interval interval e" "0 \<le> interval"
  shows "polls_ok interval (jl_apply e s)"
proof (cases e)
  case (Request c job_id)
  then show ?thesis
    using assms polls_ok_request by auto
next
  case (LeaveUpdate f)
  then show ?thesis
    using assms(1) by (auto simp: polls_ok_def leave_update_def next_poll_ok_def split: update_handle.splits)
next
  case StartUpdate
  then show ?thesis
    using assms(1,2)
    by (auto simp: polls_ok_def update_job_info_start_def updating_end_empty next_poll_ok_def
        split: update_handle.splits option.splits)
next
  case (Respond u r)
  then show ?thesis
    using assms polls_ok_respond by auto
next
  case (Advance d)
  then show ?thesis
    using assms(1,2)
    by (fastforce simp: polls_ok_def next_poll_ok_def split: update_handle.splits option.splits)
qed

text \<open>A list as the manager creates it.\<close>

definition is_new_list :: "int \<Rightarrow> 'i jobs_list \<Rightarrow> bool" where
  "is_new_list interval s \<longleftrightarrow> s = JobsList (jl_now s) interval None"

lemma JobsList_invs: "jl_inv (JobsList now interval None)" "polls_ok interval (JobsList now interval None)"
  by (simp_all add: jl_inv_def polls_ok_def JobsList_def poll_gaps_def)

lemma new_list_invs:
  assumes "is_new_list interval s"
  shows "jl_inv s" "polls_ok interval s"
  using assms JobsList_invs unfolding is_new_list_def by metis+

lemma JobsList_is_new [simp]: "is_new_list interval (JobsList now interval None)"
  by (simp add: is_new_list_def JobsList_def)

interpretation jl: event_invariant jl_enabled jl_apply "\<lambda>e. True" "\<lambda>s. \<exists>interval. is_new_list interval s" jl_inv
  by unfold_locales (auto intro: jl_inv_event new_list_invs)

interpretation jl_timed: event_invariant jl_enabled jl_apply "\<lambda>e. 0 \<le> interval \<and> same_interval interval e"
    "is_new_list interval" "polls_ok interval" for interval
  by unfold_locales (auto intro: polls_ok_event new_list_invs)

lemma polls_ok_reachable:
  assumes "is_new_list interval s0" "0 \<le> interval" "jl_reaches (same_interval interval) s0 s"
  shows "polls_ok interval s"
proof (rule jl_timed.invar_reachable [OF _ assms(1)])
  show "jl_reaches (\<lambda>e. 0 \<le> interval \<and> same_interval interval e) s0 s"
    by (rule reaches_weaken [OF assms(3)]) (simp add: assms(2))
qed

section \<open>Properties\<close>

text \<open>C31: A pending future is never forgotten: an update is scheduled or under way, and when its timer has come
  and the scheduler has answered or failed, all futures are done.  The time until then is bounded by the
  timer.\<close>

theorem requests_are_answered:
  fixes s :: "'i jobs_list"
  assumes "is_new_list interval s0" "jl_reaches (\<lambda>e. True) s0 s"
    and "f < length (jl_futures s)" "jl_futures s ! f = Pending"
  shows "\<exists>t. run_events jl_enabled jl_apply
      ((case jl_update_handle s of Timer due \<Rightarrow> [Advance (max 0 (due - jl_now s)), StartUpdate] | _ \<Rightarrow> [])
        @ [Respond by_user response]) s = Some t
    \<and> length (jl_futures t) = length (jl_futures s) \<and> list_all future_done (jl_futures t)"
proof -
  have inv: "jl_inv s"
    using jl.invar_reachable [OF assms(2)] assms(1) by blast
  have f: "f \<in> snd ` set (jl_job_update_requests s)" and h: "jl_update_handle s \<noteq> NoHandle"
    using inv assms(3,4) by (auto simp: jl_inv_def)
  have *: "list_all future_done (jl_futures (update_job_info_end by_user response s'))"
      "length (jl_futures (update_job_info_end by_user response s')) = length (jl_futures s)"
    if "jl_inv s'" "jl_futures s' = jl_futures s" for s' :: "'i jobs_list"
    using jl_inv_end [OF that(1), of by_user response] that(2)
    by (auto simp: list_all_length update_job_info_end_fields)
  show ?thesis
  proof (cases "jl_update_handle s")
    case (Timer due)
    let ?s = "s\<lparr>jl_now := jl_now s + max 0 (due - jl_now s), jl_update_handle := Updating\<rparr>"
    have "jl_inv ?s" "jl_futures ?s = jl_futures s"
      using inv Timer by (auto simp: jl_inv_def)
    moreover have "update_requests_outstanding (s\<lparr>jl_now := jl_now s + max 0 (due - jl_now s)\<rparr>)"
      using f assms(4) by (auto simp: outstanding_iff)
    ultimately show ?thesis
      using * [of ?s] Timer by (auto simp: update_job_info_start_def)
  next
    case Updating
    then show ?thesis
      using * [OF inv refl] by simp
  qed (use h in simp)
qed

text \<open>Two jobs are requested; after the first call of the scheduler the second job is requested again.\<close>

abbreviation one_pending :: "nat jobs_list" where
  "one_pending \<equiv> \<lparr>jl_now = 5, jl_minimum_interval = 10, jl_jobs_cache = [''1'' \<mapsto> 3],
     jl_futures = [Result (Some 3), Result None, Pending], jl_job_update_requests = [(''2'', 2)],
     jl_last_updated = Some 5, jl_update_handle = Timer 15, jl_polls = [(5, True, Some [''1'', ''2''])]\<rparr>"

lemmas jl_defs = request_job_info_update_def JobsList_def ensure_updating_def schedule_update_def
  get_next_update_delay_def update_job_info_start_def update_job_info_end_def updating_end_def
  update_requests_outstanding_def get_jobs_from_scheduler_def get_jobs_with_scheduler_def

lemma one_pending_run:
  "run_events jl_enabled jl_apply [Request 10 ''1'', Request 10 ''2'', Advance 5, StartUpdate,
     Respond False (SchedulerReturned [''1'' \<mapsto> 3] (Inr ())), Request 10 ''2''] (JobsList 0 10 None) = Some one_pending"
  by (simp add: jl_defs)

lemmas one_pending_reached = run_events_reaches [OF one_pending_run]

theorem requests_are_answered_witness:
  "\<exists>t. run_events jl_enabled jl_apply [Advance 10, StartUpdate, Respond True (SchedulerFailed OSError)] one_pending = Some t
    \<and> length (jl_futures t) = length (jl_futures one_pending) \<and> list_all future_done (jl_futures t)"
  using requests_are_answered [OF JobsList_is_new one_pending_reached, of 2 True "SchedulerFailed OSError"]
  by (simp del: run_events.simps)

text \<open>C32: When the scheduler answers, the future of every pending request gets the entry of its job in that
  answer (nothing when the job is not listed), whether or not the state of the job changed; done
  futures are left alone, the requests are emptied and no further update is scheduled.\<close>

theorem answer_reaches_all_requests:
  assumes "is_new_list interval s0" "jl_reaches (\<lambda>e. True) s0 s"
    and "t = update_job_info_end by_user (SchedulerReturned jobs (Inr ())) s"
  shows "(\<forall>(job_id, f) \<in> set (jl_job_update_requests s).
            jl_futures t ! f = (if jl_futures s ! f = Pending then Result (jobs job_id) else jl_futures s ! f))
    \<and> (\<forall>f < length (jl_futures s). f \<notin> snd ` set (jl_job_update_requests s) \<longrightarrow> jl_futures t ! f = jl_futures s ! f)
    \<and> jl_job_update_requests t = [] \<and> jl_update_handle t = NoHandle \<and> jl_jobs_cache t = jobs
    \<and> jl_last_updated t = Some (jl_now s)"
proof -
  have inv: "jl_inv s"
    using jl.invar_reachable [OF assms(2)] assms(1) by blast
  have fs: "jl_futures t = set_futures (jl_job_update_requests s) (\<lambda>job_id. Result (jobs job_id)) (jl_futures s)"
    by (simp add: assms(3) update_job_info_end_fields get_jobs_from_scheduler_def)
  have "jl_futures t ! f = (if jl_futures s ! f = Pending then Result (jobs job_id) else jl_futures s ! f)"
    if "(job_id, f) \<in> set (jl_job_update_requests s)" for job_id f
  proof (cases "jl_futures s ! f = Pending")
    case True
    then show ?thesis
      using inv that by (auto simp: fs jl_inv_def intro!: set_futures_request)
  next
    case False
    then have "future_done (jl_futures s ! f)"
      using not_done_iff by blast
    then show ?thesis
      using False by (simp add: fs set_futures_done)
  qed
  moreover have "jl_jobs_cache t = jobs"
    by (simp add: assms(3) update_job_info_end_def get_jobs_from_scheduler_def updating_end_empty)
  moreover have "jl_job_update_requests t = []" "jl_update_handle t = NoHandle" "jl_last_updated t = Some (jl_now s)"
    by (simp_all add: assms(3) update_job_info_end_fields get_jobs_from_scheduler_def)
  ultimately show ?thesis
    by (auto simp: fs set_futures_other)
qed

theorem answer_reaches_all_requests_witness:
  "jl_futures (update_job_info_end False (SchedulerReturned [''2'' \<mapsto> 8] (Inr ())) one_pending) ! 2 = Result (Some 8)"
  using answer_reaches_all_requests [OF JobsList_is_new one_pending_reached refl, of False "[''2'' \<mapsto> 8]"] by simp

text \<open>C33: With a constant minimum interval, a call of the scheduler comes at least that interval after every
  earlier call that returned.\<close>

theorem polls_keep_interval:
  assumes "is_new_list interval s0" "0 \<le> interval" "jl_reaches (same_interval interval) s0 s"
    and "m < n" "n < length (jl_polls s)" "jl_polls s ! n = (t', True, jobs')"
  shows "t' + interval \<le> fst (jl_polls s ! m)"
proof -
  have "poll_gaps interval (jl_polls s)"
    using polls_ok_reachable [OF assms(1-3)] by (simp add: polls_ok_def)
  then have "(\<lambda>(t, returned, jobs) (t', returned', jobs'). returned' \<longrightarrow> t' + interval \<le> t) (jl_polls s ! m) (jl_polls s ! n)"
    unfolding poll_gaps_def using assms(4,5) by (rule sorted_wrt_nth_less)
  then show ?thesis
    using assms(6) by (cases "jl_polls s ! m") simp
qed

theorem polls_keep_interval_witness:
  "\<exists>s :: nat jobs_list. jl_polls s = [(15, False, None), (5, True, Some [''1'', ''2''])] \<and> (5::int) + 10 \<le> fst (jl_polls s ! 0)"
proof -
  let ?s = "one_pending\<lparr>jl_now := 15, jl_futures := [Result (Some 3), Result None, Excepted OSError],
    jl_job_update_requests := [], jl_update_handle := NoHandle,
    jl_polls := [(15, False, None), (5, True, Some [''1'', ''2''])]\<rparr>"
  have "run_events jl_enabled jl_apply [Request 10 ''1'', Request 10 ''2'', Advance 5, StartUpdate,
     Respond False (SchedulerReturned [''1'' \<mapsto> 3] (Inr ())), Request 10 ''2'', Advance 10, StartUpdate,
     Respond True (SchedulerFailed OSError)] (JobsList 0 10 None) = Some ?s"
    by (simp add: jl_defs)
  from polls_keep_interval [OF JobsList_is_new _ run_events_reaches [OF this], of 0 1 5 "Some [''1'', ''2'']"]
  show ?thesis by (intro exI [of _ ?s]) simp
qed

text \<open>A call that fails does not count: the first request after it schedules the next call at once, however
  long the minimum interval.\<close>

theorem failed_poll_repeats_at_once:
  assumes "is_new_list interval s0" "0 \<le> interval" "jl_reaches (same_interval interval) s0 s"
    and "jl_update_handle s = Updating"
  shows "jl_polls (update_job_info_end by_user (SchedulerFailed e) s) \<noteq> []
    \<and> fst (hd (jl_polls (update_job_info_end by_user (SchedulerFailed e) s))) = jl_now s
    \<and> jl_update_handle (fst (request_job_info_update interval job_id
          (update_job_info_end by_user (SchedulerFailed e) s))) = Timer (jl_now s)"
proof -
  have ok: "polls_ok interval s"
    by (rule polls_ok_reachable [OF assms(1-3)])
  let ?s = "update_job_info_end by_user (SchedulerFailed e) s"
  have s: "jl_job_update_requests ?s = []" "jl_update_handle ?s = NoHandle" "jl_now ?s = jl_now s"
      "jl_last_updated ?s = jl_last_updated s"
      "jl_polls ?s = (jl_now s, False, if by_user then None else Some (get_jobs_with_scheduler s)) # jl_polls s"
    by (simp_all add: update_job_info_end_fields get_jobs_from_scheduler_def Let_def)
  have "get_next_update_delay (?s\<lparr>jl_minimum_interval := interval, jl_futures := fs, jl_job_update_requests := r\<rparr>) = 0" for fs r
    using ok assms(4) by (auto simp: get_next_update_delay_def s polls_ok_def next_poll_ok_def split: option.split)
  then show ?thesis
    by (simp add: request_job_info_update_def s ensure_updating_def schedule_update_def)
qed

theorem failed_poll_repeats_at_once_witness:
  "jl_update_handle (fst (request_job_info_update 10 ''9''
     (update_job_info_end True (SchedulerFailed OSError) (one_pending\<lparr>jl_now := 15, jl_update_handle := Updating\<rparr>)))) = Timer 15"
proof -
  let ?s = "one_pending\<lparr>jl_now := 15, jl_update_handle := Updating\<rparr>"
  have "run_events jl_enabled jl_apply [Request 10 ''1'', Request 10 ''2'', Advance 5, StartUpdate,
     Respond False (SchedulerReturned [''1'' \<mapsto> 3] (Inr ())), Request 10 ''2'', Advance 10, StartUpdate]
     (JobsList 0 10 None) = Some ?s"
    by (simp add: jl_defs)
  from failed_poll_repeats_at_once [OF JobsList_is_new _ run_events_reaches [OF this], of True OSError "''9''"]
  show ?thesis by simp
qed

text \<open>A request whose future is done, and the events that are no part of an update.\<close>

definition blocked :: "string \<Rightarrow> nat \<Rightarrow> 'i jobs_list \<Rightarrow> bool" where
  "blocked job_id f s \<longleftrightarrow> map_of (jl_job_update_requests s) job_id = Some f
     \<and> f < length (jl_futures s) \<and> future_done (jl_futures s ! f)"

fun no_update :: "'i jl_event \<Rightarrow> bool" where
  "no_update StartUpdate \<longleftrightarrow> False"
| "no_update (Respond by_user response) \<longleftrightarrow> False"
| "no_update _ \<longleftrightarrow> True"

lemma blocked_request: "blocked job_id f s \<Longrightarrow> snd (request_job_info_update c job_id s) = Inl AssertionError"
  by (simp add: blocked_def request_job_info_update_def)

lemma blocked_event: "\<lbrakk> blocked job_id f s; jl_enabled s e; no_update e \<rbrakk> \<Longrightarrow> blocked job_id f (jl_apply e s)"
  by (cases e)
     (auto simp: blocked_def request_job_info_update_def leave_update_def cancel_def nth_append nth_list_update Let_def
        split: option.splits)

interpretation jl_blocked: event_invariant jl_enabled jl_apply no_update "blocked job_id f" "blocked job_id f"
  for job_id f
  by unfold_locales (auto intro: blocked_event)

text \<open>A client that leaves cancels the future but not the request: until the next update of the list, every
  new request for the same job fails with an \<open>AssertionError\<close>.\<close>

theorem cancelled_request_blocks:
  assumes "is_new_list interval s0" "jl_reaches (\<lambda>e. True) s0 s"
    and "request_job_info_update interval job_id s = (t, Inr f)"
    and "jl_reaches no_update (leave_update f t) u"
  shows "snd (request_job_info_update c job_id u) = Inl AssertionError"
proof -
  have inv: "jl_inv s"
    using jl.invar_reachable [OF assms(2)] assms(1) by blast
  then have "jl_inv t"
    using jl_inv_request [OF inv, of interval job_id] assms(3) by simp
  moreover have f: "map_of (jl_job_update_requests t) job_id = Some f" "jl_futures t ! f = Pending"
    using assms(3) by (auto simp: request_job_info_update_def Let_def map_add_Some_iff split: option.splits if_splits)
  ultimately have "f < length (jl_futures t)"
    by (force simp: jl_inv_def dest: map_of_SomeD)
  then have "blocked job_id f (leave_update f t)"
    using f by (simp add: blocked_def leave_update_def cancel_def)
  then show ?thesis
    using jl_blocked.invar_reaches [OF assms(4)] by (blast intro: blocked_request)
qed

theorem cancelled_request_blocks_witness:
  "snd (request_job_info_update 10 ''42''
     (leave_update 0 (fst (request_job_info_update 10 ''42'' (JobsList 0 10 None :: nat jobs_list))))) = Inl AssertionError"
  by (rule cancelled_request_blocks [OF JobsList_is_new reaches_refl _ reaches_refl])
     (simp add: jl_defs)

end
