(* ===== verification/Aiida_Scheduler.thy ===== *)
theory Aiida_Scheduler
  imports Aiida_Escaping
begin

text \<open>
  The base of the scheduler plugins: the job resources and the job information of
  \<open>schedulers/datastructures.py\<close>, and from \<open>schedulers/scheduler.py\<close> the defaults of the resources and the
  submission script.  The header and the footer of the script come from the plugin and are parameters.

  The specification of a run line is a reader for the part of the shell language it uses: blanks, quoted
  words, and the redirections \<open><\<close>, \<open>>\<close>, \<open>2>\<close> and \<open>2>&1\<close>.
\<close>

section \<open>Python values and \<open>int()\<close>\<close>

text \<open>The values a user can give for a resource; \<open>PyObject\<close> stands for every type that \<open>int()\<close> rejects with a
  \<open>TypeError\<close>.  Floats are left out.\<close>

datatype py_value = PyNone | PyInt int | PyBool bool | PyStr string | PyObject

fun py_int :: "py_value \<Rightarrow> int res" where
  "py_int (PyInt n) = Inr n"
| "py_int (PyBool b) = Inr (if b then 1 else 0)"
| "py_int (PyStr s) = (case int_of_str s of None \<Rightarrow> Inl ValueError | Some n \<Rightarrow> Inr n)"
| "py_int _ = Inl TypeError"

section \<open>Job resources\<close>

subsection \<open>Number of nodes\<close>

record node_resources =
  num_machines :: "int option"
  num_mpiprocs_per_machine :: "int option"
  num_cores_per_machine :: "int option"
  num_cores_per_mpiproc :: "int option"
  tot_num_mpiprocs :: "int option"

definition node_default_fields :: "string list" where
  "node_default_fields =
     [''num_machines'', ''num_mpiprocs_per_machine'', ''num_cores_per_machine'', ''num_cores_per_mpiproc'']"

definition node_valid_keys :: "string list" where
  "node_valid_keys = node_default_fields @ [''tot_num_mpiprocs'']"

text \<open>One turn of the loop over the parameters: a missing value and \<open>None\<close> are the same; the \<open>TypeError\<close> of
  \<open>int()\<close> is not caught.\<close>

definition parse_parameter :: "py_value dict \<Rightarrow> string \<Rightarrow> int option res" where
  "parse_parameter kwargs parameter =
     (case map_of kwargs parameter of
        None \<Rightarrow> Inr None
      | Some PyNone \<Rightarrow> Inr None
      | Some value \<Rightarrow> bind_res (py_int value) (\<lambda>n. Inr (Some n)))"

definition is_greater_equal_one :: "int option \<Rightarrow> unit res" where
  "is_greater_equal_one value = guard (case value of None \<Rightarrow> True | Some n \<Rightarrow> 1 \<le> n) ValueError"

text \<open>The three cases that complete the missing value, and the checks around them.  Python's \<open>//\<close> is \<open>div\<close>.\<close>

definition complete_resources :: "node_resources \<Rightarrow> node_resources res" where
  "complete_resources r =
     (let count_none = length (filter (\<lambda>v. v = None) [num_machines r, num_mpiprocs_per_machine r, tot_num_mpiprocs r])
      in bind_res (guard (\<not> count_none > 1) ValueError) (\<lambda>_.
         bind_res (is_greater_equal_one (num_machines r)) (\<lambda>_.
         bind_res (is_greater_equal_one (num_mpiprocs_per_machine r)) (\<lambda>_.
           let r =
             (if num_machines r = None then
                r\<lparr>num_machines := Some (the (tot_num_mpiprocs r) div the (num_mpiprocs_per_machine r))\<rparr>
              else if num_mpiprocs_per_machine r = None then
                r\<lparr>num_mpiprocs_per_machine := Some (the (tot_num_mpiprocs r) div the (num_machines r))\<rparr>
              else if tot_num_mpiprocs r = None then
                r\<lparr>tot_num_mpiprocs := Some (the (num_mpiprocs_per_machine r) * the (num_machines r))\<rparr>
              else r)
           in bind_res (guard (the (tot_num_mpiprocs r) = the (num_mpiprocs_per_machine r) * the (num_machines r)) ValueError) (\<lambda>_.
              bind_res (is_greater_equal_one (num_mpiprocs_per_machine r)) (\<lambda>_.
              bind_res (is_greater_equal_one (num_machines r)) (\<lambda>_.
              Inr r)))))))"

definition validate_node_resources :: "py_value dict \<Rightarrow> node_resources res" where
  "validate_node_resources kwargs =
     bind_res (parse_parameter kwargs ''num_machines'') (\<lambda>m.
     bind_res (parse_parameter kwargs ''num_mpiprocs_per_machine'') (\<lambda>p.
     bind_res (parse_parameter kwargs ''num_cores_per_machine'') (\<lambda>c.
     bind_res (parse_parameter kwargs ''num_cores_per_mpiproc'') (\<lambda>d.
     bind_res (parse_parameter kwargs ''tot_num_mpiprocs'') (\<lambda>t.
     bind_res (guard (list_all (\<lambda>(k, v). k \<in> set node_valid_keys) kwargs) ValueError) (\<lambda>_.
       complete_resources
         \<lparr>num_machines = m, num_mpiprocs_per_machine = p, num_cores_per_machine = c,
          num_cores_per_mpiproc = d, tot_num_mpiprocs = t\<rparr>))))))"

definition get_tot_num_mpiprocs :: "node_resources \<Rightarrow> int" where
  "get_tot_num_mpiprocs r = the (num_machines r) * the (num_mpiprocs_per_machine r)"

subsection \<open>Cores in SLURM and PBS\<close>

text \<open>SLURM completes \<open>num_cores_per_mpiproc\<close>.  The code divides as floats and compares with the integer
  part, which for values below \<open>2 ^ 53\<close> is divisibility.\<close>

definition slurm_cores :: "node_resources \<Rightarrow> node_resources res" where
  "slurm_cores r =
     (case (num_cores_per_machine r, num_cores_per_mpiproc r) of
        (Some c, Some d) \<Rightarrow>
          bind_res (guard (c = d * the (num_mpiprocs_per_machine r)) ValueError) (\<lambda>_. Inr r)
      | (Some c, None) \<Rightarrow>
          bind_res (guard (1 \<le> c) ValueError) (\<lambda>_.
          bind_res (guard (c mod the (num_mpiprocs_per_machine r) = 0) ValueError) (\<lambda>_.
            Inr (r\<lparr>num_cores_per_mpiproc := Some (c div the (num_mpiprocs_per_machine r))\<rparr>)))
      | _ \<Rightarrow> Inr r)"

definition validate_slurm_resources :: "py_value dict \<Rightarrow> node_resources res" where
  "validate_slurm_resources kwargs = bind_res (validate_node_resources kwargs) slurm_cores"

text \<open>PBS completes \<open>num_cores_per_machine\<close>.\<close>

definition pbs_cores :: "node_resources \<Rightarrow> node_resources res" where
  "pbs_cores r =
     (case (num_cores_per_machine r, num_cores_per_mpiproc r) of
        (Some c, Some d) \<Rightarrow>
          bind_res (guard (c = d * the (num_mpiprocs_per_machine r)) ValueError) (\<lambda>_. Inr r)
      | (None, Some d) \<Rightarrow>
          bind_res (guard (1 \<le> d) ValueError) (\<lambda>_.
            Inr (r\<lparr>num_cores_per_machine := Some (d * the (num_mpiprocs_per_machine r))\<rparr>))
      | _ \<Rightarrow> Inr r)"

definition validate_pbs_resources :: "py_value dict \<Rightarrow> node_resources res" where
  "validate_pbs_resources kwargs = bind_res (validate_node_resources kwargs) pbs_cores"

subsection \<open>Parallel environment\<close>

record par_env_resources =
  parallel_env :: string
  par_tot_num_mpiprocs :: int

definition validate_par_env_resources :: "py_value dict \<Rightarrow> par_env_resources res" where
  "validate_par_env_resources kwargs =
     (case map_of kwargs ''parallel_env'' of
        Some (PyStr env) \<Rightarrow>
          (case map_of kwargs ''tot_num_mpiprocs'' of
             None \<Rightarrow> Inl ValueError
           | Some value \<Rightarrow>
               (case py_int value of
                  Inl e \<Rightarrow> Inl ValueError
                | Inr n \<Rightarrow>
                    bind_res (guard (1 \<le> n) ValueError) (\<lambda>_.
                    bind_res (guard (list_all (\<lambda>(k, v). k \<in> {''parallel_env'', ''tot_num_mpiprocs''}) kwargs) ValueError) (\<lambda>_.
                      Inr \<lparr>parallel_env = env, par_tot_num_mpiprocs = n\<rparr>))))
      | _ \<Rightarrow> Inl ValueError)"

subsection \<open>Defaults\<close>

text \<open>\<open>Scheduler.preprocess_resources\<close> for a resource class that does (node numbers) or does not (parallel
  environment) accept the default.  A missing default is \<open>None\<close>.\<close>

definition get_value :: "py_value dict \<Rightarrow> string \<Rightarrow> py_value" where
  "get_value resources key = (case map_of resources key of None \<Rightarrow> PyNone | Some v \<Rightarrow> v)"

definition preprocess_resources :: "bool \<Rightarrow> py_value dict \<Rightarrow> int option \<Rightarrow> py_value dict" where
  "preprocess_resources accepts_default resources default_mpiprocs_per_machine =
     (if get_value resources ''num_mpiprocs_per_machine'' = PyNone \<and> accepts_default
         \<and> (get_value resources ''num_machines'' = PyNone \<or> get_value resources ''tot_num_mpiprocs'' = PyNone)
      then AList.update ''num_mpiprocs_per_machine''
             (case default_mpiprocs_per_machine of None \<Rightarrow> PyNone | Some n \<Rightarrow> PyInt n) resources
      else resources)"

section \<open>The submission script\<close>

record code_info =
  prepend_cmdline_params :: "string list"
  cmdline_params :: "string list"
  use_double_quotes :: "bool \<times> bool"
  wrap_cmdline_params :: bool
  stdin_name :: "string option"
  stdout_name :: "string option"
  stderr_name :: "string option"
  join_files :: bool

datatype code_run_mode = SERIAL | PARALLEL

text \<open>Truth of an optional string, and one redirection.\<close>

definition nonempty :: "string option \<Rightarrow> bool" where
  "nonempty s \<longleftrightarrow> s \<noteq> None \<and> s \<noteq> Some []"

definition redirection :: "string \<Rightarrow> string option \<Rightarrow> bool \<Rightarrow> string" where
  "redirection operator name dq = (if nonempty name then operator @ '' '' @ escape_for_bash name dq else [])"

text \<open>The body of the loop of \<open>_get_run_line\<close>.\<close>

definition run_line :: "code_info \<Rightarrow> string" where
  "run_line code =
     (let computer_dq = fst (use_double_quotes code);
          code_dq = snd (use_double_quotes code);
          prepend = map (\<lambda>arg. escape_for_bash (Some arg) computer_dq) (prepend_cmdline_params code);
          params = map (\<lambda>arg. escape_for_bash (Some arg) code_dq) (cmdline_params code);
          stdin_str = redirection ''<'' (stdin_name code) computer_dq;
          stdout_str = redirection ''>'' (stdout_name code) computer_dq;
          stderr_str = (if join_files code then ''2>&1'' else redirection ''2>'' (stderr_name code) computer_dq);
          params_string = str_join '' '' (params @ [stdin_str, stdout_str, stderr_str]);
          params_string = (if wrap_cmdline_params code then escape_for_bash (Some params_string) True else params_string)
      in str_strip (str_join '' '' prepend @ '' '' @ params_string))"

definition get_run_line :: "code_info list \<Rightarrow> code_run_mode \<Rightarrow> string" where
  "get_run_line codes_info codes_run_mode =
     (let lines = map run_line codes_info
      in case codes_run_mode of
           PARALLEL \<Rightarrow> str_join ('' &'' @ [newline, newline]) (lines @ [''wait'' @ [newline]])
         | SERIAL \<Rightarrow> str_join [newline, newline] lines)"

text \<open>The fields of a job template that the base class reads; the plugin's header and footer see the whole
  template and are arguments.\<close>

record job_template =
  shebang :: "string option"
  job_environment :: "string dict"
  environment_variables_double_quotes :: bool
  prepend_text :: "string option"
  append_text :: "string option"
  codes_run_mode :: code_run_mode
  codes_info :: "code_info list"

definition get_submit_script_environment_variables :: "job_template \<Rightarrow> string" where
  "get_submit_script_environment_variables template =
     str_join [newline]
       ([''# ENVIRONMENT VARIABLES BEGIN ###'']
        @ map (\<lambda>(key, value). ''export '' @ str_strip key @ ''=''
                 @ escape_for_bash (Some value) (environment_variables_double_quotes template)) (job_environment template)
        @ [''# ENVIRONMENT VARIABLES END ###''])"

definition get_submit_script :: "(job_template \<Rightarrow> string) \<Rightarrow> (job_template \<Rightarrow> string) \<Rightarrow> job_template \<Rightarrow> string" where
  "get_submit_script header footer tmpl =
     str_join [newline]
       ([case shebang tmpl of None \<Rightarrow> ''#!/bin/bash'' | Some s \<Rightarrow> s]
        @ [header tmpl, []]
        @ (if job_environment tmpl \<noteq> [] then [get_submit_script_environment_variables tmpl, []] else [])
        @ (if nonempty (prepend_text tmpl) then [the (prepend_text tmpl), []] else [])
        @ [get_run_line (codes_info tmpl) (codes_run_mode tmpl), []]
        @ (if nonempty (append_text tmpl) then [the (append_text tmpl), []] else [])
        @ (if footer tmpl \<noteq> [] then [footer tmpl, []] else []))"

section \<open>Reading a run line as the shell does\<close>

datatype shell_token = WordToken string | InToken | OutToken | ErrToken | ErrToOutToken

text \<open>The mode is \<open>None\<close> between words.\<close>

function shell_lex :: "quote_mode option \<Rightarrow> string \<Rightarrow> string \<Rightarrow> shell_token list option" where
  "shell_lex None acc [] = Some []"
| "shell_lex (Some Unquoted) acc [] = Some [WordToken acc]"
| "shell_lex (Some SingleQuoted) acc [] = None"
| "shell_lex (Some DoubleQuoted) acc [] = None"
| "shell_lex None acc (c # cs) =
     (if c = CHR '' '' then shell_lex None [] cs
      else if c = CHR 0x27 then shell_lex (Some SingleQuoted) [] cs
      else if c = CHR 0x22 then shell_lex (Some DoubleQuoted) [] cs
      else if c = CHR ''<'' then map_option (Cons InToken) (shell_lex None [] cs)
      else if c = CHR ''>'' then map_option (Cons OutToken) (shell_lex None [] cs)
      else if c = CHR ''2'' \<and> take 3 cs = ''>&1'' then map_option (Cons ErrToOutToken) (shell_lex None [] (drop 3 cs))
      else if c = CHR ''2'' \<and> take 1 cs = ''>'' then map_option (Cons ErrToken) (shell_lex None [] (drop 1 cs))
      else None)"
| "shell_lex (Some Unquoted) acc (c # cs) =
     (if c = CHR '' '' then map_option (Cons (WordToken acc)) (shell_lex None [] cs)
      else if c = CHR 0x27 then shell_lex (Some SingleQuoted) acc cs
      else if c = CHR 0x22 then shell_lex (Some DoubleQuoted) acc cs
      else None)"
| "shell_lex (Some SingleQuoted) acc (c # cs) =
     (if c = CHR 0x27 then shell_lex (Some Unquoted) acc cs else shell_lex (Some SingleQuoted) (acc @ [c]) cs)"
| "shell_lex (Some DoubleQuoted) acc (c # cs) =
     (if c = CHR 0x22 then shell_lex (Some Unquoted) acc cs
      else if active_in_double_quotes c then None
      else shell_lex (Some DoubleQuoted) (acc @ [c]) cs)"
  by pat_completeness auto
termination
  by (relation "measure (\<lambda>(m, acc, s). length s)") auto

text \<open>What a simple command runs: the words, and where its standard streams go.\<close>

datatype error_target = Inherited | ErrFile string | SameAsOut

record command_spec =
  cs_args :: "string list"
  cs_stdin :: "string option"
  cs_stdout :: "string option"
  cs_stderr :: error_target

definition no_command :: command_spec where
  "no_command = \<lparr>cs_args = [], cs_stdin = None, cs_stdout = None, cs_stderr = Inherited\<rparr>"

text \<open>Redirections are read from left to right; a stream redirected twice is outside the fragment.\<close>

fun read_tokens :: "shell_token list \<Rightarrow> command_spec \<Rightarrow> command_spec option" where
  "read_tokens [] c = Some c"
| "read_tokens (WordToken w # ts) c = read_tokens ts (c\<lparr>cs_args := cs_args c @ [w]\<rparr>)"
| "read_tokens (InToken # WordToken f # ts) c =
     (if cs_stdin c = None then read_tokens ts (c\<lparr>cs_stdin := Some f\<rparr>) else None)"
| "read_tokens (OutToken # WordToken f # ts) c =
     (if cs_stdout c = None then read_tokens ts (c\<lparr>cs_stdout := Some f\<rparr>) else None)"
| "read_tokens (ErrToken # WordToken f # ts) c =
     (if cs_stderr c = Inherited then read_tokens ts (c\<lparr>cs_stderr := ErrFile f\<rparr>) else None)"
| "read_tokens (ErrToOutToken # ts) c =
     (if cs_stderr c = Inherited then read_tokens ts (c\<lparr>cs_stderr := SameAsOut\<rparr>) else None)"
| "read_tokens _ c = None"

definition shell_command :: "string \<Rightarrow> command_spec option" where
  "shell_command line = Option.bind (shell_lex None [] line) (\<lambda>ts. read_tokens ts no_command)"

section \<open>Job information\<close>

text \<open>A date is a wall clock time (in microseconds) that is naive or has an offset from UTC; the text that
  \<open>strftime\<close> writes and \<open>strptime\<close> reads is represented by the wall clock time.\<close>

datatype datetime = Naive int | Aware int int

datatype info_value =
    InfoDate datetime
  | InfoState string
  | InfoPlain py_value
  | DateDict int "string option"

type_synonym job_info = "info_value dict"

definition job_states :: "string list" where
  "job_states = [''undetermined'', ''queued'', ''queued held'', ''running'', ''suspended'', ''done'']"

definition special_serializers :: "string dict" where
  "special_serializers =
     [(''submission_time'', ''date''), (''dispatch_time'', ''date''), (''finish_time'', ''date''), (''job_state'', ''job_state'')]"

definition serialize_job_state :: "info_value \<Rightarrow> info_value res" where
  "serialize_job_state v = (case v of InfoState s \<Rightarrow> Inr (InfoPlain (PyStr s)) | _ \<Rightarrow> Inl TypeError)"

definition deserialize_job_state :: "info_value \<Rightarrow> info_value res" where
  "deserialize_job_state v =
     (case v of
        InfoState s \<Rightarrow> Inr (InfoState s)
      | InfoPlain (PyStr s) \<Rightarrow> if s \<in> set job_states then Inr (InfoState s) else Inl ValueError
      | _ \<Rightarrow> Inl ValueError)"

definition serialize_date :: "info_value \<Rightarrow> info_value res" where
  "serialize_date v =
     (case v of
        InfoPlain PyNone \<Rightarrow> Inr (InfoPlain PyNone)
      | InfoDate (Naive t) \<Rightarrow> Inr (DateDict t None)
      | InfoDate (Aware t offset) \<Rightarrow> Inr (DateDict (t - offset) (Some ''UTC''))
      | _ \<Rightarrow> Inl TypeError)"

text \<open>The offset that \<open>timezone_from_name\<close> finds for another name is a parameter.\<close>

definition deserialize_date :: "(string \<Rightarrow> int res) \<Rightarrow> info_value \<Rightarrow> info_value res" where
  "deserialize_date timezone_from_name v =
     (case v of
        InfoPlain PyNone \<Rightarrow> Inr (InfoPlain PyNone)
      | DateDict t None \<Rightarrow> Inr (InfoDate (Naive t))
      | DateDict t (Some tz) \<Rightarrow>
          if tz = ''UTC'' then Inr (InfoDate (Aware t 0))
          else bind_res (timezone_from_name tz) (\<lambda>offset. Inr (InfoDate (Aware t offset)))
      | _ \<Rightarrow> Inl TypeError)"

definition serialize_field :: "info_value \<Rightarrow> string option \<Rightarrow> info_value res" where
  "serialize_field v field_type =
     (if field_type = None then Inr v
      else if field_type = Some ''date'' then serialize_date v
      else if field_type = Some ''job_state'' then serialize_job_state v
      else Inl AttributeError)"

definition deserialize_field :: "(string \<Rightarrow> int res) \<Rightarrow> info_value \<Rightarrow> string option \<Rightarrow> info_value res" where
  "deserialize_field timezone_from_name v field_type =
     (if field_type = None then Inr v
      else if field_type = Some ''date'' then deserialize_date timezone_from_name v
      else if field_type = Some ''job_state'' then deserialize_job_state v
      else Inl AttributeError)"

fun get_dict :: "job_info \<Rightarrow> job_info res" where
  "get_dict [] = Inr []"
| "get_dict ((k, v) # items) =
     bind_res (serialize_field v (map_of special_serializers k)) (\<lambda>w.
     bind_res (get_dict items) (\<lambda>d. Inr ((k, w) # d)))"

fun load_items :: "(string \<Rightarrow> int res) \<Rightarrow> job_info \<Rightarrow> job_info \<Rightarrow> job_info res" where
  "load_items timezone_from_name [] instance_dict = Inr instance_dict"
| "load_items timezone_from_name ((k, v) # items) instance_dict =
     bind_res (deserialize_field timezone_from_name v (map_of special_serializers k)) (\<lambda>w.
     load_items timezone_from_name items (AList.update k w instance_dict))"

definition load_from_dict :: "(string \<Rightarrow> int res) \<Rightarrow> job_info \<Rightarrow> job_info res" where
  "load_from_dict timezone_from_name data = load_items timezone_from_name data []"

section \<open>Lemmas on resources\<close>

text \<open>The abstract contract: of the number of machines, the processes per machine and their total at least two are
  given, and the completion keeps what is given, is positive and multiplies up.\<close>

definition agrees :: "int option \<Rightarrow> int option \<Rightarrow> bool" where
  "agrees given final \<longleftrightarrow> given = None \<or> given = final"

definition completes :: "node_resources \<Rightarrow> node_resources \<Rightarrow> bool" where
  "completes r s \<longleftrightarrow>
     2 \<le> length (filter (\<lambda>v. v \<noteq> None) [num_machines r, num_mpiprocs_per_machine r, tot_num_mpiprocs r])
   \<and> agrees (num_machines r) (num_machines s)
   \<and> agrees (num_mpiprocs_per_machine r) (num_mpiprocs_per_machine s)
   \<and> agrees (tot_num_mpiprocs r) (tot_num_mpiprocs s)
   \<and> num_cores_per_machine s = num_cores_per_machine r \<and> num_cores_per_mpiproc s = num_cores_per_mpiproc r
   \<and> (case (num_machines s, num_mpiprocs_per_machine s, tot_num_mpiprocs s) of
        (Some m, Some p, Some t) \<Rightarrow> 1 \<le> m \<and> 1 \<le> p \<and> t = m * p
      | _ \<Rightarrow> False)"

lemma complete_resources_simps:
  "complete_resources \<lparr>num_machines = None, num_mpiprocs_per_machine = Some p, num_cores_per_machine = c,
      num_cores_per_mpiproc = d, tot_num_mpiprocs = Some t\<rparr> =
   (if 1 \<le> p \<and> t = p * (t div p) \<and> 1 \<le> t div p
    then Inr \<lparr>num_machines = Some (t div p), num_mpiprocs_per_machine = Some p, num_cores_per_machine = c,
      num_cores_per_mpiproc = d, tot_num_mpiprocs = Some t\<rparr> else Inl ValueError)"
  "complete_resources \<lparr>num_machines = Some m, num_mpiprocs_per_machine = None, num_cores_per_machine = c,
      num_cores_per_mpiproc = d, tot_num_mpiprocs = Some t\<rparr> =
   (if 1 \<le> m \<and> t = (t div m) * m \<and> 1 \<le> t div m
    then Inr \<lparr>num_machines = Some m, num_mpiprocs_per_machine = Some (t div m), num_cores_per_machine = c,
      num_cores_per_mpiproc = d, tot_num_mpiprocs = Some t\<rparr> else Inl ValueError)"
  "complete_resources \<lparr>num_machines = Some m, num_mpiprocs_per_machine = Some p, num_cores_per_machine = c,
      num_cores_per_mpiproc = d, tot_num_mpiprocs = tot\<rparr> =
   (if 1 \<le> m \<and> 1 \<le> p \<and> (tot = None \<or> tot = Some (p * m))
    then Inr \<lparr>num_machines = Some m, num_mpiprocs_per_machine = Some p, num_cores_per_machine = c,
      num_cores_per_mpiproc = d, tot_num_mpiprocs = Some (p * m)\<rparr> else Inl ValueError)"
  by (auto simp: complete_resources_def is_greater_equal_one_def guard_def Let_def)

lemma complete_resources_missing:
  "\<not> 2 \<le> length (filter (\<lambda>v. v \<noteq> None) [num_machines r, num_mpiprocs_per_machine r, tot_num_mpiprocs r]) \<Longrightarrow>
   complete_resources r = Inl ValueError"
  by (auto simp: complete_resources_def guard_def split: if_splits)

lemma div_unique_factor:
  assumes "(1::int) \<le> n"
  shows "(u = n * (u div n) \<and> 1 \<le> u div n \<and> a = u div n) \<longleftrightarrow> (1 \<le> a \<and> u = a * n)"
  using assms by (auto simp: mult.commute)

lemma complete_resources_exact: "complete_resources r = Inr s \<longleftrightarrow> completes r s"
proof (cases "2 \<le> length (filter (\<lambda>v. v \<noteq> None) [num_machines r, num_mpiprocs_per_machine r, tot_num_mpiprocs r])")
  case False
  then show ?thesis
    using complete_resources_missing [OF False] by (auto simp: completes_def)
next
  case True
  obtain m p c d t where r: "r = \<lparr>num_machines = m, num_mpiprocs_per_machine = p, num_cores_per_machine = c,
      num_cores_per_mpiproc = d, tot_num_mpiprocs = t\<rparr>"
    by (cases r) auto
  obtain m' p' c' d' t' where s: "s = \<lparr>num_machines = m', num_mpiprocs_per_machine = p', num_cores_per_machine = c',
      num_cores_per_mpiproc = d', tot_num_mpiprocs = t'\<rparr>"
    by (cases s) auto
  consider (machines) n u where "m = None" "p = Some n" "t = Some u"
    | (processes) n u where "m = Some n" "p = None" "t = Some u"
    | (both) n u where "m = Some n" "p = Some u"
    using True r by (auto split: if_splits)
  then show ?thesis
  proof cases
    case machines
    have "completes r s \<longleftrightarrow> p' = p \<and> t' = t \<and> c' = c \<and> d' = d \<and> 1 \<le> n \<and> (\<exists>a. m' = Some a \<and> 1 \<le> a \<and> u = a * n)"
      by (auto simp: r s machines completes_def agrees_def split: option.splits)
    also have "\<dots> \<longleftrightarrow> complete_resources r = Inr s"
      unfolding r s machines complete_resources_simps
      by (cases "1 \<le> n") (auto simp: div_unique_factor [symmetric])
    finally show ?thesis ..
  next
    case processes
    have "completes r s \<longleftrightarrow> m' = m \<and> t' = t \<and> c' = c \<and> d' = d \<and> 1 \<le> n \<and> (\<exists>a. p' = Some a \<and> 1 \<le> a \<and> u = a * n)"
      by (auto simp: r s processes completes_def agrees_def mult.commute split: option.splits)
    also have "\<dots> \<longleftrightarrow> complete_resources r = Inr s"
      unfolding r s processes complete_resources_simps
      by (cases "1 \<le> n") (auto simp: div_unique_factor [symmetric] mult.commute [of n])
    finally show ?thesis ..
  next
    case both
    then show ?thesis
      by (auto simp: r s complete_resources_simps completes_def agrees_def mult.commute split: option.splits)
  qed
qed

section \<open>Lemmas on run lines\<close>

lemma lex_single_body:
  "shell_lex (Some SingleQuoted) acc
     (concat (map (\<lambda>x. if x = CHR 0x27 then [CHR 0x27, CHR 0x22, CHR 0x27, CHR 0x22, CHR 0x27] else [x]) s)
        @ CHR 0x27 # rest) = shell_lex (Some Unquoted) (acc @ s) rest"
  by (induction s arbitrary: acc) (auto simp: active_in_double_quotes_def)

lemma lex_double_body:
  "\<forall>c \<in> set s. \<not> active_in_double_quotes c \<Longrightarrow>
   shell_lex (Some DoubleQuoted) acc
     (concat (map (\<lambda>x. if x = CHR 0x22 then [CHR 0x22, CHR 0x27, CHR 0x22, CHR 0x27, CHR 0x22] else [x]) s)
        @ CHR 0x22 # rest) = shell_lex (Some Unquoted) (acc @ s) rest"
  by (induction s arbitrary: acc) auto

text \<open>A string is quoted safely: any string in single quotes, one without active characters in double quotes.\<close>

definition quotable :: "bool \<Rightarrow> string \<Rightarrow> bool" where
  "quotable dq s \<longleftrightarrow> (dq \<longrightarrow> list_all (\<lambda>c. \<not> active_in_double_quotes c) s)"

lemma lex_escaped:
  "quotable dq s \<Longrightarrow> shell_lex None [] (escape_for_bash (Some s) dq @ rest) = shell_lex (Some Unquoted) s rest"
  using lex_single_body [of "[]" s rest] lex_double_body [of s "[]" rest]
  by (auto simp: escape_for_bash_def str_replace_char quotable_def list_all_iff)

text \<open>The pieces that are joined with blanks, each with the tokens it stands for.\<close>

definition ends_word :: "string \<Rightarrow> bool" where
  "ends_word rest \<longleftrightarrow> rest = [] \<or> hd rest = CHR '' ''"

definition piece :: "string \<Rightarrow> shell_token list \<Rightarrow> bool" where
  "piece p ts \<longleftrightarrow> (\<forall>rest. ends_word rest \<longrightarrow> shell_lex None [] (p @ rest) = map_option (\<lambda>us. ts @ us) (shell_lex None [] rest))"

lemma ends_word_simps [simp]: "ends_word []" "ends_word (CHR '' '' # cs)"
  by (simp_all add: ends_word_def)

lemma lex_after_word: "ends_word rest \<Longrightarrow> shell_lex (Some Unquoted) w rest = map_option (Cons (WordToken w)) (shell_lex None [] rest)"
  by (cases rest) (auto simp: ends_word_def)

lemma piece_word: "quotable dq s \<Longrightarrow> piece (escape_for_bash (Some s) dq) [WordToken s]"
  by (auto simp: piece_def lex_escaped lex_after_word intro: option.map_cong0)

lemma piece_Nil: "piece [] []"
  by (simp add: piece_def option.map_id0 [unfolded id_def])

lemma piece_join:
  assumes "list_all2 piece ps tss"
  shows "piece (str_join '' '' ps) (concat tss)"
  using assms
proof (induction ps tss rule: list_all2_induct)
  case Nil
  then show ?case by (simp add: piece_Nil)
next
  case (Cons p ps ts tss)
  show ?case
  proof (cases ps)
    case Nil
    then show ?thesis using Cons by (auto simp: piece_def)
  next
    case (Cons q qs)
    then have "str_join '' '' (p # ps) = p @ CHR '' '' # str_join '' '' ps"
      by simp
    then show ?thesis
      using Cons.hyps Cons.IH by (simp add: piece_def option.map_comp comp_def)
  qed
qed

text \<open>Blanks around a line do not matter, and a line that can be read has no other space at its end.\<close>

lemma take_snoc:
  "is_space c \<Longrightarrow> take 3 (cs @ [c]) = ''>&1'' \<longleftrightarrow> take 3 cs = ''>&1''"
  "is_space c \<Longrightarrow> take 1 (cs @ [c]) = ''>'' \<longleftrightarrow> take 1 cs = ''>''"
  by (cases cs; cases "tl cs"; cases "tl (tl cs)"; auto simp: is_space_def numeral_3_eq_3)
     (cases cs; auto simp: is_space_def)

lemma drop_snoc: "take n cs = ws \<Longrightarrow> length ws = n \<Longrightarrow> drop n (cs @ [c]) = drop n cs @ [c]"
  by auto

lemma lex_snoc:
  assumes "is_space c"
  shows "shell_lex m acc (s @ [c]) = (if c = CHR '' '' then shell_lex m acc s else None)"
proof (induction m acc s rule: shell_lex.induct)
  case (5 acc d cs)
  have 3: "drop 3 (cs @ [c]) = drop 3 cs @ [c]" if "take 3 cs = ''>&1''"
    using that by (rule drop_snoc) simp
  have 1: "drop 1 (cs @ [c]) = drop 1 cs @ [c]" if "take 1 cs = ''>''"
    using that by (rule drop_snoc) simp
  consider (plain) "d \<in> {CHR '' '', CHR 0x27, CHR 0x22, CHR ''<'', CHR ''>''}"
    | (both) "d = CHR ''2''" "take 3 cs = ''>&1''"
    | (err) "d = CHR ''2''" "take 3 cs \<noteq> ''>&1''" "take 1 cs = ''>''"
    | (none) "d \<notin> {CHR '' '', CHR 0x27, CHR 0x22, CHR ''<'', CHR ''>''}"
        "d = CHR ''2'' \<longrightarrow> take 3 cs \<noteq> ''>&1'' \<and> take 1 cs \<noteq> ''>''"
    by blast
  then show ?case
  proof cases
    case plain
    then show ?thesis
      by (elim insertE emptyE) (simp_all add: 5(1-5))
  next
    case both
    then show ?thesis
      using 5(6) 3 by (simp add: take_snoc [OF assms] del: take_append drop_append)
  next
    case err
    then show ?thesis
      using 5(7) 1 by (simp add: take_snoc [OF assms] del: take_append drop_append One_nat_def)
  next
    case none
    then have "shell_lex None acc (d # cs) = None"
      by auto
    moreover have "shell_lex None acc (d # cs @ [c]) = None"
      using none take_snoc [OF assms, of cs] by (auto simp del: take_append drop_append)
    ultimately show ?thesis
      by (simp only: append_Cons if_cancel)
  qed
qed (use assms in \<open>auto simp: is_space_def\<close>)

lemma lex_rstrip:
  assumes "shell_lex m acc s \<noteq> None"
  shows "shell_lex m acc (rev (dropWhile is_space (rev s))) = shell_lex m acc s"
  using assms
proof (induction s rule: rev_induct)
  case (snoc c s)
  then show ?case by (auto simp: lex_snoc split: if_splits)
qed simp

lemma lex_lstrip: "shell_lex None acc s \<noteq> None \<Longrightarrow> shell_lex None [] (dropWhile is_space s) = shell_lex None acc s"
proof (induction s arbitrary: acc)
  case (Cons c s)
  then show ?case by (auto simp: is_space_def split: if_splits)
qed simp

lemma lex_strip: "shell_lex None [] s \<noteq> None \<Longrightarrow> shell_lex None [] (str_strip s) = shell_lex None [] s"
  unfolding str_strip_def using lex_lstrip [of "[]" s] lex_rstrip [of None "[]" "dropWhile is_space s"] by simp

section \<open>Properties\<close>

text \<open>The command a code is meant to run.\<close>

definition intended_command :: "code_info \<Rightarrow> command_spec" where
  "intended_command code =
     \<lparr>cs_args = prepend_cmdline_params code @ cmdline_params code,
      cs_stdin = (if nonempty (stdin_name code) then stdin_name code else None),
      cs_stdout = (if nonempty (stdout_name code) then stdout_name code else None),
      cs_stderr = (if join_files code then SameAsOut
                   else if nonempty (stderr_name code) then ErrFile (the (stderr_name code)) else Inherited)\<rparr>"

text \<open>Every string of the code can be quoted in the style chosen for it.\<close>

definition quotable_code :: "code_info \<Rightarrow> bool" where
  "quotable_code code \<longleftrightarrow>
     list_all (quotable (fst (use_double_quotes code))) (prepend_cmdline_params code)
   \<and> list_all (quotable (snd (use_double_quotes code))) (cmdline_params code)
   \<and> list_all (\<lambda>name. case name of None \<Rightarrow> True | Some s \<Rightarrow> quotable (fst (use_double_quotes code)) s)
        [stdin_name code, stdout_name code, stderr_name code]"

definition redirection_tokens :: "shell_token \<Rightarrow> string option \<Rightarrow> shell_token list" where
  "redirection_tokens tok name = (if nonempty name then [tok, WordToken (the name)] else [])"

lemma piece_redirection:
  assumes "(operator, tok) \<in> {(''<'', InToken), (''>'', OutToken), (''2>'', ErrToken)}"
    and "case name of None \<Rightarrow> True | Some s \<Rightarrow> quotable dq s"
  shows "piece (redirection operator name dq) (redirection_tokens tok name)"
proof (cases "nonempty name")
  case False
  then show ?thesis
    by (simp add: redirection_def redirection_tokens_def piece_Nil)
next
  case True
  then obtain s where s: "name = Some s"
    by (auto simp: nonempty_def)
  then have "piece (escape_for_bash (Some s) dq) [WordToken s]"
    using assms(2) by (simp add: piece_word)
  then show ?thesis
    using True assms(1) s
    by (auto simp: redirection_def redirection_tokens_def piece_def option.map_comp comp_def)
qed

lemma pieces_words: "list_all (quotable dq) args \<Longrightarrow>
  list_all2 piece (map (\<lambda>arg. escape_for_bash (Some arg) dq) args) (map (\<lambda>arg. [WordToken arg]) args)"
  by (induction args) (auto simp: piece_word)

lemma piece_blank: "\<lbrakk> piece p ts; piece q us \<rbrakk> \<Longrightarrow> piece (p @ '' '' @ q) (ts @ us)"
  by (simp add: piece_def option.map_comp comp_def)

lemma piece_lex: "piece p ts \<Longrightarrow> shell_lex None [] (str_strip p) = Some ts"
  using lex_strip [of p] by (auto simp: piece_def dest: spec [of _ "[]"])

lemma concat_singletons: "concat (map (\<lambda>arg. [f arg]) args) = map f args"
  by (induction args) auto

lemma read_words: "read_tokens (map WordToken ws @ ts) c = read_tokens ts (c\<lparr>cs_args := cs_args c @ ws\<rparr>)"
  by (induction ws arbitrary: c) auto

text \<open>C34: Read by the shell, the run line of a code runs the executable and arguments of the code, character for
  character, with the standard streams redirected as the code asks: in single quotes for any strings at
  all, in double quotes for strings without characters that stay active there.\<close>

theorem run_line_exact:
  assumes "quotable_code code" "\<not> wrap_cmdline_params code"
  shows "shell_command (run_line code) = Some (intended_command code)"
proof -
  let ?c = "fst (use_double_quotes code)" and ?d = "snd (use_double_quotes code)"
  let ?err = "if join_files code then ''2>&1'' else redirection ''2>'' (stderr_name code) ?c"
  let ?errt = "if join_files code then [ErrToOutToken] else redirection_tokens ErrToken (stderr_name code)"
  let ?r = "[redirection ''<'' (stdin_name code) ?c, redirection ''>'' (stdout_name code) ?c, ?err]"
  let ?t = "[redirection_tokens InToken (stdin_name code), redirection_tokens OutToken (stdout_name code), ?errt]"
  have "piece ''2>&1'' [ErrToOutToken]"
    by (simp add: piece_def)
  then have "list_all2 piece ?r ?t"
    using assms(1) by (auto simp: quotable_code_def intro!: piece_redirection)
  then have cmd: "piece (str_join '' '' (map (\<lambda>arg. escape_for_bash (Some arg) ?d) (cmdline_params code) @ ?r))
      (concat (map (\<lambda>arg. [WordToken arg]) (cmdline_params code) @ ?t))"
    using assms(1) by (intro piece_join list_all2_appendI pieces_words) (auto simp: quotable_code_def)
  have pre: "piece (str_join '' '' (map (\<lambda>arg. escape_for_bash (Some arg) ?c) (prepend_cmdline_params code)))
      (concat (map (\<lambda>arg. [WordToken arg]) (prepend_cmdline_params code)))"
    using assms(1) by (intro piece_join pieces_words) (auto simp: quotable_code_def)
  have "shell_lex None [] (run_line code) =
      Some (map WordToken (prepend_cmdline_params code) @ map WordToken (cmdline_params code) @ concat ?t)"
    using piece_lex [OF piece_blank [OF pre cmd]] assms(2)
    by (simp only: run_line_def Let_def if_False concat_append concat_singletons)
  then show ?thesis
    by (simp add: shell_command_def read_words no_command_def redirection_tokens_def intended_command_def nonempty_def)
qed

theorem run_line_exact_witness:
  "shell_command (run_line \<lparr>prepend_cmdline_params = [''mpirun'', ''-np'', ''2''], cmdline_params = [''a b.x'', ''$HOME; rm *''],
     use_double_quotes = (False, False), wrap_cmdline_params = False, stdin_name = Some ''in put'', stdout_name = Some ''out'',
     stderr_name = Some ''err'', join_files = True\<rparr>) =
   Some \<lparr>cs_args = [''mpirun'', ''-np'', ''2'', ''a b.x'', ''$HOME; rm *''], cs_stdin = Some ''in put'', cs_stdout = Some ''out'',
     cs_stderr = SameAsOut\<rparr>"
  by (subst run_line_exact) (simp_all add: quotable_code_def quotable_def intended_command_def nonempty_def)

text \<open>With \<open>wrap_cmdline_params\<close> the command line parameters and the redirections become one argument of the
  prepended command (a container engine), provided that line has no characters that are active in double
  quotes.\<close>

theorem run_line_wrapped:
  assumes "wrap_cmdline_params code" "list_all (quotable (fst (use_double_quotes code))) (prepend_cmdline_params code)"
    and "line = str_join '' '' (map (\<lambda>arg. escape_for_bash (Some arg) (snd (use_double_quotes code))) (cmdline_params code)
        @ [redirection ''<'' (stdin_name code) (fst (use_double_quotes code)),
           redirection ''>'' (stdout_name code) (fst (use_double_quotes code)),
           if join_files code then ''2>&1'' else redirection ''2>'' (stderr_name code) (fst (use_double_quotes code))])"
    and "quotable True line"
  shows "shell_command (run_line code) = Some (no_command\<lparr>cs_args := prepend_cmdline_params code @ [line]\<rparr>)"
proof -
  let ?c = "fst (use_double_quotes code)"
  have pre: "piece (str_join '' '' (map (\<lambda>arg. escape_for_bash (Some arg) ?c) (prepend_cmdline_params code)))
      (concat (map (\<lambda>arg. [WordToken arg]) (prepend_cmdline_params code)))"
    using assms(2) by (intro piece_join pieces_words)
  have "shell_lex None [] (run_line code) = Some (map WordToken (prepend_cmdline_params code) @ [WordToken line])"
    using piece_lex [OF piece_blank [OF pre piece_word [OF assms(4)]]] assms(1)
    by (simp only: run_line_def Let_def if_True concat_singletons assms(3))
  then show ?thesis
    by (simp add: shell_command_def read_words no_command_def)
qed

theorem run_line_wrapped_witness:
  "shell_command (run_line \<lparr>prepend_cmdline_params = [''sh'', ''-c''], cmdline_params = [''a.x''],
     use_double_quotes = (False, False), wrap_cmdline_params = True, stdin_name = None, stdout_name = Some ''out'',
     stderr_name = None, join_files = False\<rparr>) =
   Some (no_command\<lparr>cs_args := [''sh'', ''-c'', [CHR 0x27] @ ''a.x'' @ [CHR 0x27] @ ''  > '' @ [CHR 0x27] @ ''out'' @ [CHR 0x27] @ '' '']\<rparr>)"
  by (subst run_line_wrapped [OF _ _ refl])
     (simp_all add: quotable_def redirection_def nonempty_def escape_for_bash_def str_replace_char active_in_double_quotes_def)

text \<open>C35: The resources are accepted exactly when all keys are known, the values are integers, and at least two of the
  number of machines, the processes per machine and the total are given and can be completed to positive
  numbers that multiply up; the result is that completion, which is unique.\<close>

theorem node_resources_exact:
  "validate_node_resources kwargs = Inr s \<longleftrightarrow>
     list_all (\<lambda>(k, v). k \<in> set node_valid_keys) kwargs
   \<and> (\<exists>r :: node_resources. parse_parameter kwargs ''num_machines'' = Inr (num_machines r)
      \<and> parse_parameter kwargs ''num_mpiprocs_per_machine'' = Inr (num_mpiprocs_per_machine r)
      \<and> parse_parameter kwargs ''num_cores_per_machine'' = Inr (num_cores_per_machine r)
      \<and> parse_parameter kwargs ''num_cores_per_mpiproc'' = Inr (num_cores_per_mpiproc r)
      \<and> parse_parameter kwargs ''tot_num_mpiprocs'' = Inr (tot_num_mpiprocs r)
      \<and> completes r s)"
  (is "_ \<longleftrightarrow> _ \<and> ?ex")
proof
  assume "validate_node_resources kwargs = Inr s"
  then obtain m p c d t where *: "parse_parameter kwargs ''num_machines'' = Inr m"
      "parse_parameter kwargs ''num_mpiprocs_per_machine'' = Inr p" "parse_parameter kwargs ''num_cores_per_machine'' = Inr c"
      "parse_parameter kwargs ''num_cores_per_mpiproc'' = Inr d" "parse_parameter kwargs ''tot_num_mpiprocs'' = Inr t"
      "list_all (\<lambda>(k, v). k \<in> set node_valid_keys) kwargs"
      "completes \<lparr>num_machines = m, num_mpiprocs_per_machine = p, num_cores_per_machine = c,
        num_cores_per_mpiproc = d, tot_num_mpiprocs = t\<rparr> s" (is "completes ?r s")
    by (auto simp: validate_node_resources_def bind_res_Inr_iff guard_def complete_resources_exact split: if_splits)
  then show "list_all (\<lambda>(k, v). k \<in> set node_valid_keys) kwargs \<and> ?ex"
    by (intro conjI exI [of _ ?r]) simp_all
next
  assume "list_all (\<lambda>(k, v). k \<in> set node_valid_keys) kwargs \<and> ?ex"
  then obtain r where r: "list_all (\<lambda>(k, v). k \<in> set node_valid_keys) kwargs"
      "parse_parameter kwargs ''num_machines'' = Inr (num_machines r)"
      "parse_parameter kwargs ''num_mpiprocs_per_machine'' = Inr (num_mpiprocs_per_machine r)"
      "parse_parameter kwargs ''num_cores_per_machine'' = Inr (num_cores_per_machine r)"
      "parse_parameter kwargs ''num_cores_per_mpiproc'' = Inr (num_cores_per_mpiproc r)"
      "parse_parameter kwargs ''tot_num_mpiprocs'' = Inr (tot_num_mpiprocs r)" "completes r s"
    by blast
  then show "validate_node_resources kwargs = Inr s"
    by (cases r) (simp add: validate_node_resources_def complete_resources_exact)
qed

lemma validated_mpiprocs:
  assumes "validate_node_resources kwargs = Inr s"
  obtains m p where "num_machines s = Some m" "num_mpiprocs_per_machine s = Some p" "1 \<le> m" "1 \<le> p"
    "tot_num_mpiprocs s = Some (m * p)"
  using assms
  by (auto simp: validate_node_resources_def bind_res_Inr_iff complete_resources_exact completes_def split: option.splits)

text \<open>The resources a SLURM or PBS job ends up with are consistent: when SLURM knows the cores per machine, or PBS
  the cores per process, the other is known too and the cores per machine are the cores per process times
  the processes per machine.\<close>

theorem cores_consistent:
  "(validate_slurm_resources kwargs = Inr s \<longrightarrow> num_cores_per_machine s = Some c \<longrightarrow>
      (\<exists>d p. num_cores_per_mpiproc s = Some d \<and> num_mpiprocs_per_machine s = Some p \<and> c = d * p))
   \<and> (validate_pbs_resources kwargs = Inr s \<longrightarrow> num_cores_per_mpiproc s = Some d \<longrightarrow>
      (\<exists>c p. num_cores_per_machine s = Some c \<and> num_mpiprocs_per_machine s = Some p \<and> c = d * p))"
proof (intro conjI impI)
  assume "validate_slurm_resources kwargs = Inr s" and c: "num_cores_per_machine s = Some c"
  then obtain r where r: "validate_node_resources kwargs = Inr r" "slurm_cores r = Inr s"
    by (auto simp: validate_slurm_resources_def bind_res_Inr_iff)
  obtain m p where "num_mpiprocs_per_machine r = Some p" "1 \<le> p"
    using r(1) by (rule validated_mpiprocs)
  then show "\<exists>d p. num_cores_per_mpiproc s = Some d \<and> num_mpiprocs_per_machine s = Some p \<and> c = d * p"
    using r(2) c by (auto simp: slurm_cores_def bind_guard_Inr_iff mod_eq_0_iff_dvd split: option.splits)
next
  assume "validate_pbs_resources kwargs = Inr s" and d: "num_cores_per_mpiproc s = Some d"
  then obtain r where r: "validate_node_resources kwargs = Inr r" "pbs_cores r = Inr s"
    by (auto simp: validate_pbs_resources_def bind_res_Inr_iff)
  obtain m p where "num_mpiprocs_per_machine r = Some p" "1 \<le> p"
    using r(1) by (rule validated_mpiprocs)
  then show "\<exists>c p. num_cores_per_machine s = Some c \<and> num_mpiprocs_per_machine s = Some p \<and> c = d * p"
    using r(2) d by (auto simp: pbs_cores_def bind_guard_Inr_iff split: option.splits)
qed

theorem cores_consistent_witness:
  "\<exists>d p. (Some 2 :: int option) = Some d \<and> (Some 4 :: int option) = Some p \<and> (8::int) = d * p"
  using cores_consistent [of "[(''num_machines'', PyInt 1), (''num_mpiprocs_per_machine'', PyInt 4), (''num_cores_per_machine'', PyInt 8)]"
      "\<lparr>num_machines = Some 1, num_mpiprocs_per_machine = Some 4, num_cores_per_machine = Some 8,
        num_cores_per_mpiproc = Some 2, tot_num_mpiprocs = Some 4\<rparr>" 8 2]
  by (simp add: validate_slurm_resources_def validate_node_resources_def parse_parameter_def complete_resources_simps
      slurm_cores_def node_valid_keys_def node_default_fields_def)

text \<open>When both numbers of cores are given neither is checked to be positive.\<close>

lemma slurm_accepts_no_cores:
  "validate_slurm_resources [(''num_machines'', PyInt 1), (''num_mpiprocs_per_machine'', PyInt 4),
      (''num_cores_per_machine'', PyInt 0), (''num_cores_per_mpiproc'', PyInt 0)] =
   Inr \<lparr>num_machines = Some 1, num_mpiprocs_per_machine = Some 4, num_cores_per_machine = Some 0,
        num_cores_per_mpiproc = Some 0, tot_num_mpiprocs = Some 4\<rparr>"
  by (simp add: validate_slurm_resources_def validate_node_resources_def parse_parameter_def complete_resources_simps
      slurm_cores_def node_valid_keys_def node_default_fields_def)

text \<open>A value of job information as it should be, and the same value with its date in UTC.\<close>

definition info_ok :: "string \<Rightarrow> info_value \<Rightarrow> bool" where
  "info_ok k v \<longleftrightarrow>
     (case map_of special_serializers k of
        None \<Rightarrow> True
      | Some ty \<Rightarrow>
          (if ty = ''date'' then (case v of InfoDate _ \<Rightarrow> True | InfoPlain PyNone \<Rightarrow> True | _ \<Rightarrow> False)
           else (case v of InfoState s \<Rightarrow> s \<in> set job_states | _ \<Rightarrow> False)))"

definition in_utc :: "string \<Rightarrow> info_value \<Rightarrow> info_value" where
  "in_utc k v =
     (case v of InfoDate (Aware t offset) \<Rightarrow> if map_of special_serializers k = None then v else InfoDate (Aware (t - offset) 0)
      | _ \<Rightarrow> v)"

lemma serializer_cases:
  "map_of special_serializers k = None \<or> map_of special_serializers k = Some ''date''
   \<or> map_of special_serializers k = Some ''job_state''"
  by (simp add: special_serializers_def)

lemma field_roundtrip:
  "info_ok k v \<Longrightarrow>
   bind_res (serialize_field v (map_of special_serializers k)) (\<lambda>w. deserialize_field tz w (map_of special_serializers k)) =
     Inr (in_utc k v)"
  using serializer_cases [of k]
  by (auto simp: info_ok_def in_utc_def serialize_field_def deserialize_field_def serialize_date_def
      deserialize_date_def serialize_job_state_def deserialize_job_state_def
      split: info_value.splits datetime.splits py_value.splits if_splits)

lemma load_get_dict:
  assumes "list_all (\<lambda>(k, v). info_ok k v) info" "wf_dict (acc @ info)"
  shows "bind_res (get_dict info) (\<lambda>d. load_items tz d acc) = Inr (acc @ map (\<lambda>(k, v). (k, in_utc k v)) info)"
  using assms
proof (induction info arbitrary: acc)
  case (Cons kv info)
  obtain k v where kv: "kv = (k, v)"
    by fastforce
  obtain w where w: "serialize_field v (map_of special_serializers k) = Inr w"
      "deserialize_field tz w (map_of special_serializers k) = Inr (in_utc k v)"
    using field_roundtrip [of k v tz] Cons.prems(1) kv by (auto simp: bind_res_Inr_iff)
  have "k \<notin> fst ` set acc" "wf_dict ((acc @ [(k, in_utc k v)]) @ info)"
    using Cons.prems(2) kv by (auto simp: wf_dict_def)
  then show ?case
    using Cons.IH [of "acc @ [(k, in_utc k v)]"] Cons.prems(1) kv w
    by (simp add: bind_res_assoc AList_update_fresh)
qed simp

text \<open>Job information that is serialized and loaded again is the same information, with every date at the same
  instant, expressed in UTC when it has an offset.\<close>

theorem job_info_roundtrip:
  assumes "list_all (\<lambda>(k, v). info_ok k v) info" "wf_dict info"
  shows "bind_res (get_dict info) (load_from_dict tz) = Inr (map (\<lambda>(k, v). (k, in_utc k v)) info)"
  using load_get_dict [of info "[]" tz] assms by (simp add: load_from_dict_def [abs_def])

theorem job_info_roundtrip_witness:
  "bind_res (get_dict [(''job_id'', InfoPlain (PyStr ''7'')), (''job_state'', InfoState ''running''),
        (''submission_time'', InfoDate (Aware 7200 3600))]) (load_from_dict (\<lambda>name. Inl ValueError)) =
   Inr [(''job_id'', InfoPlain (PyStr ''7'')), (''job_state'', InfoState ''running''),
        (''submission_time'', InfoDate (Aware 3600 0))]"
  by (subst job_info_roundtrip)
     (simp_all add: info_ok_def in_utc_def special_serializers_def job_states_def wf_dict_def)

end
