(* ===== verification/Aiida_Group_Path.thy ===== *)
theory Aiida_Group_Path
  imports Aiida_Escaping
begin

text \<open>
  The delimited group labels of \<open>tools/groups/paths.py\<close>.  The groups of the class a \<open>GroupPath\<close> works on
  are a dictionary from labels to the nodes of each group, in the order the query returns them; the
  filter \<open>like\<close> of the query builder is the reference meaning of an SQL pattern, and labels are unique.
  Warnings are left out.
\<close>

section \<open>Paths\<close>

record group_path =
  gp_path :: string
  gp_path_list :: "string list"

abbreviation delimiter :: char where "delimiter \<equiv> CHR ''/''"

definition validate_path :: "string \<Rightarrow> string res" where
  "validate_path path =
     (if path = [delimiter] then Inr []
      else if sublist [delimiter, delimiter] path then Inl InvalidPath
      else if str_startswith path [delimiter] \<or> str_endswith path [delimiter] then Inl InvalidPath
      else Inr path)"

text \<open>The list of components is empty only when the argument is the empty string.\<close>

definition GroupPath :: "string \<Rightarrow> group_path res" where
  "GroupPath path =
     bind_res (validate_path path) (\<lambda>path_string.
       Inr \<lparr>gp_path = path_string, gp_path_list = (if path \<noteq> [] then str_split [delimiter] path_string else [])\<rparr>)"

definition gp_key :: "group_path \<Rightarrow> string option" where
  "gp_key gp = (if gp_path_list gp \<noteq> [] then Some (last (gp_path_list gp)) else None)"

definition gp_parent :: "group_path \<Rightarrow> group_path option res" where
  "gp_parent gp =
     (if gp_path_list gp \<noteq> []
      then bind_res (GroupPath (str_join [delimiter] (butlast (gp_path_list gp)))) (\<lambda>p. Inr (Some p))
      else Inr None)"

definition gp_truediv :: "group_path \<Rightarrow> string \<Rightarrow> group_path res" where
  "gp_truediv gp path =
     bind_res (validate_path path) (\<lambda>path.
       GroupPath (if gp_path gp \<noteq> [] then gp_path gp @ [delimiter] @ path else path))"

section \<open>Groups\<close>

type_synonym 'n groups = "(string \<times> 'n list) list"

definition is_virtual :: "'n groups \<Rightarrow> group_path \<Rightarrow> bool" where
  "is_virtual groups gp \<longleftrightarrow> gp_path gp \<notin> fst ` set groups"

definition get_group :: "'n groups \<Rightarrow> group_path \<Rightarrow> 'n list option" where
  "get_group groups gp = map_of groups (gp_path gp)"

definition get_or_create_group :: "'n groups \<Rightarrow> group_path \<Rightarrow> 'n groups \<times> bool" where
  "get_or_create_group groups gp =
     (if is_virtual groups gp then (groups @ [(gp_path gp, [])], True) else (groups, False))"

definition delete_group :: "'n groups \<Rightarrow> group_path \<Rightarrow> 'n groups res" where
  "delete_group groups gp =
     (let ids = filter (\<lambda>(label, nodes). label = gp_path gp) groups
      in bind_res (guard (ids \<noteq> []) GroupNotFoundError) (\<lambda>_.
         bind_res (guard (\<not> length ids > 1) GroupNotUniqueError) (\<lambda>_.
         Inr (AList.delete (gp_path gp) groups))))"

definition below_pattern :: "group_path \<Rightarrow> string" where
  "below_pattern gp = gp_path gp @ [delimiter] @ ''%''"

text \<open>The labels the query of \<open>children\<close> yields.\<close>

definition labels_below :: "'n groups \<Rightarrow> group_path \<Rightarrow> string list" where
  "labels_below groups gp =
     filter (\<lambda>label. gp_path gp = [] \<or> sql_like label (below_pattern gp)) (map fst groups)"

fun children_loop :: "string list \<Rightarrow> string list \<Rightarrow> string list \<Rightarrow> group_path list" where
  "children_loop path_list yielded [] = []"
| "children_loop path_list yielded (label # labels) =
     (let path = str_split [delimiter] label;
          path_string = str_join [delimiter] (take (length path_list + 1) path)
      in if length path \<le> length path_list then children_loop path_list yielded labels
         else if path_string \<notin> set yielded \<and> take (length path_list) path = path_list then
           (case GroupPath path_string of
              Inl _ \<Rightarrow> children_loop path_list (yielded @ [path_string]) labels
            | Inr gp \<Rightarrow> gp # children_loop path_list (yielded @ [path_string]) labels)
         else children_loop path_list yielded labels)"

definition children :: "'n groups \<Rightarrow> group_path \<Rightarrow> group_path list res" where
  "children groups gp =
     (let labels = labels_below groups gp
      in bind_res (guard (\<not> (labels = [] \<and> is_virtual groups gp)) NoGroupsInPathError) (\<lambda>_.
         Inr (children_loop (gp_path_list gp) [] labels)))"

definition gp_contains :: "'n groups \<Rightarrow> group_path \<Rightarrow> string \<Rightarrow> bool res" where
  "gp_contains groups gp key =
     bind_res (children groups gp) (\<lambda>cs. Inr (list_ex (\<lambda>c. last (gp_path_list c) = key) cs))"

text \<open>\<open>walk\<close>, with the depth of the recursion as fuel: \<open>None\<close> when it is exceeded.\<close>

fun walk_children ::
  "(group_path \<Rightarrow> group_path list res option) \<Rightarrow> (group_path \<Rightarrow> bool) \<Rightarrow> group_path list \<Rightarrow> group_path list res option" where
  "walk_children sub keep [] = Some (Inr [])"
| "walk_children sub keep (c # cs) =
     (case sub c of
        None \<Rightarrow> None
      | Some (Inl e) \<Rightarrow> Some (Inl e)
      | Some (Inr ps) \<Rightarrow>
          map_option (\<lambda>r. bind_res r (\<lambda>qs. Inr ((if keep c then [c] else []) @ filter keep ps @ qs)))
            (walk_children sub keep cs))"

fun gp_walk :: "nat \<Rightarrow> 'n groups \<Rightarrow> bool \<Rightarrow> group_path \<Rightarrow> group_path list res option" where
  "gp_walk 0 groups return_virtual gp = None"
| "gp_walk (Suc n) groups return_virtual gp =
     (case children groups gp of
        Inl e \<Rightarrow> Some (Inl e)
      | Inr cs \<Rightarrow>
          walk_children (gp_walk n groups return_virtual)
            (\<lambda>c. return_virtual \<or> \<not> is_virtual groups c) cs)"

text \<open>The rows of the query of \<open>walk_nodes\<close>; a \<open>GroupPath\<close> is made of the label of each.\<close>

fun node_results :: "(string \<times> 'n) list \<Rightarrow> (group_path \<times> 'n) list res" where
  "node_results [] = Inr []"
| "node_results ((label, node) # rows) =
     bind_res (GroupPath label) (\<lambda>gp. bind_res (node_results rows) (\<lambda>r. Inr ((gp, node) # r)))"

definition walk_nodes :: "'n groups \<Rightarrow> group_path \<Rightarrow> (group_path \<times> 'n) list res" where
  "walk_nodes groups gp =
     node_results (concat (map (\<lambda>(label, nodes). map (\<lambda>n. (label, n)) nodes)
       (filter (\<lambda>(label, nodes). gp_path gp = [] \<or> label = gp_path gp \<or> sql_like label (below_pattern gp)) groups)))"

section \<open>Splitting at the delimiter\<close>

lemma str_split_append: "str_split [c] (a @ c # b) = str_split [c] a @ str_split [c] b"
proof (induction "length a" arbitrary: a rule: less_induct)
  case less
  show ?case
  proof (cases "c \<in> set a")
    case False
    then show ?thesis
      by (simp add: str_split.simps [of "[c]" "a @ c # b"] str_split.simps [of "[c]" a]
          str_partition_found str_partition_absent)
  next
    case True
    then obtain a1 a2 where a: "a = a1 @ c # a2" "c \<notin> set a1"
      by (meson split_list_first)
    then have "str_split [c] (a2 @ c # b) = str_split [c] a2 @ str_split [c] b"
      using less by simp
    then show ?thesis
      using a by (simp add: str_split.simps [of "[c]" "a1 @ c # a2 @ c # b"] str_split.simps [of "[c]" "a1 @ c # a2"]
          str_partition_found)
  qed
qed

lemma str_split_Nil [simp]: "str_split [c] [] = [[]]"
  by (simp add: str_split.simps)

lemma str_join_append: "xs \<noteq> [] \<Longrightarrow> ys \<noteq> [] \<Longrightarrow> str_join sep (xs @ ys) = str_join sep xs @ sep @ str_join sep ys"
proof (induction xs)
  case (Cons x xs)
  then show ?case by (cases xs) (auto simp: str_join_Cons)
qed simp

text \<open>A component of a path, and the label made of components.\<close>

definition component :: "string \<Rightarrow> bool" where
  "component t \<longleftrightarrow> t \<noteq> [] \<and> delimiter \<notin> set t"

definition components :: "string list \<Rightarrow> bool" where
  "components ps \<longleftrightarrow> list_all component ps"

definition valid_label :: "string \<Rightarrow> bool" where
  "valid_label l \<longleftrightarrow> components (str_split [delimiter] l)"

definition gp_of :: "string list \<Rightarrow> group_path" where
  "gp_of ps = \<lparr>gp_path = str_join [delimiter] ps, gp_path_list = ps\<rparr>"

lemma gp_of_list [simp]: "gp_path_list (gp_of ps) = ps"
  by (simp add: gp_of_def)

lemma split_join: "components ps \<Longrightarrow> ps \<noteq> [] \<Longrightarrow> str_split [delimiter] (str_join [delimiter] ps) = ps"
  by (rule str_split_join_char) (auto simp: components_def component_def list_all_iff)

lemma join_nonempty: "components ps \<Longrightarrow> ps \<noteq> [] \<Longrightarrow> str_join [delimiter] ps \<noteq> []"
  by (cases ps; cases "tl ps") (auto simp: components_def component_def)

lemma validate_join:
  assumes "components ps" "ps \<noteq> []"
  shows "validate_path (str_join [delimiter] ps) = Inr (str_join [delimiter] ps)"
proof -
  let ?l = "str_join [delimiter] ps"
  have *: "[] \<notin> set (str_split [delimiter] ?l)"
    using assms split_join [OF assms] by (auto simp: components_def component_def list_all_iff)
  have "\<not> sublist [delimiter, delimiter] ?l"
    using * str_split_append [of delimiter _ "delimiter # _"] str_split_append [of delimiter "[]"]
    by (auto simp: sublist_def)
  moreover have "\<not> prefix [delimiter] ?l" "\<not> suffix [delimiter] ?l"
    using * str_split_append [of delimiter "[]"] str_split_append [of delimiter _ "[]"]
    by (auto simp: prefix_def suffix_def)
  ultimately show ?thesis
    by (auto simp: validate_path_def str_startswith_def str_endswith_def)
qed

lemma GroupPath_join: "components ps \<Longrightarrow> GroupPath (str_join [delimiter] ps) = Inr (gp_of ps)"
proof (cases "ps = []")
  case True
  then show ?thesis
    by (simp add: GroupPath_def gp_of_def validate_path_def str_startswith_def str_endswith_def)
next
  case False
  then show "components ps \<Longrightarrow> ?thesis"
    by (simp add: GroupPath_def validate_join split_join join_nonempty gp_of_def)
qed

text \<open>Conversely, a path that is accepted has components, but for the path that is the delimiter alone.\<close>

lemma empty_component:
  assumes "[] \<in> set (str_split [delimiter] path)"
  shows "path = [] \<or> prefix [delimiter] path \<or> suffix [delimiter] path \<or> sublist [delimiter, delimiter] path"
proof -
  obtain xs ys where xy: "str_split [delimiter] path = xs @ [] # ys"
    using split_list [OF assms] by blast
  then have path: "path = str_join [delimiter] (xs @ [] # ys)"
    using str_join_split [of "[delimiter]" path] by simp
  consider "xs = []" "ys = []" | "xs = []" "ys \<noteq> []" | "xs \<noteq> []" "ys = []" | "xs \<noteq> []" "ys \<noteq> []"
    by blast
  then show ?thesis
  proof cases
    case 4
    then have "path = str_join [delimiter] xs @ [delimiter, delimiter] @ str_join [delimiter] ys"
      using path by (simp add: str_join_append str_join_Cons)
    then show ?thesis
      by (auto simp: sublist_def)
  qed (use path in \<open>simp_all add: str_join_append str_join_Cons suffix_def\<close>)
qed

lemma GroupPath_valid:
  assumes "GroupPath path = Inr gp" "path \<noteq> [delimiter]"
  shows "gp = gp_of (gp_path_list gp)" "components (gp_path_list gp)"
proof -
  have v: "validate_path path = Inr path"
    using assms by (auto simp: GroupPath_def bind_res_Inr_iff validate_path_def split: if_splits)
  then have gp: "gp = \<lparr>gp_path = path, gp_path_list = (if path \<noteq> [] then str_split [delimiter] path else [])\<rparr>"
    using assms by (auto simp: GroupPath_def)
  then show "gp = gp_of (gp_path_list gp)"
    using str_join_split [of "[delimiter]" path] by (simp add: gp_of_def)
  have "[] \<notin> set (str_split [delimiter] path)" if "path \<noteq> []"
    using empty_component [of path] that v
    by (auto simp: validate_path_def str_startswith_def str_endswith_def split: if_splits)
  then show "components (gp_path_list gp)"
    using gp str_split_char [of _ delimiter path] by (auto simp: components_def component_def list_all_iff)
qed

section \<open>Patterns\<close>

text \<open>Without backslashes a path as a pattern matches at least what is below it.\<close>

definition like_item :: "char \<Rightarrow> re_item" where
  "like_item c = (if c = CHR ''%'' then ReAnyStar else if c = CHR ''_'' then ReAny else ReLit c)"

lemma like_item_simps: "like_item delimiter = ReLit delimiter" "like_item CHR ''%'' = ReAnyStar"
  by (simp_all add: like_item_def)

lemma like_items_map: "backslash \<notin> set p \<Longrightarrow> like_items p = map like_item p"
  by (induction p rule: like_items.induct) (auto simp: like_item_def)

lemma like_match_self: "like_match_items is r \<Longrightarrow> like_match_items (map like_item p @ is) (p @ r)"
proof (induction p)
  case (Cons c p)
  have m: "like_match_items (map like_item p @ is) (p @ r)"
    by (rule Cons.IH [OF Cons.prems])
  show ?case
  proof (cases "c = CHR ''%''")
    case True
    have "\<exists>xs ys. c # p @ r = xs @ ys \<and> like_match_items (map like_item p @ is) ys"
      using m by (intro exI [of _ "[c]"] exI [of _ "p @ r"]) simp
    then show ?thesis
      using True by (simp add: like_item_simps)
  next
    case False
    then show ?thesis
      using m by (simp add: like_item_def [of c])
  qed
qed simp

lemma sql_like_below:
  "backslash \<notin> set (gp_path gp) \<Longrightarrow> sql_like (gp_path gp @ delimiter # rest) (below_pattern gp)"
  using like_match_self [of "[ReLit delimiter, ReAnyStar]" "delimiter # rest" "gp_path gp"]
  by (simp add: sql_like_def below_pattern_def like_items_map like_item_simps)

section \<open>Children\<close>

text \<open>The database of groups that the properties assume: every label is a path, without backslashes.\<close>

definition groups_ok :: "'n groups \<Rightarrow> bool" where
  "groups_ok groups \<longleftrightarrow> (\<forall>l \<in> fst ` set groups. valid_label l \<and> backslash \<notin> set l)"

definition label_paths :: "'n groups \<Rightarrow> string list set" where
  "label_paths groups = (\<lambda>l. str_split [delimiter] l) ` fst ` set groups"

text \<open>The paths that lead to some group.\<close>

definition on_path :: "'n groups \<Rightarrow> string list \<Rightarrow> bool" where
  "on_path groups qs \<longleftrightarrow> (\<exists>ls \<in> label_paths groups. prefix qs ls)"

lemma prefix_components: "components ls \<Longrightarrow> prefix qs ls \<Longrightarrow> components qs"
  by (auto simp: components_def prefix_def)

lemma label_path_components: "groups_ok groups \<Longrightarrow> ls \<in> label_paths groups \<Longrightarrow> components ls \<and> ls \<noteq> []"
  by (auto simp: groups_ok_def label_paths_def valid_label_def)

lemma join_inj: "components ps \<Longrightarrow> components qs \<Longrightarrow> str_join [delimiter] ps = str_join [delimiter] qs \<Longrightarrow> ps = qs"
  by (metis split_join join_nonempty str_join.simps(1))

lemma children_loop_exact:
  assumes "\<forall>l \<in> set labels. valid_label l" "distinct ys" "\<forall>y \<in> set ys. components y \<and> y \<noteq> []"
  shows "\<exists>qss. children_loop ps (map (str_join [delimiter]) ys) labels = map gp_of qss \<and> distinct qss
    \<and> set qss = {qs. length qs = Suc (length ps) \<and> take (length ps) qs = ps
        \<and> (\<exists>l \<in> set labels. prefix qs (str_split [delimiter] l))} - set ys"
  using assms
proof (induction labels arbitrary: ys)
  case Nil
  then show ?case by auto
next
  case (Cons l labels)
  let ?path = "str_split [delimiter] l" and ?n = "length ps"
  let ?qs = "take (?n + 1) ?path"
  have path: "components ?path"
    using Cons.prems(1) by (simp add: valid_label_def)
  have only: "qs = ?qs" if "length qs = Suc ?n" "prefix qs ?path" for qs
    using that by (auto simp: prefix_def)
  show ?case
  proof (cases "?n < length ?path \<and> take ?n ?path = ps \<and> ?qs \<notin> set ys")
    case True
    have q: "components ?qs" "?qs \<noteq> []" "length ?qs = Suc ?n" "take ?n ?qs = ps" "prefix ?qs ?path"
      using True path by (auto simp: take_is_prefix min_def intro: prefix_components)
    have new: "str_join [delimiter] ?qs \<notin> str_join [delimiter] ` set ys"
      using True q(1) Cons.prems(3) join_inj by blast
    obtain qss where qss: "children_loop ps (map (str_join [delimiter]) (ys @ [?qs])) labels = map gp_of qss" "distinct qss"
        "set qss = {qs. length qs = Suc ?n \<and> take ?n qs = ps
          \<and> (\<exists>l \<in> set labels. prefix qs (str_split [delimiter] l))} - set (ys @ [?qs])"
      using Cons.IH [of "ys @ [?qs]"] Cons.prems True q(1,2) by auto
    have "children_loop ps (map (str_join [delimiter]) ys) (l # labels) = map gp_of (?qs # qss)"
      using True qss(1) new GroupPath_join [OF q(1)] by (simp add: Let_def)
    moreover have "distinct (?qs # qss)"
      using qss(2,3) by auto
    moreover have "set (?qs # qss) = {qs. length qs = Suc ?n \<and> take ?n qs = ps
          \<and> (\<exists>l \<in> set (l # labels). prefix qs (str_split [delimiter] l))} - set ys"
      using qss(3) q True only by auto
    ultimately show ?thesis
      by blast
  next
    case False
    have skip: "children_loop ps (map (str_join [delimiter]) ys) (l # labels)
        = children_loop ps (map (str_join [delimiter]) ys) labels"
      using False by (auto simp: Let_def)
    have "qs \<in> set ys" if "length qs = Suc ?n" "take ?n qs = ps" "prefix qs ?path" for qs
      using only [OF that(1,3)] that False by (auto simp: min_def split: if_splits dest: prefix_length_le)
    moreover obtain qss where qss: "children_loop ps (map (str_join [delimiter]) ys) labels = map gp_of qss" "distinct qss"
        "set qss = {qs. length qs = Suc ?n \<and> take ?n qs = ps
          \<and> (\<exists>l \<in> set labels. prefix qs (str_split [delimiter] l))} - set ys"
      using Cons.IH [OF _ Cons.prems(2,3)] Cons.prems(1) by auto
    ultimately have "set qss = {qs. length qs = Suc ?n \<and> take ?n qs = ps
          \<and> (\<exists>l \<in> set (l # labels). prefix qs (str_split [delimiter] l))} - set ys"
      by auto
    then show ?thesis
      unfolding skip using qss(1,2) by blast
  qed
qed

lemma label_below:
  assumes "groups_ok groups" "l \<in> fst ` set groups" "strict_prefix ps (str_split [delimiter] l)"
  shows "l \<in> set (labels_below groups (gp_of ps))"
proof (cases "ps = []")
  case True
  then show ?thesis
    using assms(2) by (simp add: labels_below_def gp_of_def)
next
  case False
  obtain rs where rs: "str_split [delimiter] l = ps @ rs" "rs \<noteq> []"
    using assms(3) by (auto simp: strict_prefix_def prefix_def)
  then have l: "l = str_join [delimiter] ps @ delimiter # str_join [delimiter] rs"
    using str_join_split [of "[delimiter]" l] False by (simp add: str_join_append)
  have "backslash \<notin> set l"
    using assms(1,2) by (auto simp: groups_ok_def)
  then show ?thesis
    using assms(2) l sql_like_below [of "gp_of ps" "str_join [delimiter] rs"]
    by (auto simp: labels_below_def gp_of_def)
qed

lemma virtual_iff:
  assumes "groups_ok groups" "components ps" "ps \<noteq> []"
  shows "is_virtual groups (gp_of ps) \<longleftrightarrow> ps \<notin> label_paths groups"
  using split_join [OF assms(2,3)] str_join_split [of "[delimiter]"]
  by (force simp: is_virtual_def gp_of_def label_paths_def image_iff)

definition child_paths :: "'n groups \<Rightarrow> string list \<Rightarrow> string list set" where
  "child_paths groups ps = {qs. length qs = Suc (length ps) \<and> take (length ps) qs = ps \<and> on_path groups qs}"

lemma children_ok:
  assumes "groups_ok groups" "children groups (gp_of ps) = Inr cs"
  shows "\<exists>qss. cs = map gp_of qss \<and> distinct qss \<and> set qss = child_paths groups ps"
proof -
  let ?labels = "labels_below groups (gp_of ps)"
  have cs: "cs = children_loop ps (map (str_join [delimiter]) []) ?labels"
    using assms(2) by (auto simp: children_def Let_def guard_def gp_of_def split: if_splits)
  have sub: "set ?labels \<subseteq> fst ` set groups"
    by (auto simp: labels_below_def)
  then have "\<forall>l \<in> set ?labels. valid_label l"
    using assms(1) by (auto simp: groups_ok_def)
  from children_loop_exact [OF this, of "[]" ps]
  obtain qss where qss: "cs = map gp_of qss" "distinct qss"
      "set qss = {qs. length qs = Suc (length ps) \<and> take (length ps) qs = ps
        \<and> (\<exists>l \<in> set ?labels. prefix qs (str_split [delimiter] l))}"
    unfolding cs by auto
  have "l \<in> set ?labels" if "l \<in> fst ` set groups" "length qs = Suc (length ps)" "take (length ps) qs = ps"
      "prefix qs (str_split [delimiter] l)" for l qs
  proof (rule label_below [OF assms(1) that(1)])
    have "prefix ps qs" "ps \<noteq> qs"
      using that(2,3) take_is_prefix [of "length ps" qs] by auto
    then have "strict_prefix ps qs"
      by (simp add: strict_prefix_def)
    then show "strict_prefix ps (str_split [delimiter] l)"
      using that(4) by (rule prefix_order.less_le_trans)
  qed
  then have "set qss = child_paths groups ps"
    using sub by (auto simp: qss(3) child_paths_def on_path_def label_paths_def)
  then show ?thesis
    using qss(1,2) by blast
qed

section \<open>Walking\<close>

lemma children_Inr:
  assumes "groups_ok groups" "on_path groups ps" "components ps"
  shows "\<exists>cs. children groups (gp_of ps) = Inr cs"
proof -
  obtain l where l: "l \<in> fst ` set groups" "prefix ps (str_split [delimiter] l)"
    using assms(2) by (auto simp: on_path_def label_paths_def)
  have "labels_below groups (gp_of ps) \<noteq> [] \<or> \<not> is_virtual groups (gp_of ps)"
  proof (cases "ps = str_split [delimiter] l")
    case True
    then have "gp_path (gp_of ps) = l"
      using str_join_split [of "[delimiter]" l] by (simp add: gp_of_def)
    then show ?thesis
      using l(1) by (simp add: is_virtual_def)
  next
    case False
    then show ?thesis
      using label_below [OF assms(1) l(1), of ps] l(2) by (auto simp: strict_prefix_def)
  qed
  then show ?thesis
    by (auto simp: children_def Let_def guard_def)
qed

lemma walk_children_ok:
  "(\<And>c. c \<in> set cs \<Longrightarrow> sub c = Some (Inr (f c))) \<Longrightarrow>
   walk_children sub keep cs = Some (Inr (concat (map (\<lambda>c. filter keep (c # f c)) cs)))"
  by (induction cs) auto

lemma distinct_concat_map:
  "\<lbrakk> distinct xs; \<And>x. x \<in> set xs \<Longrightarrow> distinct (f x);
     \<And>x y. \<lbrakk> x \<in> set xs; y \<in> set xs; x \<noteq> y \<rbrakk> \<Longrightarrow> set (f x) \<inter> set (f y) = {} \<rbrakk> \<Longrightarrow> distinct (concat (map f xs))"
  by (induction xs) (auto simp: disjoint_iff)

text \<open>The paths strictly below a path are its children and the paths strictly below them.\<close>

definition walked :: "'n groups \<Rightarrow> bool \<Rightarrow> string list \<Rightarrow> string list set" where
  "walked groups return_virtual ps =
     {qs. strict_prefix ps qs \<and> on_path groups qs \<and> (return_virtual \<or> qs \<in> label_paths groups)}"

lemma on_path_prefix: "on_path groups qs \<Longrightarrow> prefix ps qs \<Longrightarrow> on_path groups ps"
  by (meson on_path_def prefix_order.trans)

lemma child_strict: "qs \<in> child_paths groups ps \<Longrightarrow> strict_prefix ps qs"
  using take_is_prefix [of "length ps" qs] by (auto simp: child_paths_def strict_prefix_def)

lemma walked_children:
  "walked groups rv ps =
     (\<Union>c \<in> child_paths groups ps. {q. q = c \<and> (rv \<or> c \<in> label_paths groups)} \<union> walked groups rv c)"
proof (intro equalityI subsetI)
  fix qs
  assume qs: "qs \<in> walked groups rv ps"
  let ?c = "take (Suc (length ps)) qs"
  obtain rs where rs: "qs = ps @ rs" "rs \<noteq> []"
    using qs by (auto simp: walked_def strict_prefix_def prefix_def)
  have "on_path groups ?c"
    using qs on_path_prefix [OF _ take_is_prefix] by (auto simp: walked_def)
  then have c: "?c \<in> child_paths groups ps"
    using rs by (cases rs) (auto simp: child_paths_def)
  show "qs \<in> (\<Union>c \<in> child_paths groups ps. {q. q = c \<and> (rv \<or> c \<in> label_paths groups)} \<union> walked groups rv c)"
  proof (cases "qs = ?c")
    case True
    then show ?thesis
      using c qs by (auto simp: walked_def)
  next
    case False
    then have "strict_prefix ?c qs"
      using take_is_prefix by (metis strict_prefix_def)
    then show ?thesis
      using c qs by (auto simp: walked_def)
  qed
next
  fix qs
  assume "qs \<in> (\<Union>c \<in> child_paths groups ps. {q. q = c \<and> (rv \<or> c \<in> label_paths groups)} \<union> walked groups rv c)"
  then obtain c where c: "c \<in> child_paths groups ps" "qs = c \<and> (rv \<or> c \<in> label_paths groups) \<or> qs \<in> walked groups rv c"
    by blast
  then show "qs \<in> walked groups rv ps"
    using child_strict [OF c(1)] prefix_order.less_trans
    by (auto simp: walked_def child_paths_def)
qed

lemma child_disjoint:
  assumes "c \<in> child_paths groups ps" "d \<in> child_paths groups ps" "prefix c qs" "prefix d qs"
  shows "c = d"
proof -
  have "length c = length d"
    using assms by (simp add: child_paths_def)
  then show ?thesis
    using assms(3,4) by (auto simp: prefix_def)
qed

lemma on_path_components: "groups_ok groups \<Longrightarrow> on_path groups qs \<Longrightarrow> components qs"
  using label_path_components prefix_components by (fastforce simp: on_path_def)

text \<open>One level of the recursion, given what the walks below the children yield.\<close>

lemma walk_level:
  assumes ok: "groups_ok groups" and css: "distinct css" "set css = child_paths groups ps"
    and f: "\<And>c. c \<in> set css \<Longrightarrow> distinct (f c)" "\<And>c. c \<in> set css \<Longrightarrow> set (f c) = walked groups rv c"
  shows "distinct (concat (map (\<lambda>c. filter (\<lambda>q. rv \<or> \<not> is_virtual groups (gp_of q)) (c # f c)) css))"
    and "set (concat (map (\<lambda>c. filter (\<lambda>q. rv \<or> \<not> is_virtual groups (gp_of q)) (c # f c)) css)) = walked groups rv ps"
proof -
  let ?g = "\<lambda>c. filter (\<lambda>q. rv \<or> \<not> is_virtual groups (gp_of q)) (c # f c)"
  have keep: "\<not> is_virtual groups (gp_of qs) \<longleftrightarrow> qs \<in> label_paths groups" if "on_path groups qs" "strict_prefix ps qs" for qs
    using virtual_iff [OF ok on_path_components [OF ok that(1)]] that(2) by (cases qs) auto
  have below: "set (?g c) = {q. q = c \<and> (rv \<or> c \<in> label_paths groups)} \<union> walked groups rv c" if c: "c \<in> child_paths groups ps" for c
  proof -
    have "strict_prefix ps qs \<and> on_path groups qs" if "qs = c \<or> qs \<in> walked groups rv c" for qs
      using that child_strict [OF c] c prefix_order.less_trans by (auto simp: walked_def child_paths_def)
    then show ?thesis
      using keep f(2) [of c] c css(2) by (auto simp: walked_def)
  qed
  have "set (concat (map ?g css)) = (\<Union>c \<in> child_paths groups ps. set (?g c))"
    by (simp only: set_concat set_map css(2) image_image)
  also have "\<dots> = walked groups rv ps"
    unfolding walked_children [of groups rv ps] by (rule SUP_cong [OF refl below])
  finally show "set (concat (map ?g css)) = walked groups rv ps" .
  have pre: "prefix c qs" if "qs \<in> set (?g c)" "c \<in> set css" for c qs
    using that f(2) [OF that(2)] by (auto simp: walked_def strict_prefix_def split: if_splits)
  show "distinct (concat (map ?g css))"
  proof (rule distinct_concat_map [OF css(1)])
    show "distinct (?g c)" if "c \<in> set css" for c
      using f [OF that] by (auto simp: walked_def)
    show "set (?g c) \<inter> set (?g d) = {}" if "c \<in> set css" "d \<in> set css" "c \<noteq> d" for c d
      using child_disjoint pre that css(2) by blast
  qed
qed

lemma walk_exact:
  assumes ok: "groups_ok groups"
  shows "\<lbrakk> on_path groups ps; \<And>ls. ls \<in> label_paths groups \<Longrightarrow> prefix ps ls \<Longrightarrow> length ls < fuel + length ps \<rbrakk> \<Longrightarrow>
    \<exists>qss. gp_walk fuel groups rv (gp_of ps) = Some (Inr (map gp_of qss)) \<and> distinct qss \<and> set qss = walked groups rv ps"
proof (induction fuel arbitrary: ps)
  case 0
  then show ?case
    by (metis add_0 leD on_path_def prefix_length_le)
next
  case (Suc n)
  obtain css where css: "children groups (gp_of ps) = Inr (map gp_of css)" "distinct css" "set css = child_paths groups ps"
    using children_Inr [OF ok Suc.prems(1) on_path_components [OF ok Suc.prems(1)]] children_ok [OF ok] by metis
  have "\<exists>qss. gp_walk n groups rv (gp_of c) = Some (Inr (map gp_of qss)) \<and> distinct qss \<and> set qss = walked groups rv c"
    if c: "c \<in> child_paths groups ps" for c
  proof (rule Suc.IH)
    show "length ls < n + length c" if "ls \<in> label_paths groups" "prefix c ls" for ls
    proof -
      have "prefix ps ls"
        using child_strict [OF c] that(2) by (metis prefix_order.less_imp_le prefix_order.trans)
      then show ?thesis
        using Suc.prems(2) [OF that(1)] c by (simp add: child_paths_def)
    qed
  qed (use c in \<open>simp add: child_paths_def\<close>)
  then obtain f where f: "\<And>c. c \<in> set css \<Longrightarrow> gp_walk n groups rv (gp_of c) = Some (Inr (map gp_of (f c)))"
      "\<And>c. c \<in> set css \<Longrightarrow> distinct (f c)" "\<And>c. c \<in> set css \<Longrightarrow> set (f c) = walked groups rv c"
    unfolding css(3) by metis
  let ?keep = "\<lambda>c. rv \<or> \<not> is_virtual groups c"
  have "gp_walk (Suc n) groups rv (gp_of ps) =
      Some (Inr (concat (map (\<lambda>c. filter ?keep (c # map gp_of (f (gp_path_list c)))) (map gp_of css))))"
    unfolding gp_walk.simps css(1) sum.case by (rule walk_children_ok) (auto simp: f(1))
  also have "\<dots> = Some (Inr (map gp_of (concat (map (\<lambda>c. filter (\<lambda>q. ?keep (gp_of q)) (c # f c)) css))))"
    by (auto simp: map_concat filter_map comp_def intro!: arg_cong [of _ _ concat])
  finally show ?case
    using walk_level [OF ok css(2,3) f(2,3)] by blast
qed

section \<open>Properties\<close>

text \<open>C12: Walking from a path that leads to a group ends, and yields every path strictly below it that leads to
  some group, each once; without virtual paths exactly those that are groups.  The recursion is as deep as
  the longest label.\<close>

theorem walk_yields_descendants:
  assumes "groups_ok groups" "GroupPath path = Inr gp" "path \<noteq> [delimiter]" "on_path groups (gp_path_list gp)"
    and "\<forall>(l, nodes) \<in> set groups. length (str_split [delimiter] l) < fuel + length (gp_path_list gp)"
  shows "\<exists>qss. gp_walk fuel groups return_virtual gp = Some (Inr (map gp_of qss)) \<and> distinct qss
    \<and> set qss = {qs. strict_prefix (gp_path_list gp) qs \<and> on_path groups qs
        \<and> (return_virtual \<or> qs \<in> label_paths groups)}"
proof -
  have gp: "gp_of (gp_path_list gp) = gp"
    using GroupPath_valid(1) [OF assms(2,3)] by (rule sym)
  have "length ls < fuel + length (gp_path_list gp)" if "ls \<in> label_paths groups" for ls
    using assms(5) that by (auto simp: label_paths_def)
  from walk_exact [OF assms(1,4) this, of return_virtual] show ?thesis
    unfolding gp walked_def .
qed

theorem walk_yields_descendants_witness:
  "\<exists>qss. gp_walk 4 [(''a/b/c'', [1::nat])] True (gp_of [''a'']) = Some (Inr (map gp_of qss)) \<and> distinct qss
    \<and> set qss = {qs. strict_prefix [''a''] qs \<and> on_path [(''a/b/c'', [1::nat])] qs}"
proof -
  have a: "GroupPath ''a'' = Inr (gp_of [''a''])"
    using GroupPath_join [of "[''a'']"] by (simp add: components_def component_def)
  have s: "str_split ''/'' ''a/b/c'' = [''a'', ''b'', ''c'']"
    using split_join [of "[''a'', ''b'', ''c'']"] by (simp add: components_def component_def)
  show ?thesis
    using walk_yields_descendants [OF _ a, of "[(''a/b/c'', [1::nat])]" 4 True]
    by (simp add: groups_ok_def valid_label_def s components_def component_def on_path_def label_paths_def)
qed

text \<open>The children of a path are the paths one component longer that lead to a group, each once.\<close>

theorem children_exact:
  assumes "groups_ok groups" "GroupPath path = Inr gp" "path \<noteq> [delimiter]" "children groups gp = Inr cs"
  shows "distinct cs \<and> set cs = gp_of ` {qs. length qs = Suc (length (gp_path_list gp))
      \<and> take (length (gp_path_list gp)) qs = gp_path_list gp \<and> on_path groups qs}"
proof -
  have "gp = gp_of (gp_path_list gp)"
    using GroupPath_valid [OF assms(2,3)] by simp
  then obtain qss where "cs = map gp_of qss" "distinct qss" "set qss = child_paths groups (gp_path_list gp)"
    using children_ok [OF assms(1), of "gp_path_list gp"] assms(4) by metis
  moreover have "inj gp_of"
    by (rule injI) (simp add: gp_of_def)
  ultimately show ?thesis
    by (simp add: child_paths_def distinct_map inj_on_subset [OF _ subset_UNIV])
qed

text \<open>Dividing a path by a component and taking the parent are inverse.\<close>

theorem parent_of_child:
  assumes "GroupPath path = Inr gp" "path \<noteq> [delimiter]" "component k"
  shows "\<exists>c. gp_truediv gp k = Inr c \<and> gp_path_list c = gp_path_list gp @ [k] \<and> gp_key c = Some k
    \<and> gp_parent c = Inr (Some gp)"
proof -
  let ?ps = "gp_path_list gp"
  have gp: "gp = gp_of ?ps" and ps: "components ?ps"
    using GroupPath_valid [OF assms(1,2)] by auto
  have k: "components [k]" and psk: "components (?ps @ [k])"
    using assms(3) ps by (simp_all add: components_def)
  have path: "gp_path gp = str_join [delimiter] ?ps"
    using gp by (metis gp_of_def group_path.select_convs(1))
  have "(if gp_path gp \<noteq> [] then gp_path gp @ [delimiter] @ k else k) = str_join [delimiter] (?ps @ [k])"
    using join_nonempty [OF ps] by (cases "?ps = []") (auto simp: path str_join_append)
  then have "gp_truediv gp k = Inr (gp_of (?ps @ [k]))"
    using validate_join [OF k] GroupPath_join [OF psk] by (simp add: gp_truediv_def)
  moreover have "gp_parent (gp_of (?ps @ [k])) = Inr (Some gp)"
    using GroupPath_join [OF ps] gp by (simp add: gp_parent_def)
  ultimately show ?thesis
    by (auto simp: gp_key_def)
qed

text \<open>\<open>walk_nodes\<close> puts the path in an SQL pattern without escaping it: an underscore in it stands for any
  character, so that the nodes of groups that are not below the path are yielded too.\<close>

theorem walk_nodes_leaks:
  "\<exists>gp other. GroupPath ''a_b'' = Inr gp \<and> GroupPath ''axb/c'' = Inr other
    \<and> \<not> prefix (gp_path_list gp) (gp_path_list other)
    \<and> walk_nodes [(''a_b'', []), (''axb/c'', [7::nat])] gp = Inr [(other, 7)]"
proof -
  have "GroupPath ''a_b'' = Inr (gp_of [''a_b''])" "GroupPath ''axb/c'' = Inr (gp_of [''axb'', ''c''])"
    using GroupPath_join [of "[''a_b'']"] GroupPath_join [of "[''axb'', ''c'']"]
    by (simp_all add: components_def component_def)
  then show ?thesis
    by (simp add: walk_nodes_def gp_of_def below_pattern_def sql_like_def)
qed

text \<open>A group whose label starts with the delimiter makes the root its own child, and walking the root never
  returns: no depth of the recursion is enough.\<close>

theorem leading_delimiter_never_ends:
  "gp_walk fuel [(''/x'', nodes)] return_virtual (gp_of []) = None"
proof (induction fuel)
  case (Suc n)
  have s: "str_split ''/'' ''/x'' = [[], ''x'']"
    using str_split_append [of delimiter "[]" "''x''"] by (simp add: str_split.simps)
  have "children [(''/x'', nodes)] (gp_of []) = Inr [gp_of []]"
    using GroupPath_join [of "[]"]
    by (simp add: children_def labels_below_def gp_of_def s components_def)
  then show ?case
    using Suc by simp
qed simp

text \<open>The path that is the delimiter alone is equal to the root but has no children.\<close>

lemma delimiter_path_has_no_children:
  assumes "groups_ok groups" "groups \<noteq> []"
  shows "\<exists>gp root. GroupPath [delimiter] = Inr gp \<and> GroupPath [] = Inr root \<and> gp_path gp = gp_path root
    \<and> children groups gp = Inr []"
proof -
  have *: "children_loop [[]] ys labels = []" if "\<forall>l \<in> set labels. valid_label l" for ys labels
    using that
  proof (induction labels arbitrary: ys)
    case (Cons l labels)
    then have "take 1 (str_split [delimiter] l) \<noteq> [[]]"
      by (cases "str_split [delimiter] l") (auto simp: valid_label_def components_def component_def)
    then show ?case
      using Cons by (simp add: Let_def)
  qed simp
  have "GroupPath [delimiter] = Inr \<lparr>gp_path = [], gp_path_list = [[]]\<rparr>"
    by (simp add: GroupPath_def validate_path_def)
  moreover have "GroupPath [] = Inr (gp_of [])"
    using GroupPath_join [of "[]"] by (simp add: components_def)
  moreover have "children groups \<lparr>gp_path = [], gp_path_list = [[]]\<rparr> = Inr []"
    using assms * [of "map fst groups"] by (auto simp: children_def labels_below_def groups_ok_def guard_def)
  ultimately show ?thesis
    by (auto simp: gp_of_def)
qed

end
