(* ===== verification/Aiida_Caching.thy ===== *)
theory Aiida_Caching
  imports Aiida_Escaping Aiida_Links
begin

text \<open>
  The configuration of caching in \<open>manage/caching.py\<close>: patterns with wildcards, which of several matching
  patterns decides, and the context managers that override the configuration.  The options of the
  profile, the names of the entry point groups and the loading of plugins (for \<open>strict\<close>) are parameters.
  Identifiers are ASCII.
\<close>

section \<open>Patterns\<close>

text \<open>\<open>_match_wildcard\<close>: the escaped parts between the asterisks are literals, joined by \<open>.*\<close>; the whole
  string must match.\<close>

fun join_parts :: "string list \<Rightarrow> re_item list" where
  "join_parts [] = []"
| "join_parts [part] = map ReLit part"
| "join_parts (part # parts) = map ReLit part @ ReAnyStar # join_parts parts"

fun re_fullmatch_items :: "re_item list \<Rightarrow> string \<Rightarrow> bool" where
  "re_fullmatch_items [] s \<longleftrightarrow> s = []"
| "re_fullmatch_items (ReLit c # is) s \<longleftrightarrow>
     (case s of [] \<Rightarrow> False | x # xs \<Rightarrow> x = c \<and> re_fullmatch_items is xs)"
| "re_fullmatch_items (ReAny # is) s \<longleftrightarrow>
     (case s of [] \<Rightarrow> False | x # xs \<Rightarrow> x \<noteq> newline \<and> re_fullmatch_items is xs)"
| "re_fullmatch_items (ReAnyStar # is) [] \<longleftrightarrow> re_fullmatch_items is []"
| "re_fullmatch_items (ReAnyStar # is) (x # xs) \<longleftrightarrow>
     re_fullmatch_items is (x # xs) \<or> x \<noteq> newline \<and> re_fullmatch_items (ReAnyStar # is) xs"

definition match_wildcard :: "string \<Rightarrow> string \<Rightarrow> bool" where
  "match_wildcard s pattern = re_fullmatch_items (join_parts (str_split ''*'' pattern)) s"

text \<open>\<open>str.isidentifier\<close> for ASCII.\<close>

definition str_isidentifier :: "string \<Rightarrow> bool" where
  "str_isidentifier s \<longleftrightarrow>
     (case s of [] \<Rightarrow> False | c # cs \<Rightarrow> (is_letter c \<or> c = CHR ''_'') \<and> list_all allowed_character cs)"

definition entry_point_groups :: "string list" where
  "entry_point_groups =
     [''aiida.calculations'', ''aiida.calculations.importers'', ''aiida.calculations.monitors'',
      ''aiida.cmdline.computer.configure'', ''aiida.cmdline.data'', ''aiida.cmdline.data.structure.import'',
      ''aiida.data'', ''aiida.groups'', ''aiida.orm'', ''aiida.node'', ''aiida.parsers'', ''aiida.schedulers'',
      ''aiida.storage'', ''aiida.transports'', ''aiida.tools.calculations'', ''aiida.tools.data.orbitals'',
      ''aiida.tools.dbexporters'', ''aiida.tools.dbimporters'', ''aiida.workflows'']"

definition validate_identifier_part :: "string \<Rightarrow> unit res" where
  "validate_identifier_part part =
     (if CHR ''*'' \<in> set part then guard (str_isidentifier (str_replace ''*'' ''a'' part)) ValueError
      else bind_res (guard (str_isidentifier part) ValueError) (\<lambda>_. guard (part \<notin> set python_keywords) ValueError))"

fun validate_identifier_parts :: "string list \<Rightarrow> unit res" where
  "validate_identifier_parts [] = Inr ()"
| "validate_identifier_parts (part # parts) =
     bind_res (validate_identifier_part part) (\<lambda>_. validate_identifier_parts parts)"

text \<open>\<open>loads\<close> is whether an entry point string can be loaded, \<open>imports\<close> whether a name can be imported.\<close>

definition validate_identifier_pattern :: "(string \<Rightarrow> bool) \<Rightarrow> (string \<Rightarrow> bool) \<Rightarrow> bool \<Rightarrow> string \<Rightarrow> unit res" where
  "validate_identifier_pattern loads imports strict identifier =
     bind_res (guard (\<not> length (filter (\<lambda>c. c = CHR '':'') identifier) > 1) ValueError) (\<lambda>_.
       if CHR '':'' \<in> set identifier then
         (let group_pattern = hd (str_split '':'' identifier)
          in bind_res (guard (list_ex (\<lambda>name. match_wildcard name group_pattern) entry_point_groups) ValueError) (\<lambda>_.
               if strict \<and> CHR ''*'' \<notin> set identifier then guard (loads identifier) ValueError else Inr ()))
       else if CHR ''*'' \<in> set identifier
            \<and> list_ex (\<lambda>name. str_startswith name (hd (str_split ''*'' identifier))) entry_point_groups then Inr ()
       else
         bind_res (validate_identifier_parts (str_split ''.'' identifier)) (\<lambda>_.
           if \<not> strict then Inr () else guard (imports identifier) ValueError))"

section \<open>Overrides\<close>

datatype default_all = AllEnabled | AllDisabled

record context_cache =
  cc_default_all :: "default_all option"
  cc_enable :: "string list"
  cc_disable :: "string list"

definition cleared :: context_cache where
  "cleared = \<lparr>cc_default_all = None, cc_enable = [], cc_disable = []\<rparr>"

definition cc_enable_identifier :: "string \<Rightarrow> context_cache \<Rightarrow> context_cache" where
  "cc_enable_identifier identifier c =
     c\<lparr>cc_enable := cc_enable c @ [identifier], cc_disable := remove1 identifier (cc_disable c)\<rparr>"

definition cc_disable_identifier :: "string \<Rightarrow> context_cache \<Rightarrow> context_cache" where
  "cc_disable_identifier identifier c =
     c\<lparr>cc_disable := cc_disable c @ [identifier], cc_enable := remove1 identifier (cc_enable c)\<rparr>"

text \<open>The options of the profile.\<close>

record caching_config =
  default_enabled :: bool
  enabled_for :: "string list"
  disabled_for :: "string list"

definition apply_overrides :: "string list \<Rightarrow> string list \<times> string list \<Rightarrow> string list \<times> string list" where
  "apply_overrides idents options = fold (\<lambda>ident (into, from). (into @ [ident], remove1 ident from)) idents options"

definition get_options ::
  "(string \<Rightarrow> bool) \<Rightarrow> (string \<Rightarrow> bool) \<Rightarrow> caching_config \<Rightarrow> bool \<Rightarrow> context_cache \<Rightarrow> (bool \<times> string list \<times> string list) res" where
  "get_options loads imports config strict c =
     (case cc_default_all c of
        Some AllDisabled \<Rightarrow> Inr (False, [], [])
      | Some AllEnabled \<Rightarrow> Inr (True, [], [])
      | None \<Rightarrow>
          (let (disabled, enabled) = apply_overrides (cc_disable c) (disabled_for config, enabled_for config);
               (enabled, disabled) = apply_overrides (cc_enable c) (enabled, disabled)
           in if list_all (\<lambda>i. is_ok (validate_identifier_pattern loads imports strict i)) (enabled @ disabled)
              then Inr (default_enabled config, enabled, disabled)
              else Inl ConfigurationError))"

definition most_specific :: "string list \<Rightarrow> string list \<Rightarrow> string list" where
  "most_specific candidates all_matches =
     filter (\<lambda>specific. list_all (\<lambda>other. match_wildcard specific other) all_matches) candidates"

definition get_use_cache ::
  "(string \<Rightarrow> bool) \<Rightarrow> (string \<Rightarrow> bool) \<Rightarrow> caching_config \<Rightarrow> bool \<Rightarrow> context_cache \<Rightarrow> string option \<Rightarrow> bool res" where
  "get_use_cache loads imports config strict c identifier =
     bind_res (get_options loads imports config strict c) (\<lambda>(default, enabled, disabled).
       case identifier of
         None \<Rightarrow> Inr default
       | Some ident \<Rightarrow>
           (let enable_matches = filter (match_wildcard ident) enabled;
                disable_matches = filter (match_wildcard ident) disabled
            in if enable_matches \<noteq> [] \<and> disable_matches \<noteq> [] then
                 (let all_matches = enable_matches @ disable_matches;
                      candidates = map (\<lambda>p. (p, True)) (most_specific enable_matches all_matches)
                                 @ map (\<lambda>p. (p, False)) (most_specific disable_matches all_matches)
                  in case candidates of
                       [(p, use_cache)] \<Rightarrow> Inr use_cache
                     | _ \<Rightarrow> Inl ConfigurationError)
               else if enable_matches \<noteq> [] then Inr True
               else if disable_matches \<noteq> [] then Inr False
               else Inr default))"

text \<open>The context managers \<open>enable_caching\<close> and \<open>disable_caching\<close> up to their \<open>yield\<close>, and what comes
  after it: the body may end normally or raise, and the generator has no \<open>finally\<close>.\<close>

definition enter_caching ::
  "(string \<Rightarrow> bool) \<Rightarrow> (string \<Rightarrow> bool) \<Rightarrow> bool \<Rightarrow> bool \<Rightarrow> string option \<Rightarrow> context_cache \<Rightarrow> context_cache res" where
  "enter_caching loads imports enabling strict identifier c =
     (case identifier of
        None \<Rightarrow> Inr (c\<lparr>cc_default_all := Some (if enabling then AllEnabled else AllDisabled)\<rparr>)
      | Some ident \<Rightarrow>
          bind_res (validate_identifier_pattern loads imports strict ident) (\<lambda>_.
            Inr (if enabling then cc_enable_identifier ident c else cc_disable_identifier ident c)))"

definition exit_caching :: "bool \<Rightarrow> context_cache \<Rightarrow> context_cache" where
  "exit_caching body_raised c = (if body_raised then c else cleared)"

section \<open>The meaning of a pattern\<close>

text \<open>The reference: an asterisk stands for any string, every other character for itself.\<close>

fun glob :: "string \<Rightarrow> string \<Rightarrow> bool" where
  "glob [] s \<longleftrightarrow> s = []"
| "glob (c # p) s \<longleftrightarrow>
     (if c = CHR ''*'' then \<exists>xs ys. s = xs @ ys \<and> glob p ys else \<exists>xs. s = c # xs \<and> glob p xs)"

lemma str_split_Cons:
  "str_split [c] (x # xs) = (if x = c then [] # str_split [c] xs
     else (case str_split [c] xs of h # t \<Rightarrow> (x # h) # t))"
proof -
  obtain a b r where p: "str_partition [c] xs = (a, b, r)"
    by (metis prod_cases3)
  then show ?thesis
    by (auto simp: str_split.simps [of "[c]" "x # xs"] str_split.simps [of "[c]" xs] split: prod.splits)
qed

lemma join_parts_split:
  "join_parts (str_split ''*'' p) = map (\<lambda>c. if c = CHR ''*'' then ReAnyStar else ReLit c) p"
proof (induction p)
  case Nil
  then show ?case by (simp add: str_split.simps)
next
  case (Cons c p)
  obtain h t where ht: "str_split ''*'' p = h # t"
    by (metis neq_Nil_conv str_split_not_Nil)
  then show ?case
    using Cons by (cases t) (auto simp: str_split_Cons)
qed

lemma fullmatch_star:
  "newline \<notin> set s \<Longrightarrow> re_fullmatch_items (ReAnyStar # is) s \<longleftrightarrow> (\<exists>xs ys. s = xs @ ys \<and> re_fullmatch_items is ys)"
proof (induction s)
  case (Cons x s)
  then show ?case
    by (auto simp: Cons_eq_append_conv)
qed simp

lemma match_wildcard_glob: "newline \<notin> set s \<Longrightarrow> match_wildcard s p \<longleftrightarrow> glob p s"
  unfolding match_wildcard_def join_parts_split
proof (induction p arbitrary: s)
  case (Cons c p)
  show ?case
  proof (cases "c = CHR ''*''")
    case True
    have "re_fullmatch_items (map (\<lambda>c. if c = CHR ''*'' then ReAnyStar else ReLit c) p) ys \<longleftrightarrow> glob p ys"
      if "s = xs @ ys" for xs ys
      using Cons that by auto
    then show ?thesis
      using True fullmatch_star [OF Cons.prems] by (simp del: re_fullmatch_items.simps) blast
  next
    case False
    then show ?thesis
      using Cons by (auto split: list.splits)
  qed
qed simp

section \<open>Properties\<close>

text \<open>A pattern matches a string without newlines exactly when the string is the pattern with each asterisk
  replaced by some string.\<close>

theorem match_wildcard_exact: "newline \<notin> set s \<Longrightarrow> match_wildcard s p \<longleftrightarrow> glob p s"
  by (rule match_wildcard_glob)

theorem match_wildcard_exact_witness:
  "match_wildcard ''aiida.data:core.int'' ''aiida.*:core.*'' \<longleftrightarrow> glob ''aiida.*:core.*'' ''aiida.data:core.int''"
  by (rule match_wildcard_exact) simp

text \<open>What decides whether the cache is used: nothing that matches, patterns on one side only, or the one matching
  pattern that all other matching patterns match.\<close>

theorem use_cache_decided_by_most_specific:
  assumes "get_options loads imports config strict c = Inr (dflt, enabled, disabled)"
  shows "get_use_cache loads imports config strict c (Some ident) = Inr b \<longleftrightarrow>
    (let on = filter (match_wildcard ident) enabled; off = filter (match_wildcard ident) disabled
     in on = [] \<and> off = [] \<and> b = dflt
      \<or> on \<noteq> [] \<and> off = [] \<and> b
      \<or> on = [] \<and> off \<noteq> [] \<and> \<not> b
      \<or> on \<noteq> [] \<and> off \<noteq> []
        \<and> length (filter (\<lambda>p. list_all (match_wildcard p) (on @ off)) (on @ off)) = 1
        \<and> (\<exists>p \<in> set (if b then on else off). list_all (match_wildcard p) (on @ off)))"
proof -
  define on off where "on = filter (match_wildcard ident) enabled" and "off = filter (match_wildcard ident) disabled"
  define P where "P = (\<lambda>p. list_all (match_wildcard p) (on @ off))"
  have ex: "(\<exists>p \<in> set xs. P p) \<longleftrightarrow> filter P xs \<noteq> []" for xs
    by (simp add: filter_empty_conv)
  have *: "(case map (\<lambda>p. (p, True)) (filter P on) @ map (\<lambda>p. (p, False)) (filter P off) of
        [(p, use_cache)] \<Rightarrow> Inr use_cache | _ \<Rightarrow> Inl ConfigurationError) = Inr b \<longleftrightarrow>
      length (filter P (on @ off)) = 1 \<and> (\<exists>p \<in> set (if b then on else off). P p)"
    unfolding ex
    by (cases "filter P on"; cases "filter P off"; cases "tl (filter P on)"; cases "tl (filter P off)")
       (auto split: list.split if_splits)
  show ?thesis
    using assms * unfolding P_def
    by (auto simp: get_use_cache_def most_specific_def Let_def on_def [symmetric] off_def [symmetric])
qed


text \<open>Evaluating patterns.\<close>

lemmas pattern_simps = match_wildcard_def join_parts_split validate_identifier_pattern_def entry_point_groups_def
  get_options_def apply_overrides_def most_specific_def cc_enable_identifier_def cc_disable_identifier_def
  enter_caching_def exit_caching_def cleared_def

abbreviation core_config :: caching_config where
  "core_config \<equiv> \<lparr>default_enabled = False, enabled_for = [''aiida.calculations:core.*''], disabled_for = [''aiida.calculations:*'']\<rparr>"

lemma core_splits:
  "str_split '':'' ''aiida.calculations:core.*'' = [''aiida.calculations'', ''core.*'']"
  "str_split '':'' ''aiida.calculations:*'' = [''aiida.calculations'', ''*'']"
  by (simp_all add: str_split_Cons) (simp_all add: str_split.simps)

lemma core_options:
  "get_options loads imports core_config False cleared = Inr (False, [''aiida.calculations:core.*''], [''aiida.calculations:*''])"
  by (simp add: pattern_simps core_splits)

theorem use_cache_decided_by_most_specific_witness:
  "get_use_cache (\<lambda>_. True) (\<lambda>_. True) core_config False cleared (Some ''aiida.calculations:core.add'') = Inr True"
  using use_cache_decided_by_most_specific [OF core_options [of "\<lambda>_. True" "\<lambda>_. True"], of "''aiida.calculations:core.add''" True]
  by (simp add: match_wildcard_def join_parts_split)

text \<open>Enabling a pattern that the configuration enables already puts it in the list twice; where a disabling pattern
  matches too, the most specific pattern is then not unique and the cache cannot be queried any more.\<close>

theorem enabling_twice_raises:
  "get_use_cache loads imports core_config False cleared (Some ''aiida.calculations:core.add'') = Inr True
   \<and> (\<exists>c. enter_caching loads imports True False (Some ''aiida.calculations:core.*'') cleared = Inr c
        \<and> get_use_cache loads imports core_config False c (Some ''aiida.calculations:core.add'') = Inl ConfigurationError)"
proof
  show "get_use_cache loads imports core_config False cleared (Some ''aiida.calculations:core.add'') = Inr True"
    by (simp add: get_use_cache_def core_options most_specific_def match_wildcard_def join_parts_split)
  let ?c = "cc_enable_identifier ''aiida.calculations:core.*'' cleared"
  have "enter_caching loads imports True False (Some ''aiida.calculations:core.*'') cleared = Inr ?c"
    by (simp add: pattern_simps core_splits)
  moreover have "get_options loads imports core_config False ?c =
      Inr (False, [''aiida.calculations:core.*'', ''aiida.calculations:core.*''], [''aiida.calculations:*''])"
    by (simp add: pattern_simps core_splits)
  then have "get_use_cache loads imports core_config False ?c (Some ''aiida.calculations:core.add'') = Inl ConfigurationError"
    by (simp add: get_use_cache_def most_specific_def match_wildcard_def join_parts_split)
  ultimately show "\<exists>c. enter_caching loads imports True False (Some ''aiida.calculations:core.*'') cleared = Inr c
      \<and> get_use_cache loads imports core_config False c (Some ''aiida.calculations:core.add'') = Inl ConfigurationError"
    by blast
qed

text \<open>The context managers neither nest nor survive an exception: inside \<open>disable_caching()\<close> no cache is used, but
  after a nested \<open>enable_caching(...)\<close> has ended the configuration decides again although the outer body
  still runs; and after a body raised the override stays in force for good.\<close>

theorem caching_contexts_leak:
  "\<exists>outer inner.
     enter_caching loads imports False False None cleared = Inr outer
   \<and> get_use_cache loads imports config False outer ident = Inr False
   \<and> enter_caching loads imports True False (Some ''aiida.calculations:core.*'') outer = Inr inner
   \<and> get_use_cache loads imports config False (exit_caching False inner) ident =
       get_use_cache loads imports config False cleared ident
   \<and> get_use_cache loads imports config False (exit_caching True outer) ident = Inr False"
  by (cases ident) (simp_all add: get_use_cache_def pattern_simps core_splits)

end
