(* ===== verification/Aiida_Autogroup.thy ===== *)
theory Aiida_Autogroup
  imports Aiida_Escaping
begin

text \<open>
  Automatic grouping of new nodes, \<open>orm/autogroup.py\<close>: the filters that decide which nodes are grouped, and
  the search for a group label that is free even when other processes create groups at the same time.
  The existing groups are the list of their labels, once when they are queried and once when the new
  group is stored.  A filter that is given as one string is the list of that string; the entry point
  string of a node is an argument.
\<close>

section \<open>Filters\<close>

record autogroup =
  ag_enabled :: bool
  ag_exclude :: "string list option"
  ag_include :: "string list option"
  ag_label_prefix :: string
  ag_group_label :: "string option"

definition new_manager :: "string \<Rightarrow> autogroup" where
  "new_manager label_prefix =
     \<lparr>ag_enabled = False, ag_exclude = None, ag_include = None, ag_label_prefix = label_prefix, ag_group_label = None\<rparr>"

definition valid_prefixes :: "string list" where
  "valid_prefixes = [''aiida.node'', ''aiida.calculations'', ''aiida.workflows'', ''aiida.data'']"

definition validate_filter :: "string \<Rightarrow> unit res" where
  "validate_filter s =
     (let pieces = str_split '':'' s
      in bind_res (guard (length pieces = 2) ValidationError) (\<lambda>_. guard (hd pieces \<in> set valid_prefixes) ValidationError))"

fun validate_filters :: "string list \<Rightarrow> unit res" where
  "validate_filters [] = Inr ()"
| "validate_filters (s # ss) = bind_res (validate_filter s) (\<lambda>_. validate_filters ss)"

definition validate_option :: "string list option \<Rightarrow> unit res" where
  "validate_option ss = (case ss of None \<Rightarrow> Inr () | Some ss \<Rightarrow> validate_filters ss)"

definition set_exclude :: "string list option \<Rightarrow> autogroup \<Rightarrow> autogroup res" where
  "set_exclude exclude ag =
     bind_res (validate_option exclude) (\<lambda>_.
     bind_res (guard (\<not> (exclude \<noteq> None \<and> ag_include ag \<noteq> None)) ValidationError) (\<lambda>_.
     Inr (ag\<lparr>ag_exclude := exclude\<rparr>)))"

definition set_include :: "string list option \<Rightarrow> autogroup \<Rightarrow> autogroup res" where
  "set_include include ag =
     bind_res (validate_option include) (\<lambda>_.
     bind_res (guard (\<not> (include \<noteq> None \<and> ag_exclude ag \<noteq> None)) ValidationError) (\<lambda>_.
     Inr (ag\<lparr>ag_include := include\<rparr>)))"

text \<open>\<open>default\<close> is the prefix with the current time.\<close>

definition set_group_label_prefix :: "string \<Rightarrow> string option \<Rightarrow> autogroup \<Rightarrow> autogroup" where
  "set_group_label_prefix default_prefix label_prefix ag =
     ag\<lparr>ag_label_prefix := (case label_prefix of None \<Rightarrow> default_prefix | Some p \<Rightarrow> p), ag_group_label := None\<rparr>"

definition filter_matches :: "string \<Rightarrow> string \<Rightarrow> bool" where
  "filter_matches s filter_string =
     (if CHR ''%'' \<in> set filter_string then sql_string_match s filter_string else s = filter_string)"

definition is_to_be_grouped :: "autogroup \<Rightarrow> string \<Rightarrow> bool res" where
  "is_to_be_grouped ag entry_point_string =
     (if \<not> ag_enabled ag then Inr False
      else
        (case (ag_include ag, ag_exclude ag) of
           (None, None) \<Rightarrow> Inr True
         | (Some _, Some _) \<Rightarrow> Inl AssertionError
         | (Some include, None) \<Rightarrow> Inr (list_ex (filter_matches entry_point_string) include)
         | (None, Some exclude) \<Rightarrow> Inr (\<not> list_ex (filter_matches entry_point_string) exclude)))"

section \<open>The label of the group\<close>

definition numbered_label :: "string \<Rightarrow> int \<Rightarrow> string" where
  "numbered_label label_prefix counter = (if counter = 0 then label_prefix else label_prefix @ ''_'' @ str_of_int counter)"

definition query_labels :: "string \<Rightarrow> string list \<Rightarrow> string list" where
  "query_labels label_prefix labels =
     filter (\<lambda>l. l = label_prefix \<or> sql_like l (escape_for_sql_like (label_prefix @ ''_'') @ ''%'')) labels"

text \<open>The number a label stands for: \<open>None\<close> when it is ignored.\<close>

definition label_number :: "string \<Rightarrow> string \<Rightarrow> int option" where
  "label_number label_prefix label =
     (let rest = drop (length label_prefix) label
      in if rest = [] then Some 0 else if hd rest = CHR ''_'' then int_of_str (tl rest) else None)"

definition first_counter :: "string \<Rightarrow> string list \<Rightarrow> int" where
  "first_counter label_prefix labels =
     (let ints = List.map_filter (label_number label_prefix) (query_labels label_prefix labels)
      in if ints = [] then 0 else Max (set ints) + 1)"

lemma numbered_label_inj: "numbered_label p i = numbered_label p j \<Longrightarrow> i = j"
  by (auto simp: numbered_label_def split: if_splits dest: str_of_int_inj)

text \<open>The loop that stores the group: a label that exists raises \<open>IntegrityError\<close> and the next one is tried.\<close>

function store_group :: "string \<Rightarrow> string list \<Rightarrow> int \<Rightarrow> string" where
  "store_group label_prefix labels counter =
     (if numbered_label label_prefix counter \<in> set labels then store_group label_prefix labels (counter + 1)
      else numbered_label label_prefix counter)"
  by pat_completeness auto
termination
proof (relation "measure (\<lambda>(label_prefix, labels, counter). length (filter (\<lambda>l. \<exists>k \<ge> counter. l = numbered_label label_prefix k) labels))", goal_cases)
  case (2 label_prefix labels counter)
  have "length (filter (\<lambda>l. \<exists>k \<ge> counter + 1. l = numbered_label label_prefix k) labels)
      < length (filter (\<lambda>l. \<exists>k \<ge> counter. l = numbered_label label_prefix k) labels)"
  proof (rule length_filter_less_if)
    show "numbered_label label_prefix counter \<in> set labels"
      using 2 .
    show "\<exists>k \<ge> counter. l = numbered_label label_prefix k" if "\<exists>k \<ge> counter + 1. l = numbered_label label_prefix k" for l
      using that by (metis add_increasing2 add_le_imp_le_right order_trans zero_le_one)
  qed (auto dest: numbered_label_inj)
  then show ?case
    by simp
qed simp

declare store_group.simps [simp del]

text \<open>The whole of \<open>get_or_create_group\<close>: the label of the group, and the manager with it cached.\<close>

definition get_or_create_group :: "string list \<Rightarrow> string list \<Rightarrow> autogroup \<Rightarrow> autogroup \<times> string" where
  "get_or_create_group queried stored ag =
     (case ag_group_label ag of
        Some label \<Rightarrow>
          if label \<in> set queried then (ag, label)
          else (let label = store_group (ag_label_prefix ag) stored (first_counter (ag_label_prefix ag) queried)
                in (ag\<lparr>ag_group_label := Some label\<rparr>, label))
      | None \<Rightarrow>
          (let label = store_group (ag_label_prefix ag) stored (first_counter (ag_label_prefix ag) queried)
           in (ag\<lparr>ag_group_label := Some label\<rparr>, label)))"

section \<open>Lemmas\<close>

lemma store_group_fresh:
  "store_group label_prefix labels counter \<notin> set labels
   \<and> (\<exists>k \<ge> counter. store_group label_prefix labels counter = numbered_label label_prefix k
        \<and> (\<forall>j. counter \<le> j \<and> j < k \<longrightarrow> numbered_label label_prefix j \<in> set labels))"
proof (induction label_prefix labels counter rule: store_group.induct)
  case (1 label_prefix labels counter)
  show ?case
  proof (cases "numbered_label label_prefix counter \<in> set labels")
    case True
    then obtain k where "k \<ge> counter + 1" "store_group label_prefix labels (counter + 1) \<notin> set labels"
        "store_group label_prefix labels (counter + 1) = numbered_label label_prefix k"
        "\<forall>j. counter + 1 \<le> j \<and> j < k \<longrightarrow> numbered_label label_prefix j \<in> set labels"
      using 1 by blast
    moreover have "j = counter \<or> counter + 1 \<le> j" if "counter \<le> j" for j
      using that by linarith
    ultimately show ?thesis
      using True by (subst (1 2) store_group.simps) (auto intro!: exI [of _ k])
  next
    case False
    then show ?thesis
      by (subst (1 2) store_group.simps) (auto intro!: exI [of _ counter])
  qed
qed

text \<open>The digits of an integer are read back by \<open>int()\<close>.\<close>

lemma str_of_nat_chars: "c \<in> set (str_of_nat n) \<Longrightarrow> \<exists>d < 10. c = digit_char d"
proof (induction n rule: str_of_nat.induct)
  case (1 n)
  then show ?case
    by (cases "n < 10") (auto simp: str_of_nat.simps [of n] intro: exI [of _ "n mod 10"])
qed

lemma digit_not_space: "d < 10 \<Longrightarrow> \<not> is_space (digit_char d)"
  by (drule less_10_cases) (auto simp: digit_char_def is_space_def)

lemma dropWhile_none: "\<forall>x \<in> set xs. \<not> P x \<Longrightarrow> dropWhile P xs = xs"
  by (cases xs) auto

lemma strip_id: "\<forall>c \<in> set s. \<not> is_space c \<Longrightarrow> str_strip s = s"
  by (simp add: str_strip_def dropWhile_none)

lemma digit_not_plus: "d < 10 \<Longrightarrow> digit_char d \<noteq> CHR ''+''"
  by (drule less_10_cases) (auto simp: digit_char_def)

lemma str_of_nat_head: "\<exists>d cs. d < 10 \<and> str_of_nat n = digit_char d # cs"
  using str_of_nat_hd [of n] str_of_nat_chars [of "hd (str_of_nat n)" n]
  by (cases "str_of_nat n") auto

lemma int_of_str_of_int: "int_of_str (str_of_int i) = Some i"
proof -
  obtain d cs where d: "d < 10" "str_of_nat (nat \<bar>i\<bar>) = digit_char d # cs"
    using str_of_nat_head by blast
  have n: "parse_digits 0 (digit_char d # cs) = Some \<bar>i\<bar>"
    using parse_str_of_nat [of "nat \<bar>i\<bar>"] d(2) by simp
  have "\<not> is_space c" if "c \<in> set (digit_char d # cs)" for c
    using str_of_nat_chars [of c "nat \<bar>i\<bar>"] that d(2) digit_not_space by auto
  moreover have "\<not> is_space (CHR ''-'')"
    by (simp add: is_space_def)
  moreover have "set (str_of_int i) \<subseteq> insert (CHR ''-'') (set (digit_char d # cs))"
    using d(2) by (cases "i < 0") (auto simp: str_of_int_def)
  ultimately have strip: "str_strip (str_of_int i) = str_of_int i"
    by (intro strip_id) blast
  show ?thesis
  proof (cases "i < 0")
    case True
    then have "str_of_int i = CHR ''-'' # digit_char d # cs"
      using d(2) by (simp add: str_of_int_def)
    then show ?thesis
      using True strip n d(1) unfolding int_of_str_def by (simp add: digit_value_char)
  next
    case False
    then have "str_of_int i = digit_char d # cs"
      using d(2) by (simp add: str_of_int_def)
    then show ?thesis
      using False strip n d(1) digit_char_not_minus digit_not_plus unfolding int_of_str_def
      by (simp add: digit_value_char)
  qed
qed

text \<open>The query finds every numbered label.\<close>

lemma query_finds_numbered:
  assumes "backslash \<notin> set label_prefix" "numbered_label label_prefix k \<in> set labels"
  shows "numbered_label label_prefix k \<in> set (query_labels label_prefix labels)
    \<and> label_number label_prefix (numbered_label label_prefix k) = Some k"
proof (cases "k = 0")
  case True
  then show ?thesis
    using assms(2) by (simp add: numbered_label_def query_labels_def label_number_def)
next
  case False
  then have l: "numbered_label label_prefix k = label_prefix @ CHR ''_'' # str_of_int k"
    by (simp add: numbered_label_def)
  have "backslash \<notin> set (label_prefix @ ''_'')"
    using assms(1) by simp
  then show ?thesis
    using assms(2) unfolding query_labels_def
    by (simp add: l label_number_def int_of_str_of_int sql_like_escaped_prefix)
qed

section \<open>Properties\<close>

text \<open>The search for a label ends and gives one that is free when the group is stored, whatever groups were
  created since the query: the first free one of the prefix, \<open>prefix_1\<close>, \<open>prefix_2\<close> and so on from where
  it starts.\<close>

theorem new_group_label_is_free:
  assumes "ag_group_label ag = None \<or> ag_group_label ag \<notin> Some ` set queried"
    and "get_or_create_group queried stored ag = (ag', label)"
  shows "label \<notin> set stored \<and> ag_group_label ag' = Some label
    \<and> (\<exists>k \<ge> first_counter (ag_label_prefix ag) queried. label = numbered_label (ag_label_prefix ag) k
        \<and> (\<forall>j. first_counter (ag_label_prefix ag) queried \<le> j \<and> j < k \<longrightarrow>
              numbered_label (ag_label_prefix ag) j \<in> set stored))"
  using assms store_group_fresh [of "ag_label_prefix ag" stored "first_counter (ag_label_prefix ag) queried"]
  by (auto simp: get_or_create_group_def Let_def split: option.splits if_splits)

theorem new_group_label_is_free_witness:
  "''run_1'' \<notin> set [''run''] \<and> ag_group_label (fst (get_or_create_group [] [''run''] (new_manager ''run''))) = Some ''run_1''"
proof -
  have "store_group ''run'' [''run''] 0 = ''run_1''"
    by (simp add: store_group.simps numbered_label_def str_of_int_def str_of_nat.simps digit_char_def)
  then have "get_or_create_group [] [''run''] (new_manager ''run'') =
      ((new_manager ''run'')\<lparr>ag_group_label := Some ''run_1''\<rparr>, ''run_1'')"
    by (simp add: get_or_create_group_def new_manager_def first_counter_def query_labels_def List.map_filter_def Let_def)
  from new_group_label_is_free [OF _ this] show ?thesis
    using \<open>get_or_create_group [] [''run''] (new_manager ''run'') = _\<close> by (simp add: new_manager_def)
qed

text \<open>Without concurrent processes the first attempt succeeds: the number is larger than that of every existing
  group of the prefix.\<close>

theorem first_label_is_free:
  assumes "backslash \<notin> set label_prefix"
  shows "store_group label_prefix labels (first_counter label_prefix labels) =
    numbered_label label_prefix (first_counter label_prefix labels)"
proof -
  let ?ints = "List.map_filter (label_number label_prefix) (query_labels label_prefix labels)"
  let ?k = "first_counter label_prefix labels"
  have "numbered_label label_prefix ?k \<notin> set labels"
  proof
    assume "numbered_label label_prefix ?k \<in> set labels"
    from query_finds_numbered [OF assms this] have "?k \<in> set ?ints"
      by (force simp: List.map_filter_def)
    moreover from this have "?k = Max (set ?ints) + 1"
      by (auto simp: first_counter_def Let_def split: if_splits)
    ultimately show False
      using Max_ge [of "set ?ints" ?k] by simp
  qed
  then show ?thesis
    by (simp add: store_group.simps)
qed

theorem first_label_is_free_witness:
  "store_group ''run'' [''run'', ''run_4''] (first_counter ''run'' [''run'', ''run_4'']) =
   numbered_label ''run'' (first_counter ''run'' [''run'', ''run_4''])"
  by (rule first_label_is_free) simp

text \<open>However the filters are set, an include and an exclude list are never both in force, so that the assertion
  in \<open>is_to_be_grouped\<close> never fails: a node is grouped exactly when grouping is enabled and its entry point
  matches the include list or none of the exclude list.\<close>

definition filter_step :: "bool \<times> string list option \<Rightarrow> autogroup \<Rightarrow> autogroup" where
  "filter_step step ag =
     (case (if fst step then set_include (snd step) ag else set_exclude (snd step) ag) of Inl _ \<Rightarrow> ag | Inr ag' \<Rightarrow> ag')"

lemma filters_exclusive:
  assumes "ag_include ag = None \<or> ag_exclude ag = None"
  shows "ag_include (fold filter_step steps ag) = None \<or> ag_exclude (fold filter_step steps ag) = None"
  using assms
proof (induction steps arbitrary: ag)
  case (Cons step steps)
  have "ag_include (filter_step step ag) = None \<or> ag_exclude (filter_step step ag) = None"
    using Cons.prems
    by (auto simp: filter_step_def set_include_def set_exclude_def guard_def bind_res_def split: sum.splits if_splits)
  then show ?case
    using Cons.IH by simp
qed simp

theorem grouping_exact:
  assumes "ag = fold filter_step steps (new_manager label_prefix)" "ag' = ag\<lparr>ag_enabled := True\<rparr>"
  shows "is_to_be_grouped ag e = Inr False
    \<and> is_to_be_grouped ag' e = Inr (case ag_include ag of
        Some include \<Rightarrow> list_ex (filter_matches e) include
      | None \<Rightarrow> (case ag_exclude ag of Some exclude \<Rightarrow> \<not> list_ex (filter_matches e) exclude | None \<Rightarrow> True))"
proof -
  have "ag_enabled (fold filter_step steps ag0) = ag_enabled ag0" for ag0
    by (induction steps arbitrary: ag0)
       (auto simp: filter_step_def set_include_def set_exclude_def guard_def bind_res_def split: sum.splits if_splits)
  then have "\<not> ag_enabled ag"
    by (simp add: assms(1) new_manager_def)
  moreover have "ag_include ag = None \<or> ag_exclude ag = None"
    unfolding assms(1) by (rule filters_exclusive) (simp add: new_manager_def)
  ultimately show ?thesis
    by (auto simp: is_to_be_grouped_def assms(2) split: option.splits)
qed

end
