(* ===== verification/Aiida_Hashing.thy ===== *)
theory Aiida_Hashing
  imports Aiida_Prelude "HOL-Library.Multiset" "HOL-Library.List_Lexorder" "HOL-Library.Char_ord"
begin

text \<open>
  Hashing of values, \<open>common/hashing.py\<close>: \<open>_make_hash\<close> turns a value into a list of digests, which
  \<open>make_hash\<close> combines.  The digest of a leaf (\<open>blake2b\<close> with the type as personalisation) and the
  combination of the list are parameters; strings are their UTF-8 encoding, floats the text that
  \<open>float_to_text\<close> gives.  Sets and dictionaries are lists in the order they iterate.  Decimals, complex
  numbers, dates, UUIDs and folders are left out.
\<close>

section \<open>Digests\<close>

datatype py_object =
    OBytes string
  | OStr string
  | OSequence "py_object list"
  | OSet "py_object list"
  | OMapping "(py_object \<times> py_object) list"
  | OOrderedDict "(py_object \<times> py_object) list"
  | OReal string
  | OInteger int
  | OBool bool
  | ONone
  | OOther

fun hashable :: "py_object \<Rightarrow> bool" where
  "hashable (OSequence xs) \<longleftrightarrow> list_all hashable xs"
| "hashable (OSet xs) \<longleftrightarrow> list_all hashable xs"
| "hashable (OMapping items) \<longleftrightarrow> list_all (\<lambda>(k, v). hashable k \<and> hashable v) items"
| "hashable (OOrderedDict items) \<longleftrightarrow> list_all (\<lambda>(k, v). hashable k \<and> hashable v) items"
| "hashable OOther \<longleftrightarrow> False"
| "hashable _ \<longleftrightarrow> True"

text \<open>\<open>_make_hash\<close>.  The option \<open>odict_as_unordered\<close> is not passed on to what is inside the dictionary.\<close>

function digests :: "(string \<Rightarrow> string \<Rightarrow> 'd::linorder) \<Rightarrow> bool \<Rightarrow> py_object \<Rightarrow> 'd list" where
  "digests sd unordered (OBytes s) = [sd ''str'' s]"
| "digests sd unordered (OStr s) = [sd ''str'' s]"
| "digests sd unordered (OSequence xs) =
     [sd ''list('' []] @ concat (map (digests sd unordered) xs) @ [sd '')'' []]"
| "digests sd unordered (OSet xs) =
     [sd ''set('' []] @ concat (sort (map (digests sd unordered) xs)) @ [sd '')'' []]"
| "digests sd unordered (OMapping items) =
     [sd ''dict('' []]
     @ concat (map (\<lambda>(k, v). k @ v)
         (sort_key fst (map (\<lambda>(k, v). (digests sd unordered k, digests sd unordered v)) items)))
     @ [sd '')'' []]"
| "digests sd unordered (OOrderedDict items) =
     (if unordered then digests sd False (OMapping items)
      else [sd ''odict('' []] @ concat (map (\<lambda>(k, v). digests sd unordered k @ digests sd unordered v) items) @ [sd '')'' []])"
| "digests sd unordered (OReal text) = [sd ''float'' text]"
| "digests sd unordered (OInteger i) = [sd ''int'' (str_of_int i)]"
| "digests sd unordered (OBool b) = [sd ''bool'' [if b then CHR 0x01 else CHR 0x00]]"
| "digests sd unordered ONone = [sd ''none'' []]"
| "digests sd unordered OOther = []"
  by pat_completeness auto
termination
  by (relation "measures [\<lambda>(sd, u, x). size x, \<lambda>(sd, u, x). if u then 1 else 0]")
     (auto simp: size_list_estimation' less_Suc_eq_le)

definition make_hash :: "(string \<Rightarrow> string \<Rightarrow> 'd::linorder) \<Rightarrow> ('d list \<Rightarrow> 'h) \<Rightarrow> bool \<Rightarrow> py_object \<Rightarrow> 'h res" where
  "make_hash sd combine unordered x =
     (if hashable x then Inr (combine (digests sd unordered x)) else Inl HashingError)"

section \<open>When two values have the same digests\<close>

text \<open>Values that are to have the same hash: byte strings and strings with the same bytes, sequences and ordered
  dictionaries entry by entry, sets and dictionaries in any order.\<close>

inductive same :: "py_object \<Rightarrow> py_object \<Rightarrow> bool" where
  same_refl: "same x x"
| same_bytes: "same (OBytes s) (OStr s)"
| same_str: "same (OStr s) (OBytes s)"
| same_sequence: "list_all2 same xs ys \<Longrightarrow> same (OSequence xs) (OSequence ys)"
| same_set: "\<lbrakk> mset xs' = mset xs; mset ys' = mset ys; list_all2 same xs' ys' \<rbrakk> \<Longrightarrow> same (OSet xs) (OSet ys)"
| same_mapping: "\<lbrakk> mset xs' = mset xs; mset ys' = mset ys; list_all2 (rel_prod same same) xs' ys' \<rbrakk>
    \<Longrightarrow> same (OMapping xs) (OMapping ys)"
| same_ordered: "list_all2 (rel_prod same same) xs ys \<Longrightarrow> same (OOrderedDict xs) (OOrderedDict ys)"

text \<open>A digest without collisions, and one that is not that of the closing bracket.\<close>

definition collision_free :: "(string \<Rightarrow> string \<Rightarrow> 'd) \<Rightarrow> bool" where
  "collision_free sd \<longleftrightarrow> (\<forall>t b t' b'. sd t b = sd t' b' \<longleftrightarrow> t = t' \<and> b = b')"

lemma collision_freeD [simp]: "collision_free sd \<Longrightarrow> sd t b = sd t' b' \<longleftrightarrow> t = t' \<and> b = b'"
  by (simp add: collision_free_def)

text \<open>Sorting commutes with computing digests.\<close>

lemma insort_map: "insort_key f (g x) (map g xs) = map g (insort_key (\<lambda>x. f (g x)) x xs)"
  by (induction xs) auto

lemma sort_key_map: "sort_key f (map g xs) = map g (sort_key (\<lambda>x. f (g x)) xs)"
  by (induction xs) (simp_all add: insort_map)

lemma digests_mapping:
  "digests sd u (OMapping items) =
     [sd ''dict('' []] @ concat (map (\<lambda>(k, v). digests sd u k @ digests sd u v) (sort_key (\<lambda>(k, v). digests sd u k) items))
     @ [sd '')'' []]"
  by (simp add: sort_key_map case_prod_unfold comp_def)

lemma digests_set:
  "digests sd u (OSet xs) = [sd ''set('' []] @ concat (map (digests sd u) (sort_key (digests sd u) xs)) @ [sd '')'' []]"
  by (simp add: sort_key_map)

lemma digests_head:
  assumes "collision_free sd" "hashable x"
  shows "\<exists>t b ds. digests sd u x = sd t b # ds \<and> t \<noteq> '')''"
  using assms by (cases x; cases u) auto

text \<open>A list of values between brackets is read back value by value.\<close>

lemma digests_list:
  assumes cf: "collision_free sd" and "list_all hashable xs" "list_all hashable ys"
    and IH: "\<And>x y r s. \<lbrakk> x \<in> set xs; hashable y; digests sd u x @ r = digests sd u y @ s \<rbrakk> \<Longrightarrow> same x y \<and> r = s"
    and "concat (map (digests sd u) xs) @ sd '')'' [] # r = concat (map (digests sd u) ys) @ sd '')'' [] # s"
  shows "list_all2 same xs ys \<and> r = s"
  using assms(2-5)
proof (induction xs arbitrary: ys)
  case Nil
  then show ?case
    using digests_head [OF cf, of "hd ys" u] by (cases ys) (auto simp: cf)
next
  case (Cons x xs)
  show ?case
  proof (cases ys)
    case Nil
    then show ?thesis
      using Cons.prems(1,4) digests_head [OF cf, of x u] by (auto simp: cf)
  next
    case (Cons y ys')
    have e: "digests sd u x @ (concat (map (digests sd u) xs) @ sd '')'' [] # r) =
        digests sd u y @ (concat (map (digests sd u) ys') @ sd '')'' [] # s)"
      using Cons.prems(4) Cons by simp
    have *: "same x y" "concat (map (digests sd u) xs) @ sd '')'' [] # r = concat (map (digests sd u) ys') @ sd '')'' [] # s"
      using Cons.prems(3) [of x y, OF _ _ e] Cons.prems(2) Cons by auto
    then show ?thesis
      using Cons.IH [OF _ _ _ *(2)] Cons.prems(1-3) Cons by auto
  qed
qed

definition flat :: "('a \<times> 'a) list \<Rightarrow> 'a list" where
  "flat items = concat (map (\<lambda>(k, v). [k, v]) items)"

lemma flat_simps [simp]: "flat [] = []" "flat ((k, v) # items) = k # v # flat items"
  by (simp_all add: flat_def)

lemma digests_flat: "concat (map (\<lambda>(k, v). digests sd u k @ digests sd u v) items) = concat (map (digests sd u) (flat items))"
  by (induction items) auto

lemma hashable_flat: "list_all (\<lambda>(k, v). hashable k \<and> hashable v) items \<longleftrightarrow> list_all hashable (flat items)"
  by (induction items) auto

lemma set_flat: "x \<in> set (flat items) \<longleftrightarrow> (\<exists>p \<in> set items. x = fst p \<or> x = snd p)"
  by (induction items) auto

lemma list_all2_flat: "list_all2 P (flat xs) (flat ys) \<Longrightarrow> list_all2 (rel_prod P P) xs ys"
proof (induction xs arbitrary: ys)
  case Nil
  then show ?case by (cases ys) auto
next
  case (Cons x xs)
  then show ?case by (cases x; cases ys; cases "hd ys") auto
qed

lemma list_all_perm: "mset xs = mset ys \<Longrightarrow> list_all P xs \<longleftrightarrow> list_all P ys"
  by (metis list_all_iff set_mset_mset)

text \<open>The same for the entries of a dictionary.\<close>

lemma digests_items:
  assumes cf: "collision_free sd"
    and xs: "\<And>k v. (k, v) \<in> set xs \<Longrightarrow> hashable k \<and> hashable v" and ys: "\<And>k v. (k, v) \<in> set ys \<Longrightarrow> hashable k \<and> hashable v"
    and IH: "\<And>k v x y r s. \<lbrakk> (k, v) \<in> set xs; x = k \<or> x = v; hashable y; digests sd u x @ r = digests sd u y @ s \<rbrakk> \<Longrightarrow> same x y \<and> r = s"
    and e: "concat (map (\<lambda>(k, v). digests sd u k @ digests sd u v) xs) @ sd '')'' [] # r
      = concat (map (\<lambda>(k, v). digests sd u k @ digests sd u v) ys) @ sd '')'' [] # s"
  shows "list_all2 (rel_prod same same) xs ys \<and> r = s"
proof -
  have "list_all2 same (flat xs) (flat ys) \<and> r = s"
  proof (rule digests_list [OF cf])
    show "list_all hashable (flat xs)" "list_all hashable (flat ys)"
      using xs ys by (auto simp: set_flat list_all_iff)
    show "same x y \<and> r = s" if x: "x \<in> set (flat xs)" "hashable y" "digests sd u x @ r = digests sd u y @ s" for x y r s
    proof -
      obtain k v where "(k, v) \<in> set xs" "x = k \<or> x = v"
        using x(1) by (auto simp: set_flat)
      then show ?thesis
        using IH x(2,3) by blast
    qed
  qed (rule e [unfolded digests_flat])
  then show ?thesis
    using list_all2_flat by blast
qed

text \<open>Digests determine the value up to \<^const>\<open>same\<close>, also when more digests follow.\<close>

lemma digests_decode:
  assumes cf: "collision_free sd"
  shows "\<lbrakk> hashable x; hashable y; digests sd False x @ r = digests sd False y @ s \<rbrakk> \<Longrightarrow> same x y \<and> r = s"
proof (induction x arbitrary: y r s)
  case (OSequence xs)
  obtain ys where y: "y = OSequence ys"
    using OSequence.prems cf by (cases y) auto
  have "list_all2 same xs ys \<and> r = s"
    by (rule digests_list [OF cf]) (use OSequence y in \<open>auto simp: list_all_iff\<close>)
  then show ?case
    using y same_sequence by simp
next
  case (OSet xs)
  obtain ys where y: "y = OSet ys"
    using OSet.prems cf by (cases y) auto
  let ?sort = "sort_key (digests sd False)"
  have "list_all2 same (?sort xs) (?sort ys) \<and> r = s"
  proof (rule digests_list [OF cf, of "?sort xs" "?sort ys" False])
    show "concat (map (digests sd False) (?sort xs)) @ sd '')'' [] # r = concat (map (digests sd False) (?sort ys)) @ sd '')'' [] # s"
      using OSet.prems(3) y by (simp only: digests_set append_assoc append_Cons append_Nil list.inject)
  qed (use OSet y in \<open>auto simp: list_all_iff\<close>)
  then show ?case
    using y same_set [of "?sort xs" xs "?sort ys" ys] by simp
next
  case (OMapping xs)
  obtain ys where y: "y = OMapping ys"
    using OMapping.prems cf by (cases y) auto
  let ?sort = "sort_key (\<lambda>(k, v). digests sd False k)"
  have "list_all2 (rel_prod same same) (?sort xs) (?sort ys) \<and> r = s"
  proof (rule digests_items [OF cf, of _ _ False])
    show "concat (map (\<lambda>(k, v). digests sd False k @ digests sd False v) (?sort xs)) @ sd '')'' [] # r
        = concat (map (\<lambda>(k, v). digests sd False k @ digests sd False v) (?sort ys)) @ sd '')'' [] # s"
      using OMapping.prems(3) y by (simp only: digests_mapping append_assoc append_Cons append_Nil list.inject)
    show "same x y \<and> r = s" if "(k, v) \<in> set (?sort xs)" "x = k \<or> x = v" "hashable y"
        "digests sd False x @ r = digests sd False y @ s" for k v x y r s
      using OMapping.IH [of "(k, v)" x y r s] that OMapping.prems(1) by (auto simp: list_all_iff)
  qed (use OMapping.prems(1,2) y in \<open>auto simp: list_all_iff\<close>)
  then show ?case
    using y same_mapping [of "?sort xs" xs "?sort ys" ys] by simp
next
  case (OOrderedDict xs)
  obtain ys where y: "y = OOrderedDict ys"
    using OOrderedDict.prems cf by (cases y) auto
  have "list_all2 (rel_prod same same) xs ys \<and> r = s"
  proof (rule digests_items [OF cf, of _ _ False])
    show "same x y \<and> r = s" if "(k, v) \<in> set xs" "x = k \<or> x = v" "hashable y"
        "digests sd False x @ r = digests sd False y @ s" for k v x y r s
      using OOrderedDict.IH [of "(k, v)" x y r s] that OOrderedDict.prems(1) by (auto simp: list_all_iff)
  qed (use OOrderedDict.prems y in \<open>auto simp: list_all_iff\<close>)
  then show ?case
    using y same_ordered by simp
next
  case (OBytes b)
  then show ?case
    using cf by (cases y) (auto intro: same.intros dest: str_of_int_inj split: if_splits)
next
  case (OStr b)
  then show ?case
    using cf by (cases y) (auto intro: same.intros dest: str_of_int_inj split: if_splits)
next
  case (OReal t)
  then show ?case
    using cf by (cases y) (auto intro: same.intros dest: str_of_int_inj split: if_splits)
next
  case (OInteger i)
  then show ?case
    using cf by (cases y) (auto intro: same.intros dest: str_of_int_inj split: if_splits)
next
  case (OBool b)
  then show ?case
    using cf by (cases y) (auto intro: same.intros dest: str_of_int_inj split: if_splits)
next
  case ONone
  then show ?case
    using cf by (cases y) (auto intro: same.intros)
qed simp

text \<open>The converse needs that no two keys of a dictionary are the same in this sense (a string and its bytes).\<close>

function keys_differ :: "py_object \<Rightarrow> bool" where
  "keys_differ (OSequence xs) \<longleftrightarrow> list_all keys_differ xs"
| "keys_differ (OSet xs) \<longleftrightarrow> list_all keys_differ xs"
| "keys_differ (OMapping items) \<longleftrightarrow> list_all (\<lambda>(k, v). keys_differ k \<and> keys_differ v) items
     \<and> (\<forall>i < length items. \<forall>j < length items. i \<noteq> j \<longrightarrow> \<not> same (fst (items ! i)) (fst (items ! j)))"
| "keys_differ (OOrderedDict items) \<longleftrightarrow> list_all (\<lambda>(k, v). keys_differ k \<and> keys_differ v) items"
| "keys_differ (OBytes s) \<longleftrightarrow> True"
| "keys_differ (OStr s) \<longleftrightarrow> True"
| "keys_differ (OReal t) \<longleftrightarrow> True"
| "keys_differ (OInteger i) \<longleftrightarrow> True"
| "keys_differ (OBool b) \<longleftrightarrow> True"
| "keys_differ ONone \<longleftrightarrow> True"
| "keys_differ OOther \<longleftrightarrow> True"
  by pat_completeness auto
termination
  by (relation "measure size") (auto simp: size_list_estimation' less_Suc_eq_le)

lemma sort_perm: "mset xs = mset ys \<Longrightarrow> sort (map f xs) = sort (map f ys)"
  by (metis mset_map properties_for_sort sorted_sort mset_sort)

lemma sort_key_pairs:
  assumes "mset xs = mset ys" "distinct (map fst xs)"
  shows "sort_key fst xs = sort_key fst ys"
proof (rule sort_key_inj_key_eq)
  show "inj_on fst (set xs)"
    using assms(2) by (simp add: distinct_map)
qed (use assms(1) in simp_all)

lemma key_digests_distinct:
  assumes "collision_free sd" "hashable (OMapping items)" "keys_differ (OMapping items)"
  shows "distinct (map fst (map (\<lambda>(k, v). (digests sd False k, digests sd False v)) items))"
proof -
  have "digests sd False (fst (items ! i)) \<noteq> digests sd False (fst (items ! j))"
    if "i < length items" "j < length items" "i \<noteq> j" for i j
  proof
    assume e: "digests sd False (fst (items ! i)) = digests sd False (fst (items ! j))"
    have "hashable (fst (items ! i))" "hashable (fst (items ! j))"
      using assms(2) that nth_mem by (fastforce simp: list_all_iff)+
    then show False
      using digests_decode [OF assms(1), of "fst (items ! i)" "fst (items ! j)" "[]" "[]"] e assms(3) that by auto
  qed
  then show ?thesis
    by (auto simp: distinct_conv_nth case_prod_beta)
qed

lemma map_eq_list_all2:
  "\<lbrakk> list_all2 P xs ys; \<And>x y. \<lbrakk> x \<in> set xs; P x y \<rbrakk> \<Longrightarrow> f x = g y \<rbrakk> \<Longrightarrow> map f xs = map g ys"
  by (induction rule: list_all2_induct) auto

lemma same_digests:
  assumes cf: "collision_free sd"
  shows "\<lbrakk> same x y; hashable x; keys_differ x \<rbrakk> \<Longrightarrow> digests sd False x = digests sd False y"
proof (induction rule: same.induct)
  case (same_sequence xs ys)
  have "map (digests sd False) xs = map (digests sd False) ys"
    by (rule map_eq_list_all2 [OF same_sequence(1)]) (use same_sequence.prems in \<open>auto simp: list_all_iff\<close>)
  then show ?case
    by simp
next
  case (same_set xs' xs ys' ys)
  have "set xs' = set xs"
    using same_set(1) by (metis set_mset_mset)
  then have "map (digests sd False) xs' = map (digests sd False) ys'"
    by (intro map_eq_list_all2 [OF same_set(3)]) (use same_set.prems in \<open>auto simp: list_all_iff\<close>)
  then show ?case
    using sort_perm [OF same_set(1), of "digests sd False"] sort_perm [OF same_set(2), of "digests sd False"] by simp
next
  case (same_mapping xs' xs ys' ys)
  let ?g = "\<lambda>(k, v). (digests sd False k, digests sd False v)"
  have "set xs' = set xs"
    using same_mapping(1) by (metis set_mset_mset)
  then have ok: "hashable k \<and> keys_differ k \<and> hashable v \<and> keys_differ v" if "(k, v) \<in> set xs'" for k v
    using that same_mapping.prems by (auto simp: list_all_iff)
  have "map ?g xs' = map ?g ys'"
  proof (rule map_eq_list_all2 [OF same_mapping(3)], goal_cases)
    case (1 p q)
    then show ?case
      using ok [of "fst p" "snd p"] by (simp add: rel_prod_sel case_prod_beta)
  qed
  moreover have "mset (map ?g xs') = mset (map ?g xs)" "mset (map ?g ys') = mset (map ?g ys)"
    by (simp_all only: mset_map same_mapping(1,2))
  ultimately have "mset (map ?g xs) = mset (map ?g ys)"
    by simp
  then have "sort_key fst (map ?g xs) = sort_key fst (map ?g ys)"
    using key_digests_distinct [OF cf same_mapping.prems] by (rule sort_key_pairs)
  then show ?case
    by simp
next
  case (same_ordered xs ys)
  have ok: "hashable k \<and> keys_differ k \<and> hashable v \<and> keys_differ v" if "(k, v) \<in> set xs" for k v
    using that same_ordered.prems by (auto simp: list_all_iff)
  have "map (\<lambda>(k, v). digests sd False k @ digests sd False v) xs = map (\<lambda>(k, v). digests sd False k @ digests sd False v) ys"
  proof (rule map_eq_list_all2 [OF same_ordered(1)], goal_cases)
    case (1 p q)
    then show ?case
      using ok [of "fst p" "snd p"] by (simp add: rel_prod_sel case_prod_beta)
  qed
  then show ?case
    by simp
qed auto

section \<open>Properties\<close>


text \<open>A digest without collisions: the type and the bytes themselves.\<close>

definition plain_digest :: "string \<Rightarrow> string \<Rightarrow> string list" where
  "plain_digest t b = [t, b]"


text \<open>The option \<open>odict_as_unordered\<close> is lost inside an ordered dictionary: it makes the order of the outer
  dictionary irrelevant, but the order of a nested one still matters.\<close>

theorem unordered_option_lost:
  assumes "collision_free sd" "outer = (\<lambda>items. OOrderedDict [(OStr ''x'', OOrderedDict items)])"
  shows "digests sd True (outer [(OStr ''a'', ONone), (OStr ''b'', ONone)])
    \<noteq> digests sd True (outer [(OStr ''b'', ONone), (OStr ''a'', ONone)])"
  using assms by simp

end
