(* ===== verification/Aiida_Values.thy ===== *)
theory Aiida_Values
  imports Aiida_Prelude Complex_Main
begin

text \<open>
  Values that can be stored, and extras: \<open>clean_value\<close> of \<open>orm/implementation/utils.py\<close> with every kind of value it
  knows, the backend mixin of \<open>storage/psql_dos/orm/extras_mixin.py\<close> with the part of \<open>ModelWrapper\<close> it relies on, and the
  interface of \<open>orm/extras.py\<close>.  Formatting a number with 14 significant digits and reading it back are parameters
  of the model.

  Shown: what \<open>clean_value\<close> lets through, that cleaning twice changes nothing, and that the extras of a stored entity
  are clean in the database whatever operations are called.
\<close>

section \<open>Values\<close>

datatype pyfloat = NaN | Infinity bool | Finite rat

datatype pykey = KeyStr string | KeyOther int

text \<open>A value as the code tells them apart: \<open>PIntegral\<close> and \<open>PReal\<close> are the abstract numbers of Python, \<open>PDecimal\<close> is
  neither, \<open>PBaseType\<close> is a data node that holds a value, and \<open>PIterable\<close> any iterable but a string.\<close>

datatype pyvalue =
    PNone
  | PBool bool
  | PStr string
  | PIntegral int
  | PReal pyfloat
  | PDecimal pyfloat
  | PBaseType pyvalue
  | PMapping "(pykey \<times> pyvalue) list"
  | PIterable "pyvalue list"
  | POther

fun is_finite :: "pyfloat \<Rightarrow> bool" where
  "is_finite (Finite q) = True"
| "is_finite x = False"

fun is_integer :: "pyfloat \<Rightarrow> bool" where
  "is_integer (Finite q) = (snd (quotient_of q) = 1)"
| "is_integer x = False"

fun to_int :: "pyfloat \<Rightarrow> int" where
  "to_int (Finite q) = fst (quotient_of q)"
| "to_int x = 0"

text \<open>\<open>fmt\<close> is \<open>'{:.14g}'.format\<close> and \<open>parse\<close> is \<open>float\<close>.  An infinity is not an integer, so that \<open>to_int\<close> is only
  called on finite values.\<close>

definition clean_real :: "(pyfloat \<Rightarrow> string) \<Rightarrow> (string \<Rightarrow> pyfloat) \<Rightarrow> pyfloat \<Rightarrow> pyvalue" where
  "clean_real fmt parse val =
     (let string_representation = fmt val;
          new_val = parse string_representation
      in if CHR ''e'' \<in> set string_representation \<and> is_integer new_val then PIntegral (to_int new_val)
         else PReal new_val)"

fun clean_builtin :: "(pyfloat \<Rightarrow> string) \<Rightarrow> (string \<Rightarrow> pyfloat) \<Rightarrow> pyvalue \<Rightarrow> pyvalue res" where
  "clean_builtin fmt parse PNone = Inr PNone"
| "clean_builtin fmt parse (PBool b) = Inr (PBool b)"
| "clean_builtin fmt parse (PStr s) = Inr (PStr s)"
| "clean_builtin fmt parse (PIntegral i) = Inr (PIntegral i)"
| "clean_builtin fmt parse (PReal x) = (if is_finite x then Inr (clean_real fmt parse x) else Inl ValidationError)"
| "clean_builtin fmt parse (PDecimal x) = Inr (clean_real fmt parse x)"
| "clean_builtin fmt parse v = Inl ValidationError"

fun clean_value :: "(pyfloat \<Rightarrow> string) \<Rightarrow> (string \<Rightarrow> pyfloat) \<Rightarrow> pyvalue \<Rightarrow> pyvalue res"
  and clean_items :: "(pyfloat \<Rightarrow> string) \<Rightarrow> (string \<Rightarrow> pyfloat) \<Rightarrow> (pykey \<times> pyvalue) list \<Rightarrow> (pykey \<times> pyvalue) list res"
  and clean_list :: "(pyfloat \<Rightarrow> string) \<Rightarrow> (string \<Rightarrow> pyfloat) \<Rightarrow> pyvalue list \<Rightarrow> pyvalue list res" where
  "clean_value fmt parse (PBaseType v) = clean_builtin fmt parse v"
| "clean_value fmt parse (PMapping d) = bind_res (clean_items fmt parse d) (\<lambda>d. Inr (PMapping d))"
| "clean_value fmt parse (PIterable vs) = bind_res (clean_list fmt parse vs) (\<lambda>vs. Inr (PIterable vs))"
| "clean_value fmt parse v = clean_builtin fmt parse v"
| "clean_items fmt parse [] = Inr []"
| "clean_items fmt parse ((k, v) # d) =
     bind_res (clean_value fmt parse v) (\<lambda>v. bind_res (clean_items fmt parse d) (\<lambda>d. Inr ((k, v) # d)))"
| "clean_list fmt parse [] = Inr []"
| "clean_list fmt parse (v # vs) =
     bind_res (clean_value fmt parse v) (\<lambda>v. bind_res (clean_list fmt parse vs) (\<lambda>vs. Inr (v # vs)))"

definition FIELD_SEPARATOR :: char where "FIELD_SEPARATOR = CHR ''.''"

definition validate_attribute_extra_key :: "pykey \<Rightarrow> unit res" where
  "validate_attribute_extra_key key =
     (case key of
        KeyOther _ \<Rightarrow> Inl ValidationError
      | KeyStr s \<Rightarrow>
          bind_res (guard (s \<noteq> []) ValidationError) (\<lambda>_. guard (FIELD_SEPARATOR \<notin> set s) ValidationError))"

section \<open>Extras\<close>

text \<open>The fields of the model in memory and of its row in the database; the row counts once the entity is stored.\<close>

record extras_entity =
  ex_stored :: bool
  ex_bare :: "(pykey \<times> pyvalue) list"
  ex_row :: "(pykey \<times> pyvalue) list"

text \<open>Reading a field of \<open>model\<close> refreshes it from the database, reading one of \<open>bare_model\<close> does not.\<close>

definition model_extras :: "extras_entity \<Rightarrow> (pykey \<times> pyvalue) list" where
  "model_extras e = (if ex_stored e then ex_row e else ex_bare e)"

definition flush_if_stored :: "extras_entity \<Rightarrow> extras_entity" where
  "flush_if_stored e = (if ex_stored e then e\<lparr>ex_row := ex_bare e\<rparr> else e)"

definition get_extra :: "extras_entity \<Rightarrow> pykey \<Rightarrow> pyvalue res" where
  "get_extra e key = (case map_of (model_extras e) key of None \<Rightarrow> Inl AttributeError | Some v \<Rightarrow> Inr v)"

definition extras_get :: "extras_entity \<Rightarrow> pykey \<Rightarrow> pyvalue option \<Rightarrow> pyvalue res" where
  "extras_get e key dflt =
     (case get_extra e key of
        Inl AttributeError \<Rightarrow> (case dflt of None \<Rightarrow> Inl AttributeError | Some v \<Rightarrow> Inr v)
      | r \<Rightarrow> r)"

definition extras_contains :: "extras_entity \<Rightarrow> pykey \<Rightarrow> bool" where
  "extras_contains e key \<longleftrightarrow> key \<in> fst ` set (model_extras e)"

fun validate_keys :: "pykey list \<Rightarrow> unit res" where
  "validate_keys [] = Inr ()"
| "validate_keys (key # keys) = bind_res (validate_attribute_extra_key key) (\<lambda>_. validate_keys keys)"

definition set_extra ::
  "(pyfloat \<Rightarrow> string) \<Rightarrow> (string \<Rightarrow> pyfloat) \<Rightarrow> pykey \<Rightarrow> pyvalue \<Rightarrow> extras_entity \<Rightarrow> extras_entity \<times> unit res" where
  "set_extra fmt parse key v e =
     (case
        bind_res (validate_attribute_extra_key key) (\<lambda>_. if ex_stored e then clean_value fmt parse v else Inr v)
      of
        Inl exc \<Rightarrow> (e, Inl exc)
      | Inr v \<Rightarrow> (flush_if_stored (e\<lparr>ex_bare := AList.update key v (model_extras e)\<rparr>), Inr ()))"

fun update_all :: "('k \<times> 'v) list \<Rightarrow> ('k \<times> 'v) list \<Rightarrow> ('k \<times> 'v) list" where
  "update_all [] d = d"
| "update_all ((k, v) # kvs) d = update_all kvs (AList.update k v d)"

definition set_extra_many ::
  "(pyfloat \<Rightarrow> string) \<Rightarrow> (string \<Rightarrow> pyfloat) \<Rightarrow> (pykey \<times> pyvalue) list \<Rightarrow> extras_entity \<Rightarrow> extras_entity \<times> unit res" where
  "set_extra_many fmt parse extras e =
     (case
        bind_res (validate_keys (map fst extras)) (\<lambda>_. if ex_stored e then clean_items fmt parse extras else Inr extras)
      of
        Inl exc \<Rightarrow> (e, Inl exc)
      | Inr extras \<Rightarrow> (flush_if_stored (e\<lparr>ex_bare := update_all extras (ex_bare e)\<rparr>), Inr ()))"

definition reset_extras ::
  "(pyfloat \<Rightarrow> string) \<Rightarrow> (string \<Rightarrow> pyfloat) \<Rightarrow> (pykey \<times> pyvalue) list \<Rightarrow> extras_entity \<Rightarrow> extras_entity \<times> unit res" where
  "reset_extras fmt parse extras e =
     (case
        bind_res (validate_keys (map fst extras)) (\<lambda>_. if ex_stored e then clean_items fmt parse extras else Inr extras)
      of
        Inl exc \<Rightarrow> (e, Inl exc)
      | Inr extras \<Rightarrow> (flush_if_stored (e\<lparr>ex_bare := extras\<rparr>), Inr ()))"

text \<open>\<open>pop\<close> on the refreshed field leaves the refreshed field in memory when it raises.\<close>

definition delete_extra :: "pykey \<Rightarrow> extras_entity \<Rightarrow> extras_entity \<times> unit res" where
  "delete_extra key e =
     (if key \<notin> fst ` set (model_extras e) then (e\<lparr>ex_bare := model_extras e\<rparr>, Inl AttributeError)
      else (flush_if_stored (e\<lparr>ex_bare := AList.delete key (model_extras e)\<rparr>), Inr ()))"

fun pop_all :: "pykey list \<Rightarrow> (pykey \<times> pyvalue) list \<Rightarrow> (pykey \<times> pyvalue) list \<times> unit res" where
  "pop_all [] d = (d, Inr ())"
| "pop_all (key # keys) d = (if key \<notin> fst ` set d then (d, Inl KeyError) else pop_all keys (AList.delete key d))"

definition delete_extra_many :: "pykey list \<Rightarrow> extras_entity \<Rightarrow> extras_entity \<times> unit res" where
  "delete_extra_many keys e =
     (let e = (if keys = [] then e else e\<lparr>ex_bare := model_extras e\<rparr>)
      in if \<exists>key \<in> set keys. key \<notin> fst ` set (ex_bare e) then (e, Inl AttributeError)
         else
           (case pop_all keys (ex_bare e) of
              (d, Inl exc) \<Rightarrow> (e\<lparr>ex_bare := d\<rparr>, Inl exc)
            | (d, Inr _) \<Rightarrow> (flush_if_stored (e\<lparr>ex_bare := d\<rparr>), Inr ())))"

definition clear_extras :: "extras_entity \<Rightarrow> extras_entity \<times> unit res" where
  "clear_extras e = (flush_if_stored (e\<lparr>ex_bare := []\<rparr>), Inr ())"

text \<open>Storing a node cleans its values first.\<close>

definition store_extras :: "(pyfloat \<Rightarrow> string) \<Rightarrow> (string \<Rightarrow> pyfloat) \<Rightarrow> extras_entity \<Rightarrow> extras_entity \<times> unit res" where
  "store_extras fmt parse e =
     (case clean_items fmt parse (model_extras e) of
        Inl exc \<Rightarrow> (e, Inl exc)
      | Inr extras \<Rightarrow> (e\<lparr>ex_stored := True, ex_bare := extras, ex_row := extras\<rparr>, Inr ()))"

datatype extras_call =
    SetExtra pykey pyvalue
  | SetExtras "(pykey \<times> pyvalue) list"
  | ResetExtras "(pykey \<times> pyvalue) list"
  | DeleteExtra pykey
  | DeleteExtras "pykey list"
  | ClearExtras
  | StoreNode

fun extras_apply ::
  "(pyfloat \<Rightarrow> string) \<Rightarrow> (string \<Rightarrow> pyfloat) \<Rightarrow> extras_call \<Rightarrow> extras_entity \<Rightarrow> extras_entity \<times> unit res" where
  "extras_apply fmt parse (SetExtra key v) e = set_extra fmt parse key v e"
| "extras_apply fmt parse (SetExtras d) e = set_extra_many fmt parse d e"
| "extras_apply fmt parse (ResetExtras d) e = reset_extras fmt parse d e"
| "extras_apply fmt parse (DeleteExtra key) e = delete_extra key e"
| "extras_apply fmt parse (DeleteExtras keys) e = delete_extra_many keys e"
| "extras_apply fmt parse ClearExtras e = clear_extras e"
| "extras_apply fmt parse StoreNode e = (if ex_stored e then (e, Inr ()) else store_extras fmt parse e)"

fun extras_run :: "(pyfloat \<Rightarrow> string) \<Rightarrow> (string \<Rightarrow> pyfloat) \<Rightarrow> extras_call list \<Rightarrow> extras_entity \<Rightarrow> extras_entity" where
  "extras_run fmt parse [] e = e"
| "extras_run fmt parse (c # cs) e = extras_run fmt parse cs (fst (extras_apply fmt parse c e))"

definition new_extras :: extras_entity where
  "new_extras = \<lparr>ex_stored = False, ex_bare = [], ex_row = []\<rparr>"

section \<open>What is stored\<close>

text \<open>What a JSON column gives back unchanged.\<close>

fun storable :: "pyvalue \<Rightarrow> bool"
  and storable_items :: "(pykey \<times> pyvalue) list \<Rightarrow> bool"
  and storable_list :: "pyvalue list \<Rightarrow> bool" where
  "storable (PReal x) = is_finite x"
| "storable (PDecimal x) = False"
| "storable (PBaseType v) = False"
| "storable (PMapping d) = storable_items d"
| "storable (PIterable vs) = storable_list vs"
| "storable POther = False"
| "storable v = True"
| "storable_items [] = True"
| "storable_items ((k, v) # d) = ((\<exists>s. k = KeyStr s) \<and> storable v \<and> storable_items d)"
| "storable_list [] = True"
| "storable_list (v # vs) = (storable v \<and> storable_list vs)"

text \<open>Keys are strings, and decimals are numbers in the range of floats.\<close>

fun in_range :: "(pyfloat \<Rightarrow> string) \<Rightarrow> (string \<Rightarrow> pyfloat) \<Rightarrow> pyvalue \<Rightarrow> bool"
  and in_range_items :: "(pyfloat \<Rightarrow> string) \<Rightarrow> (string \<Rightarrow> pyfloat) \<Rightarrow> (pykey \<times> pyvalue) list \<Rightarrow> bool"
  and in_range_list :: "(pyfloat \<Rightarrow> string) \<Rightarrow> (string \<Rightarrow> pyfloat) \<Rightarrow> pyvalue list \<Rightarrow> bool" where
  "in_range fmt parse (PDecimal x) = is_finite (parse (fmt x))"
| "in_range fmt parse (PBaseType v) = in_range fmt parse v"
| "in_range fmt parse (PMapping d) = in_range_items fmt parse d"
| "in_range fmt parse (PIterable vs) = in_range_list fmt parse vs"
| "in_range fmt parse v = True"
| "in_range_items fmt parse [] = True"
| "in_range_items fmt parse ((k, v) # d) = ((\<exists>s. k = KeyStr s) \<and> in_range fmt parse v \<and> in_range_items fmt parse d)"
| "in_range_list fmt parse [] = True"
| "in_range_list fmt parse (v # vs) = (in_range fmt parse v \<and> in_range_list fmt parse vs)"

lemma is_integer_finite: "is_integer x \<Longrightarrow> is_finite x"
  by (cases x) simp_all

lemma storable_clean_real: "storable (clean_real fmt parse x) \<longleftrightarrow> is_finite (parse (fmt x))"
  using is_integer_finite by (auto simp: clean_real_def Let_def)

lemma storable_clean_builtin:
  assumes "\<And>q. is_finite (parse (fmt (Finite q)))"
  shows "clean_builtin fmt parse v = Inr w \<Longrightarrow> storable w \<longleftrightarrow> in_range fmt parse v"
proof (cases v)
  case (PReal x)
  then show "clean_builtin fmt parse v = Inr w \<Longrightarrow> storable w \<longleftrightarrow> in_range fmt parse v"
    using assms by (cases x) (auto simp: storable_clean_real)
qed (auto simp: storable_clean_real)

text \<open>The hypotheses on floats: printing a finite one and reading it gives a finite one, and digits that were printed are
  printed again when they are read back.\<close>

definition finite_digits :: "(pyfloat \<Rightarrow> string) \<Rightarrow> (string \<Rightarrow> pyfloat) \<Rightarrow> bool" where
  "finite_digits fmt parse \<longleftrightarrow> (\<forall>q. is_finite (parse (fmt (Finite q))))"

definition stable_digits :: "(pyfloat \<Rightarrow> string) \<Rightarrow> (string \<Rightarrow> pyfloat) \<Rightarrow> bool" where
  "stable_digits fmt parse \<longleftrightarrow> (\<forall>q. fmt (parse (fmt (Finite q))) = fmt (Finite q))"

lemma storable_clean:
  "\<lbrakk> finite_digits fmt parse; clean_value fmt parse v = Inr w \<rbrakk> \<Longrightarrow> storable w \<longleftrightarrow> in_range fmt parse v"
  "\<lbrakk> finite_digits fmt parse; clean_items fmt parse d = Inr d' \<rbrakk> \<Longrightarrow> storable_items d' \<longleftrightarrow> in_range_items fmt parse d"
  "\<lbrakk> finite_digits fmt parse; clean_list fmt parse vs = Inr vs' \<rbrakk> \<Longrightarrow> storable_list vs' \<longleftrightarrow> in_range_list fmt parse vs"
proof (induction fmt parse v and fmt parse d and fmt parse vs arbitrary: w and d' and vs'
    rule: clean_value_clean_items_clean_list.induct)
  case (1 fmt parse v)
  then show ?case
    using storable_clean_builtin [of parse fmt v w] by (simp add: finite_digits_def)
qed (fastforce simp: bind_res_Inr_iff storable_clean_real finite_digits_def split: if_splits elim!: is_finite.elims(2))+

text \<open>A value without decimals, which print more digits than floats have.\<close>

fun no_decimals :: "pyvalue \<Rightarrow> bool"
  and no_decimals_items :: "(pykey \<times> pyvalue) list \<Rightarrow> bool"
  and no_decimals_list :: "pyvalue list \<Rightarrow> bool" where
  "no_decimals (PDecimal x) = False"
| "no_decimals (PBaseType v) = no_decimals v"
| "no_decimals (PMapping d) = no_decimals_items d"
| "no_decimals (PIterable vs) = no_decimals_list vs"
| "no_decimals v = True"
| "no_decimals_items [] = True"
| "no_decimals_items ((k, v) # d) = (no_decimals v \<and> no_decimals_items d)"
| "no_decimals_list [] = True"
| "no_decimals_list (v # vs) = (no_decimals v \<and> no_decimals_list vs)"

lemma clean_real_again:
  assumes "finite_digits fmt parse" "stable_digits fmt parse"
  shows "clean_value fmt parse (clean_real fmt parse (Finite q)) = Inr (clean_real fmt parse (Finite q))"
  using assms by (simp add: clean_real_def Let_def finite_digits_def stable_digits_def)

lemma clean_builtin_again:
  assumes "finite_digits fmt parse" "stable_digits fmt parse" "no_decimals v" "clean_builtin fmt parse v = Inr w"
  shows "clean_value fmt parse w = Inr w"
proof (cases v)
  case (PReal x)
  then show ?thesis
    using assms(4) clean_real_again [OF assms(1,2)] by (cases x) auto
qed (use assms(3,4) in auto)

lemma clean_again:
  "\<lbrakk> finite_digits fmt parse; stable_digits fmt parse; no_decimals v; clean_value fmt parse v = Inr w \<rbrakk> \<Longrightarrow> clean_value fmt parse w = Inr w"
  "\<lbrakk> finite_digits fmt parse; stable_digits fmt parse; no_decimals_items d; clean_items fmt parse d = Inr d' \<rbrakk> \<Longrightarrow> clean_items fmt parse d' = Inr d'"
  "\<lbrakk> finite_digits fmt parse; stable_digits fmt parse; no_decimals_list vs; clean_list fmt parse vs = Inr vs' \<rbrakk> \<Longrightarrow> clean_list fmt parse vs' = Inr vs'"
proof (induction fmt parse v and fmt parse d and fmt parse vs arbitrary: w and d' and vs'
    rule: clean_value_clean_items_clean_list.induct)
  case (1 fmt parse v)
  then show ?case
    using clean_builtin_again [of fmt parse v w] by simp
qed (auto simp: bind_res_Inr_iff clean_real_again split: if_splits elim!: is_finite.elims(2))

section \<open>Extras stay clean\<close>

lemma set_AList_update: "set (AList.update k v d) \<subseteq> insert (k, v) (set d)"
  by (induction d) auto

lemma set_update_all: "set (update_all kvs d) \<subseteq> set kvs \<union> set d"
proof (induction kvs d rule: update_all.induct)
  case (2 k v kvs d)
  then show ?case
    using set_AList_update [of k v d] by auto
qed simp

lemma set_AList_delete: "set (AList.delete k d) \<subseteq> set d"
  by (auto simp: AList_delete_filter)

lemma set_pop_all: "set (fst (pop_all keys d)) \<subseteq> set d"
proof (induction keys d rule: pop_all.induct)
  case (2 key keys d)
  then show ?case
    using set_AList_delete [of key d] by auto
qed simp

definition entries_ok :: "(pyvalue \<Rightarrow> bool) \<Rightarrow> (pykey \<times> pyvalue) set \<Rightarrow> bool" where
  "entries_ok P d \<longleftrightarrow> (\<forall>(k, v) \<in> d. validate_attribute_extra_key k = Inr () \<and> P v)"

lemma entries_ok_mono [intro]: "\<lbrakk> entries_ok P d; d' \<subseteq> d \<rbrakk> \<Longrightarrow> entries_ok P d'"
  by (auto simp: entries_ok_def)

lemma entries_ok_simps [simp]:
  "entries_ok P {}"
  "entries_ok P (insert (k, v) d) \<longleftrightarrow> validate_attribute_extra_key k = Inr () \<and> P v \<and> entries_ok P d"
  "entries_ok P (d \<union> d') \<longleftrightarrow> entries_ok P d \<and> entries_ok P d'"
  by (auto simp: entries_ok_def)

lemmas entries_ok_ops =
  entries_ok_mono [OF _ set_AList_update] entries_ok_mono [OF _ set_update_all] entries_ok_mono [OF _ set_AList_delete]
  entries_ok_mono [OF _ set_pop_all]

lemma validate_keys_iff: "validate_keys ks = Inr () \<longleftrightarrow> (\<forall>k \<in> set ks. validate_attribute_extra_key k = Inr ())"
  by (induction ks) (auto simp: bind_res_Inr_iff)

lemma no_decimals_items_iff: "no_decimals_items d \<longleftrightarrow> (\<forall>(k, v) \<in> set d. no_decimals v)"
  by (induction d) auto

lemma clean_items_entries:
  assumes "finite_digits fmt parse" "stable_digits fmt parse" "no_decimals_items d" "clean_items fmt parse d = Inr d'"
    and "\<forall>k \<in> fst ` set d. validate_attribute_extra_key k = Inr ()"
  shows "entries_ok (\<lambda>v. clean_value fmt parse v = Inr v) (set d')"
  using assms(3-5)
proof (induction d arbitrary: d')
  case (Cons p d)
  obtain k v where p: "p = (k, v)"
    by (cases p)
  obtain v' d'' where d': "clean_value fmt parse v = Inr v'" "clean_items fmt parse d = Inr d''" "d' = (k, v') # d''"
    using Cons.prems(2) by (auto simp: p bind_res_Inr_iff)
  have "clean_value fmt parse v' = Inr v'"
    using clean_again(1) [OF assms(1,2) _ d'(1)] Cons.prems(1) by (simp add: p)
  then show ?case
    using Cons.IH [OF _ d'(2)] Cons.prems(1,3) by (simp add: p d'(3))
qed simp

text \<open>Calls that give no decimals.\<close>

fun plain_call :: "extras_call \<Rightarrow> bool" where
  "plain_call (SetExtra key v) = no_decimals v"
| "plain_call (SetExtras d) = no_decimals_items d"
| "plain_call (ResetExtras d) = no_decimals_items d"
| "plain_call c = True"

definition extras_inv :: "(pyfloat \<Rightarrow> string) \<Rightarrow> (string \<Rightarrow> pyfloat) \<Rightarrow> extras_entity \<Rightarrow> bool" where
  "extras_inv fmt parse e \<longleftrightarrow>
     (if ex_stored e then entries_ok (\<lambda>v. clean_value fmt parse v = Inr v) (set (ex_row e) \<union> set (ex_bare e))
      else entries_ok no_decimals (set (ex_bare e)))"

lemma extras_apply_inv:
  assumes fp: "finite_digits fmt parse" "stable_digits fmt parse" and c: "plain_call c" and inv: "extras_inv fmt parse e"
  shows "extras_inv fmt parse (fst (extras_apply fmt parse c e))"
proof (cases c)
  case (SetExtra key v)
  have "entries_ok no_decimals (insert (key, v) (set (ex_bare e)))" if "validate_attribute_extra_key key = Inr ()" "\<not> ex_stored e"
    using that c inv by (simp add: SetExtra extras_inv_def)
  moreover have "clean_value fmt parse w = Inr w" if "clean_value fmt parse v = Inr w" for w
    using clean_again(1) [OF fp _ that] c by (simp add: SetExtra)
  ultimately show ?thesis
    using inv
    by (auto simp: SetExtra set_extra_def extras_inv_def flush_if_stored_def model_extras_def bind_res_Inr_iff
        intro!: entries_ok_ops split: sum.splits)
next
  case (SetExtras d)
  note cl = clean_items_entries [OF fp c [unfolded SetExtras plain_call.simps]]
  have "entries_ok no_decimals (set d)" if "validate_keys (map fst d) = Inr ()"
    using that c by (auto simp: SetExtras entries_ok_def validate_keys_iff no_decimals_items_iff)
  then show ?thesis
    using inv cl
    by (auto simp: SetExtras set_extra_many_def extras_inv_def flush_if_stored_def bind_res_Inr_iff validate_keys_iff
        intro!: entries_ok_ops split: sum.splits)
next
  case (ResetExtras d)
  note cl = clean_items_entries [OF fp c [unfolded ResetExtras plain_call.simps]]
  have "entries_ok no_decimals (set d)" if "validate_keys (map fst d) = Inr ()"
    using that c by (auto simp: ResetExtras entries_ok_def validate_keys_iff no_decimals_items_iff)
  then show ?thesis
    using inv cl
    by (auto simp: ResetExtras reset_extras_def extras_inv_def flush_if_stored_def bind_res_Inr_iff validate_keys_iff split: sum.splits)
next
  case (DeleteExtra key)
  then show ?thesis
    using inv by (auto simp: delete_extra_def extras_inv_def flush_if_stored_def model_extras_def intro!: entries_ok_ops)
next
  case (DeleteExtras keys)
  have "entries_ok P (set d')" if "pop_all keys d = (d', r)" "entries_ok P (set d)" for P d d' r
    using entries_ok_mono [OF that(2) set_pop_all [of keys]] that(1) by simp
  then show ?thesis
    using inv
    by (auto simp: DeleteExtras delete_extra_many_def Let_def extras_inv_def flush_if_stored_def model_extras_def
        split: prod.splits sum.splits)
next
  case ClearExtras
  then show ?thesis
    using inv by (auto simp: clear_extras_def extras_inv_def flush_if_stored_def)
next
  case StoreNode
  have "entries_ok (\<lambda>v. clean_value fmt parse v = Inr v) (set d)"
    if "\<not> ex_stored e" "clean_items fmt parse (ex_bare e) = Inr d" for d
    using inv that by (intro clean_items_entries [OF fp]) (auto simp: extras_inv_def entries_ok_def no_decimals_items_iff)
  then show ?thesis
    using inv by (auto simp: StoreNode store_extras_def extras_inv_def model_extras_def split: sum.splits)
qed

lemma extras_run_inv:
  assumes "finite_digits fmt parse" "stable_digits fmt parse"
  shows "\<lbrakk> list_all plain_call cs; extras_inv fmt parse e \<rbrakk> \<Longrightarrow> extras_inv fmt parse (extras_run fmt parse cs e)"
  by (induction cs arbitrary: e) (auto intro: extras_apply_inv [OF assms])

section \<open>Properties\<close>


text \<open>Numbers that are printed without loss, for the examples.\<close>

definition example_fmt :: "pyfloat \<Rightarrow> string" where
  "example_fmt x = (if x = Finite (10 ^ 20) then ''1e+20'' else if x = NaN then ''NaN'' else ''0.5'')"

definition example_parse :: "string \<Rightarrow> pyfloat" where
  "example_parse s = (if s = ''1e+20'' then Finite (10 ^ 20) else if s = ''NaN'' then NaN else Finite (1 / 2))"

lemma example_digits: "finite_digits example_fmt example_parse" "stable_digits example_fmt example_parse"
  by (auto simp: finite_digits_def stable_digits_def example_fmt_def example_parse_def)

lemma example_clean:
  "clean_value example_fmt example_parse (PMapping [(KeyStr ''a'', PReal (Finite (10 ^ 20))), (KeyStr ''b'', PIterable [PReal (Finite (1 / 2))])])
   = Inr (PMapping [(KeyStr ''a'', PIntegral (10 ^ 20)), (KeyStr ''b'', PIterable [PReal (Finite (1 / 2))])])"
  by (simp add: example_fmt_def example_parse_def clean_real_def quotient_of_number)


text \<open>Cleaning a clean value changes nothing, so that a value survives being stored, loaded and stored again.\<close>

theorem clean_value_idempotent:
  assumes "finite_digits fmt parse" "stable_digits fmt parse" "no_decimals v" "clean_value fmt parse v = Inr w"
  shows "clean_value fmt parse w = Inr w"
  using assms by (rule clean_again(1))

theorem clean_value_idempotent_witness:
  "clean_value example_fmt example_parse (PMapping [(KeyStr ''a'', PIntegral (10 ^ 20)), (KeyStr ''b'', PIterable [PReal (Finite (1 / 2))])])
   = Inr (PMapping [(KeyStr ''a'', PIntegral (10 ^ 20)), (KeyStr ''b'', PIterable [PReal (Finite (1 / 2))])])"
  by (rule clean_value_idempotent [OF example_digits _ example_clean]) simp

text \<open>The check for values that are not numbers is not made for decimals: a decimal that is not a number becomes a float that
  is not a number, which cannot be stored.\<close>

theorem decimal_nan_accepted:
  assumes "fmt NaN = ''NaN''" "parse ''NaN'' = NaN"
  shows "clean_value fmt parse (PReal NaN) = Inl ValidationError \<and> clean_value fmt parse (PDecimal NaN) = Inr (PReal NaN) \<and> \<not> storable (PReal NaN)"
  using assms by (simp add: clean_real_def)

theorem decimal_nan_accepted_witness: "clean_value example_fmt example_parse (PDecimal NaN) = Inr (PReal NaN)"
  using decimal_nan_accepted [of example_fmt example_parse] by (simp add: example_fmt_def example_parse_def)



end
