(* ===== verification/Aiida_Archive.thy ===== *)
theory Aiida_Archive
  imports Aiida_Prelude
begin

text \<open>
  Tables of a storage backend and the insertion of new rows into them, as the archive code uses it:
  \<open>batch_iter\<close> of \<open>tools/archive/common.py\<close>, \<open>bulk_insert\<close> of \<open>storage/psql_dos/backend.py\<close> and
  \<open>_add_new_entities\<close> of \<open>tools/archive/imports.py\<close>.

  A table is the list of its rows, each with its primary key; a query without order returns the rows
  in the order of the list.  New rows get primary keys that no row of the table has.  The uniqueness
  constraints of a table are a predicate on its rows; inserting rows that violate it raises
  \<open>IntegrityError\<close>.
\<close>

section \<open>Tables\<close>

type_synonym pk = nat
type_synonym 'r table = "(pk \<times> 'r) list"

abbreviation rows_of :: "'r table \<Rightarrow> 'r list" where "rows_of t \<equiv> map snd t"
abbreviation fields_of :: "('r \<Rightarrow> 'k) \<Rightarrow> 'r table \<Rightarrow> 'k list" where "fields_of field t \<equiv> map (\<lambda>row. field (snd row)) t"
abbreviation pks_of :: "'r table \<Rightarrow> pk list" where "pks_of t \<equiv> map fst t"

definition next_pk :: "'r table \<Rightarrow> pk" where
  "next_pk t = (if t = [] then 1 else Suc (Max (set (pks_of t))))"

definition append_rows :: "'r table \<Rightarrow> 'r list \<Rightarrow> 'r table" where
  "append_rows t rows = t @ zip [next_pk t ..< next_pk t + length rows] rows"

definition bulk_insert :: "('r list \<Rightarrow> bool) \<Rightarrow> 'r list \<Rightarrow> 'r table \<Rightarrow> (pk list \<times> 'r table) res" where
  "bulk_insert constraint rows t =
     (if rows = [] then Inr ([], t)
      else if constraint (rows_of (append_rows t rows))
           then Inr ([next_pk t ..< next_pk t + length rows], append_rows t rows)
           else Inl IntegrityError)"

text \<open>The rows are given by primary key, with how each is changed.\<close>

definition bulk_update :: "(pk \<times> ('r \<Rightarrow> 'r)) list \<Rightarrow> 'r table \<Rightarrow> 'r table" where
  "bulk_update changes t =
     map (\<lambda>(pk, r). (pk, case map_of changes pk of None \<Rightarrow> r | Some f \<Rightarrow> f r)) t"

text \<open>\<open>batch_iter\<close>: the batch under construction is \<open>current\<close>; a size below one gives batches of one item.\<close>

fun batch_loop :: "nat \<Rightarrow> 'a list \<Rightarrow> 'a list \<Rightarrow> 'a list list" where
  "batch_loop sz current [] = (if current = [] then [] else [current])"
| "batch_loop sz current (x # xs) =
     (if length current + 1 \<ge> sz then (current @ [x]) # batch_loop sz [] xs
      else batch_loop sz (current @ [x]) xs)"

definition batch_iter :: "nat \<Rightarrow> 'a list \<Rightarrow> 'a list list" where
  "batch_iter sz xs = batch_loop sz [] xs"

fun transform_rows :: "('s \<Rightarrow> pk \<times> 'r \<Rightarrow> ('s \<times> 'r) res) \<Rightarrow> 's \<Rightarrow> 'r table \<Rightarrow> ('s \<times> 'r list) res" where
  "transform_rows transform st [] = Inr (st, [])"
| "transform_rows transform st (row # rows) =
     bind_res (transform st row) (\<lambda>(st, r). bind_res (transform_rows transform st rows) (\<lambda>(st, rs). Inr (st, r # rs)))"

fun add_batches ::
  "('r \<Rightarrow> 'k) \<Rightarrow> ('r list \<Rightarrow> bool) \<Rightarrow> ('s \<Rightarrow> pk \<times> 'r \<Rightarrow> ('s \<times> 'r) res) \<Rightarrow> 'r table
   \<Rightarrow> 's \<Rightarrow> ('k \<rightharpoonup> pk) \<Rightarrow> 'r table \<Rightarrow> 'k list list \<Rightarrow> ('s \<times> ('k \<rightharpoonup> pk) \<times> 'r table) res" where
  "add_batches field constraint transform backend_from st ids t [] = Inr (st, ids, t)"
| "add_batches field constraint transform backend_from st ids t (batch # batches) =
     bind_res (transform_rows transform st (filter (\<lambda>row. field (snd row) \<in> set batch) backend_from)) (\<lambda>(st, rows).
     bind_res (bulk_insert constraint rows t) (\<lambda>(new_ids, t).
       add_batches field constraint transform backend_from st (ids ++ map_of (zip (map field rows) new_ids)) t batches))"

definition add_new_entities ::
  "nat \<Rightarrow> ('r \<Rightarrow> 'k) \<Rightarrow> ('r list \<Rightarrow> bool) \<Rightarrow> ('s \<Rightarrow> pk \<times> 'r \<Rightarrow> ('s \<times> 'r) res) \<Rightarrow> 'r table
   \<Rightarrow> 's \<Rightarrow> ('k \<rightharpoonup> pk) \<Rightarrow> 'r table \<Rightarrow> ('s \<times> ('k \<rightharpoonup> pk) \<times> 'r table) res" where
  "add_new_entities filter_size field constraint transform backend_from st ids t =
     (let ufields = filter (\<lambda>u. ids u = None) (remdups (fields_of field backend_from))
      in add_batches field constraint transform backend_from st ids t (batch_iter filter_size ufields))"

text \<open>What the functions that import one type of entity have in common: the rows of the backend with the same
  unique field are looked up, the new ones are added when there are any, and each primary key of the
  archive is mapped to that of the backend.\<close>

definition matching :: "('r \<Rightarrow> 'k) \<Rightarrow> 'r table \<Rightarrow> 'r table \<Rightarrow> ('k \<times> pk) list" where
  "matching field backend_from t =
     map (\<lambda>row. (field (snd row), fst row)) (filter (\<lambda>row. field (snd row) \<in> set (fields_of field backend_from)) t)"

fun archive_ids :: "('r \<Rightarrow> 'k) \<Rightarrow> ('k \<rightharpoonup> pk) \<Rightarrow> 'r table \<Rightarrow> (pk \<times> pk) list res" where
  "archive_ids field ids [] = Inr []"
| "archive_ids field ids ((pk, r) # rows) =
     (case ids (field r) of
        None \<Rightarrow> Inl KeyError
      | Some i \<Rightarrow> bind_res (archive_ids field ids rows) (\<lambda>m. Inr ((pk, i) # m)))"

definition import_with ::
  "('k \<times> pk) list \<Rightarrow> nat \<Rightarrow> ('r \<Rightarrow> 'k) \<Rightarrow> ('r list \<Rightarrow> bool) \<Rightarrow> ('s \<Rightarrow> pk \<times> 'r \<Rightarrow> ('s \<times> 'r) res) \<Rightarrow> 'r table
   \<Rightarrow> 's \<Rightarrow> 'r table \<Rightarrow> ('s \<times> (pk \<times> pk) list \<times> 'r table) res" where
  "import_with existing filter_size field constraint transform backend_from st t =
     bind_res
       (if length backend_from \<noteq> length existing
        then add_new_entities filter_size field constraint transform backend_from st (map_of existing) t
        else Inr (st, map_of existing, t)) (\<lambda>(st, ids, t).
     bind_res (archive_ids field ids backend_from) (\<lambda>m. Inr (st, m, t)))"

definition import_entities ::
  "nat \<Rightarrow> ('r \<Rightarrow> 'k) \<Rightarrow> ('r list \<Rightarrow> bool) \<Rightarrow> ('s \<Rightarrow> pk \<times> 'r \<Rightarrow> ('s \<times> 'r) res) \<Rightarrow> 'r table
   \<Rightarrow> 's \<Rightarrow> 'r table \<Rightarrow> ('s \<times> (pk \<times> pk) list \<times> 'r table) res" where
  "import_entities filter_size field constraint transform backend_from st t =
     import_with (matching field backend_from t) filter_size field constraint transform backend_from st t"

text \<open>Rows that are inserted batch by batch.\<close>

fun insert_batches :: "('r list \<Rightarrow> bool) \<Rightarrow> 'r list list \<Rightarrow> 'r table \<Rightarrow> 'r table res" where
  "insert_batches constraint [] t = Inr t"
| "insert_batches constraint (rows # batches) t =
     bind_res (bulk_insert constraint rows t) (\<lambda>(new_ids, t). insert_batches constraint batches t)"

section \<open>Lemmas\<close>

lemma batch_loop_concat: "concat (batch_loop sz current xs) = current @ xs"
  by (induction sz current xs rule: batch_loop.induct) auto

lemma batch_iter_concat: "concat (batch_iter sz xs) = xs"
  by (simp add: batch_iter_def batch_loop_concat)

lemma batch_loop_length: "sz \<ge> 1 \<Longrightarrow> length current < sz \<Longrightarrow> b \<in> set (batch_loop sz current xs) \<Longrightarrow> length b \<le> sz \<and> b \<noteq> []"
  by (induction sz current xs rule: batch_loop.induct) (auto split: if_splits)

lemma pk_less_next: "pk \<in> set (pks_of t) \<Longrightarrow> pk < next_pk t"
  by (auto simp: next_pk_def less_Suc_eq_le)

lemma pk_less_next' [dest]: "(pk, r) \<in> set t \<Longrightarrow> pk < next_pk t"
  using pk_less_next [of pk t] by force

lemma rows_of_append_rows [simp]: "rows_of (append_rows t rows) = rows_of t @ rows"
  by (simp add: append_rows_def)

lemma pks_of_append_rows [simp]: "pks_of (append_rows t rows) = pks_of t @ [next_pk t ..< next_pk t + length rows]"
  by (simp add: append_rows_def)

lemma fields_of_append_rows [simp]:
  "fields_of field (append_rows t rows) = fields_of field t @ map field rows"
  "(\<lambda>row. field (snd row)) ` set (append_rows t rows) = (\<lambda>row. field (snd row)) ` set t \<union> field ` set rows"
proof -
  have "map field (rows_of (append_rows t rows)) = map field (rows_of t @ rows)"
    by (simp only: rows_of_append_rows)
  then show fields: "fields_of field (append_rows t rows) = fields_of field t @ map field rows"
    by (simp only: map_map comp_def map_append)
  show "(\<lambda>row. field (snd row)) ` set (append_rows t rows) = (\<lambda>row. field (snd row)) ` set t \<union> field ` set rows"
    using arg_cong [OF fields, of set] by (simp only: set_append list.set_map)
qed

lemma length_append_rows [simp]: "length (append_rows t rows) = length t + length rows"
  by (simp add: append_rows_def)

lemma append_rows_Nil [simp]: "append_rows t [] = t"
  by (simp add: append_rows_def)

lemma distinct_pks_append: "distinct (pks_of t) \<Longrightarrow> distinct (pks_of (append_rows t rows))"
  by (fastforce simp: append_rows_def)

lemma next_pk_append_rows: "next_pk (append_rows t rows) = next_pk t + length rows"
proof (cases "rows = []")
  case False
  have "Max (set (pks_of (append_rows t rows))) = next_pk t + length rows - 1"
  proof (rule Max_eqI)
    fix y
    assume "y \<in> set (pks_of (append_rows t rows))"
    then show "y \<le> next_pk t + length rows - 1"
      using pk_less_next' [of y _ t] False by (cases rows) fastforce+
  next
    show "next_pk t + length rows - 1 \<in> set (pks_of (append_rows t rows))"
      using False by (cases rows) auto
  qed simp
  then show ?thesis
    using False by (simp add: next_pk_def append_rows_def)
qed simp

lemma append_rows_append: "append_rows (append_rows t rows) rows' = append_rows t (rows @ rows')"
proof -
  have "[next_pk t ..< next_pk t + length (rows @ rows')] =
      [next_pk t ..< next_pk t + length rows] @ [next_pk t + length rows ..< next_pk t + length rows + length rows']"
    using upt_add_eq_append [of "next_pk t" "next_pk t + length rows" "length rows'"] by (simp add: add.assoc)
  then show ?thesis
    unfolding append_rows_def [of t "rows @ rows'"] append_rows_def [of "append_rows t rows"] next_pk_append_rows
    by (simp only: append_rows_def [of t rows] zip_append length_upt append_assoc diff_add_inverse)
qed

lemma filter_map_slice:
  assumes "map f xs = b @ c" "distinct (map f xs)"
  shows "filter (\<lambda>x. f x \<in> set b) xs = take (length b) xs" "filter (\<lambda>x. f x \<in> set c) xs = drop (length b) xs"
proof -
  have m: "map f (take (length b) xs) = b" "map f (drop (length b) xs) = c"
    using assms(1) by (simp_all add: take_map [symmetric] drop_map [symmetric])
  have d: "set b \<inter> set c = {}"
    using assms by auto
  have s: "f ` set (take (length b) xs) = set b" "f ` set (drop (length b) xs) = set c"
    using m by (metis list.set_map)+
  have "filter (\<lambda>x. f x \<in> set b) (take (length b) xs) = take (length b) xs" "filter (\<lambda>x. f x \<in> set b) (drop (length b) xs) = []"
    "filter (\<lambda>x. f x \<in> set c) (take (length b) xs) = []" "filter (\<lambda>x. f x \<in> set c) (drop (length b) xs) = drop (length b) xs"
    using s d by (fastforce intro!: filter_True filter_False)+
  then show "filter (\<lambda>x. f x \<in> set b) xs = take (length b) xs" "filter (\<lambda>x. f x \<in> set c) xs = drop (length b) xs"
    by (metis append_take_drop_id filter_append append_Nil append_Nil2)+
qed

lemma transform_rows_append:
  "transform_rows transform st (xs @ ys) =
     bind_res (transform_rows transform st xs) (\<lambda>(st, rs). bind_res (transform_rows transform st ys) (\<lambda>(st, rs'). Inr (st, rs @ rs')))"
  by (induction xs arbitrary: st) (auto simp: bind_res_def split: sum.splits)

lemma map_of_zip_upt_append:
  assumes "distinct (xs @ ys)" "length xs = m" "length ys = n"
  shows "map_of (zip xs [k ..< k + m]) ++ map_of (zip ys [k + m ..< k + m + n]) = map_of (zip (xs @ ys) [k ..< k + (m + n)])"
proof -
  have "[k ..< k + (m + n)] = [k ..< k + m] @ [k + m ..< k + m + n]"
    using upt_add_eq_append [of k "k + m" n] by (simp add: add.assoc)
  moreover have "dom (map_of (zip xs [k ..< k + m])) \<inter> dom (map_of (zip ys [k + m ..< k + m + n])) = {}"
    using assms by (simp add: dom_map_of_zip)
  ultimately show ?thesis
    using assms map_add_comm [of "map_of (zip xs [k ..< k + m])"] by simp
qed

section \<open>Importing one type of entity\<close>

text \<open>The rows of the archive that the backend does not have, and the primary key of a row by its unique field.\<close>

definition new_rows :: "('r \<Rightarrow> 'k) \<Rightarrow> 'r table \<Rightarrow> 'r table \<Rightarrow> 'r table" where
  "new_rows field backend_from t = filter (\<lambda>row. field (snd row) \<notin> set (fields_of field t)) backend_from"

definition id_of :: "('r \<Rightarrow> 'k) \<Rightarrow> 'r table \<Rightarrow> 'k \<rightharpoonup> pk" where
  "id_of field t = map_of (map (\<lambda>row. (field (snd row), fst row)) t)"

lemma same_pk: "\<lbrakk> distinct (pks_of t); (i, r) \<in> set t; (i, r') \<in> set t \<rbrakk> \<Longrightarrow> r = r'"
  by (rule eq_key_imp_eq_value)

lemma same_field: "\<lbrakk> distinct (fields_of field t); (i, r) \<in> set t; (j, r') \<in> set t; field r = field r' \<rbrakk> \<Longrightarrow> i = j \<and> r = r'"
  by (metis distinct_map inj_onD prod.inject snd_conv)

lemma fields_new_rows: "set (fields_of field (new_rows field backend_from t)) = set (fields_of field backend_from) - set (fields_of field t)"
  by (induction backend_from) (auto simp: new_rows_def)

lemma map_of_filter_key:
  assumes "Q k"
  shows "map_of (map (\<lambda>row. (f (snd row), fst row)) (filter (\<lambda>row. Q (f (snd row))) t)) k = map_of (map (\<lambda>row. (f (snd row), fst row)) t) k"
  using assms by (induction t) auto

lemma id_of_None_iff: "id_of field t k = None \<longleftrightarrow> k \<notin> set (fields_of field t)"
  by (force simp: id_of_def map_of_eq_None_iff)

lemma dom_id_of: "dom (id_of field t) = set (fields_of field t)"
  by (auto simp: id_of_def dom_map_of_conv_image_fst image_image)

lemma id_of_SomeD: "id_of field t k = Some i \<Longrightarrow> \<exists>r. (i, r) \<in> set t \<and> field r = k"
  unfolding id_of_def by (drule map_of_SomeD) auto

lemma id_of_SomeI: "\<lbrakk> (i, r) \<in> set t; distinct (fields_of field t) \<rbrakk> \<Longrightarrow> id_of field t (field r) = Some i"
  unfolding id_of_def by (rule map_of_is_SomeI) (force simp: comp_def case_prod_beta)+

lemma id_of_append_rows:
  assumes "distinct (map field (rows_of t @ rows))"
  shows "id_of field (append_rows t rows) = id_of field t ++ map_of (zip (map field rows) [next_pk t ..< next_pk t + length rows])"
proof -
  have "map (\<lambda>row. (field (snd row), fst row)) (zip xs ys) = zip (map field ys) xs" for xs :: "pk list" and ys
    by (induction xs ys rule: list_induct2') auto
  moreover have "dom (id_of field t) \<inter> dom (map_of (zip (map field rows) [next_pk t ..< next_pk t + length rows])) = {}"
    using assms by (simp add: dom_id_of dom_map_of_zip Int_commute)
  ultimately show ?thesis
    using map_add_comm [of "id_of field t"] by (simp add: id_of_def append_rows_def)
qed

lemma matching_id_of:
  assumes "k \<in> set (fields_of field backend_from)"
  shows "map_of (matching field backend_from t) k = id_of field t k"
  using assms map_of_filter_key [of "\<lambda>u. u \<in> set (fields_of field backend_from)" k field t]
  by (simp add: matching_def id_of_def)

lemma length_matching:
  assumes "distinct (fields_of field backend_from)" "distinct (fields_of field t)"
  shows "length (matching field backend_from t) = length backend_from \<longleftrightarrow> new_rows field backend_from t = []"
proof -
  let ?F = "set (fields_of field backend_from)" and ?T = "set (fields_of field t)"
  have "length (matching field backend_from t) = length (filter (\<lambda>u. u \<in> ?F) (fields_of field t))"
    by (simp add: matching_def filter_map comp_def case_prod_beta)
  also have "\<dots> = card (set (filter (\<lambda>u. u \<in> ?F) (fields_of field t)))"
    using assms(2) by (intro distinct_card [symmetric]) simp
  also have "set (filter (\<lambda>u. u \<in> ?F) (fields_of field t)) = ?F \<inter> ?T"
    by auto
  finally have "length (matching field backend_from t) = card (?F \<inter> ?T)" .
  moreover have "length backend_from = card ?F"
    using distinct_card [OF assms(1)] by simp
  moreover have "card (?F \<inter> ?T) = card ?F \<longleftrightarrow> ?F \<subseteq> ?T"
    using card_subset_eq [of ?F "?F \<inter> ?T"] by (auto simp: Int_absorb2)
  moreover have "?F \<subseteq> ?T \<longleftrightarrow> new_rows field backend_from t = []"
    by (force simp: new_rows_def filter_empty_conv)
  ultimately show ?thesis
    by metis
qed

lemma archive_ids_exact:
  assumes "\<And>u. u \<in> set (fields_of field backend_from) \<Longrightarrow> ids u \<noteq> None"
  shows "archive_ids field ids backend_from = Inr (map (\<lambda>row. (fst row, the (ids (field (snd row))))) backend_from)"
  using assms by (induction backend_from) (auto split: option.splits)

text \<open>The mapping of primary keys that an import returns: every row of the archive goes to the row of the table with
  the same unique field.\<close>

definition maps_entities :: "('r \<Rightarrow> 'k) \<Rightarrow> 'r table \<Rightarrow> 'r table \<Rightarrow> (pk \<times> pk) list \<Rightarrow> bool" where
  "maps_entities field backend_from t m \<longleftrightarrow>
     m = map (\<lambda>row. (fst row, the (id_of field t (field (snd row))))) backend_from
     \<and> set (fields_of field backend_from) \<subseteq> set (fields_of field t)"

lemma in_fields_of: "(p, r) \<in> set t \<Longrightarrow> field r \<in> set (fields_of field t)"
  by (force simp: image_iff)

lemma maps_entities_known:
  assumes "maps_entities field backend_from t m" "(p, r) \<in> set backend_from"
  shows "id_of field t (field r) \<noteq> None"
  using in_fields_of [OF assms(2), of field] assms(1) unfolding maps_entities_def id_of_None_iff by blast

lemma maps_entitiesD:
  assumes "maps_entities field backend_from t m"
  shows "map fst m = pks_of backend_from"
    and "(p, i) \<in> set m \<Longrightarrow> \<exists>r r'. (p, r) \<in> set backend_from \<and> (i, r') \<in> set t \<and> field r' = field r"
proof -
  show "map fst m = pks_of backend_from"
    using assms by (simp add: maps_entities_def comp_def)
  assume "(p, i) \<in> set m"
  then obtain r where r: "(p, r) \<in> set backend_from" "i = the (id_of field t (field r))"
    using assms by (auto simp: maps_entities_def)
  then have "id_of field t (field r) \<noteq> None"
    using maps_entities_known [OF assms] by blast
  then show "\<exists>r r'. (p, r) \<in> set backend_from \<and> (i, r') \<in> set t \<and> field r' = field r"
    using r id_of_SomeD [of field t "field r"] by auto
qed

lemma maps_entities_map_of:
  assumes "maps_entities field backend_from t m" "distinct (pks_of backend_from)" "(p, r) \<in> set backend_from"
  shows "map_of m p = id_of field t (field r) \<and> id_of field t (field r) \<noteq> None"
proof -
  have "id_of field t (field r) \<noteq> None"
    using maps_entities_known [OF assms(1,3)] .
  moreover have "(p, the (id_of field t (field r))) \<in> set m"
    using assms(1,3) by (force simp: maps_entities_def)
  ultimately show ?thesis
    using assms(1,2) maps_entitiesD(1) [OF assms(1)] by (simp add: map_of_is_SomeI)
qed

lemma maps_entities_distinct:
  assumes "maps_entities field backend_from t m" "distinct (fields_of field backend_from)" "distinct (pks_of t)"
  shows "distinct (map snd m)"
proof -
  have "inj_on (\<lambda>row. the (id_of field t (field (snd row)))) (set backend_from)"
  proof (rule inj_onI)
    fix x y
    assume xy: "x \<in> set backend_from" "y \<in> set backend_from"
      and "the (id_of field t (field (snd x))) = the (id_of field t (field (snd y)))"
    moreover have "id_of field t (field (snd x)) \<noteq> None" "id_of field t (field (snd y)) \<noteq> None"
      using assms(1) xy by (auto simp: maps_entities_def id_of_None_iff)
    ultimately obtain i where "id_of field t (field (snd x)) = Some i" "id_of field t (field (snd y)) = Some i"
      by auto
    then obtain r r' where "(i, r) \<in> set t" "(i, r') \<in> set t" "field r = field (snd x)" "field r' = field (snd y)"
      by (meson id_of_SomeD)
    then have "field (snd x) = field (snd y)"
      using assms(3) by (metis eq_key_imp_eq_value)
    then show "x = y"
      using assms(2) xy by (auto simp: distinct_map dest: inj_onD)
  qed
  moreover have "distinct backend_from"
    using assms(2) by (simp add: distinct_map)
  ultimately show ?thesis
    using assms(1) by (simp add: maps_entities_def distinct_map comp_def)
qed

text \<open>What a type of entity promises: rows of the archive keep their unique field when they are transformed, and a
  transformed row that is new can be inserted.  The state of the transformation is related to the rows
  of the table by \<open>inv\<close>.\<close>

locale entity_import =
  fixes field :: "'r \<Rightarrow> 'k"
    and constraint :: "'r list \<Rightarrow> bool"
    and transform :: "'s \<Rightarrow> pk \<times> 'r \<Rightarrow> ('s \<times> 'r) res"
    and inv :: "'s \<Rightarrow> 'r list \<Rightarrow> bool"
  assumes constraint_distinct: "constraint rs \<Longrightarrow> distinct (map field rs)"
    and transform_field: "transform st (pk, r) = Inr (st', r') \<Longrightarrow> field r' = field r"
    and transform_insert: "\<lbrakk> inv st rs; constraint rs; transform st (pk, r) = Inr (st', r'); field r \<notin> field ` set rs \<rbrakk>
      \<Longrightarrow> inv st' (rs @ [r']) \<and> constraint (rs @ [r'])"
begin

lemma transform_rows_fields: "transform_rows transform st xs = Inr (st', rs') \<Longrightarrow> map field rs' = fields_of field xs"
  by (induction xs arbitrary: st rs') (auto simp: bind_res_Inr_iff dest: transform_field)

lemma transform_rows_insert:
  assumes "transform_rows transform st xs = Inr (st', rs')" "inv st rs" "constraint rs"
    and "distinct (fields_of field xs)" "set (fields_of field xs) \<inter> field ` set rs = {}"
  shows "inv st' (rs @ rs') \<and> constraint (rs @ rs')"
  using assms
proof (induction xs arbitrary: st rs rs')
  case (Cons x xs)
  obtain pk r where x: "x = (pk, r)"
    by (cases x)
  from Cons.prems(1) obtain st1 r1 rs1 where *: "transform st (pk, r) = Inr (st1, r1)"
      "transform_rows transform st1 xs = Inr (st', rs1)" "rs' = r1 # rs1"
    by (auto simp: x bind_res_Inr_iff)
  have "inv st1 (rs @ [r1]) \<and> constraint (rs @ [r1])"
    using transform_insert [OF Cons.prems(2,3) *(1)] Cons.prems(5) by (auto simp: x)
  then have "inv st' ((rs @ [r1]) @ rs1) \<and> constraint ((rs @ [r1]) @ rs1)"
    using Cons.prems(4,5) transform_field [OF *(1)] by (intro Cons.IH [OF *(2)]) (auto simp: x)
  then show ?case
    by (simp add: *(3))
qed simp

lemma add_batches_exact:
  assumes "distinct (fields_of field backend_from)"
    and "todo = filter (\<lambda>row. field (snd row) \<in> set (concat bs)) backend_from" "fields_of field todo = concat bs"
    and "inv st (rows_of t)" "constraint (rows_of t)" "set (concat bs) \<inter> set (fields_of field t) = {}"
  shows "add_batches field constraint transform backend_from st ids t bs =
    bind_res (transform_rows transform st todo) (\<lambda>(st', rows).
      Inr (st', ids ++ map_of (zip (map field rows) [next_pk t ..< next_pk t + length rows]), append_rows t rows))"
  using assms(2-)
proof (induction bs arbitrary: st ids t todo)
  case Nil
  then show ?case
    by simp
next
  case (Cons b bs)
  let ?f = "\<lambda>x. field (snd x)"
  let ?todo1 = "filter (\<lambda>row. field (snd row) \<in> set b) backend_from"
  let ?todo2 = "filter (\<lambda>row. field (snd row) \<in> set (concat bs)) backend_from"
  have m: "map ?f todo = b @ concat bs"
    using Cons.prems(2) by (simp add: comp_def)
  have d: "distinct (map ?f todo)"
    using assms(1) by (simp add: Cons.prems(1) distinct_map_filter comp_def)
  have "?todo1 = filter (\<lambda>x. ?f x \<in> set b) todo" "?todo2 = filter (\<lambda>x. ?f x \<in> set (concat bs)) todo"
    by (auto simp: Cons.prems(1) intro!: filter_cong)
  then have slices: "?todo1 = take (length b) todo" "?todo2 = drop (length b) todo"
    using filter_map_slice [OF m d] by simp_all
  then have todo: "todo = ?todo1 @ ?todo2"
    by simp
  have fields: "fields_of field ?todo1 = b" "fields_of field ?todo2 = concat bs"
    using m unfolding slices by (simp_all add: take_map [symmetric] drop_map [symmetric] comp_def)
  show ?case
  proof (cases "transform_rows transform st ?todo1")
    case (Inl e)
    then show ?thesis
      unfolding todo transform_rows_append by simp
  next
    case (Inr r)
    then obtain st1 rs1 where r: "transform_rows transform st ?todo1 = Inr (st1, rs1)"
      by (cases r) simp
    have f1: "map field rs1 = b"
      using transform_rows_fields [OF r] fields(1) by simp
    have ok: "inv st1 (rows_of t @ rs1) \<and> constraint (rows_of t @ rs1)"
    proof (rule transform_rows_insert [OF r Cons.prems(3,4)])
      show "distinct (fields_of field ?todo1)"
        using m d fields(1) by simp
      have "set (fields_of field ?todo1) = set b"
        by (simp only: fields(1))
      then show "set (fields_of field ?todo1) \<inter> field ` set (rows_of t) = {}"
        using Cons.prems(5) by (auto simp: image_image)
    qed
    have rs1: "field ` set rs1 = set b"
      using f1 by (metis list.set_map)
    have ins: "bulk_insert constraint rs1 t = Inr ([next_pk t ..< next_pk t + length rs1], append_rows t rs1)"
      using ok by (simp add: bulk_insert_def)
    have "set (concat bs) \<inter> set (fields_of field (append_rows t rs1)) = {}"
      using Cons.prems(5) m d rs1 by auto
    then have IH: "add_batches field constraint transform backend_from st1
          (ids ++ map_of (zip (map field rs1) [next_pk t ..< next_pk t + length rs1])) (append_rows t rs1) bs =
        bind_res (transform_rows transform st1 ?todo2) (\<lambda>(st', rows).
          Inr (st', ids ++ map_of (zip (map field rs1) [next_pk t ..< next_pk t + length rs1])
              ++ map_of (zip (map field rows) [next_pk (append_rows t rs1) ..< next_pk (append_rows t rs1) + length rows]),
            append_rows (append_rows t rs1) rows))"
      using ok fields(2) by (intro Cons.IH) simp_all
    show ?thesis
    proof (cases "transform_rows transform st1 ?todo2")
      case (Inl e)
      then show ?thesis
        unfolding todo transform_rows_append add_batches.simps r IH bind_res_simps prod.case ins by simp
    next
      case (Inr r')
      then obtain st2 rs2 where r2: "transform_rows transform st1 ?todo2 = Inr (st2, rs2)"
        by (cases r') simp
      have "distinct (map field (rs1 @ rs2))"
        using transform_rows_fields [OF r2] f1 fields(2) m d by simp
      then have "map_of (zip (map field rs1) [next_pk t ..< next_pk t + length rs1])
          ++ map_of (zip (map field rs2) [next_pk t + length rs1 ..< next_pk t + length rs1 + length rs2])
        = map_of (zip (map field (rs1 @ rs2)) [next_pk t ..< next_pk t + length (rs1 @ rs2)])"
        using map_of_zip_upt_append [of "map field rs1" "map field rs2"] by simp
      then show ?thesis
        unfolding todo transform_rows_append add_batches.simps r IH bind_res_simps prod.case ins r2
        by (simp add: append_rows_append next_pk_append_rows map_add_assoc [symmetric])
    qed
  qed
qed

text \<open>Importing a type of entity: the rows that are new are transformed in the order of the archive and appended, in
  whatever batches; every row of the archive is mapped to the row with the same unique field.\<close>

lemma import_entities_exact:
  assumes "constraint (rows_of backend_from)" "constraint (rows_of t)" "inv st (rows_of t)"
  shows "import_entities filter_size field constraint transform backend_from st t =
    bind_res (transform_rows transform st (new_rows field backend_from t)) (\<lambda>(st', rows).
      Inr (st', map (\<lambda>row. (fst row, the (id_of field (append_rows t rows) (field (snd row))))) backend_from, append_rows t rows))"
proof -
  let ?fields = "fields_of field backend_from"
  let ?ids = "map_of (matching field backend_from t)"
  have d: "distinct ?fields" "distinct (fields_of field t)"
    using constraint_distinct [OF assms(1)] constraint_distinct [OF assms(2)] by (simp_all add: comp_def)
  have known: "?ids k = None \<longleftrightarrow> k \<notin> set (fields_of field t)" if "k \<in> set ?fields" for k
    using that matching_id_of [of k field backend_from t] id_of_None_iff [of field t k] by (simp add: image_image)
  have ufields: "filter (\<lambda>u. ?ids u = None) (remdups ?fields) = fields_of field (new_rows field backend_from t)"
  proof -
    have "filter (\<lambda>u. ?ids u = None) (remdups ?fields) = filter (\<lambda>u. u \<notin> set (fields_of field t)) ?fields"
      unfolding distinct_remdups_id [OF d(1)] using known by (rule filter_cong [OF refl])
    also have "\<dots> = fields_of field (new_rows field backend_from t)"
      by (simp add: new_rows_def filter_map comp_def case_prod_beta)
    finally show ?thesis .
  qed
  have len: "length backend_from \<noteq> length (matching field backend_from t) \<longleftrightarrow> new_rows field backend_from t \<noteq> []"
    using length_matching [OF d] by metis
  have new: "new_rows field backend_from t =
      filter (\<lambda>row. field (snd row) \<in> set (fields_of field (new_rows field backend_from t))) backend_from"
    unfolding fields_new_rows by (simp add: new_rows_def cong: filter_cong)
  show ?thesis
  proof (cases "new_rows field backend_from t = []")
    case True
    then have "?ids (field (snd row)) = id_of field t (field (snd row)) \<and> ?ids (field (snd row)) \<noteq> None"
      if "row \<in> set backend_from" for row
      using that known [of "field (snd row)"] matching_id_of [of "field (snd row)" field backend_from t]
      by (auto simp: new_rows_def filter_empty_conv)
    then have "archive_ids field ?ids backend_from = Inr (map (\<lambda>row. (fst row, the (id_of field t (field (snd row))))) backend_from)"
      by (subst archive_ids_exact) auto
    then show ?thesis
      using True len by (simp add: import_entities_def import_with_def)
  next
    case False
    let ?bs = "batch_iter filter_size (fields_of field (new_rows field backend_from t))"
    have "add_new_entities filter_size field constraint transform backend_from st ?ids t =
        add_batches field constraint transform backend_from st ?ids t ?bs"
      unfolding add_new_entities_def Let_def ufields ..
    also have "\<dots> = bind_res (transform_rows transform st (new_rows field backend_from t)) (\<lambda>(st', rows).
        Inr (st', ?ids ++ map_of (zip (map field rows) [next_pk t ..< next_pk t + length rows]), append_rows t rows))"
    proof (rule add_batches_exact [OF d(1)])
      show "new_rows field backend_from t = filter (\<lambda>row. field (snd row) \<in> set (concat ?bs)) backend_from"
        unfolding batch_iter_concat by (rule new)
      show "set (concat ?bs) \<inter> set (fields_of field t) = {}"
        unfolding batch_iter_concat by (auto simp: new_rows_def)
    qed (simp_all add: batch_iter_concat assms)
    finally have add: "add_new_entities filter_size field constraint transform backend_from st ?ids t = \<dots>" .
    show ?thesis
    proof (cases "transform_rows transform st (new_rows field backend_from t)")
      case (Inl e)
      then show ?thesis
        using False len add by (simp add: import_entities_def import_with_def)
    next
      case (Inr r)
      then obtain st' rows where r: "transform_rows transform st (new_rows field backend_from t) = Inr (st', rows)"
        by (cases r) simp
      let ?all = "?ids ++ map_of (zip (map field rows) [next_pk t ..< next_pk t + length rows])"
      have rows: "map field rows = fields_of field (new_rows field backend_from t)"
        using transform_rows_fields [OF r] .
      have "distinct (map field (rows_of t @ rows))"
        unfolding map_append rows distinct_append fields_new_rows
        using d by (simp add: comp_def distinct_map_filter new_rows_def)
      then have ids: "id_of field (append_rows t rows) = id_of field t ++ map_of (zip (map field rows) [next_pk t ..< next_pk t + length rows])"
        by (rule id_of_append_rows)
      have all: "?all u = id_of field (append_rows t rows) u \<and> ?all u \<noteq> None" if u: "u \<in> set ?fields" for u
      proof
        show "?all u = id_of field (append_rows t rows) u"
          using matching_id_of [OF u, of t] by (simp only: ids map_add_def)
        have "u \<in> set (fields_of field (append_rows t rows))"
          unfolding fields_of_append_rows rows set_append fields_new_rows using u by blast
        then show "?all u \<noteq> None"
          using \<open>?all u = _\<close> id_of_None_iff [of field "append_rows t rows" u] by simp
      qed
      have "archive_ids field ?all backend_from = Inr (map (\<lambda>row. (fst row, the (?all (field (snd row))))) backend_from)"
        by (rule archive_ids_exact) (use all in metis)
      moreover have "map (\<lambda>row. (fst row, the (?all (field (snd row))))) backend_from =
          map (\<lambda>row. (fst row, the (id_of field (append_rows t rows) (field (snd row))))) backend_from"
        using all by (intro map_cong refl) (metis image_eqI list.set_map)
      ultimately have "archive_ids field ?all backend_from =
          Inr (map (\<lambda>row. (fst row, the (id_of field (append_rows t rows) (field (snd row))))) backend_from)"
        by (rule trans [OF _ arg_cong])
      then show ?thesis
        using False len add r by (simp add: import_entities_def import_with_def)
    qed
  qed
qed

lemma import_entities_Inr:
  assumes "import_entities filter_size field constraint transform backend_from st t = Inr (st', m, t')"
    and "constraint (rows_of backend_from)" "constraint (rows_of t)" "inv st (rows_of t)"
  obtains rows where "transform_rows transform st (new_rows field backend_from t) = Inr (st', rows)"
    "t' = append_rows t rows" "maps_entities field backend_from t' m" "constraint (rows_of t')" "inv st' (rows_of t')"
    "map field rows = fields_of field (new_rows field backend_from t)"
proof -
  from assms(1) obtain rows where r: "transform_rows transform st (new_rows field backend_from t) = Inr (st', rows)"
      "t' = append_rows t rows" "m = map (\<lambda>row. (fst row, the (id_of field t' (field (snd row))))) backend_from"
    unfolding import_entities_exact [OF assms(2-4)] by (auto simp: bind_res_Inr_iff)
  have fields: "map field rows = fields_of field (new_rows field backend_from t)"
    using transform_rows_fields [OF r(1)] .
  have "distinct (fields_of field backend_from)"
    using constraint_distinct [OF assms(2)] by (simp add: comp_def)
  then have "inv st' (rows_of t @ rows) \<and> constraint (rows_of t @ rows)"
    using fields_new_rows [of field backend_from t]
    by (intro transform_rows_insert [OF r(1) assms(4,3)]) (auto simp: new_rows_def distinct_map_filter image_image)
  moreover have "set (fields_of field backend_from) \<subseteq> set (fields_of field t) \<union> set (fields_of field (new_rows field backend_from t))"
    by (simp only: fields_new_rows) blast
  ultimately show thesis
    using that [OF r(1,2)] r fields by (simp add: maps_entities_def)
qed

text \<open>Nothing is new: nothing changes.\<close>

lemma import_entities_known:
  assumes "constraint (rows_of backend_from)" "constraint (rows_of t)" "inv st (rows_of t)"
    and "set (fields_of field backend_from) \<subseteq> set (fields_of field t)"
  shows "import_entities filter_size field constraint transform backend_from st t =
    Inr (st, map (\<lambda>row. (fst row, the (id_of field t (field (snd row))))) backend_from, t)"
proof -
  have "new_rows field backend_from t = []"
    using assms(4) by (auto simp: new_rows_def filter_empty_conv)
  then show ?thesis
    unfolding import_entities_exact [OF assms(1-3)] by simp
qed

end

end
