(* ===== verification/Aiida_Import.thy ===== *)
theory Aiida_Import
  imports Aiida_Archive Aiida_Links "HOL-Library.Multiset"
begin

text \<open>
  Importing an archive into a profile, \<open>tools/archive/imports.py\<close>.  The archive and the profile are
  databases of the same shape: one table per type of entity, and the objects of the repository by key.
  Columns that the import copies without reading them are one field of the row; \<open>ctime\<close> and the \<open>mtime\<close>
  of nodes are left out, since the database sets them.  A node has the keys of its files, the values
  of the flattened repository metadata.

  The steps of the import are run in the order of the code, each on the profile as the steps before left it,
  inside one transaction: when a step raises, the database is as before.  Reports, progress bars and the
  type checks of arguments are left out.
\<close>

section \<open>Rows\<close>

record user_row =
  u_email :: string
  u_columns :: "string list"

record computer_row =
  c_uuid :: string
  c_label :: string
  c_columns :: "string list"

record authinfo_row =
  ai_user_id :: pk
  ai_computer_id :: pk
  ai_columns :: "string list"

record 'v node_row =
  n_uuid :: string
  n_node_type :: string
  n_user_id :: pk
  n_computer_id :: "pk option"
  n_attributes :: "'v dict"
  n_extras :: "'v dict"
  n_keys :: "string list"
  n_columns :: "string list"

record log_row =
  l_uuid :: string
  l_node_id :: pk
  l_columns :: "string list"

record comment_row =
  cm_uuid :: string
  cm_user_id :: pk
  cm_node_id :: pk
  cm_mtime :: int
  cm_content :: string

record link_row =
  li_input_id :: pk
  li_output_id :: pk
  li_type :: link_type
  li_label :: string

record group_row =
  g_uuid :: string
  g_label :: string
  g_type_string :: string
  g_user_id :: pk
  g_columns :: "string list"

record group_node_row =
  gn_group_id :: pk
  gn_node_id :: pk

record 'v database =
  db_users :: "user_row table"
  db_computers :: "computer_row table"
  db_authinfos :: "authinfo_row table"
  db_nodes :: "'v node_row table"
  db_logs :: "log_row table"
  db_comments :: "comment_row table"
  db_links :: "link_row table"
  db_groups :: "group_row table"
  db_group_nodes :: "group_node_row table"

text \<open>The uniqueness constraints of the tables, \<open>storage/psql_dos/models\<close>.\<close>

definition user_constraint :: "user_row list \<Rightarrow> bool" where
  "user_constraint rs \<longleftrightarrow> distinct (map u_email rs)"

definition computer_constraint :: "computer_row list \<Rightarrow> bool" where
  "computer_constraint rs \<longleftrightarrow> distinct (map c_uuid rs) \<and> distinct (map c_label rs)"

definition authinfo_constraint :: "authinfo_row list \<Rightarrow> bool" where
  "authinfo_constraint rs \<longleftrightarrow> distinct (map (\<lambda>r. (ai_user_id r, ai_computer_id r)) rs)"

definition node_constraint :: "'v node_row list \<Rightarrow> bool" where
  "node_constraint rs \<longleftrightarrow> distinct (map n_uuid rs)"

definition log_constraint :: "log_row list \<Rightarrow> bool" where
  "log_constraint rs \<longleftrightarrow> distinct (map l_uuid rs)"

definition comment_constraint :: "comment_row list \<Rightarrow> bool" where
  "comment_constraint rs \<longleftrightarrow> distinct (map cm_uuid rs)"

definition group_constraint :: "group_row list \<Rightarrow> bool" where
  "group_constraint rs \<longleftrightarrow> distinct (map g_uuid rs) \<and> distinct (map (\<lambda>r. (g_label r, g_type_string r)) rs)"

definition group_node_constraint :: "group_node_row list \<Rightarrow> bool" where
  "group_node_constraint rs \<longleftrightarrow> distinct rs"

section \<open>New labels\<close>

definition DUPLICATE_LABEL_MAX :: nat where "DUPLICATE_LABEL_MAX = 100"

definition duplicate_label :: "string \<Rightarrow> nat \<Rightarrow> string" where
  "duplicate_label label i = label @ '' (Imported #'' @ str_of_nat i @ '')''"

definition unique_label :: "string list \<Rightarrow> string \<Rightarrow> string res" where
  "unique_label labels label =
     (if label \<in> set labels then
        (case find (\<lambda>new_label. new_label \<notin> set labels) (map (duplicate_label label) [0 ..< DUPLICATE_LABEL_MAX]) of
           Some new_label \<Rightarrow> Inr new_label
         | None \<Rightarrow> Inl ImportUniquenessError)
      else Inr label)"

section \<open>Users, computers and authinfos\<close>

definition translate :: "(pk \<times> pk) list \<Rightarrow> pk \<Rightarrow> pk res" where
  "translate ids i = (case map_of ids i of None \<Rightarrow> Inl ImportValidationError | Some j \<Rightarrow> Inr j)"

definition user_transform :: "unit \<Rightarrow> pk \<times> user_row \<Rightarrow> (unit \<times> user_row) res" where
  "user_transform st row = Inr (st, snd row)"

definition import_users :: "nat \<Rightarrow> user_row table \<Rightarrow> user_row table \<Rightarrow> ((pk \<times> pk) list \<times> user_row table) res" where
  "import_users filter_size backend_from t =
     bind_res (import_entities filter_size u_email user_constraint user_transform backend_from () t) (\<lambda>(st, m, t). Inr (m, t))"

definition computer_transform :: "string list \<Rightarrow> pk \<times> computer_row \<Rightarrow> (string list \<times> computer_row) res" where
  "computer_transform labels row =
     bind_res (unique_label labels (c_label (snd row))) (\<lambda>label.
       Inr (label # labels, (snd row)\<lparr>c_label := label\<rparr>))"

definition import_computers :: "nat \<Rightarrow> computer_row table \<Rightarrow> computer_row table \<Rightarrow> ((pk \<times> pk) list \<times> computer_row table) res" where
  "import_computers filter_size backend_from t =
     bind_res
       (import_entities filter_size c_uuid computer_constraint computer_transform backend_from (map c_label (rows_of t)) t)
       (\<lambda>(labels, m, t). Inr (m, t))"

fun translate_authinfos :: "(pk \<times> pk) list \<Rightarrow> (pk \<times> pk) list \<Rightarrow> authinfo_row list \<Rightarrow> authinfo_row list res" where
  "translate_authinfos users computers [] = Inr []"
| "translate_authinfos users computers (r # rs) =
     bind_res (translate users (ai_user_id r)) (\<lambda>u.
     bind_res (translate computers (ai_computer_id r)) (\<lambda>c.
     bind_res (translate_authinfos users computers rs) (\<lambda>rs'.
       Inr (r\<lparr>ai_user_id := u, ai_computer_id := c\<rparr> # rs'))))"

abbreviation ai_pair :: "authinfo_row \<Rightarrow> pk \<times> pk" where "ai_pair r \<equiv> (ai_user_id r, ai_computer_id r)"

definition import_authinfos ::
  "nat \<Rightarrow> (pk \<times> pk) list \<Rightarrow> (pk \<times> pk) list \<Rightarrow> authinfo_row table \<Rightarrow> authinfo_row table \<Rightarrow> authinfo_row table res" where
  "import_authinfos batch_size users computers backend_from t =
     bind_res (translate_authinfos users computers (rows_of backend_from)) (\<lambda>rows.
       let existing = filter (\<lambda>p. p \<in> ai_pair ` set rows) (map ai_pair (rows_of t))
       in if length backend_from = length existing then Inr t
          else insert_batches authinfo_constraint
                 (batch_iter batch_size (filter (\<lambda>r. ai_pair r \<notin> set existing) rows)) t)"

section \<open>Nodes\<close>

definition CHECKPOINT_KEY :: string where "CHECKPOINT_KEY = ''checkpoints''"

definition kept_extras :: "bool \<Rightarrow> string \<Rightarrow> 'v dict \<Rightarrow> 'v dict" where
  "kept_extras import_new_extras node_type extras =
     (if import_new_extras
      then (let extras = filter (\<lambda>(k, v). \<not> str_startswith k ''_aiida_'') extras
            in if str_endswith node_type ''code.Code.'' then AList.delete ''hidden'' extras else extras)
      else [])"

definition NodeTransform ::
  "(pk \<times> pk) list \<Rightarrow> (pk \<times> pk) list \<Rightarrow> bool \<Rightarrow> unit \<Rightarrow> pk \<times> 'v node_row \<Rightarrow> (unit \<times> 'v node_row) res" where
  "NodeTransform users computers import_new_extras st row =
     (let data = snd row
      in bind_res (translate users (n_user_id data)) (\<lambda>u.
         bind_res
           (case n_computer_id data of None \<Rightarrow> Inr None
            | Some c \<Rightarrow> bind_res (translate computers c) (\<lambda>c. Inr (Some c))) (\<lambda>c.
         Inr (st, data\<lparr>n_user_id := u, n_computer_id := c,
           n_extras := kept_extras import_new_extras (n_node_type data) (n_extras data),
           n_attributes :=
             (if str_startswith (n_node_type data) ''process.'' then AList.delete CHECKPOINT_KEY (n_attributes data)
              else n_attributes data)\<rparr>))))"

text \<open>The extras of a node that is in both, by the three letters of the mode.\<close>

definition merged_extras :: "string \<Rightarrow> 'v dict \<Rightarrow> 'v dict \<Rightarrow> 'v dict res" where
  "merged_extras mode old_extras new_extras =
     (let old_only = filter (\<lambda>(k, v). k \<notin> fst ` set new_extras) old_extras;
          new_only = filter (\<lambda>(k, v). k \<notin> fst ` set old_extras) new_extras
      in if mode = ''kcu'' then Inr (new_extras @ old_only)
         else if mode = ''kcl'' then Inr (old_extras @ new_only)
         else
           bind_res
             (if mode ! 0 = CHR ''k'' then Inr old_only
              else if mode ! 0 = CHR ''n'' then Inr [] else Inl ImportValidationError) (\<lambda>kept.
           bind_res
             (if mode ! 1 = CHR ''c'' then Inr new_only
              else if mode ! 1 = CHR ''n'' then Inr [] else Inl ImportValidationError) (\<lambda>created.
           bind_res
             (if mode ! 2 = CHR ''u'' then Inr (filter (\<lambda>(k, v). k \<in> fst ` set old_extras) new_extras)
              else if mode ! 2 = CHR ''l'' then Inr (filter (\<lambda>(k, v). k \<in> fst ` set new_extras) old_extras)
              else if mode ! 2 = CHR ''d'' then Inr [] else Inl ImportValidationError) (\<lambda>collided.
           Inr (kept @ created @ collided)))))"

fun merge_rows :: "string \<Rightarrow> ('v node_row \<times> pk \<times> 'v node_row) list \<Rightarrow> (pk \<times> 'v dict) list res" where
  "merge_rows mode [] = Inr []"
| "merge_rows mode ((new, backend_id, old) # rows) =
     bind_res (guard (n_uuid new = n_uuid old) ImportValidationError) (\<lambda>_.
     bind_res (merged_extras mode (n_extras old) (n_extras new)) (\<lambda>extras.
     bind_res (merge_rows mode rows) (\<lambda>changes. Inr ((backend_id, extras) # changes))))"

definition set_extras :: "(pk \<times> 'v dict) list \<Rightarrow> 'v node_row table \<Rightarrow> 'v node_row table" where
  "set_extras changes t = bulk_update (map (\<lambda>(i, extras). (i, \<lambda>r. r\<lparr>n_extras := extras\<rparr>)) changes) t"

definition merge_node_extras ::
  "string \<Rightarrow> (string \<times> pk) list \<Rightarrow> 'v node_row table \<Rightarrow> 'v node_row table \<Rightarrow> 'v node_row table res" where
  "merge_node_extras mode ids backend_from t =
     (let selected = (\<lambda>row. n_uuid (snd row) \<in> set (map fst ids));
          input_extras = sort_key (\<lambda>row. n_uuid (snd row)) (filter selected backend_from);
          backend_extras = sort_key (\<lambda>row. n_uuid (snd row)) (filter selected t)
      in if mode = ''knl'' then Inr t
         else if mode = ''ncu'' then
           Inr (set_extras (map (\<lambda>row. (the (map_of ids (n_uuid (snd row))), n_extras (snd row))) input_extras) t)
         else
           bind_res (guard (length input_extras = length backend_extras) ImportValidationError) (\<lambda>_.
           bind_res
             (merge_rows mode
               (map (\<lambda>(new, old). (snd new, the (map_of ids (n_uuid (snd new))), snd old)) (zip input_extras backend_extras)))
             (\<lambda>changes. Inr (set_extras changes t))))"

text \<open>The existing nodes are queried in batches.\<close>

definition matching_batches :: "nat \<Rightarrow> ('r \<Rightarrow> 'k) \<Rightarrow> 'r table \<Rightarrow> 'r table \<Rightarrow> ('k \<times> pk) list" where
  "matching_batches filter_size field backend_from t =
     concat (map (\<lambda>batch. map (\<lambda>row. (field (snd row), fst row)) (filter (\<lambda>row. field (snd row) \<in> set batch) t))
       (batch_iter filter_size (fields_of field backend_from)))"

definition import_nodes ::
  "nat \<Rightarrow> (pk \<times> pk) list \<Rightarrow> (pk \<times> pk) list \<Rightarrow> bool \<Rightarrow> string \<Rightarrow> 'v node_row table \<Rightarrow> 'v node_row table
   \<Rightarrow> ((pk \<times> pk) list \<times> 'v node_row table) res" where
  "import_nodes filter_size users computers import_new_extras merge_extras backend_from t =
     (let existing = matching_batches filter_size n_uuid backend_from t
      in bind_res (if existing \<noteq> [] then merge_node_extras merge_extras existing backend_from t else Inr t) (\<lambda>t.
         bind_res
           (import_with existing filter_size n_uuid node_constraint (NodeTransform users computers import_new_extras)
              backend_from () t) (\<lambda>(st, m, t). Inr (m, t))))"

section \<open>Logs and comments\<close>

definition log_transform :: "(pk \<times> pk) list \<Rightarrow> unit \<Rightarrow> pk \<times> log_row \<Rightarrow> (unit \<times> log_row) res" where
  "log_transform nodes st row =
     bind_res (translate nodes (l_node_id (snd row))) (\<lambda>n. Inr (st, (snd row)\<lparr>l_node_id := n\<rparr>))"

definition import_logs :: "nat \<Rightarrow> (pk \<times> pk) list \<Rightarrow> log_row table \<Rightarrow> log_row table \<Rightarrow> ((pk \<times> pk) list \<times> log_row table) res" where
  "import_logs filter_size nodes backend_from t =
     bind_res (import_entities filter_size l_uuid log_constraint (log_transform nodes) backend_from () t)
       (\<lambda>(st, m, t). Inr (m, t))"

definition CommentTransform :: "(pk \<times> pk) list \<Rightarrow> (pk \<times> pk) list \<Rightarrow> unit \<Rightarrow> pk \<times> comment_row \<Rightarrow> (unit \<times> comment_row) res" where
  "CommentTransform users nodes st row =
     bind_res (translate users (cm_user_id (snd row))) (\<lambda>u.
     bind_res (translate nodes (cm_node_id (snd row))) (\<lambda>n.
     Inr (st, (snd row)\<lparr>cm_user_id := u, cm_node_id := n\<rparr>)))"

definition overwrite_comment :: "comment_row \<Rightarrow> comment_row \<Rightarrow> comment_row" where
  "overwrite_comment new old = old\<lparr>cm_mtime := cm_mtime new, cm_content := cm_content new\<rparr>"

definition newest_comment :: "comment_row \<Rightarrow> comment_row \<Rightarrow> comment_row" where
  "newest_comment new old = (if cm_mtime old < cm_mtime new then overwrite_comment new old else old)"

definition update_comments ::
  "(comment_row \<Rightarrow> comment_row \<Rightarrow> comment_row) \<Rightarrow> (string \<times> pk) list \<Rightarrow> comment_row table \<Rightarrow> comment_row table \<Rightarrow> comment_row table" where
  "update_comments change ids backend_from t =
     bulk_update
       (map (\<lambda>row. (the (map_of ids (cm_uuid (snd row))), change (snd row)))
         (filter (\<lambda>row. cm_uuid (snd row) \<in> set (map fst ids)) backend_from)) t"

definition merge_comments_of ::
  "string \<Rightarrow> (string \<times> pk) list \<Rightarrow> comment_row table \<Rightarrow> comment_row table \<Rightarrow> comment_row table res" where
  "merge_comments_of merge_comments existing backend_from t =
     (if existing = [] then Inr t
      else if merge_comments = ''leave'' then Inr t
      else if merge_comments = ''overwrite'' then Inr (update_comments overwrite_comment existing backend_from t)
      else if merge_comments = ''newest'' then Inr (update_comments newest_comment existing backend_from t)
      else Inl ImportValidationError)"

definition import_comments ::
  "nat \<Rightarrow> (pk \<times> pk) list \<Rightarrow> (pk \<times> pk) list \<Rightarrow> string \<Rightarrow> comment_row table \<Rightarrow> comment_row table
   \<Rightarrow> ((pk \<times> pk) list \<times> comment_row table) res" where
  "import_comments filter_size users nodes merge_comments backend_from t =
     (let existing = matching cm_uuid backend_from t
      in bind_res (merge_comments_of merge_comments existing backend_from t) (\<lambda>t.
         bind_res
           (import_with existing filter_size cm_uuid comment_constraint (CommentTransform users nodes) backend_from () t)
           (\<lambda>(st, m, t). Inr (m, t))))"

section \<open>Links\<close>

definition allowed_link_nodes :: "link_type \<Rightarrow> string \<times> string" where
  "allowed_link_nodes t =
     (let calculation_node_types = ''process.calculation.'';
          workflow_node_types = ''process.workflow.'';
          data_node_types = ''data.''
      in case t of
           CALL_CALC \<Rightarrow> (workflow_node_types, calculation_node_types)
         | CALL_WORK \<Rightarrow> (workflow_node_types, workflow_node_types)
         | CREATE \<Rightarrow> (calculation_node_types, data_node_types)
         | INPUT_CALC \<Rightarrow> (data_node_types, calculation_node_types)
         | INPUT_WORK \<Rightarrow> (data_node_types, workflow_node_types)
         | RETURN \<Rightarrow> (workflow_node_types, data_node_types))"

definition link_type_uniqueness :: "link_type \<Rightarrow> string list" where
  "link_type_uniqueness t =
     (case t of
        CALL_CALC \<Rightarrow> [''out_id'']
      | CALL_WORK \<Rightarrow> [''out_id'']
      | CREATE \<Rightarrow> [''in_id_label'', ''out_id'']
      | INPUT_CALC \<Rightarrow> [''out_id_label'']
      | INPUT_WORK \<Rightarrow> [''out_id_label'']
      | RETURN \<Rightarrow> [''in_id_label''])"

text \<open>The sets of the loop.  The code looks up a number in \<open>existing_out_id_label\<close>, which holds pairs: the two
  kinds of element are told apart here.\<close>

datatype out_key = OutId pk | OutIdLabel pk string

record link_state =
  existing_links :: "(pk \<times> pk \<times> string) list"
  existing_in_id_label :: "(pk \<times> string) list"
  existing_out_id :: "pk list"
  existing_out_id_label :: "out_key list"
  insert_rows :: "link_row list"
  new_count :: nat
  link_table :: "link_row table"

definition initial_link_state :: "link_type \<Rightarrow> link_row table \<Rightarrow> link_state" where
  "initial_link_state t links =
     (let existing = map (\<lambda>l. (li_input_id l, li_output_id l, li_label l)) (filter (\<lambda>l. li_type l = t) (rows_of links));
          uniqueness = set (link_type_uniqueness t)
      in \<lparr>existing_links = existing,
          existing_in_id_label = (if ''in_id_label'' \<in> uniqueness then map (\<lambda>(i, out, l). (i, l)) existing else []),
          existing_out_id = (if ''out_id'' \<in> uniqueness then map (\<lambda>(i, out, l). out) existing else []),
          existing_out_id_label = (if ''out_id_label'' \<in> uniqueness then map (\<lambda>(i, out, l). OutIdLabel out l) existing else []),
          insert_rows = [], new_count = 0, link_table = links\<rparr>)"

text \<open>One row of the query: the link with the types of the nodes it joins.\<close>

record archive_link =
  al_in_id :: pk
  al_in_type :: string
  al_out_id :: pk
  al_out_type :: string
  al_label :: string

definition flush_links :: "link_state \<Rightarrow> link_state" where
  "flush_links st = st\<lparr>link_table := append_rows (link_table st) (insert_rows st), insert_rows := []\<rparr>"

definition import_link :: "nat \<Rightarrow> (pk \<times> pk) list \<Rightarrow> link_type \<Rightarrow> archive_link \<Rightarrow> link_state \<Rightarrow> link_state res" where
  "import_link batch_size nodes t al st =
     (let (allowed_in_type, allowed_out_type) = allowed_link_nodes t;
          uniqueness = set (link_type_uniqueness t);
          label = al_label al
      in bind_res (translate nodes (al_in_id al)) (\<lambda>in_id.
         bind_res (translate nodes (al_out_id al)) (\<lambda>out_id.
         if (in_id, out_id, label) \<in> set (existing_links st) then Inr st
         else
           bind_res (guard (in_id \<noteq> out_id) ImportValidationError) (\<lambda>_.
           bind_res (guard (str_startswith (al_in_type al) allowed_in_type) ImportValidationError) (\<lambda>_.
           bind_res (guard (str_startswith (al_out_type al) allowed_out_type) ImportValidationError) (\<lambda>_.
           bind_res (guard (\<not> (''in_id_label'' \<in> uniqueness \<and> (in_id, label) \<in> set (existing_in_id_label st)))
             ImportUniquenessError) (\<lambda>_.
           bind_res (guard (\<not> (''out_id'' \<in> uniqueness \<and> OutId out_id \<in> set (existing_out_id_label st)))
             ImportUniquenessError) (\<lambda>_.
           bind_res (guard (\<not> (''out_id_label'' \<in> uniqueness \<and> OutIdLabel out_id label \<in> set (existing_out_id_label st)))
             ImportUniquenessError) (\<lambda>_.
           let st = st\<lparr>new_count := new_count st + 1,
                 insert_rows := insert_rows st @ [\<lparr>li_input_id = in_id, li_output_id = out_id, li_type = t, li_label = label\<rparr>],
                 existing_links := (in_id, out_id, label) # existing_links st,
                 existing_in_id_label := (in_id, label) # existing_in_id_label st,
                 existing_out_id := out_id # existing_out_id st,
                 existing_out_id_label := OutIdLabel out_id label # existing_out_id_label st\<rparr>
           in Inr (if new_count st mod batch_size = 0 then flush_links st else st))))))))))"

fun import_links_loop :: "nat \<Rightarrow> (pk \<times> pk) list \<Rightarrow> link_type \<Rightarrow> archive_link list \<Rightarrow> link_state \<Rightarrow> link_state res" where
  "import_links_loop batch_size nodes t [] st = Inr st"
| "import_links_loop batch_size nodes t (al # als) st =
     bind_res (import_link batch_size nodes t al st) (import_links_loop batch_size nodes t als)"

text \<open>The query joins the links of one type with their nodes.\<close>

definition archive_links :: "'v node_row table \<Rightarrow> link_row table \<Rightarrow> link_type \<Rightarrow> archive_link list" where
  "archive_links nodes links t =
     concat (map (\<lambda>l.
       case (map_of nodes (li_input_id l), map_of nodes (li_output_id l)) of
         (Some i, Some out) \<Rightarrow>
           [\<lparr>al_in_id = li_input_id l, al_in_type = n_node_type i, al_out_id = li_output_id l,
             al_out_type = n_node_type out, al_label = li_label l\<rparr>]
       | _ \<Rightarrow> []) (filter (\<lambda>l. li_type l = t) (rows_of links)))"

definition link_types :: "link_type list" where
  "link_types = [CREATE, RETURN, INPUT_CALC, INPUT_WORK, CALL_CALC, CALL_WORK]"

definition import_links_of_type ::
  "nat \<Rightarrow> (pk \<times> pk) list \<Rightarrow> 'v node_row table \<Rightarrow> link_row table \<Rightarrow> link_type \<Rightarrow> link_row table \<Rightarrow> link_row table res" where
  "import_links_of_type batch_size nodes nodes_from links_from t links =
     bind_res (import_links_loop batch_size nodes t (archive_links nodes_from links_from t) (initial_link_state t links)) (\<lambda>st.
       Inr (link_table (flush_links st)))"

fun import_link_types ::
  "nat \<Rightarrow> (pk \<times> pk) list \<Rightarrow> 'v node_row table \<Rightarrow> link_row table \<Rightarrow> link_type list \<Rightarrow> link_row table \<Rightarrow> link_row table res" where
  "import_link_types batch_size nodes nodes_from links_from [] links = Inr links"
| "import_link_types batch_size nodes nodes_from links_from (t # ts) links =
     bind_res (import_links_of_type batch_size nodes nodes_from links_from t links)
       (import_link_types batch_size nodes nodes_from links_from ts)"

definition import_links ::
  "nat \<Rightarrow> (pk \<times> pk) list \<Rightarrow> 'v node_row table \<Rightarrow> link_row table \<Rightarrow> link_row table \<Rightarrow> link_row table res" where
  "import_links batch_size nodes nodes_from links_from links =
     import_link_types batch_size nodes nodes_from links_from link_types links"

section \<open>Groups\<close>

definition GroupTransform :: "(pk \<times> pk) list \<Rightarrow> string list \<Rightarrow> pk \<times> group_row \<Rightarrow> (string list \<times> group_row) res" where
  "GroupTransform users labels row =
     bind_res (translate users (g_user_id (snd row))) (\<lambda>u.
     bind_res (unique_label labels (g_label (snd row))) (\<lambda>label.
     Inr (label # labels, (snd row)\<lparr>g_user_id := u, g_label := label\<rparr>)))"

fun translate_group_nodes :: "(pk \<times> pk) list \<Rightarrow> (pk \<times> pk) list \<Rightarrow> group_node_row list \<Rightarrow> group_node_row list res" where
  "translate_group_nodes groups nodes [] = Inr []"
| "translate_group_nodes groups nodes (r # rs) =
     (case map_of groups (gn_group_id r) of
        None \<Rightarrow> Inl KeyError
      | Some g \<Rightarrow>
          bind_res (translate nodes (gn_node_id r)) (\<lambda>n.
          bind_res (translate_group_nodes groups nodes rs) (\<lambda>rs'.
            Inr (\<lparr>gn_group_id = g, gn_node_id = n\<rparr> # rs'))))"

definition import_groups ::
  "nat \<Rightarrow> nat \<Rightarrow> (pk \<times> pk) list \<Rightarrow> (pk \<times> pk) list \<Rightarrow> group_row table \<Rightarrow> group_node_row table
   \<Rightarrow> group_row table \<Rightarrow> group_node_row table \<Rightarrow> (string list \<times> group_row table \<times> group_node_row table) res" where
  "import_groups filter_size batch_size users nodes groups_from group_nodes_from t group_nodes =
     (let existing = matching g_uuid groups_from t;
          labels = map g_label (rows_of t);
          new_uuids = filter (\<lambda>u. u \<notin> set (map fst existing)) (fields_of g_uuid groups_from);
          new_members = filter (\<lambda>r. case map_of groups_from (gn_group_id r) of
              None \<Rightarrow> False | Some g \<Rightarrow> g_uuid g \<in> set new_uuids) (rows_of group_nodes_from)
      in if length groups_from = length existing then Inr (labels, t, group_nodes)
         else
           bind_res (import_with existing filter_size g_uuid group_constraint (GroupTransform users) groups_from labels t)
             (\<lambda>(labels, groups, t).
           bind_res (translate_group_nodes groups nodes new_members) (\<lambda>rows.
           bind_res (insert_batches group_node_constraint (batch_iter batch_size rows) group_nodes) (\<lambda>group_nodes.
           Inr (labels, t, group_nodes)))))"

text \<open>The group of all imported nodes: \<open>grp\<close> is that of the caller, \<open>now\<close> the time as a label and \<open>row\<close> the new
  row without its label.\<close>

definition make_import_group ::
  "nat \<Rightarrow> pk option \<Rightarrow> string \<Rightarrow> group_row \<Rightarrow> string list \<Rightarrow> (pk \<times> pk) list \<Rightarrow> group_row table \<Rightarrow> group_node_row table
   \<Rightarrow> (pk option \<times> group_row table \<times> group_node_row table) res" where
  "make_import_group batch_size grp now row labels nodes t group_nodes =
     (if nodes = [] then Inr (None, t, group_nodes)
      else
        bind_res
          (case grp of
             Some g \<Rightarrow> Inr (g, t, map gn_node_id (filter (\<lambda>r. gn_group_id r = g) (rows_of group_nodes)))
           | None \<Rightarrow>
               bind_res (unique_label labels now) (\<lambda>label.
               bind_res (bulk_insert group_constraint [row\<lparr>g_label := label\<rparr>] t) (\<lambda>(new_ids, t).
               Inr (hd new_ids, t, [])))) (\<lambda>(group_id, t, group_node_ids).
        bind_res
          (insert_batches group_node_constraint
            (batch_iter batch_size
              (map (\<lambda>n. \<lparr>gn_group_id = group_id, gn_node_id = n\<rparr>)
                (filter (\<lambda>n. n \<notin> set group_node_ids) (map snd nodes)))) group_nodes) (\<lambda>group_nodes.
        Inr (Some group_id, t, group_nodes))))"

section \<open>Files\<close>

type_synonym objects = "(string \<times> string) list"

definition new_object_keys :: "'v node_row table \<Rightarrow> objects \<Rightarrow> string list" where
  "new_object_keys nodes objects =
     filter (\<lambda>key. key \<notin> fst ` set objects) (remdups (concat (map n_keys (rows_of nodes))))"

text \<open>\<open>hash\<close> is the key that the repository gives to a content.  Objects that were added stay when the loop raises.\<close>

fun add_files_to_repo :: "(string \<Rightarrow> string) \<Rightarrow> objects \<Rightarrow> string list \<Rightarrow> objects \<Rightarrow> objects \<times> unit res" where
  "add_files_to_repo hash repository_from [] objects = (objects, Inr ())"
| "add_files_to_repo hash repository_from (key # keys) objects =
     (case map_of repository_from key of
        None \<Rightarrow> (objects, Inl FileNotFoundError)
      | Some content \<Rightarrow>
          (let objects = AList.update (hash content) content objects
           in if hash content \<noteq> key then (objects, Inl ImportValidationError)
              else add_files_to_repo hash repository_from keys objects))"

section \<open>The import\<close>

record import_options =
  io_filter_size :: nat
  io_batch_size :: nat
  io_import_new_extras :: bool
  io_merge_extras :: string
  io_merge_comments :: string
  io_include_authinfos :: bool
  io_create_group :: bool
  io_group :: "pk option"
  io_test_run :: bool
  io_now :: string
  io_group_row :: group_row

definition check_options :: "import_options \<Rightarrow> unit res" where
  "check_options opts =
     (let mode = io_merge_extras opts
      in bind_res (guard (length mode = 3) ValueError) (\<lambda>_.
         bind_res
           (guard (mode ! 0 \<in> set ''kn'' \<and> mode ! 1 \<in> set ''cn'' \<and> mode ! 2 \<in> set ''lud'') ValueError) (\<lambda>_.
         guard (io_merge_comments opts \<in> {''leave'', ''newest'', ''overwrite''}) ValueError)))"

text \<open>What happens inside the transaction before files are added, each step on the profile as it is by then: first
  the entities that others refer to, then the rest and the group of the imported nodes.\<close>

definition import_bases ::
  "import_options \<Rightarrow> 'v database \<Rightarrow> 'v database \<Rightarrow> ((pk \<times> pk) list \<times> (pk \<times> pk) list \<times> 'v database) res" where
  "import_bases opts a db =
     (let fs = io_filter_size opts
      in bind_res (import_users fs (db_users a) (db_users db)) (\<lambda>(users, t_users).
         bind_res (import_computers fs (db_computers a) (db_computers db)) (\<lambda>(computers, t_computers).
         bind_res
           (if io_include_authinfos opts
            then import_authinfos (io_batch_size opts) users computers (db_authinfos a) (db_authinfos db)
            else Inr (db_authinfos db)) (\<lambda>t_authinfos.
         bind_res (import_nodes fs users computers (io_import_new_extras opts) (io_merge_extras opts) (db_nodes a) (db_nodes db))
           (\<lambda>(nodes, t_nodes).
         Inr (users, nodes,
           db\<lparr>db_users := t_users, db_computers := t_computers, db_authinfos := t_authinfos, db_nodes := t_nodes\<rparr>))))))"

definition import_dependents ::
  "import_options \<Rightarrow> 'v database \<Rightarrow> (pk \<times> pk) list \<Rightarrow> (pk \<times> pk) list \<Rightarrow> 'v database \<Rightarrow> ('v database \<times> pk option) res" where
  "import_dependents opts a users nodes db =
     (let fs = io_filter_size opts; bs = io_batch_size opts
      in bind_res (import_logs fs nodes (db_logs a) (db_logs db)) (\<lambda>(logs, t_logs).
         bind_res (import_comments fs users nodes (io_merge_comments opts) (db_comments a) (db_comments db)) (\<lambda>(comments, t_comments).
         bind_res (import_links bs nodes (db_nodes a) (db_links a) (db_links db)) (\<lambda>t_links.
         bind_res (import_groups fs bs users nodes (db_groups a) (db_group_nodes a) (db_groups db) (db_group_nodes db))
           (\<lambda>(labels, t_groups, t_group_nodes).
         bind_res
           (if io_create_group opts
            then make_import_group bs (io_group opts) (io_now opts) (io_group_row opts) labels nodes t_groups t_group_nodes
            else Inr (None, t_groups, t_group_nodes)) (\<lambda>(import_group_id, t_groups, t_group_nodes).
         Inr (db\<lparr>db_logs := t_logs, db_comments := t_comments, db_links := t_links, db_groups := t_groups,
               db_group_nodes := t_group_nodes\<rparr>, import_group_id)))))))"

definition import_entities_of ::
  "import_options \<Rightarrow> 'v database \<Rightarrow> 'v database \<Rightarrow> ('v database \<times> pk option) res" where
  "import_entities_of opts a db =
     bind_res (import_bases opts a db) (\<lambda>(users, nodes, db). import_dependents opts a users nodes db)"

text \<open>The import until files are added, of an archive \<open>a\<close>.  \<open>latest\<close> says that the archive has the latest version and
  \<open>same_format\<close> that both repositories have the same format of keys.\<close>

definition checked_import :: "import_options \<Rightarrow> bool \<Rightarrow> bool \<Rightarrow> 'v database \<Rightarrow> 'v database \<Rightarrow> ('v database \<times> pk option) res" where
  "checked_import opts latest same_format a db =
     bind_res (check_options opts) (\<lambda>_.
     bind_res (guard latest IncompatibleStorageSchema) (\<lambda>_.
     bind_res (import_entities_of opts a db) (\<lambda>r.
     bind_res (guard same_format NotImplementedError) (\<lambda>_.
     bind_res (guard (\<not> io_test_run opts) ImportTestRun) (\<lambda>_. Inr r)))))"

text \<open>The whole import, with the objects \<open>repository_from\<close> of the archive.\<close>

definition import_archive ::
  "import_options \<Rightarrow> bool \<Rightarrow> bool \<Rightarrow> (string \<Rightarrow> string) \<Rightarrow> 'v database \<Rightarrow> objects \<Rightarrow> 'v database \<Rightarrow> objects
   \<Rightarrow> 'v database \<times> objects \<times> pk option res" where
  "import_archive opts latest same_format hash a repository_from db objects =
     (case checked_import opts latest same_format a db of
        Inl e \<Rightarrow> (db, objects, Inl e)
      | Inr (db', import_group_id) \<Rightarrow>
          (case add_files_to_repo hash repository_from (new_object_keys (db_nodes a) objects) objects of
             (objects', Inl e) \<Rightarrow> (db, objects', Inl e)
           | (objects', Inr _) \<Rightarrow> (db', objects', Inr import_group_id)))"

end
