(* ===== verification/Aiida_Import_Rules.thy ===== *)
theory Aiida_Import_Rules
  imports Aiida_Import
begin

text \<open>
  The types of entities as interpretations of \<open>entity_import\<close>, the choice of new labels, and the merging of extras.
\<close>

section \<open>New labels\<close>

lemma duplicate_label_inj: "duplicate_label l i = duplicate_label l j \<Longrightarrow> i = j"
  by (auto simp: duplicate_label_def dest: str_of_nat_inj)

lemma unique_label_fresh:
  assumes "unique_label labels label = Inr l"
  shows "l \<notin> set labels"
    and "l = label \<or> (\<exists>i < DUPLICATE_LABEL_MAX. l = duplicate_label label i \<and> label \<in> set labels
      \<and> (\<forall>j < i. duplicate_label label j \<in> set labels))"
  using assms by (auto simp: unique_label_def find_Some_iff split: if_splits option.splits)

lemma unique_label_error:
  "unique_label labels label = Inl e \<longleftrightarrow>
     e = ImportUniquenessError \<and> label \<in> set labels \<and> (\<forall>i < DUPLICATE_LABEL_MAX. duplicate_label label i \<in> set labels)"
  by (auto simp: unique_label_def find_None_iff split: option.splits dest!: find_SomeD) blast

section \<open>The types of entities\<close>

interpretation users: entity_import u_email user_constraint user_transform "\<lambda>_ _. True"
  by unfold_locales (auto simp: user_constraint_def user_transform_def)

interpretation computers: entity_import c_uuid computer_constraint computer_transform "\<lambda>labels rs. set labels = c_label ` set rs"
  by unfold_locales
     (auto simp: computer_constraint_def computer_transform_def bind_res_Inr_iff dest: unique_label_fresh(1))

interpretation nodes: entity_import n_uuid node_constraint "NodeTransform users computers import_new_extras" "\<lambda>_ _. True"
  for users computers import_new_extras
  by unfold_locales (auto simp: node_constraint_def NodeTransform_def Let_def bind_res_Inr_iff)

interpretation logs: entity_import l_uuid log_constraint "log_transform nodes" "\<lambda>_ _. True" for nodes
  by unfold_locales (auto simp: log_constraint_def log_transform_def bind_res_Inr_iff)

interpretation comments: entity_import cm_uuid comment_constraint "CommentTransform users nodes" "\<lambda>_ _. True" for users nodes
  by unfold_locales (auto simp: comment_constraint_def CommentTransform_def bind_res_Inr_iff)

interpretation groups: entity_import g_uuid group_constraint "GroupTransform users" "\<lambda>labels rs. set labels = g_label ` set rs" for users
  by unfold_locales
     (auto simp: group_constraint_def GroupTransform_def bind_res_Inr_iff dest!: unique_label_fresh(1))

section \<open>Existing nodes\<close>

lemma mset_filter_disj:
  assumes "\<And>x. \<not> (P x \<and> Q x)"
  shows "mset (filter P xs) + mset (filter Q xs) = mset (filter (\<lambda>x. P x \<or> Q x) xs)"
  using assms by (induction xs) auto

lemma mset_filter_batches:
  assumes "distinct (concat bs)"
  shows "mset (concat (map (\<lambda>b. filter (\<lambda>x. f x \<in> set b) t) bs)) = mset (filter (\<lambda>x. f x \<in> set (concat bs)) t)"
  using assms
proof (induction bs)
  case (Cons b bs)
  then have "mset (filter (\<lambda>x. f x \<in> set b) t) + mset (filter (\<lambda>x. f x \<in> set (concat bs)) t) =
      mset (filter (\<lambda>x. f x \<in> set b \<or> f x \<in> set (concat bs)) t)"
    by (intro mset_filter_disj) auto
  then show ?case
    using Cons by simp
qed simp

text \<open>The batches of the query find the same nodes as one query.\<close>

lemma matching_batches:
  assumes "distinct (fields_of field backend_from)" "distinct (fields_of field t)"
  shows "map_of (matching_batches filter_size field backend_from t) = map_of (matching field backend_from t)"
    and "length (matching_batches filter_size field backend_from t) = length (matching field backend_from t)"
proof -
  let ?g = "\<lambda>row. (field (snd row), fst row)"
  have "matching_batches filter_size field backend_from t =
      map ?g (concat (map (\<lambda>b. filter (\<lambda>row. field (snd row) \<in> set b) t) (batch_iter filter_size (fields_of field backend_from))))"
    by (simp add: matching_batches_def map_concat comp_def)
  then have m: "mset (matching_batches filter_size field backend_from t) = mset (matching field backend_from t)"
    using mset_filter_batches [of "batch_iter filter_size (fields_of field backend_from)" "\<lambda>row. field (snd row)" t] assms(1)
    by (simp add: matching_def batch_iter_concat)
  have "distinct (map fst (matching field backend_from t))"
    using assms(2) by (simp add: matching_def comp_def distinct_map_filter)
  moreover have "mset (map fst (matching_batches filter_size field backend_from t)) = mset (map fst (matching field backend_from t))"
    using m by simp
  ultimately have "distinct (map fst (matching_batches filter_size field backend_from t))"
    by (metis mset_eq_imp_distinct_iff)
  then show "map_of (matching_batches filter_size field backend_from t) = map_of (matching field backend_from t)"
    using \<open>distinct (map fst (matching field backend_from t))\<close> m by (metis map_of_inject_set set_mset_mset)
  show "length (matching_batches filter_size field backend_from t) = length (matching field backend_from t)"
    using m by (metis size_mset)
qed

lemma import_with_batches:
  assumes "distinct (fields_of field backend_from)" "distinct (fields_of field t)"
  shows "import_with (matching_batches filter_size field backend_from t) = import_with (matching field backend_from t)"
  by (intro ext) (simp add: import_with_def matching_batches [OF assms])

text \<open>A change of other columns does not affect what is found.\<close>

lemma matching_zip: "matching field backend_from t = filter (\<lambda>p. fst p \<in> set (fields_of field backend_from)) (zip (fields_of field t) (pks_of t))"
  unfolding matching_def by (induction t) auto

lemma matching_cong:
  "\<lbrakk> pks_of t' = pks_of t; fields_of field t' = fields_of field t \<rbrakk> \<Longrightarrow> matching field backend_from t' = matching field backend_from t"
  by (simp only: matching_zip)

section \<open>Merging extras\<close>

text \<open>What becomes of one extra, by its value in the profile and in the archive.\<close>

fun merge_extra :: "string \<Rightarrow> 'v option \<Rightarrow> 'v option \<Rightarrow> 'v option" where
  "merge_extra mode None None = None"
| "merge_extra mode (Some old) None = (if mode ! 0 = CHR ''k'' then Some old else None)"
| "merge_extra mode None (Some new) = (if mode ! 1 = CHR ''c'' then Some new else None)"
| "merge_extra mode (Some old) (Some new) =
     (if mode ! 2 = CHR ''u'' then Some new else if mode ! 2 = CHR ''l'' then Some old else None)"

definition valid_mode :: "string \<Rightarrow> bool" where
  "valid_mode mode \<longleftrightarrow> length mode = 3 \<and> mode ! 0 \<in> set ''kn'' \<and> mode ! 1 \<in> set ''cn'' \<and> mode ! 2 \<in> set ''lud''"

lemma map_of_filter_keys: "map_of (filter (\<lambda>(k, v). P k) d) k = (if P k then map_of d k else None)"
  by (induction d) auto

fun the_ok :: "'a res \<Rightarrow> 'a" where
  "the_ok (Inr a) = a"
| "the_ok (Inl e) = undefined"

lemma merged_extras_exact:
  assumes "valid_mode mode"
  shows "\<exists>extras. merged_extras mode old new = Inr extras
    \<and> (\<forall>k. map_of extras k = merge_extra mode (map_of old k) (map_of new k))"
proof -
  obtain a b c where mode: "mode = [a, b, c]" "a \<in> {CHR ''k'', CHR ''n''}" "b \<in> {CHR ''c'', CHR ''n''}" "c \<in> {CHR ''l'', CHR ''u'', CHR ''d''}"
    using assms by (auto simp: valid_mode_def eval_nat_numeral length_Suc_conv)
  have key: "k \<in> fst ` set d \<longleftrightarrow> map_of d k \<noteq> None" for k and d :: "'v dict"
    by (simp add: map_of_eq_None_iff)
  have "merge_extra mode (map_of old k) (map_of new k) = map_of (the_ok (merged_extras mode old new)) k" for k
    using mode(2-4) unfolding mode(1)
    by (elim insertE emptyE; cases "map_of old k"; cases "map_of new k")
       (simp_all add: merged_extras_def key map_of_filter_keys map_add_def)
  moreover have "is_ok (merged_extras mode old new)"
    using mode(2-4) unfolding mode(1) by (elim insertE emptyE) (simp_all add: merged_extras_def)
  ultimately show ?thesis
    by (auto simp: is_ok_iff)
qed

text \<open>The row of a table by its unique field.\<close>

definition row_by :: "('r \<Rightarrow> 'k) \<Rightarrow> 'r table \<Rightarrow> 'k \<rightharpoonup> 'r" where
  "row_by field t = map_of (map (\<lambda>row. (field (snd row), snd row)) t)"

lemma row_by_SomeI: "\<lbrakk> (pk, r) \<in> set t; distinct (fields_of field t) \<rbrakk> \<Longrightarrow> row_by field t (field r) = Some r"
  unfolding row_by_def by (rule map_of_is_SomeI) (force simp: comp_def)+

lemma row_by_SomeD: "row_by field t u = Some r \<Longrightarrow> \<exists>pk. (pk, r) \<in> set t \<and> field r = u"
  unfolding row_by_def by (drule map_of_SomeD) auto

lemma row_by_None_iff: "row_by field t u = None \<longleftrightarrow> u \<notin> set (fields_of field t)"
  by (auto simp: row_by_def map_of_eq_None_iff image_image)

lemma image_filter_key: "f ` set (filter (\<lambda>x. f x \<in> S) xs) = S \<inter> f ` set xs"
  by auto

lemma sorted_key_unique:
  fixes xs :: "'a list" and ys :: "'b list" and f :: "'a \<Rightarrow> 'k::linorder"
  assumes "distinct (map f xs)" "distinct (map g ys)" "f ` set xs = g ` set ys"
  shows "map f (sort_key f xs) = map g (sort_key g ys)"
proof (rule sorted_distinct_set_unique)
  show "distinct (map f (sort_key f xs))" "distinct (map g (sort_key g ys))"
    using assms(1,2) by (simp_all add: distinct_map)
qed (use assms(3) in simp_all)

lemma zip_map_eq: "map f xs = map g ys \<Longrightarrow> (x, y) \<in> set (zip xs ys) \<Longrightarrow> f x = g y"
proof (induction xs arbitrary: ys)
  case (Cons a xs)
  then show ?case
    by (cases ys) auto
qed simp

lemma map_zip_fst:
  assumes "length xs = length ys" "\<And>x y. (x, y) \<in> set (zip xs ys) \<Longrightarrow> g x y = h x"
  shows "map (\<lambda>(x, y). g x y) (zip xs ys) = map h xs"
  using assms by (induction xs ys rule: list_induct2) auto

lemma merge_rows_exact:
  assumes "valid_mode mode" "map u news = map v olds"
    and "\<And>x. n_uuid (new_of x) = u x" "\<And>y. n_uuid (old_of y) = v y"
  shows "merge_rows mode (map (\<lambda>(x, y). (new_of x, i x, old_of y)) (zip news olds)) =
    Inr (map (\<lambda>(x, y). (i x, the_ok (merged_extras mode (n_extras (old_of y)) (n_extras (new_of x))))) (zip news olds))"
proof -
  have "length news = length olds"
    using assms(2) map_eq_imp_length_eq by blast
  then show ?thesis
    using assms(2)
  proof (induction news olds rule: list_induct2)
    case (Cons x xs y ys)
    obtain extras where "merged_extras mode (n_extras (old_of y)) (n_extras (new_of x)) = Inr extras"
      using merged_extras_exact [OF assms(1)] by blast
    then show ?case
      using Cons assms(3,4) by simp
  qed simp
qed

text \<open>Changes by the primary key of the row with the same unique field.\<close>

lemma map_of_changes:
  assumes ids: "\<And>u i. map_of ids u = Some i \<Longrightarrow> \<exists>r. (i, r) \<in> set t \<and> field r = u"
    and d: "distinct (pks_of t)" "distinct (fields_of field t)" "distinct (fields_of field news)" and r: "(pk, r) \<in> set t"
    and known: "\<And>row. row \<in> set news \<Longrightarrow> map_of ids (field (snd row)) \<noteq> None"
  shows "map_of (map (\<lambda>row. (the (map_of ids (field (snd row))), X (snd row))) news) pk
    = map_option X (row_by field news (field r))"
proof -
  have id_eq: "the (map_of ids (field (snd row))) = pk' \<longleftrightarrow> field (snd row) = field r'"
    if row: "row \<in> set news" and r': "(pk', r') \<in> set t" for row pk' r'
  proof -
    obtain i where i: "map_of ids (field (snd row)) = Some i"
      using known [OF row] by auto
    then obtain q where q: "(i, q) \<in> set t" "field q = field (snd row)"
      using ids by blast
    show ?thesis
    proof
      assume "the (map_of ids (field (snd row))) = pk'"
      then have "q = r'"
        using i q(1) r' same_pk [OF d(1)] by simp
      then show "field (snd row) = field r'"
        using q(2) by simp
    next
      assume "field (snd row) = field r'"
      then have "i = pk'"
        using same_field [OF d(2) q(1) r'] q(2) by simp
      then show "the (map_of ids (field (snd row))) = pk'"
        using i by simp
    qed
  qed
  show ?thesis
  proof (cases "row_by field news (field r)")
    case None
    then have "field (snd row) \<noteq> field r" if "row \<in> set news" for row
      using that unfolding row_by_None_iff by (metis (no_types, lifting) image_eqI list.set_map)
    then have "the (map_of ids (field (snd row))) \<noteq> pk" if "row \<in> set news" for row
      using id_eq [OF that r] that by blast
    then have "map_of (map (\<lambda>row. (the (map_of ids (field (snd row))), X (snd row))) news) pk = None"
      unfolding map_of_eq_None_iff by fastforce
    then show ?thesis
      using None by simp
  next
    case (Some new)
    then obtain p where p: "(p, new) \<in> set news" "field new = field r"
      by (meson row_by_SomeD)
    have "inj_on (\<lambda>row. the (map_of ids (field (snd row)))) (set news)"
    proof (rule inj_onI)
      fix x y
      assume xy: "x \<in> set news" "y \<in> set news"
        and eq: "the (map_of ids (field (snd x))) = the (map_of ids (field (snd y)))"
      obtain i where "map_of ids (field (snd y)) = Some i"
        using known [OF xy(2)] by auto
      then obtain q where "(i, q) \<in> set t" "the (map_of ids (field (snd y))) = i"
        using ids by fastforce
      then have "field (snd x) = field (snd y)"
        using id_eq [OF xy(1)] id_eq [OF xy(2)] eq by metis
      then show "x = y"
        using d(3) xy by (auto simp: distinct_map dest: inj_onD)
    qed
    then have "distinct (map fst (map (\<lambda>row. (the (map_of ids (field (snd row))), X (snd row))) news))"
      using d(3) by (simp add: distinct_map comp_def)
    moreover have "(pk, X new) \<in> set (map (\<lambda>row. (the (map_of ids (field (snd row))), X (snd row))) news)"
      using id_eq [OF p(1) r] p by force
    ultimately show ?thesis
      using Some by (simp add: map_of_is_SomeI del: map_map)
  qed
qed

text \<open>The extras of a profile before and after they were merged with those of the archive.\<close>

definition extras_merged :: "string \<Rightarrow> 'v node_row table \<Rightarrow> 'v node_row table \<Rightarrow> 'v node_row table \<Rightarrow> bool" where
  "extras_merged mode backend_from t t' \<longleftrightarrow>
     list_all2 (\<lambda>row row'. \<exists>extras.
       row' = (fst row, (snd row)\<lparr>n_extras := extras\<rparr>)
       \<and> (case row_by n_uuid backend_from (n_uuid (snd row)) of
            None \<Rightarrow> extras = n_extras (snd row)
          | Some new \<Rightarrow> (\<forall>k. map_of extras k = merge_extra mode (map_of (n_extras (snd row)) k) (map_of (n_extras new) k)))) t t'"

lemma extras_merged_same:
  assumes "extras_merged mode backend_from t t'"
  shows "pks_of t' = pks_of t" "fields_of n_uuid t' = fields_of n_uuid t"
    "map (\<lambda>row. (snd row)\<lparr>n_extras := []\<rparr>) t' = map (\<lambda>row. (snd row)\<lparr>n_extras := []\<rparr>) t"
  using assms unfolding extras_merged_def by (induction rule: list_all2_induct) auto

lemma extras_merged_set_extras:
  assumes "\<And>pk r. (pk, r) \<in> set t \<Longrightarrow> map_of changes pk = map_option X (row_by n_uuid backend_from (n_uuid r))"
    and "\<And>pk r new k. \<lbrakk> (pk, r) \<in> set t; row_by n_uuid backend_from (n_uuid r) = Some new \<rbrakk>
      \<Longrightarrow> map_of (X new) k = merge_extra mode (map_of (n_extras r) k) (map_of (n_extras new) k)"
  shows "extras_merged mode backend_from t (set_extras changes t)"
proof -
  have chg: "map_of (map (\<lambda>(i, extras). (i, \<lambda>r. r\<lparr>n_extras := extras\<rparr>)) changes) pk =
      map_option (\<lambda>extras r. r\<lparr>n_extras := extras\<rparr>) (map_of changes pk)" for pk
    by (induction changes) auto
  show ?thesis
    unfolding extras_merged_def set_extras_def bulk_update_def list_all2_map2
  proof (rule list.rel_refl_strong, goal_cases)
    case (1 row)
    obtain pk r where row: "row = (pk, r)"
      by (cases row) blast
    show ?case
      using 1 assms [of pk r] by (cases "row_by n_uuid backend_from (n_uuid r)") (auto simp: row chg)
  qed
qed

lemma merge_extra_knl: "merge_extra ''knl'' old new = old"
  by (cases old; cases new) simp_all

lemma merge_extra_ncu: "merge_extra ''ncu'' old new = new"
  by (cases old; cases new) simp_all

text \<open>Merging extras: it does not raise, touches nothing but extras, and decides about every extra by its mode.\<close>

lemma merge_node_extras_exact:
  assumes mode: "valid_mode mode"
    and d: "distinct (fields_of n_uuid backend_from)" "distinct (fields_of n_uuid t)" "distinct (pks_of t)"
    and ids: "map_of ids = map_of (matching n_uuid backend_from t)"
  shows "\<exists>t'. merge_node_extras mode ids backend_from t = Inr t' \<and> extras_merged mode backend_from t t'"
proof -
  let ?u = "\<lambda>row. n_uuid (snd row)"
  let ?selected = "\<lambda>row. ?u row \<in> set (map fst ids)"
  let ?input = "sort_key ?u (filter ?selected backend_from)"
  let ?backend = "sort_key ?u (filter ?selected t)"
  have keys: "set (map fst ids) = set (fields_of n_uuid t) \<inter> set (fields_of n_uuid backend_from)"
  proof -
    have "set (map fst ids) = dom (map_of ids)"
      by (simp add: dom_map_of_conv_image_fst)
    also have "\<dots> = fst ` set (matching n_uuid backend_from t)"
      by (simp add: ids dom_map_of_conv_image_fst)
    finally show ?thesis
      by (auto simp: matching_def image_image)
  qed
  have dist: "distinct (map ?u (filter ?selected backend_from))" "distinct (map ?u (filter ?selected t))"
    using d(1,2) by (simp_all add: distinct_map_filter)
  have same: "map ?u ?input = map ?u ?backend"
    unfolding image_filter_key using keys by (intro sorted_key_unique dist) (simp only: image_filter_key list.set_map, blast)
  have found: "\<exists>r. (i, r) \<in> set t \<and> n_uuid r = u" if "map_of ids u = Some i" for u i
    using map_of_SomeD [OF that [unfolded ids]] by (auto simp: matching_def)
  have known: "map_of ids (?u row) \<noteq> None" if "row \<in> set ?input" for row
    using that by (auto simp: map_of_eq_None_iff)
  have dinput: "distinct (fields_of n_uuid ?input)"
    using dist(1) by (simp add: distinct_map)
  have row_input: "row_by n_uuid ?input (n_uuid r) = row_by n_uuid backend_from (n_uuid r)" if "(pk, r) \<in> set t" for pk r
  proof (cases "row_by n_uuid ?input (n_uuid r)")
    case None
    have "set (fields_of n_uuid ?input) = set (map fst ids) \<inter> set (fields_of n_uuid backend_from)"
      using image_filter_key [of ?u "set (map fst ids)" backend_from] by (simp only: list.set_map set_sort)
    then have "row_by n_uuid backend_from (n_uuid r) = None"
      using None in_fields_of [OF that, of n_uuid] unfolding row_by_None_iff keys by blast
    then show ?thesis
      using None by simp
  next
    case (Some new)
    then obtain p where "(p, new) \<in> set backend_from" "n_uuid new = n_uuid r"
      using row_by_SomeD [OF Some] by auto
    then show ?thesis
      using Some row_by_SomeI [OF _ d(1)] by metis
  qed
  have changes: "extras_merged mode backend_from t
      (set_extras (map (\<lambda>row. (the (map_of ids (?u row)), X (snd row))) ?input) t)"
    if "\<And>pk r new k. \<lbrakk> (pk, r) \<in> set t; row_by n_uuid backend_from (n_uuid r) = Some new \<rbrakk>
      \<Longrightarrow> map_of (X new) k = merge_extra mode (map_of (n_extras r) k) (map_of (n_extras new) k)" for X
    using map_of_changes [OF found d(3,2) dinput _ known] row_input that
    by (intro extras_merged_set_extras [where X = X]) simp_all
  show ?thesis
  proof -
    consider "mode = ''knl''" | "mode = ''ncu''" | "mode \<noteq> ''knl''" "mode \<noteq> ''ncu''"
      by blast
    then show ?thesis
    proof cases
      case 1
      have "extras_merged mode backend_from t t"
        unfolding extras_merged_def
      proof (rule list.rel_refl_strong, goal_cases)
        case (1 row)
        have "row = (fst row, (snd row)\<lparr>n_extras := n_extras (snd row)\<rparr>)"
          by simp
        then show ?case
          by (intro exI [of _ "n_extras (snd row)"]) (simp add: \<open>mode = ''knl''\<close> merge_extra_knl split: option.split)
      qed
      then show ?thesis
        by (simp add: 1 merge_node_extras_def)
    next
      case 2
      have "extras_merged mode backend_from t (set_extras (map (\<lambda>row. (the (map_of ids (?u row)), n_extras (snd row))) ?input) t)"
        by (rule changes) (simp add: 2 merge_extra_ncu)
      then show ?thesis
        by (simp add: 2 merge_node_extras_def)
    next
      case 3
      let ?X = "\<lambda>new. the_ok (merged_extras mode (n_extras (the (row_by n_uuid t (n_uuid new)))) (n_extras new))"
      have "merge_rows mode (map (\<lambda>(new, old). (snd new, the (map_of ids (?u new)), snd old)) (zip ?input ?backend)) =
          Inr (map (\<lambda>(new, old). (the (map_of ids (?u new)), the_ok (merged_extras mode (n_extras (snd old)) (n_extras (snd new)))))
            (zip ?input ?backend))"
        by (rule merge_rows_exact [OF mode same]) simp_all
      also have "map (\<lambda>(new, old). (the (map_of ids (?u new)), the_ok (merged_extras mode (n_extras (snd old)) (n_extras (snd new)))))
            (zip ?input ?backend) = map (\<lambda>new. (the (map_of ids (?u new)), ?X (snd new))) ?input"
      proof (rule map_zip_fst)
        show "length ?input = length ?backend"
          using same by (rule map_eq_imp_length_eq)
        fix new old
        assume z: "(new, old) \<in> set (zip ?input ?backend)"
        then have "?u new = ?u old"
          using zip_map_eq [OF same] by blast
        moreover have "old \<in> set t"
          using set_zip_rightD [OF z] by simp
        ultimately have "row_by n_uuid t (?u new) = Some (snd old)"
          using row_by_SomeI [of "fst old" "snd old" t n_uuid] d(2) by simp
        then show "(the (map_of ids (?u new)), the_ok (merged_extras mode (n_extras (snd old)) (n_extras (snd new))))
            = (the (map_of ids (?u new)), ?X (snd new))"
          by simp
      qed
      finally have rows: "merge_rows mode (map (\<lambda>(new, old). (snd new, the (map_of ids (?u new)), snd old)) (zip ?input ?backend)) =
          Inr (map (\<lambda>new. (the (map_of ids (?u new)), ?X (snd new))) ?input)" .
      have "map_of (?X new) k = merge_extra mode (map_of (n_extras r) k) (map_of (n_extras new) k)"
        if "(pk, r) \<in> set t" "row_by n_uuid backend_from (n_uuid r) = Some new" for pk r new k
      proof -
        have "row_by n_uuid t (n_uuid new) = Some r"
          using row_by_SomeD [OF that(2)] row_by_SomeI [OF that(1) d(2)] by auto
        then show ?thesis
          using merged_extras_exact [OF mode, of "n_extras r" "n_extras new"] by auto
      qed
      then have "extras_merged mode backend_from t (set_extras (map (\<lambda>new. (the (map_of ids (?u new)), ?X (snd new))) ?input) t)"
        by (rule changes)
      moreover have "length ?input = length ?backend"
        using same by (rule map_eq_imp_length_eq)
      ultimately show ?thesis
        unfolding merge_node_extras_def Let_def using 3 rows by simp
    qed
  qed
qed

section \<open>Merging comments\<close>

text \<open>The comments of a profile before and after they were merged.\<close>

definition comments_merged ::
  "(comment_row \<Rightarrow> comment_row \<Rightarrow> comment_row) \<Rightarrow> comment_row table \<Rightarrow> comment_row table \<Rightarrow> comment_row table \<Rightarrow> bool" where
  "comments_merged change backend_from t t' \<longleftrightarrow>
     t' = map (\<lambda>row. (fst row,
       case row_by cm_uuid backend_from (cm_uuid (snd row)) of None \<Rightarrow> snd row | Some new \<Rightarrow> change new (snd row))) t"

definition comment_change :: "string \<Rightarrow> comment_row \<Rightarrow> comment_row \<Rightarrow> comment_row" where
  "comment_change merge_comments =
     (if merge_comments = ''overwrite'' then overwrite_comment
      else if merge_comments = ''newest'' then newest_comment else (\<lambda>new old. old))"

lemma matching_SomeD: "map_of (matching field backend_from t) u = Some i \<Longrightarrow> \<exists>r. (i, r) \<in> set t \<and> field r = u"
  by (drule map_of_SomeD) (auto simp: matching_def)

lemma matching_keys: "set (map fst (matching field backend_from t)) = set (fields_of field t) \<inter> set (fields_of field backend_from)"
  by (auto simp: matching_def image_image)

lemma row_by_filter:
  assumes "Q u"
  shows "row_by field (filter (\<lambda>row. Q (field (snd row))) t) u = row_by field t u"
  using assms by (induction t) (auto simp: row_by_def)

lemma update_comments_exact:
  assumes "distinct (fields_of cm_uuid backend_from)" "distinct (fields_of cm_uuid t)" "distinct (pks_of t)"
  shows "comments_merged change backend_from t (update_comments change (matching cm_uuid backend_from t) backend_from t)"
proof -
  let ?ids = "matching cm_uuid backend_from t"
  let ?news = "filter (\<lambda>row. cm_uuid (snd row) \<in> set (map fst ?ids)) backend_from"
  have "map_of (map (\<lambda>row. (the (map_of ?ids (cm_uuid (snd row))), change (snd row))) ?news) pk
      = map_option change (row_by cm_uuid backend_from (cm_uuid r))" if r: "(pk, r) \<in> set t" for pk r
  proof -
    have "map_of (map (\<lambda>row. (the (map_of ?ids (cm_uuid (snd row))), change (snd row))) ?news) pk
        = map_option change (row_by cm_uuid ?news (cm_uuid r))"
      using assms by (intro map_of_changes [OF matching_SomeD _ _ _ r]) (auto simp: map_of_eq_None_iff distinct_map_filter)
    also have "row_by cm_uuid ?news (cm_uuid r) = row_by cm_uuid backend_from (cm_uuid r)"
    proof (cases "cm_uuid r \<in> set (fields_of cm_uuid backend_from)")
      case True
      then have "cm_uuid r \<in> set (map fst ?ids)"
        unfolding matching_keys using in_fields_of [OF r, of cm_uuid] by blast
      then show ?thesis
        by (rule row_by_filter)
    next
      case False
      then have "row_by cm_uuid backend_from (cm_uuid r) = None" "row_by cm_uuid ?news (cm_uuid r) = None"
        unfolding row_by_None_iff by auto
      then show ?thesis
        by simp
    qed
    finally show ?thesis .
  qed
  then show ?thesis
    unfolding comments_merged_def update_comments_def bulk_update_def
    by (intro map_cong refl) (auto split: option.split)
qed

lemma merge_comments_exact:
  assumes "distinct (fields_of cm_uuid backend_from)" "distinct (fields_of cm_uuid t)" "distinct (pks_of t)"
    and "merge_comments \<in> {''leave'', ''newest'', ''overwrite''}"
  shows "\<exists>t'. merge_comments_of merge_comments (matching cm_uuid backend_from t) backend_from t = Inr t'
    \<and> comments_merged (comment_change merge_comments) backend_from t t'"
proof -
  have "comments_merged (\<lambda>new old. old) backend_from t t"
    by (auto simp: comments_merged_def intro!: map_idI [symmetric] split: option.split)
  moreover have "comments_merged change backend_from t t" if "matching cm_uuid backend_from t = []" for change
  proof -
    have "row_by cm_uuid backend_from (cm_uuid r) = None" if "(pk, r) \<in> set t" for pk r
      using \<open>matching cm_uuid backend_from t = []\<close> matching_keys [of cm_uuid backend_from t] in_fields_of [OF that, of cm_uuid]
      unfolding row_by_None_iff by auto
    then show ?thesis
      by (auto simp: comments_merged_def intro!: map_idI [symmetric])
  qed
  ultimately show ?thesis
    using assms(4) update_comments_exact [OF assms(1-3)] by (auto simp: merge_comments_of_def comment_change_def)
qed

lemma comments_merged_same:
  assumes "comments_merged (comment_change merge_comments) backend_from t t'"
  shows "pks_of t' = pks_of t" "fields_of cm_uuid t' = fields_of cm_uuid t"
    "fields_of cm_user_id t' = fields_of cm_user_id t" "fields_of cm_node_id t' = fields_of cm_node_id t"
  using assms
  by (auto simp: comments_merged_def comment_change_def overwrite_comment_def newest_comment_def split: option.split)

end
