(* ===== verification/Aiida_Import_Integrity.thy ===== *)
theory Aiida_Import_Integrity
  imports Aiida_Import_Rules
begin

text \<open>
  An import keeps the integrity of the profile: uniqueness constraints and foreign keys, and what it can raise.
\<close>

section \<open>Outcomes\<close>

text \<open>What a computation gives: a value with \<open>P\<close>, or an exception with \<open>E\<close>.\<close>

definition outcome :: "(py_exc \<Rightarrow> bool) \<Rightarrow> ('a \<Rightarrow> bool) \<Rightarrow> 'a res \<Rightarrow> bool" where
  "outcome E P r \<longleftrightarrow> (case r of Inl e \<Rightarrow> E e | Inr a \<Rightarrow> P a)"

lemma outcome_simps [simp]: "outcome E P (Inl e) \<longleftrightarrow> E e" "outcome E P (Inr a) \<longleftrightarrow> P a"
  by (simp_all add: outcome_def)

lemma outcome_bind: "\<lbrakk> outcome E Q r; \<And>a. r = Inr a \<Longrightarrow> Q a \<Longrightarrow> outcome E P (f a) \<rbrakk> \<Longrightarrow> outcome E P (bind_res r f)"
  by (cases r) auto

lemma outcome_mono: "\<lbrakk> outcome E Q r; \<And>a. r = Inr a \<Longrightarrow> Q a \<Longrightarrow> P a \<rbrakk> \<Longrightarrow> outcome E P r"
  by (cases r) auto

lemma outcome_Inr: "\<lbrakk> outcome E P r; r = Inr a \<rbrakk> \<Longrightarrow> P a"
  by simp

lemma outcome_guard: "\<lbrakk> \<not> ok \<Longrightarrow> E e; ok \<Longrightarrow> P () \<rbrakk> \<Longrightarrow> outcome E P (guard ok e)"
  by (cases ok) auto

lemma transform_rows_outcome:
  assumes "\<And>st row. row \<in> set xs \<Longrightarrow> outcome E (\<lambda>(st', r). Q (snd row) r) (transform st row)"
  shows "outcome E (\<lambda>(st', rs). list_all2 (\<lambda>row r. Q (snd row) r) xs rs) (transform_rows transform st xs)"
  using assms
proof (induction xs arbitrary: st)
  case (Cons x xs)
  have "outcome E (\<lambda>(st', rs). list_all2 (\<lambda>row r. Q (snd row) r) (x # xs) rs)
      (bind_res (transform_rows transform st1 xs) (\<lambda>(st, rs). Inr (st, r # rs)))" if "Q (snd x) r" for st1 r
    by (rule outcome_bind [OF Cons.IH]) (use Cons.prems that in auto)
  then show ?case
    unfolding transform_rows.simps by (intro outcome_bind [OF Cons.prems]) auto
qed simp

section \<open>Tables\<close>

definition table_ok :: "('r list \<Rightarrow> bool) \<Rightarrow> 'r table \<Rightarrow> bool" where
  "table_ok constraint t \<longleftrightarrow> constraint (rows_of t) \<and> distinct (pks_of t)"

text \<open>The outcome of importing one type of entity.\<close>

definition imported ::
  "('r \<Rightarrow> 'k) \<Rightarrow> ('r list \<Rightarrow> bool) \<Rightarrow> ('r \<Rightarrow> 'r \<Rightarrow> bool) \<Rightarrow> 'r table \<Rightarrow> 'r table \<Rightarrow> (pk \<times> pk) list \<Rightarrow> 'r table \<Rightarrow> bool" where
  "imported field constraint Q backend_from t m t' \<longleftrightarrow>
     table_ok constraint t' \<and> maps_entities field backend_from t' m
     \<and> (\<exists>rows. t' = append_rows t rows \<and> list_all2 (\<lambda>row r. Q (snd row) r) (new_rows field backend_from t) rows)"

lemma translate_outcome:
  assumes "maps_entities field backend_from t m" "p \<in> set (pks_of backend_from)"
  shows "outcome E (\<lambda>i. map_of m p = Some i \<and> i \<in> set (pks_of t)) (translate m p)"
proof -
  have "p \<in> set (map fst m)"
    using assms(2) by (simp only: maps_entitiesD(1) [OF assms(1)])
  then have "map_of m p \<noteq> None"
    by (simp add: map_of_eq_None_iff)
  moreover have "i \<in> set (pks_of t)" if "map_of m p = Some i" for i
    using maps_entitiesD(2) [OF assms(1) map_of_SomeD [OF that]] by force
  ultimately show ?thesis
    by (auto simp: translate_def)
qed

context entity_import
begin

lemma import_entities_outcome:
  assumes "table_ok constraint backend_from" "table_ok constraint t" "inv st (rows_of t)"
    and "\<And>st row. row \<in> set backend_from \<Longrightarrow> outcome E (\<lambda>(st', r). Q (snd row) r) (transform st row)"
  shows "outcome E (\<lambda>(st', m, t'). imported field constraint Q backend_from t m t' \<and> inv st' (rows_of t'))
    (import_entities filter_size field constraint transform backend_from st t)"
proof (cases "import_entities filter_size field constraint transform backend_from st t")
  case (Inl e)
  have "outcome E (\<lambda>(st', rs). list_all2 (\<lambda>row r. Q (snd row) r) (new_rows field backend_from t) rs)
      (transform_rows transform st (new_rows field backend_from t))"
    using assms(4) by (intro transform_rows_outcome) (simp add: new_rows_def)
  moreover have "transform_rows transform st (new_rows field backend_from t) = Inl e"
    using Inl assms(1-3) import_entities_exact [of backend_from t st]
    by (cases "transform_rows transform st (new_rows field backend_from t)") (auto simp: table_ok_def)
  ultimately show ?thesis
    using Inl by simp
next
  case (Inr a)
  obtain st' m t' where a: "a = (st', m, t')"
    by (cases a)
  have ok: "constraint (rows_of backend_from)" "constraint (rows_of t)"
    using assms(1,2) by (simp_all add: table_ok_def)
  from import_entities_Inr [OF Inr [unfolded a] ok assms(3)] obtain rows where
    rows: "transform_rows transform st (new_rows field backend_from t) = Inr (st', rows)" "t' = append_rows t rows"
      "maps_entities field backend_from t' m" "constraint (rows_of t')" "inv st' (rows_of t')" .
  have "outcome E (\<lambda>(st', rs). list_all2 (\<lambda>row r. Q (snd row) r) (new_rows field backend_from t) rs)
      (transform_rows transform st (new_rows field backend_from t))"
    using assms(4) by (intro transform_rows_outcome) (simp add: new_rows_def)
  then show ?thesis
    using Inr a rows assms(2) distinct_pks_append [of t rows] by (auto simp: imported_def table_ok_def)
qed

end

section \<open>Users and computers\<close>

lemma unique_label_outcome:
  assumes "E ImportUniquenessError"
  shows "outcome E (\<lambda>l. l \<notin> set labels) (unique_label labels label)"
proof (cases "unique_label labels label")
  case (Inl e)
  then show ?thesis
    using assms unique_label_error [of labels label e] by simp
next
  case (Inr l)
  then show ?thesis
    using unique_label_fresh(1) by simp
qed

lemma import_users_outcome:
  assumes "table_ok user_constraint backend_from" "table_ok user_constraint t"
  shows "outcome E (\<lambda>(m, t'). imported u_email user_constraint (=) backend_from t m t') (import_users filter_size backend_from t)"
  unfolding import_users_def
  by (rule outcome_bind [OF users.import_entities_outcome [OF assms, where Q = "(=)"]]) (auto simp: user_transform_def)

lemma import_computers_outcome:
  assumes "table_ok computer_constraint backend_from" "table_ok computer_constraint t" "E ImportUniquenessError"
  shows "outcome E (\<lambda>(m, t'). imported c_uuid computer_constraint (\<lambda>r r'. \<exists>l. r' = r\<lparr>c_label := l\<rparr>) backend_from t m t')
    (import_computers filter_size backend_from t)"
  unfolding import_computers_def
proof (rule outcome_bind [OF computers.import_entities_outcome [OF assms(1,2), where Q = "\<lambda>r r'. \<exists>l. r' = r\<lparr>c_label := l\<rparr>"]])
  show "outcome E (\<lambda>(st', r). \<exists>l. r = (snd row)\<lparr>c_label := l\<rparr>) (computer_transform st row)" for st row
    unfolding computer_transform_def by (rule outcome_bind [OF unique_label_outcome]) (auto simp: assms(3))
qed auto

lemma insert_batches_exact:
  assumes "constraint (rows_of t @ concat bs)" "\<And>rs rs'. constraint (rs @ rs') \<Longrightarrow> constraint rs"
  shows "insert_batches constraint bs t = Inr (append_rows t (concat bs))"
  using assms(1)
proof (induction bs arbitrary: t)
  case (Cons b bs)
  have "constraint (rows_of t @ b)"
    using Cons.prems by (intro assms(2) [of "rows_of t @ b" "concat bs"]) simp
  then have "bulk_insert constraint b t = Inr ([next_pk t ..< next_pk t + length b], append_rows t b)"
    by (simp add: bulk_insert_def)
  then show ?case
    using Cons by (simp add: append_rows_append)
qed simp

lemma insert_batch_iter:
  assumes "constraint (rows_of t @ rows)" "\<And>rs rs'. constraint (rs @ rs') \<Longrightarrow> constraint rs"
  shows "insert_batches constraint (batch_iter batch_size rows) t = Inr (append_rows t rows)"
  using insert_batches_exact [of constraint t "batch_iter batch_size rows"] assms by (simp add: batch_iter_concat)

section \<open>Authinfos\<close>

text \<open>Different rows of the archive stay different rows.\<close>

lemma maps_entities_inj:
  assumes "maps_entities field backend_from t m" "distinct (fields_of field backend_from)" "distinct (pks_of t)"
    and "map_of m p = Some i" "map_of m q = Some i"
  shows "p = q"
proof -
  have "distinct (map snd m)"
    using assms(1-3) by (rule maps_entities_distinct)
  then show ?thesis
    using map_of_SomeD [OF assms(4)] map_of_SomeD [OF assms(5)] by (metis distinct_map fst_conv inj_onD snd_conv)
qed

lemma list_all2_in_set2: "\<lbrakk> list_all2 R xs ys; y \<in> set ys \<rbrakk> \<Longrightarrow> \<exists>x \<in> set xs. R x y"
  by (induction rule: list_all2_induct) auto

lemma list_all2_in_set1: "\<lbrakk> list_all2 R xs ys; x \<in> set xs \<rbrakk> \<Longrightarrow> \<exists>y \<in> set ys. R x y"
  by (induction rule: list_all2_induct) auto

lemma list_all2_distinct:
  assumes "list_all2 R xs ys" "distinct (map f xs)" "\<And>x y x' y'. \<lbrakk> R x y; R x' y'; g y = g y' \<rbrakk> \<Longrightarrow> f x = f x'"
  shows "distinct (map g ys)"
  using assms(1,2)
proof (induction rule: list_all2_induct)
  case (Cons x xs y ys)
  have "g y \<noteq> g y'" if "y' \<in> set ys" for y'
    using list_all2_in_set2 [OF Cons.hyps(2) that] assms(3) [OF Cons.hyps(1)] Cons.prems by force
  then show ?case
    using Cons by auto
qed simp

definition authinfo_refs :: "pk set \<Rightarrow> pk set \<Rightarrow> authinfo_row list \<Rightarrow> bool" where
  "authinfo_refs users computers rs \<longleftrightarrow> (\<forall>r \<in> set rs. ai_user_id r \<in> users \<and> ai_computer_id r \<in> computers)"

definition same_authinfo :: "(pk \<times> pk) list \<Rightarrow> (pk \<times> pk) list \<Rightarrow> authinfo_row \<Rightarrow> authinfo_row \<Rightarrow> bool" where
  "same_authinfo users computers r r' \<longleftrightarrow>
     map_of users (ai_user_id r) = Some (ai_user_id r') \<and> map_of computers (ai_computer_id r) = Some (ai_computer_id r')
     \<and> ai_columns r' = ai_columns r"

lemma translate_authinfos_outcome:
  assumes "maps_entities u_email users_from t_users users" "maps_entities c_uuid computers_from t_computers computers"
    and "\<And>r. r \<in> set rs \<Longrightarrow> ai_user_id r \<in> set (pks_of users_from) \<and> ai_computer_id r \<in> set (pks_of computers_from)"
  shows "outcome E (\<lambda>rows. list_all2 (same_authinfo users computers) rs rows
      \<and> authinfo_refs (set (pks_of t_users)) (set (pks_of t_computers)) rows)
    (translate_authinfos users computers rs)"
  using assms(3)
proof (induction rs)
  case (Cons r rs)
  show ?case
    unfolding translate_authinfos.simps
    by (rule outcome_bind [OF translate_outcome [OF assms(1)]], use Cons.prems in simp,
        rule outcome_bind [OF translate_outcome [OF assms(2)]], use Cons.prems in simp,
        rule outcome_bind [OF Cons.IH]) (use Cons.prems in \<open>auto simp: same_authinfo_def authinfo_refs_def\<close>)
qed (simp add: authinfo_refs_def)

definition authinfos_imported ::
  "(pk \<times> pk) list \<Rightarrow> (pk \<times> pk) list \<Rightarrow> authinfo_row table \<Rightarrow> authinfo_row table \<Rightarrow> authinfo_row table \<Rightarrow> bool" where
  "authinfos_imported users computers backend_from t t' \<longleftrightarrow>
     table_ok authinfo_constraint t' \<and> (\<exists>rows. t' = append_rows t rows)
     \<and> (\<forall>r \<in> set (rows_of backend_from). \<exists>r' \<in> set (rows_of t').
          map_of users (ai_user_id r) = Some (ai_user_id r') \<and> map_of computers (ai_computer_id r) = Some (ai_computer_id r'))"

lemma import_authinfos_outcome:
  assumes m: "maps_entities u_email users_from t_users users" "maps_entities c_uuid computers_from t_computers computers"
    and d: "distinct (fields_of u_email users_from)" "distinct (pks_of t_users)"
      "distinct (fields_of c_uuid computers_from)" "distinct (pks_of t_computers)"
    and ok: "table_ok authinfo_constraint backend_from" "table_ok authinfo_constraint t"
    and refs: "authinfo_refs (set (pks_of users_from)) (set (pks_of computers_from)) (rows_of backend_from)"
      "authinfo_refs (set (pks_of t_users)) (set (pks_of t_computers)) (rows_of t)"
  shows "outcome E (\<lambda>t'. authinfos_imported users computers backend_from t t'
      \<and> authinfo_refs (set (pks_of t_users)) (set (pks_of t_computers)) (rows_of t'))
    (import_authinfos batch_size users computers backend_from t)"
  unfolding import_authinfos_def
proof (rule outcome_bind [OF translate_authinfos_outcome [OF m]])
  show "ai_user_id r \<in> set (pks_of users_from) \<and> ai_computer_id r \<in> set (pks_of computers_from)" if "r \<in> set (rows_of backend_from)" for r
    using that refs(1) unfolding authinfo_refs_def by blast
next
  fix rows
  assume "list_all2 (same_authinfo users computers) (rows_of backend_from) rows
      \<and> authinfo_refs (set (pks_of t_users)) (set (pks_of t_computers)) rows"
  then have rel: "list_all2 (same_authinfo users computers) (rows_of backend_from) rows"
    and rows_refs: "authinfo_refs (set (pks_of t_users)) (set (pks_of t_computers)) rows"
    by auto
  let ?existing = "filter (\<lambda>p. p \<in> ai_pair ` set rows) (map ai_pair (rows_of t))"
  let ?new = "filter (\<lambda>r. ai_pair r \<notin> set ?existing) rows"
  have t: "distinct (map ai_pair (rows_of t))" "distinct (pks_of t)"
    using ok(2) by (simp_all add: table_ok_def authinfo_constraint_def)
  have rows: "distinct (map ai_pair rows)"
  proof (rule list_all2_distinct [OF rel, of ai_pair])
    show "distinct (map ai_pair (rows_of backend_from))"
      using ok(1) by (simp add: table_ok_def authinfo_constraint_def)
    show "ai_pair r = ai_pair q" if "same_authinfo users computers r r'" "same_authinfo users computers q q'" "ai_pair r' = ai_pair q'" for r r' q q'
      using that maps_entities_inj [OF m(1) d(1,2)] maps_entities_inj [OF m(2) d(3,4)] by (auto simp: same_authinfo_def)
  qed
  have constraint: "authinfo_constraint (rows_of t @ ?new)"
  proof -
    obtain P where P: "P = map ai_pair (rows_of t)"
      by blast
    have "distinct (map ai_pair ?new)"
      using rows by (rule distinct_map_filter)
    moreover have "set P \<inter> ai_pair ` set ?new = {}"
      unfolding P [symmetric] by auto
    ultimately show ?thesis
      using t(1) by (simp add: authinfo_constraint_def P)
  qed
  then have ins: "insert_batches authinfo_constraint (batch_iter batch_size ?new) t = Inr (append_rows t ?new)"
    by (rule insert_batch_iter) (simp add: authinfo_constraint_def)
  have covered: "authinfos_imported users computers backend_from t (append_rows t rs)
      \<and> authinfo_refs (set (pks_of t_users)) (set (pks_of t_computers)) (rows_of (append_rows t rs))"
    if "ai_pair ` set rows \<subseteq> ai_pair ` set (rows_of t @ rs)" "set rs \<subseteq> set rows" "authinfo_constraint (rows_of t @ rs)" for rs
  proof -
    have "\<exists>r' \<in> set (rows_of t @ rs). map_of users (ai_user_id r) = Some (ai_user_id r')
        \<and> map_of computers (ai_computer_id r) = Some (ai_computer_id r')" if r: "r \<in> set (rows_of backend_from)" for r
    proof -
      obtain q where q: "q \<in> set rows" "same_authinfo users computers r q"
        using list_all2_in_set1 [OF rel r] by blast
      then obtain r' where "r' \<in> set (rows_of t @ rs)" "ai_pair r' = ai_pair q"
        using \<open>ai_pair ` set rows \<subseteq> _\<close> by (metis (no_types, lifting) imageE imageI subsetD)
      then show ?thesis
        using q(2) by (auto simp: same_authinfo_def intro!: bexI [of _ r'])
    qed
    then show ?thesis
      using that(2,3) t(2) refs(2) rows_refs distinct_pks_append [of t rs]
      unfolding authinfos_imported_def table_ok_def rows_of_append_rows authinfo_refs_def by auto
  qed
  show "outcome E (\<lambda>t'. authinfos_imported users computers backend_from t t'
      \<and> authinfo_refs (set (pks_of t_users)) (set (pks_of t_computers)) (rows_of t'))
    (let existing = ?existing in if length backend_from = length existing then Inr t
      else insert_batches authinfo_constraint (batch_iter batch_size (filter (\<lambda>r. ai_pair r \<notin> set existing) rows)) t)"
  proof (cases "length backend_from = length ?existing")
    case True
    have "set ?existing = ai_pair ` set rows"
    proof (rule card_subset_eq)
      have "card (set ?existing) = length rows"
        using t(1) True list_all2_lengthD [OF rel] by (simp add: distinct_card del: set_filter)
      then show "card (set ?existing) = card (ai_pair ` set rows)"
        using rows by (metis distinct_card length_map list.set_map)
    qed auto
    then have "ai_pair ` set rows \<subseteq> ai_pair ` set (rows_of t @ [])"
      by (auto simp: image_image)
    then show ?thesis
      using covered [of "[]"] ok(2) True by (simp add: table_ok_def)
  next
    case False
    have "ai_pair ` set rows \<subseteq> ai_pair ` set (rows_of t @ ?new)"
      by (auto simp: image_Un image_image)
    then show ?thesis
      using covered [of ?new] constraint False ins by (simp add: Let_def del: filter_filter)
  qed
qed

section \<open>Nodes\<close>

definition node_refs :: "pk set \<Rightarrow> pk set \<Rightarrow> 'v node_row list \<Rightarrow> bool" where
  "node_refs users computers rs \<longleftrightarrow>
     (\<forall>r \<in> set rs. n_user_id r \<in> users \<and> (case n_computer_id r of None \<Rightarrow> True | Some c \<Rightarrow> c \<in> computers))"

lemma node_refs_iff:
  "node_refs users computers rs \<longleftrightarrow> (\<forall>r \<in> set rs. n_user_id r \<in> users \<and> (\<forall>c. n_computer_id r = Some c \<longrightarrow> c \<in> computers))"
  by (auto simp: node_refs_def split: option.splits)

lemma node_refs_append [simp]: "node_refs users computers (rs @ rs') \<longleftrightarrow> node_refs users computers rs \<and> node_refs users computers rs'"
  by (auto simp: node_refs_iff)

text \<open>A node of the archive and the new node of the profile.\<close>

definition imported_node :: "(pk \<times> pk) list \<Rightarrow> (pk \<times> pk) list \<Rightarrow> bool \<Rightarrow> 'v node_row \<Rightarrow> 'v node_row \<Rightarrow> bool" where
  "imported_node users computers import_new_extras r r' \<longleftrightarrow>
     n_uuid r' = n_uuid r \<and> n_node_type r' = n_node_type r \<and> n_keys r' = n_keys r \<and> n_columns r' = n_columns r
     \<and> map_of users (n_user_id r) = Some (n_user_id r')
     \<and> (case n_computer_id r of
          None \<Rightarrow> n_computer_id r' = None | Some c \<Rightarrow> n_computer_id r' = map_of computers c \<and> map_of computers c \<noteq> None)
     \<and> n_extras r' = kept_extras import_new_extras (n_node_type r) (n_extras r)
     \<and> n_attributes r' =
         (if str_startswith (n_node_type r) ''process.'' then AList.delete CHECKPOINT_KEY (n_attributes r) else n_attributes r)"

lemma NodeTransform_outcome:
  assumes m: "maps_entities u_email users_from t_users users" "maps_entities c_uuid computers_from t_computers computers"
    and "node_refs (set (pks_of users_from)) (set (pks_of computers_from)) [snd row]"
  shows "outcome E (\<lambda>(st', r). imported_node users computers b (snd row) r
      \<and> node_refs (set (pks_of t_users)) (set (pks_of t_computers)) [r]) (NodeTransform users computers b st row)"
proof -
  obtain u where u: "map_of users (n_user_id (snd row)) = Some u" "u \<in> set (pks_of t_users)"
    using translate_outcome [OF m(1), of "n_user_id (snd row)" "\<lambda>_. False"] assms(3)
    by (auto simp: node_refs_iff translate_def split: option.splits)
  show ?thesis
  proof (cases "n_computer_id (snd row)")
    case None
    then show ?thesis
      using u by (simp add: NodeTransform_def Let_def translate_def imported_node_def node_refs_iff)
  next
    case (Some c)
    then obtain i where "map_of computers c = Some i" "i \<in> set (pks_of t_computers)"
      using translate_outcome [OF m(2), of c "\<lambda>_. False"] assms(3)
      by (auto simp: node_refs_iff translate_def split: option.splits)
    then show ?thesis
      using u Some by (simp add: NodeTransform_def Let_def translate_def imported_node_def node_refs_iff)
  qed
qed

definition nodes_imported ::
  "(pk \<times> pk) list \<Rightarrow> (pk \<times> pk) list \<Rightarrow> bool \<Rightarrow> string \<Rightarrow> 'v node_row table \<Rightarrow> 'v node_row table \<Rightarrow> (pk \<times> pk) list \<Rightarrow> 'v node_row table \<Rightarrow> bool" where
  "nodes_imported users computers b mode backend_from t m t' \<longleftrightarrow>
     table_ok node_constraint t' \<and> maps_entities n_uuid backend_from t' m
     \<and> (\<exists>t1 rows. extras_merged mode backend_from t t1 \<and> t' = append_rows t1 rows
          \<and> list_all2 (\<lambda>row r. imported_node users computers b (snd row) r) (new_rows n_uuid backend_from t) rows)"

lemma new_rows_cong: "fields_of field t1 = fields_of field t \<Longrightarrow> new_rows field backend_from t1 = new_rows field backend_from t"
  by (simp only: new_rows_def)

lemma extras_merged_refs:
  assumes "extras_merged mode backend_from t t'" "node_refs users computers (rows_of t)"
  shows "node_refs users computers (rows_of t')"
  using assms(1) assms(2) unfolding extras_merged_def by (induction rule: list_all2_induct) (auto simp: node_refs_iff)

lemma import_nodes_outcome:
  assumes m: "maps_entities u_email users_from t_users users" "maps_entities c_uuid computers_from t_computers computers"
    and ok: "table_ok node_constraint backend_from" "table_ok node_constraint t" and mode: "valid_mode mode"
    and refs: "node_refs (set (pks_of users_from)) (set (pks_of computers_from)) (rows_of backend_from)"
      "node_refs (set (pks_of t_users)) (set (pks_of t_computers)) (rows_of t)"
  shows "outcome E (\<lambda>(m, t'). nodes_imported users computers b mode backend_from t m t'
      \<and> node_refs (set (pks_of t_users)) (set (pks_of t_computers)) (rows_of t'))
    (import_nodes filter_size users computers b mode backend_from t)"
proof -
  let ?existing = "matching_batches filter_size n_uuid backend_from t"
  have d: "distinct (fields_of n_uuid backend_from)" "distinct (fields_of n_uuid t)" "distinct (pks_of t)"
    using ok by (simp_all add: table_ok_def node_constraint_def comp_def)
  obtain t1 where t1: "(if ?existing \<noteq> [] then merge_node_extras mode ?existing backend_from t else Inr t) = Inr t1"
      "extras_merged mode backend_from t t1"
  proof (cases "?existing = []")
    case True
    then have "matching n_uuid backend_from t = []"
      using matching_batches(2) [OF d(1,2), of filter_size] by simp
    then have none: "row_by n_uuid backend_from (n_uuid (snd row)) = None" if "row \<in> set t" for row
      using that by (auto simp: matching_def filter_empty_conv row_by_None_iff)
    have "extras_merged mode backend_from t t"
      unfolding extras_merged_def
    proof (rule list.rel_refl_strong, goal_cases)
      case (1 row)
      then show ?case
        by (intro exI [of _ "n_extras (snd row)"]) (simp add: none)
    qed
    then show ?thesis
      using that True by simp
  next
    case False
    then show ?thesis
      using that merge_node_extras_exact [OF mode d matching_batches(1) [OF d(1,2)]] by auto
  qed
  have t1_ok: "table_ok node_constraint t1" and t1_refs: "node_refs (set (pks_of t_users)) (set (pks_of t_computers)) (rows_of t1)"
    using extras_merged_same [OF t1(2)] d extras_merged_refs [OF t1(2) refs(2)] by (simp_all add: table_ok_def node_constraint_def comp_def)
  have "import_with ?existing filter_size n_uuid node_constraint (NodeTransform users computers b) backend_from () t1 =
      import_entities filter_size n_uuid node_constraint (NodeTransform users computers b) backend_from () t1"
    unfolding import_with_batches [OF d(1,2)] import_entities_def
    using matching_cong [of t1 t n_uuid backend_from] extras_merged_same [OF t1(2)] by simp
  then have eq: "import_nodes filter_size users computers b mode backend_from t =
      bind_res (import_entities filter_size n_uuid node_constraint (NodeTransform users computers b) backend_from () t1)
        (\<lambda>(st, m, t). Inr (m, t))"
    using t1(1) by (simp add: import_nodes_def)
  let ?Q = "\<lambda>r r'. imported_node users computers b r r' \<and> node_refs (set (pks_of t_users)) (set (pks_of t_computers)) [r']"
  show ?thesis
    unfolding eq
  proof (rule outcome_bind [OF nodes.import_entities_outcome [OF ok(1) t1_ok, where Q = ?Q]])
    show "outcome E (\<lambda>(st', r). ?Q (snd row) r) (NodeTransform users computers b st row)" if "row \<in> set backend_from" for st row
      using refs(1) that by (intro NodeTransform_outcome [OF m]) (auto simp: node_refs_iff)
    fix a
    assume "case a of (st', m, t') \<Rightarrow> imported n_uuid node_constraint ?Q backend_from t1 m t' \<and> True"
    then obtain st' m t' rows where a: "a = (st', m, t')" "table_ok node_constraint t'" "maps_entities n_uuid backend_from t' m"
        "t' = append_rows t1 rows" "list_all2 (\<lambda>row r. ?Q (snd row) r) (new_rows n_uuid backend_from t1) rows"
      by (cases a) (auto simp: imported_def)
    have "list_all2 (\<lambda>row r. imported_node users computers b (snd row) r) (new_rows n_uuid backend_from t) rows"
      using a(5) unfolding new_rows_cong [OF extras_merged_same(2) [OF t1(2)]] by (rule list_all2_mono) blast
    moreover have "node_refs (set (pks_of t_users)) (set (pks_of t_computers)) rows"
      using list_all2_in_set2 [OF a(5)] unfolding node_refs_iff by fastforce
    ultimately show "outcome E (\<lambda>(m, t'). nodes_imported users computers b mode backend_from t m t'
        \<and> node_refs (set (pks_of t_users)) (set (pks_of t_computers)) (rows_of t')) (case a of (st, m, t) \<Rightarrow> Inr (m, t))"
      using a t1(2) t1_refs by (auto simp: nodes_imported_def)
  qed simp
qed

section \<open>Logs and comments\<close>

definition log_refs :: "pk set \<Rightarrow> log_row list \<Rightarrow> bool" where
  "log_refs nodes rs \<longleftrightarrow> (\<forall>r \<in> set rs. l_node_id r \<in> nodes)"

lemma log_refs_append [simp]: "log_refs nodes (rs @ rs') \<longleftrightarrow> log_refs nodes rs \<and> log_refs nodes rs'"
  by (auto simp: log_refs_def)

definition imported_log :: "(pk \<times> pk) list \<Rightarrow> log_row \<Rightarrow> log_row \<Rightarrow> bool" where
  "imported_log nodes r r' \<longleftrightarrow>
     l_uuid r' = l_uuid r \<and> map_of nodes (l_node_id r) = Some (l_node_id r') \<and> l_columns r' = l_columns r"

text \<open>A relation of rows with what the new rows satisfy.\<close>

lemma imported_both:
  assumes "imported field constraint (\<lambda>r r'. Q r r' \<and> P r') backend_from t m t'" "\<forall>r \<in> set (rows_of t). P r"
  shows "imported field constraint Q backend_from t m t'" "\<forall>r \<in> set (rows_of t'). P r"
proof -
  from assms(1) obtain rows where ok: "table_ok constraint t'" "maps_entities field backend_from t' m" "t' = append_rows t rows"
      and rel: "list_all2 (\<lambda>row r. Q (snd row) r \<and> P r) (new_rows field backend_from t) rows"
    by (auto simp: imported_def)
  have "list_all2 (\<lambda>row r. Q (snd row) r) (new_rows field backend_from t) rows"
    using rel by (rule list_all2_mono) blast
  then show "imported field constraint Q backend_from t m t'"
    using ok by (auto simp: imported_def)
  have "\<forall>r \<in> set rows. P r"
    using list_all2_in_set2 [OF rel] by blast
  then show "\<forall>r \<in> set (rows_of t'). P r"
    using assms(2) unfolding ok(3) rows_of_append_rows set_append by blast
qed

lemma import_logs_outcome:
  assumes m: "maps_entities n_uuid nodes_from t_nodes nodes"
    and ok: "table_ok log_constraint backend_from" "table_ok log_constraint t"
    and refs: "log_refs (set (pks_of nodes_from)) (rows_of backend_from)" "log_refs (set (pks_of t_nodes)) (rows_of t)"
  shows "outcome E (\<lambda>(m, t'). imported l_uuid log_constraint (imported_log nodes) backend_from t m t'
      \<and> log_refs (set (pks_of t_nodes)) (rows_of t')) (import_logs filter_size nodes backend_from t)"
  unfolding import_logs_def
proof (rule outcome_bind [OF logs.import_entities_outcome [OF ok, where
      Q = "\<lambda>r r'. imported_log nodes r r' \<and> l_node_id r' \<in> set (pks_of t_nodes)"]])
  show "outcome E (\<lambda>(st', r). imported_log nodes (snd row) r \<and> l_node_id r \<in> set (pks_of t_nodes)) (log_transform nodes st row)"
    if "row \<in> set backend_from" for st row
    unfolding log_transform_def
    by (rule outcome_bind [OF translate_outcome [OF m]]) (use refs(1) that in \<open>auto simp: log_refs_def imported_log_def\<close>)
  fix a
  assume a: "case a of (st', m, t') \<Rightarrow>
      imported l_uuid log_constraint (\<lambda>r r'. imported_log nodes r r' \<and> l_node_id r' \<in> set (pks_of t_nodes)) backend_from t m t' \<and> True"
  obtain st' m t' where a': "a = (st', m, t')"
    by (cases a)
  have "imported l_uuid log_constraint (imported_log nodes) backend_from t m t'" "log_refs (set (pks_of t_nodes)) (rows_of t')"
    using a refs(2) imported_both [of l_uuid log_constraint "imported_log nodes" "\<lambda>r'. l_node_id r' \<in> set (pks_of t_nodes)"
        backend_from t m t']
    unfolding log_refs_def a' by auto
  then show "outcome E (\<lambda>(m, t'). imported l_uuid log_constraint (imported_log nodes) backend_from t m t'
      \<and> log_refs (set (pks_of t_nodes)) (rows_of t')) (case a of (st, m, t) \<Rightarrow> Inr (m, t))"
    by (simp add: a')
qed simp

definition comment_refs :: "pk set \<Rightarrow> pk set \<Rightarrow> comment_row list \<Rightarrow> bool" where
  "comment_refs users nodes rs \<longleftrightarrow> (\<forall>r \<in> set rs. cm_user_id r \<in> users \<and> cm_node_id r \<in> nodes)"

definition imported_comment :: "(pk \<times> pk) list \<Rightarrow> (pk \<times> pk) list \<Rightarrow> comment_row \<Rightarrow> comment_row \<Rightarrow> bool" where
  "imported_comment users nodes r r' \<longleftrightarrow>
     cm_uuid r' = cm_uuid r \<and> map_of users (cm_user_id r) = Some (cm_user_id r') \<and> map_of nodes (cm_node_id r) = Some (cm_node_id r')
     \<and> cm_mtime r' = cm_mtime r \<and> cm_content r' = cm_content r"

definition comments_imported ::
  "(pk \<times> pk) list \<Rightarrow> (pk \<times> pk) list \<Rightarrow> string \<Rightarrow> comment_row table \<Rightarrow> comment_row table \<Rightarrow> comment_row table \<Rightarrow> bool" where
  "comments_imported users nodes merge_comments backend_from t t' \<longleftrightarrow>
     table_ok comment_constraint t'
     \<and> (\<exists>t1 rows. comments_merged (comment_change merge_comments) backend_from t t1 \<and> t' = append_rows t1 rows
          \<and> list_all2 (\<lambda>row r. imported_comment users nodes (snd row) r) (new_rows cm_uuid backend_from t) rows)"

lemma comment_refs_fields:
  "comment_refs users nodes (rows_of t) \<longleftrightarrow> set (fields_of cm_user_id t) \<subseteq> users \<and> set (fields_of cm_node_id t) \<subseteq> nodes"
  by (auto simp: comment_refs_def)

lemma import_comments_outcome:
  assumes m: "maps_entities u_email users_from t_users users" "maps_entities n_uuid nodes_from t_nodes nodes"
    and ok: "table_ok comment_constraint backend_from" "table_ok comment_constraint t"
    and merge: "merge_comments \<in> {''leave'', ''newest'', ''overwrite''}"
    and refs: "comment_refs (set (pks_of users_from)) (set (pks_of nodes_from)) (rows_of backend_from)"
      "comment_refs (set (pks_of t_users)) (set (pks_of t_nodes)) (rows_of t)"
  shows "outcome E (\<lambda>(m, t'). comments_imported users nodes merge_comments backend_from t t'
      \<and> comment_refs (set (pks_of t_users)) (set (pks_of t_nodes)) (rows_of t'))
    (import_comments filter_size users nodes merge_comments backend_from t)"
proof -
  have d: "distinct (fields_of cm_uuid backend_from)" "distinct (fields_of cm_uuid t)" "distinct (pks_of t)"
    using ok by (simp_all add: table_ok_def comment_constraint_def comp_def)
  obtain t1 where t1: "merge_comments_of merge_comments (matching cm_uuid backend_from t) backend_from t = Inr t1"
      "comments_merged (comment_change merge_comments) backend_from t t1"
    using merge_comments_exact [OF d merge] by blast
  note same = comments_merged_same [OF t1(2)]
  have t1_ok: "table_ok comment_constraint t1" and t1_refs: "comment_refs (set (pks_of t_users)) (set (pks_of t_nodes)) (rows_of t1)"
    using same d refs(2) unfolding comment_refs_fields by (simp_all add: table_ok_def comment_constraint_def comp_def)
  have eq: "import_comments filter_size users nodes merge_comments backend_from t =
      bind_res (import_entities filter_size cm_uuid comment_constraint (CommentTransform users nodes) backend_from () t1)
        (\<lambda>(st, m, t). Inr (m, t))"
    using t1(1) matching_cong [OF same(1,2), of backend_from] by (simp add: import_comments_def import_entities_def)
  show ?thesis
    unfolding eq
  proof (rule outcome_bind [OF comments.import_entities_outcome [OF ok(1) t1_ok, where
        Q = "\<lambda>r r'. imported_comment users nodes r r' \<and> (cm_user_id r' \<in> set (pks_of t_users) \<and> cm_node_id r' \<in> set (pks_of t_nodes))"]])
    show "outcome E (\<lambda>(st', r). imported_comment users nodes (snd row) r
        \<and> (cm_user_id r \<in> set (pks_of t_users) \<and> cm_node_id r \<in> set (pks_of t_nodes))) (CommentTransform users nodes st row)"
      if "row \<in> set backend_from" for st row
      unfolding CommentTransform_def using refs(1) that
      by (intro outcome_bind [OF translate_outcome [OF m(1)]] outcome_bind [OF translate_outcome [OF m(2)]])
         (auto simp: comment_refs_def imported_comment_def)
    fix a
    assume a: "case a of (st', m, t') \<Rightarrow>
        imported cm_uuid comment_constraint (\<lambda>r r'. imported_comment users nodes r r'
          \<and> (cm_user_id r' \<in> set (pks_of t_users) \<and> cm_node_id r' \<in> set (pks_of t_nodes))) backend_from t1 m t' \<and> True"
    obtain st' m t' where a': "a = (st', m, t')"
      by (cases a)
    have "imported cm_uuid comment_constraint (imported_comment users nodes) backend_from t1 m t'"
      "comment_refs (set (pks_of t_users)) (set (pks_of t_nodes)) (rows_of t')"
      using a t1_refs imported_both [of cm_uuid comment_constraint "imported_comment users nodes"
          "\<lambda>r'. cm_user_id r' \<in> set (pks_of t_users) \<and> cm_node_id r' \<in> set (pks_of t_nodes)" backend_from t1 m t']
      unfolding comment_refs_def a' by auto
    then show "outcome E (\<lambda>(m, t'). comments_imported users nodes merge_comments backend_from t t'
        \<and> comment_refs (set (pks_of t_users)) (set (pks_of t_nodes)) (rows_of t')) (case a of (st, m, t) \<Rightarrow> Inr (m, t))"
      using t1(2) new_rows_cong [OF same(2), of backend_from] unfolding a' by (auto simp: comments_imported_def imported_def)
  qed simp
qed

end
