(* ===== verification/Aiida_Import_Groups.thy ===== *)
theory Aiida_Import_Groups
  imports Aiida_Import_Integrity
begin

text \<open>
  Importing groups and adding the imported nodes to a group.
\<close>

section \<open>Groups\<close>

definition group_refs :: "pk set \<Rightarrow> group_row list \<Rightarrow> bool" where
  "group_refs users rs \<longleftrightarrow> (\<forall>r \<in> set rs. g_user_id r \<in> users)"

definition group_node_refs :: "pk set \<Rightarrow> pk set \<Rightarrow> group_node_row list \<Rightarrow> bool" where
  "group_node_refs groups nodes rs \<longleftrightarrow> (\<forall>r \<in> set rs. gn_group_id r \<in> groups \<and> gn_node_id r \<in> nodes)"

lemma group_node_refs_Cons:
  "group_node_refs groups nodes (r # rs) \<longleftrightarrow> gn_group_id r \<in> groups \<and> gn_node_id r \<in> nodes \<and> group_node_refs groups nodes rs"
  by (auto simp: group_node_refs_def)

lemma group_node_refs_append [simp]:
  "group_node_refs groups nodes (rs @ rs') \<longleftrightarrow> group_node_refs groups nodes rs \<and> group_node_refs groups nodes rs'"
  by (auto simp: group_node_refs_def)

lemma group_node_refs_mono:
  "\<lbrakk> group_node_refs groups nodes rs; groups \<subseteq> groups'; nodes \<subseteq> nodes' \<rbrakk> \<Longrightarrow> group_node_refs groups' nodes' rs"
  by (auto simp: group_node_refs_def)

definition imported_group :: "(pk \<times> pk) list \<Rightarrow> group_row \<Rightarrow> group_row \<Rightarrow> bool" where
  "imported_group users r r' \<longleftrightarrow>
     g_uuid r' = g_uuid r \<and> g_type_string r' = g_type_string r \<and> g_columns r' = g_columns r
     \<and> map_of users (g_user_id r) = Some (g_user_id r')
     \<and> (g_label r' = g_label r \<or> (\<exists>i < DUPLICATE_LABEL_MAX. g_label r' = duplicate_label (g_label r) i))"

definition new_members :: "group_row table \<Rightarrow> group_node_row table \<Rightarrow> group_row table \<Rightarrow> group_node_row list" where
  "new_members groups_from group_nodes_from t =
     filter (\<lambda>r. case map_of groups_from (gn_group_id r) of
       None \<Rightarrow> False | Some g \<Rightarrow> g_uuid g \<notin> set (fields_of g_uuid t)) (rows_of group_nodes_from)"

definition same_member :: "(pk \<times> pk) list \<Rightarrow> (pk \<times> pk) list \<Rightarrow> group_node_row \<Rightarrow> group_node_row \<Rightarrow> bool" where
  "same_member groups nodes r r' \<longleftrightarrow>
     map_of groups (gn_group_id r) = Some (gn_group_id r') \<and> map_of nodes (gn_node_id r) = Some (gn_node_id r')"

definition groups_imported ::
  "(pk \<times> pk) list \<Rightarrow> (pk \<times> pk) list \<Rightarrow> group_row table \<Rightarrow> group_node_row table \<Rightarrow> group_row table \<Rightarrow> group_node_row table
   \<Rightarrow> group_row table \<Rightarrow> group_node_row table \<Rightarrow> bool" where
  "groups_imported users nodes groups_from group_nodes_from t group_nodes t' group_nodes' \<longleftrightarrow>
     (\<exists>m new. imported g_uuid group_constraint (imported_group users) groups_from t m t'
        \<and> table_ok group_node_constraint group_nodes' \<and> group_nodes' = append_rows group_nodes new
        \<and> list_all2 (same_member m nodes) (new_members groups_from group_nodes_from t) new)"

lemma GroupTransform_outcome:
  assumes "maps_entities u_email users_from t_users users" "g_user_id (snd row) \<in> set (pks_of users_from)" "E ImportUniquenessError"
  shows "outcome E (\<lambda>(st', r). imported_group users (snd row) r \<and> g_user_id r \<in> set (pks_of t_users)) (GroupTransform users labels row)"
  unfolding GroupTransform_def
proof (rule outcome_bind [OF translate_outcome [OF assms(1,2)]])
  fix u
  assume u: "map_of users (g_user_id (snd row)) = Some u \<and> u \<in> set (pks_of t_users)"
  show "outcome E (\<lambda>(st', r). imported_group users (snd row) r \<and> g_user_id r \<in> set (pks_of t_users))
      (bind_res (unique_label labels (g_label (snd row))) (\<lambda>label. Inr (label # labels, (snd row)\<lparr>g_user_id := u, g_label := label\<rparr>)))"
    by (rule outcome_bind [OF unique_label_outcome [where E = E, OF assms(3)]])
       (use u unique_label_fresh(2) [of labels "g_label (snd row)"] in \<open>auto simp: imported_group_def\<close>)
qed

lemma translate_group_nodes_outcome:
  assumes "maps_entities g_uuid groups_from t_groups groups" "maps_entities n_uuid nodes_from t_nodes nodes"
    and "group_node_refs (set (pks_of groups_from)) (set (pks_of nodes_from)) rs"
  shows "outcome E (\<lambda>rows. list_all2 (same_member groups nodes) rs rows
      \<and> group_node_refs (set (pks_of t_groups)) (set (pks_of t_nodes)) rows) (translate_group_nodes groups nodes rs)"
  using assms(3)
proof (induction rs)
  case (Cons r rs)
  obtain g where g: "map_of groups (gn_group_id r) = Some g" "g \<in> set (pks_of t_groups)"
    using translate_outcome [OF assms(1), of "gn_group_id r" "\<lambda>_. False"] Cons.prems
    by (auto simp: group_node_refs_def translate_def split: option.splits)
  have prems: "gn_node_id r \<in> set (pks_of nodes_from)" "group_node_refs (set (pks_of groups_from)) (set (pks_of nodes_from)) rs"
    using Cons.prems by (auto simp: group_node_refs_Cons)
  show ?case
    unfolding translate_group_nodes.simps g option.case
  proof (rule outcome_bind [OF translate_outcome [OF assms(2) prems(1)]], rule outcome_bind [OF Cons.IH [OF prems(2)]], goal_cases)
    case (1 n rows)
    then show ?case
      using g unfolding outcome_simps group_node_refs_Cons list.rel_inject same_member_def by simp
  qed
qed (simp add: group_node_refs_def)

text \<open>The groups that were appended are none of the old ones.\<close>

lemma appended_pk:
  assumes "(i, r) \<in> set (append_rows t rows)" "field r \<notin> set (fields_of field t)"
  shows "i \<notin> set (pks_of t)"
proof -
  have "(i, r) \<notin> set t"
    using assms(2) in_fields_of [of i r t field] by blast
  then have "i \<ge> next_pk t"
    using assms(1) by (auto simp: append_rows_def dest: set_zip_leftD)
  then show ?thesis
    using pk_less_next [of i t] by auto
qed

lemma import_groups_outcome:
  assumes m: "maps_entities u_email users_from t_users users" "maps_entities n_uuid nodes_from t_nodes nodes"
    and d: "distinct (fields_of n_uuid nodes_from)" "distinct (pks_of t_nodes)"
    and ok: "table_ok group_constraint groups_from" "table_ok group_constraint t"
      "table_ok group_node_constraint group_nodes_from" "table_ok group_node_constraint group_nodes"
    and refs: "group_refs (set (pks_of users_from)) (rows_of groups_from)" "group_refs (set (pks_of t_users)) (rows_of t)"
      "group_node_refs (set (pks_of groups_from)) (set (pks_of nodes_from)) (rows_of group_nodes_from)"
      "group_node_refs (set (pks_of t)) (set (pks_of t_nodes)) (rows_of group_nodes)"
    and E: "E ImportUniquenessError"
  shows "outcome E (\<lambda>(labels, t', group_nodes').
      groups_imported users nodes groups_from group_nodes_from t group_nodes t' group_nodes'
      \<and> set labels = set (fields_of g_label t') \<and> group_refs (set (pks_of t_users)) (rows_of t')
      \<and> group_node_refs (set (pks_of t')) (set (pks_of t_nodes)) (rows_of group_nodes'))
    (import_groups filter_size batch_size users nodes groups_from group_nodes_from t group_nodes)"
proof -
  have dg: "distinct (fields_of g_uuid groups_from)" "distinct (fields_of g_uuid t)" "distinct (pks_of groups_from)"
    using ok(1,2) by (simp_all add: table_ok_def group_constraint_def comp_def)
  let ?existing = "matching g_uuid groups_from t"
  let ?new_uuids = "filter (\<lambda>u. u \<notin> set (map fst ?existing)) (fields_of g_uuid groups_from)"
  have uuids: "set ?new_uuids = set (fields_of g_uuid groups_from) - set (fields_of g_uuid t)"
    unfolding matching_keys by auto
  have members: "filter (\<lambda>r. case map_of groups_from (gn_group_id r) of
        None \<Rightarrow> False | Some g \<Rightarrow> g_uuid g \<in> set ?new_uuids) (rows_of group_nodes_from) = new_members groups_from group_nodes_from t"
    unfolding new_members_def
  proof (intro filter_cong refl, goal_cases)
    case (1 r)
    show ?case
    proof (cases "map_of groups_from (gn_group_id r)")
      case (Some g)
      then show ?thesis
        using in_fields_of [OF map_of_SomeD [OF Some], of g_uuid] unfolding uuids Some option.case by blast
    qed simp
  qed
  let ?P = "\<lambda>(labels, t', group_nodes').
      groups_imported users nodes groups_from group_nodes_from t group_nodes t' group_nodes'
      \<and> set labels = set (fields_of g_label t') \<and> group_refs (set (pks_of t_users)) (rows_of t')
      \<and> group_node_refs (set (pks_of t')) (set (pks_of t_nodes)) (rows_of group_nodes')"
  let ?Q = "\<lambda>r r'. imported_group users r r' \<and> g_user_id r' \<in> set (pks_of t_users)"
  have groups: "outcome E (\<lambda>(labels, m, t'). imported g_uuid group_constraint ?Q groups_from t m t' \<and> set labels = g_label ` set (rows_of t'))
      (import_with ?existing filter_size g_uuid group_constraint (GroupTransform users) groups_from (map g_label (rows_of t)) t)"
    unfolding import_entities_def [symmetric]
    using refs(1) by (intro groups.import_entities_outcome ok(1,2) GroupTransform_outcome [OF m(1)] E) (auto simp: group_refs_def)
  have after: "outcome E ?P
      (bind_res (translate_group_nodes gm nodes (new_members groups_from group_nodes_from t)) (\<lambda>rows.
       bind_res (insert_batches group_node_constraint (batch_iter batch_size rows) group_nodes) (\<lambda>group_nodes.
       Inr (labels, t', group_nodes))))"
    if imp: "imported g_uuid group_constraint ?Q groups_from t gm t'" and labels: "set labels = g_label ` set (rows_of t')" for labels gm t'
  proof -
    have imp': "imported g_uuid group_constraint (imported_group users) groups_from t gm t'" "group_refs (set (pks_of t_users)) (rows_of t')"
      using imported_both [OF imp] refs(2) unfolding group_refs_def by blast+
    obtain grows where t': "t' = append_rows t grows" "maps_entities g_uuid groups_from t' gm" "table_ok group_constraint t'"
      using imp'(1) by (auto simp: imported_def)
    have sub: "group_node_refs (set (pks_of groups_from)) (set (pks_of nodes_from)) (new_members groups_from group_nodes_from t)"
      using refs(3) by (auto simp: group_node_refs_def new_members_def)
    show ?thesis
    proof (rule outcome_bind [OF translate_group_nodes_outcome [OF t'(2) m(2) sub]])
      fix rows
      assume "list_all2 (same_member gm nodes) (new_members groups_from group_nodes_from t) rows
          \<and> group_node_refs (set (pks_of t')) (set (pks_of t_nodes)) rows"
      then have rel: "list_all2 (same_member gm nodes) (new_members groups_from group_nodes_from t) rows"
        and rows_refs: "group_node_refs (set (pks_of t')) (set (pks_of t_nodes)) rows"
        by auto
      have "distinct rows"
        using ok(3) t'(3) maps_entities_inj [OF t'(2) dg(1)] maps_entities_inj [OF m(2) d]
        by (intro list_all2_distinct [OF rel, of id id, simplified])
           (auto simp: new_members_def table_ok_def group_node_constraint_def same_member_def intro!: group_node_row.equality)
      moreover have "gn_group_id r' \<notin> set (pks_of t)" if r': "r' \<in> set rows" for r'
      proof -
        obtain r where r: "r \<in> set (new_members groups_from group_nodes_from t)" "same_member gm nodes r r'"
          using list_all2_in_set2 [OF rel r'] by blast
        then obtain g where g: "map_of groups_from (gn_group_id r) = Some g" "g_uuid g \<notin> set (fields_of g_uuid t)"
          by (auto simp: new_members_def split: option.splits)
        obtain q q' where q: "(gn_group_id r, q) \<in> set groups_from" "(gn_group_id r', q') \<in> set t'" "g_uuid q' = g_uuid q"
          using maps_entitiesD(2) [OF t'(2)] r(2) unfolding same_member_def by (metis map_of_SomeD)
        then have "g_uuid q' \<notin> set (fields_of g_uuid t)"
          using g same_pk [OF dg(3) q(1) map_of_SomeD [OF g(1)]] by simp
        then show ?thesis
          using appended_pk [of _ q' t grows g_uuid] q(2) t'(1) by blast
      qed
      then have "set (rows_of group_nodes) \<inter> set rows = {}"
        using refs(4) unfolding group_node_refs_def by blast
      ultimately have constraint: "group_node_constraint (rows_of group_nodes @ rows)"
        using ok(4) by (simp add: table_ok_def group_node_constraint_def)
      then have ins: "insert_batches group_node_constraint (batch_iter batch_size rows) group_nodes = Inr (append_rows group_nodes rows)"
        by (rule insert_batch_iter) (simp add: group_node_constraint_def)
      have "group_node_refs (set (pks_of t')) (set (pks_of t_nodes)) (rows_of group_nodes)"
        by (rule group_node_refs_mono [OF refs(4)]) (auto simp: t'(1) append_rows_def)
      then have "?P (labels, t', append_rows group_nodes rows)"
        using imp' labels rel rows_refs constraint ok(4) distinct_pks_append [of group_nodes rows]
        by (auto simp: groups_imported_def table_ok_def image_image)
      then show "outcome E ?P (bind_res (insert_batches group_node_constraint (batch_iter batch_size rows) group_nodes)
          (\<lambda>group_nodes. Inr (labels, t', group_nodes)))"
        unfolding ins by simp
    qed
  qed
  show ?thesis
  proof (cases "length groups_from = length ?existing")
    case True
    then have none: "new_rows g_uuid groups_from t = []"
      using length_matching [OF dg(1,2)] by metis
    then have known: "set (fields_of g_uuid groups_from) \<subseteq> set (fields_of g_uuid t)"
      using fields_new_rows [of g_uuid groups_from t] by simp
    have "new_members groups_from group_nodes_from t = []"
      unfolding new_members_def filter_empty_conv
      using known in_fields_of [OF map_of_SomeD, of groups_from _ _ g_uuid] by (auto split: option.split)
    then have "?P (map g_label (rows_of t), t, group_nodes)"
      using ok none known refs(2,4)
      by (auto simp: groups_imported_def imported_def maps_entities_def image_image intro!: exI [of _ "[]"])
    then show ?thesis
      using True by (simp add: import_groups_def)
  next
    case False
    have eq: "import_groups filter_size batch_size users nodes groups_from group_nodes_from t group_nodes =
        bind_res (import_with ?existing filter_size g_uuid group_constraint (GroupTransform users) groups_from (map g_label (rows_of t)) t)
          (\<lambda>(labels, groups, t').
           bind_res (translate_group_nodes groups nodes (new_members groups_from group_nodes_from t)) (\<lambda>rows.
           bind_res (insert_batches group_node_constraint (batch_iter batch_size rows) group_nodes) (\<lambda>group_nodes.
           Inr (labels, t', group_nodes))))"
      using False unfolding import_groups_def Let_def members by simp
    show ?thesis
      unfolding eq
    proof (rule outcome_bind [OF groups], goal_cases)
      case (1 a)
      then show ?case
        using after [of "fst (snd a)" "snd (snd a)" "fst a"] by (simp only: case_prod_beta)
    qed
  qed
qed

section \<open>The group of the imported nodes\<close>

definition nodes_grouped ::
  "(pk \<times> pk) list \<Rightarrow> group_row table \<Rightarrow> group_node_row table \<Rightarrow> pk option \<Rightarrow> group_row table \<Rightarrow> group_node_row table \<Rightarrow> bool" where
  "nodes_grouped nodes t group_nodes g t' group_nodes' \<longleftrightarrow>
     table_ok group_constraint t' \<and> table_ok group_node_constraint group_nodes'
     \<and> (\<exists>rows. t' = append_rows t rows) \<and> (\<exists>rows. group_nodes' = append_rows group_nodes rows)
     \<and> (case g of
          None \<Rightarrow> nodes = []
        | Some i \<Rightarrow> i \<in> set (pks_of t') \<and> (\<forall>n \<in> snd ` set nodes. \<lparr>gn_group_id = i, gn_node_id = n\<rparr> \<in> set (rows_of group_nodes')))"

lemma add_to_group:
  assumes ok: "table_ok group_node_constraint group_nodes" and d: "distinct ns"
    and refs: "group_node_refs groups nodes (rows_of group_nodes)" "g \<in> groups" "set ns \<subseteq> nodes"
    and members: "set members = gn_node_id ` {r \<in> set (rows_of group_nodes). gn_group_id r = g}"
  shows "\<exists>rows. insert_batches group_node_constraint
      (batch_iter batch_size (map (\<lambda>n. \<lparr>gn_group_id = g, gn_node_id = n\<rparr>) (filter (\<lambda>n. n \<notin> set members) ns))) group_nodes
      = Inr (append_rows group_nodes rows)
    \<and> table_ok group_node_constraint (append_rows group_nodes rows)
    \<and> group_node_refs groups nodes (rows_of (append_rows group_nodes rows))
    \<and> (\<forall>n \<in> set ns. \<lparr>gn_group_id = g, gn_node_id = n\<rparr> \<in> set (rows_of (append_rows group_nodes rows)))"
proof (intro exI conjI)
  let ?rows = "map (\<lambda>n. \<lparr>gn_group_id = g, gn_node_id = n\<rparr>) (filter (\<lambda>n. n \<notin> set members) ns)"
  have "r \<notin> set ?rows" if "r \<in> set (rows_of group_nodes)" for r
  proof
    assume "r \<in> set ?rows"
    then have "gn_group_id r = g" "gn_node_id r \<notin> set members"
      by auto
    then show False
      unfolding members using that by blast
  qed
  then have "set (rows_of group_nodes) \<inter> set ?rows = {}"
    by blast
  moreover have "distinct ?rows"
    using d by (simp add: distinct_map inj_on_def)
  ultimately have c: "group_node_constraint (rows_of group_nodes @ ?rows)"
    using ok by (simp add: table_ok_def group_node_constraint_def)
  then show "insert_batches group_node_constraint (batch_iter batch_size ?rows) group_nodes = Inr (append_rows group_nodes ?rows)"
    by (rule insert_batch_iter) (simp add: group_node_constraint_def)
  show "table_ok group_node_constraint (append_rows group_nodes ?rows)"
    using c ok distinct_pks_append [of group_nodes ?rows] by (simp add: table_ok_def)
  show "group_node_refs groups nodes (rows_of (append_rows group_nodes ?rows))"
    unfolding rows_of_append_rows group_node_refs_append using refs by (auto simp: group_node_refs_def)
  show "\<forall>n \<in> set ns. \<lparr>gn_group_id = g, gn_node_id = n\<rparr> \<in> set (rows_of (append_rows group_nodes ?rows))"
    unfolding rows_of_append_rows set_append
  proof
    fix n
    assume n: "n \<in> set ns"
    show "\<lparr>gn_group_id = g, gn_node_id = n\<rparr> \<in> set (rows_of group_nodes) \<union> set ?rows"
    proof (cases "n \<in> set members")
      case True
      then obtain r where "r \<in> set (rows_of group_nodes)" "gn_group_id r = g" "gn_node_id r = n"
        unfolding members by auto
      then show ?thesis
        by (metis UnI1 group_node_row.surjective unit.exhaust)
    qed (use n in auto)
  qed
qed

lemma make_import_group_outcome:
  assumes ok: "table_ok group_constraint t" "table_ok group_node_constraint group_nodes"
    and refs: "group_refs users (rows_of t)" "group_node_refs (set (pks_of t)) n_pks (rows_of group_nodes)"
    and labels: "set labels = set (fields_of g_label t)"
    and nodes: "distinct (map snd nodes)" "snd ` set nodes \<subseteq> n_pks"
    and grp: "case grp of Some g \<Rightarrow> g \<in> set (pks_of t) | None \<Rightarrow> g_uuid row \<notin> set (fields_of g_uuid t) \<and> g_user_id row \<in> users"
    and E: "E ImportUniquenessError"
  shows "outcome E (\<lambda>(g, t', group_nodes'). nodes_grouped nodes t group_nodes g t' group_nodes'
      \<and> group_refs users (rows_of t') \<and> group_node_refs (set (pks_of t')) n_pks (rows_of group_nodes'))
    (make_import_group batch_size grp now row labels nodes t group_nodes)"
proof (cases "nodes = []")
  case True
  then show ?thesis
    using ok refs by (auto simp: make_import_group_def nodes_grouped_def intro: exI [of _ "[]"])
next
  case False
  let ?P = "\<lambda>(g, t', group_nodes'). nodes_grouped nodes t group_nodes g t' group_nodes'
      \<and> group_refs users (rows_of t') \<and> group_node_refs (set (pks_of t')) n_pks (rows_of group_nodes')"
  have fill: "outcome E ?P (bind_res (insert_batches group_node_constraint
        (batch_iter batch_size (map (\<lambda>n. \<lparr>gn_group_id = g, gn_node_id = n\<rparr>) (filter (\<lambda>n. n \<notin> set members) (map snd nodes)))) group_nodes)
      (\<lambda>group_nodes. Inr (Some g, t', group_nodes)))"
    if t': "t' = append_rows t rows" "table_ok group_constraint t'" "group_refs users (rows_of t')" and g: "g \<in> set (pks_of t')"
      and members: "set members = gn_node_id ` {r \<in> set (rows_of group_nodes). gn_group_id r = g}" for g members t' rows
  proof -
    have refs': "group_node_refs (set (pks_of t')) n_pks (rows_of group_nodes)"
      by (rule group_node_refs_mono [OF refs(2)]) (auto simp: t'(1) append_rows_def)
    have sub: "set (map snd nodes) \<subseteq> n_pks"
      using nodes(2) by simp
    obtain rows' where ins: "insert_batches group_node_constraint
          (batch_iter batch_size (map (\<lambda>n. \<lparr>gn_group_id = g, gn_node_id = n\<rparr>) (filter (\<lambda>n. n \<notin> set members) (map snd nodes)))) group_nodes
          = Inr (append_rows group_nodes rows')"
        and rows': "table_ok group_node_constraint (append_rows group_nodes rows')"
          "group_node_refs (set (pks_of t')) n_pks (rows_of (append_rows group_nodes rows'))"
          "\<forall>n \<in> set (map snd nodes). \<lparr>gn_group_id = g, gn_node_id = n\<rparr> \<in> set (rows_of (append_rows group_nodes rows'))"
      using add_to_group [OF ok(2) nodes(1) refs' g sub members, of batch_size] by metis
    have "nodes_grouped nodes t group_nodes (Some g) t' (append_rows group_nodes rows')"
      unfolding nodes_grouped_def option.case using t'(1,2) g rows'(1,3) unfolding list.set_map by blast
    then show ?thesis
      unfolding ins bind_res_simps outcome_simps prod.case using rows'(2) t'(3) by blast
  qed
  show ?thesis
  proof (cases grp)
    case (Some g)
    then show ?thesis
      using False fill [of t "[]" g "map gn_node_id (filter (\<lambda>r. gn_group_id r = g) (rows_of group_nodes))"] ok refs grp
      by (simp add: make_import_group_def)
  next
    case None
    then have row: "g_uuid row \<notin> set (fields_of g_uuid t)" "g_user_id row \<in> users"
      using grp by simp_all
    have "outcome E ?P (bind_res (unique_label labels now) (\<lambda>label.
        bind_res (bulk_insert group_constraint [row\<lparr>g_label := label\<rparr>] t) (\<lambda>(new_ids, t').
        bind_res (insert_batches group_node_constraint (batch_iter batch_size
          (map (\<lambda>n. \<lparr>gn_group_id = hd new_ids, gn_node_id = n\<rparr>) (filter (\<lambda>n. n \<notin> set []) (map snd nodes)))) group_nodes)
        (\<lambda>group_nodes. Inr (Some (hd new_ids), t', group_nodes)))))"
    proof (rule outcome_bind [OF unique_label_outcome [where E = E, OF E]])
      fix label
      assume label: "label \<notin> set labels"
      let ?row = "row\<lparr>g_label := label\<rparr>"
      have c: "group_constraint (rows_of t @ [?row])"
        using ok(1) row(1) label unfolding labels by (auto simp: table_ok_def group_constraint_def image_iff)
      have ins: "bulk_insert group_constraint [?row] t = Inr ([next_pk t], append_rows t [?row])"
        using c by (simp add: bulk_insert_def)
      have members: "set [] = gn_node_id ` {r \<in> set (rows_of group_nodes). gn_group_id r = next_pk t}"
        using refs(2) pk_less_next unfolding group_node_refs_def by fastforce
      show "outcome E ?P (bind_res (bulk_insert group_constraint [?row] t) (\<lambda>(new_ids, t').
        bind_res (insert_batches group_node_constraint (batch_iter batch_size
          (map (\<lambda>n. \<lparr>gn_group_id = hd new_ids, gn_node_id = n\<rparr>) (filter (\<lambda>n. n \<notin> set []) (map snd nodes)))) group_nodes)
        (\<lambda>group_nodes. Inr (Some (hd new_ids), t', group_nodes))))"
        unfolding ins bind_res_simps prod.case list.sel
      proof (rule fill [OF refl _ _ _ members])
        show "table_ok group_constraint (append_rows t [?row])"
          using c ok(1) distinct_pks_append [of t "[?row]"] by (simp add: table_ok_def)
        show "group_refs users (rows_of (append_rows t [?row]))"
          using refs(1) row(2) unfolding rows_of_append_rows by (auto simp: group_refs_def)
        show "next_pk t \<in> set (pks_of (append_rows t [?row]))"
          by (simp only: pks_of_append_rows) simp
      qed
    qed
    then show ?thesis
      using False None by (simp add: make_import_group_def bind_res_assoc case_prod_unfold)
  qed
qed

end
