(* ===== verification/Aiida_Import_Links.thy ===== *)
theory Aiida_Import_Links
  imports Aiida_Import_Integrity
begin

text \<open>
  Importing links: which links are added, which uniqueness rules hold afterwards, and the rule that is not enforced.
\<close>

section \<open>The loop over the links of one type\<close>

abbreviation of_type :: "link_type \<Rightarrow> link_row list \<Rightarrow> link_row list" where
  "of_type t rs \<equiv> filter (\<lambda>l. li_type l = t) rs"

definition all_links :: "link_state \<Rightarrow> link_row list" where
  "all_links st = rows_of (link_table st) @ insert_rows st"

definition row_triple :: "link_row \<Rightarrow> pk \<times> pk \<times> string" where
  "row_triple l = (li_input_id l, li_output_id l, li_label l)"

definition link_inv :: "link_type \<Rightarrow> link_state \<Rightarrow> bool" where
  "link_inv t st \<longleftrightarrow>
     set (existing_links st) = row_triple ` set (of_type t (all_links st))
     \<and> (''in_id_label'' \<in> set (link_type_uniqueness t) \<longrightarrow>
          set (existing_in_id_label st) = (\<lambda>l. (li_input_id l, li_label l)) ` set (of_type t (all_links st)))
     \<and> (''out_id_label'' \<in> set (link_type_uniqueness t) \<longrightarrow>
          set (existing_out_id_label st) = (\<lambda>l. OutIdLabel (li_output_id l) (li_label l)) ` set (of_type t (all_links st)))
     \<and> (\<forall>i. OutId i \<notin> set (existing_out_id_label st))
     \<and> distinct (pks_of (link_table st))"

text \<open>A link of the archive and its image in the profile; a link that the import accepts.\<close>

definition same_link :: "(pk \<times> pk) list \<Rightarrow> link_row \<Rightarrow> link_row \<Rightarrow> bool" where
  "same_link nodes l l' \<longleftrightarrow>
     map_of nodes (li_input_id l) = Some (li_input_id l') \<and> map_of nodes (li_output_id l) = Some (li_output_id l')
     \<and> li_type l' = li_type l \<and> li_label l' = li_label l"

definition node_type_of :: "'v node_row table \<Rightarrow> pk \<Rightarrow> string" where
  "node_type_of nodes i = (case map_of nodes i of None \<Rightarrow> [] | Some n \<Rightarrow> n_node_type n)"

definition valid_link :: "'v node_row table \<Rightarrow> link_row \<Rightarrow> bool" where
  "valid_link nodes l \<longleftrightarrow>
     li_input_id l \<noteq> li_output_id l
     \<and> str_startswith (node_type_of nodes (li_input_id l)) (fst (allowed_link_nodes (li_type l)))
     \<and> str_startswith (node_type_of nodes (li_output_id l)) (snd (allowed_link_nodes (li_type l)))"

definition link_refs :: "pk set \<Rightarrow> link_row list \<Rightarrow> bool" where
  "link_refs nodes rs \<longleftrightarrow> (\<forall>l \<in> set rs. li_input_id l \<in> nodes \<and> li_output_id l \<in> nodes)"

text \<open>The uniqueness of outgoing labels of \<open>CREATE\<close> and \<open>RETURN\<close> links and of the labels of inputs.\<close>

definition labels_unique :: "link_type \<Rightarrow> link_row list \<Rightarrow> bool" where
  "labels_unique t rs \<longleftrightarrow>
     (''in_id_label'' \<in> set (link_type_uniqueness t) \<longrightarrow> distinct (map (\<lambda>l. (li_input_id l, li_label l)) (of_type t rs)))
     \<and> (''out_id_label'' \<in> set (link_type_uniqueness t) \<longrightarrow> distinct (map (\<lambda>l. (li_output_id l, li_label l)) (of_type t rs)))"

lemma labels_unique_other: "li_type l \<noteq> t \<Longrightarrow> labels_unique t (rs @ [l]) = labels_unique t rs"
  by (simp add: labels_unique_def)

lemma all_links_flush [simp]: "all_links (flush_links st) = all_links st"
  by (simp add: all_links_def flush_links_def)

lemma link_inv_flush [simp]: "link_inv t st \<Longrightarrow> link_inv t (flush_links st)"
  unfolding link_inv_def all_links_flush using distinct_pks_append by (auto simp: flush_links_def)

lemma initial_link_inv: "distinct (pks_of links) \<Longrightarrow> link_inv t (initial_link_state t links)"
  by (auto simp: link_inv_def initial_link_state_def all_links_def row_triple_def Let_def image_image comp_def intro!: image_cong)

text \<open>The archive link of a row.\<close>

definition archive_link_of :: "'v node_row table \<Rightarrow> link_row \<Rightarrow> archive_link" where
  "archive_link_of nodes l =
     \<lparr>al_in_id = li_input_id l, al_in_type = node_type_of nodes (li_input_id l), al_out_id = li_output_id l,
      al_out_type = node_type_of nodes (li_output_id l), al_label = li_label l\<rparr>"

lemma archive_links_exact:
  assumes "link_refs (set (pks_of nodes)) (rows_of links)"
  shows "archive_links nodes links t = map (archive_link_of nodes) (of_type t (rows_of links))"
proof -
  have "(case (map_of nodes (li_input_id l), map_of nodes (li_output_id l)) of
         (Some i, Some out) \<Rightarrow>
           [\<lparr>al_in_id = li_input_id l, al_in_type = n_node_type i, al_out_id = li_output_id l,
             al_out_type = n_node_type out, al_label = li_label l\<rparr>]
       | _ \<Rightarrow> []) = [archive_link_of nodes l]" if "l \<in> set (rows_of links)" for l
  proof -
    have "li_input_id l \<in> set (pks_of nodes)" "li_output_id l \<in> set (pks_of nodes)"
      using assms that by (auto simp: link_refs_def)
    then obtain i out where "map_of nodes (li_input_id l) = Some i" "map_of nodes (li_output_id l) = Some out"
      by (metis list.set_map map_of_eq_None_iff not_Some_eq)
    then show ?thesis
      by (simp add: archive_link_of_def node_type_of_def)
  qed
  then have "archive_links nodes links t = concat (map (\<lambda>l. [archive_link_of nodes l]) (of_type t (rows_of links)))"
    unfolding archive_links_def by (intro arg_cong [where f = concat] map_cong refl) auto
  then show ?thesis
    by (simp add: concat_map_singleton)
qed

text \<open>What is added for the links \<open>ls\<close> of the archive.\<close>

definition links_added :: "(pk \<times> pk) list \<Rightarrow> 'v node_row table \<Rightarrow> link_row list \<Rightarrow> link_row list \<Rightarrow> link_row list \<Rightarrow> bool" where
  "links_added nodes nodes_from ls rs rs' \<longleftrightarrow>
     (\<exists>new. rs' = rs @ new \<and> (\<forall>l' \<in> set new. \<exists>l \<in> set ls. same_link nodes l l' \<and> valid_link nodes_from l))
     \<and> (\<forall>l \<in> set ls. \<exists>l' \<in> set rs'. same_link nodes l l')
     \<and> (\<forall>t. labels_unique t rs \<longrightarrow> labels_unique t rs')"

lemma links_added_Nil [simp]: "links_added nodes nodes_from [] rs rs"
  by (auto simp: links_added_def)

lemma links_added_trans:
  assumes "links_added nodes nodes_from ls rs rs1" "links_added nodes nodes_from ls' rs1 rs2"
  shows "links_added nodes nodes_from (ls @ ls') rs rs2"
  using assms unfolding links_added_def by (fastforce simp: image_iff)

lemma import_link_outcome:
  assumes inv: "link_inv t st" and l: "li_type l = t" "map_of nodes (li_input_id l) = Some i" "map_of nodes (li_output_id l) = Some out"
    and E: "E ImportUniquenessError" "E ImportValidationError \<or> valid_link nodes_from l \<and> i \<noteq> out"
  shows "outcome E (\<lambda>st'. link_inv t st' \<and> links_added nodes nodes_from [l] (all_links st) (all_links st'))
    (import_link batch_size nodes t (archive_link_of nodes_from l) st)"
proof (cases "(i, out, li_label l) \<in> set (existing_links st)")
  case True
  then obtain l' where "l' \<in> set (all_links st)" "li_type l' = t" "row_triple l' = (i, out, li_label l)"
    using inv unfolding link_inv_def by auto
  then have "\<exists>l' \<in> set (all_links st). same_link nodes l l'"
    using l by (auto simp: same_link_def row_triple_def)
  then have "links_added nodes nodes_from [l] (all_links st) (all_links st)"
    by (simp add: links_added_def)
  moreover have "import_link batch_size nodes t (archive_link_of nodes_from l) st = Inr st"
    using True l by (simp add: import_link_def archive_link_of_def translate_def case_prod_beta)
  ultimately show ?thesis
    using inv by simp
next
  case False
  let ?new = "\<lparr>li_input_id = i, li_output_id = out, li_type = t, li_label = li_label l\<rparr>"
  let ?st = "st\<lparr>new_count := new_count st + 1, insert_rows := insert_rows st @ [?new],
       existing_links := (i, out, li_label l) # existing_links st,
       existing_in_id_label := (i, li_label l) # existing_in_id_label st,
       existing_out_id := out # existing_out_id st,
       existing_out_id_label := OutIdLabel out (li_label l) # existing_out_id_label st\<rparr>"
  have all: "all_links ?st = all_links st @ [?new]"
    by (simp add: all_links_def)
  have inv': "link_inv t ?st"
    using inv unfolding link_inv_def all by (auto simp: row_triple_def all_links_def)
  show ?thesis
  proof (cases "i \<noteq> out \<and> str_startswith (node_type_of nodes_from (li_input_id l)) (fst (allowed_link_nodes t))
      \<and> str_startswith (node_type_of nodes_from (li_output_id l)) (snd (allowed_link_nodes t))")
    case valid: True
    let ?u = "set (link_type_uniqueness t)"
    have no_out_id: "OutId out \<notin> set (existing_out_id_label st)"
      using inv by (simp add: link_inv_def)
    show ?thesis
    proof (cases "''in_id_label'' \<in> ?u \<and> (i, li_label l) \<in> set (existing_in_id_label st)
        \<or> ''out_id_label'' \<in> ?u \<and> OutIdLabel out (li_label l) \<in> set (existing_out_id_label st)")
      case True
      then have "import_link batch_size nodes t (archive_link_of nodes_from l) st = Inl ImportUniquenessError"
        using False valid l no_out_id by (auto simp: import_link_def archive_link_of_def translate_def case_prod_beta guard_def)
      then show ?thesis
        using E by simp
    next
      case unique: False
      then have eq: "import_link batch_size nodes t (archive_link_of nodes_from l) st =
          Inr (if new_count ?st mod batch_size = 0 then flush_links ?st else ?st)"
        using False valid l no_out_id by (simp add: import_link_def archive_link_of_def translate_def case_prod_beta guard_def Let_def)
      have "labels_unique t' (all_links st @ [?new])" if "labels_unique t' (all_links st)" for t'
        using that unique inv by (cases "t' = t") (auto simp: labels_unique_def link_inv_def)
      moreover have "same_link nodes l ?new" "valid_link nodes_from l"
        using l valid by (auto simp: same_link_def valid_link_def)
      ultimately have "links_added nodes nodes_from [l] (all_links st) (all_links st @ [?new])"
        unfolding links_added_def by fastforce
      then show ?thesis
        unfolding eq using inv' all by simp
    qed
  next
    case invalid: False
    then have "import_link batch_size nodes t (archive_link_of nodes_from l) st = Inl ImportValidationError"
      using False l by (auto simp: import_link_def archive_link_of_def translate_def case_prod_beta guard_def)
    then show ?thesis
      using E invalid l by (auto simp: valid_link_def)
  qed
qed

lemma import_links_loop_outcome:
  assumes "link_inv t st" "\<And>l. l \<in> set ls \<Longrightarrow> li_type l = t"
    and "\<And>l. l \<in> set ls \<Longrightarrow> \<exists>i out. map_of nodes (li_input_id l) = Some i \<and> map_of nodes (li_output_id l) = Some out
      \<and> (E ImportValidationError \<or> valid_link nodes_from l \<and> i \<noteq> out)"
    and "E ImportUniquenessError"
  shows "outcome E (\<lambda>st'. link_inv t st' \<and> links_added nodes nodes_from ls (all_links st) (all_links st'))
    (import_links_loop batch_size nodes t (map (archive_link_of nodes_from) ls) st)"
  using assms(1-3)
proof (induction ls arbitrary: st)
  case (Cons l ls)
  obtain i out where io: "map_of nodes (li_input_id l) = Some i" "map_of nodes (li_output_id l) = Some out"
      "E ImportValidationError \<or> valid_link nodes_from l \<and> i \<noteq> out"
    using Cons.prems(3) [of l] by auto
  have "li_type l = t"
    using Cons.prems(2) by simp
  show ?case
    unfolding list.map import_links_loop.simps
  proof (rule outcome_bind [OF import_link_outcome [where E = E, OF Cons.prems(1) \<open>li_type l = t\<close> io(1,2) assms(4) io(3)]])
    fix st1
    assume st1: "link_inv t st1 \<and> links_added nodes nodes_from [l] (all_links st) (all_links st1)"
    show "outcome E (\<lambda>st'. link_inv t st' \<and> links_added nodes nodes_from (l # ls) (all_links st) (all_links st'))
        (import_links_loop batch_size nodes t (map (archive_link_of nodes_from) ls) st1)"
      by (rule outcome_mono [OF Cons.IH [of st1]])
         (use st1 Cons.prems(2,3) links_added_trans [of nodes nodes_from "[l]" _ _ ls] in auto)
  qed
qed simp

section \<open>All links\<close>

lemma import_links_of_type_outcome:
  assumes "distinct (pks_of links)" "link_refs (set (pks_of nodes_from)) (rows_of links_from)"
    and "\<And>l. l \<in> set (of_type t (rows_of links_from)) \<Longrightarrow> \<exists>i out. map_of nodes (li_input_id l) = Some i
      \<and> map_of nodes (li_output_id l) = Some out \<and> (E ImportValidationError \<or> valid_link nodes_from l \<and> i \<noteq> out)"
    and "E ImportUniquenessError"
  shows "outcome E (\<lambda>links'. distinct (pks_of links')
      \<and> links_added nodes nodes_from (of_type t (rows_of links_from)) (rows_of links) (rows_of links'))
    (import_links_of_type batch_size nodes nodes_from links_from t links)"
  unfolding import_links_of_type_def archive_links_exact [OF assms(2)]
proof (rule outcome_bind [OF import_links_loop_outcome [OF initial_link_inv [OF assms(1)] _ assms(3,4)]])
  fix st
  assume st: "link_inv t st \<and> links_added nodes nodes_from (of_type t (rows_of links_from))
      (all_links (initial_link_state t links)) (all_links st)"
  have "all_links (initial_link_state t links) = rows_of links" "all_links st = rows_of (link_table (flush_links st))"
    by (simp_all add: all_links_def initial_link_state_def flush_links_def Let_def)
  then show "outcome E (\<lambda>links'. distinct (pks_of links')
      \<and> links_added nodes nodes_from (of_type t (rows_of links_from)) (rows_of links) (rows_of links'))
      (Inr (link_table (flush_links st)))"
    using st link_inv_flush [of t st] by (simp add: link_inv_def)
qed auto

lemma import_link_types_outcome:
  assumes "distinct (pks_of links)" "link_refs (set (pks_of nodes_from)) (rows_of links_from)"
    and "\<And>l. l \<in> set (rows_of links_from) \<Longrightarrow> \<exists>i out. map_of nodes (li_input_id l) = Some i
      \<and> map_of nodes (li_output_id l) = Some out \<and> (E ImportValidationError \<or> valid_link nodes_from l \<and> i \<noteq> out)"
    and "E ImportUniquenessError"
  shows "outcome E (\<lambda>links'. distinct (pks_of links')
      \<and> links_added nodes nodes_from (concat (map (\<lambda>t. of_type t (rows_of links_from)) ts)) (rows_of links) (rows_of links'))
    (import_link_types batch_size nodes nodes_from links_from ts links)"
  using assms(1)
proof (induction ts arbitrary: links)
  case (Cons t ts)
  show ?case
    unfolding import_link_types.simps
  proof (rule outcome_bind [OF import_links_of_type_outcome [where E = E and nodes = nodes, OF Cons.prems assms(2) _ assms(4)]])
    fix links1
    assume l1: "distinct (pks_of links1)
        \<and> links_added nodes nodes_from (of_type t (rows_of links_from)) (rows_of links) (rows_of links1)"
    show "outcome E (\<lambda>links'. distinct (pks_of links')
        \<and> links_added nodes nodes_from (concat (map (\<lambda>t. of_type t (rows_of links_from)) (t # ts))) (rows_of links) (rows_of links'))
      (import_link_types batch_size nodes nodes_from links_from ts links1)"
      by (rule outcome_mono [OF Cons.IH]) (use l1 links_added_trans in auto)
  qed (use assms(3) in auto)
qed simp

lemma import_links_outcome:
  assumes "distinct (pks_of links)" "link_refs (set (pks_of nodes_from)) (rows_of links_from)"
    and m: "maps_entities n_uuid nodes_from t_nodes nodes" "distinct (fields_of n_uuid nodes_from)" "distinct (pks_of t_nodes)"
    and E: "E ImportUniquenessError" "E ImportValidationError \<or> (\<forall>l \<in> set (rows_of links_from). valid_link nodes_from l)"
    and refs: "link_refs (set (pks_of t_nodes)) (rows_of links)"
  shows "outcome E (\<lambda>links'. distinct (pks_of links') \<and> link_refs (set (pks_of t_nodes)) (rows_of links')
      \<and> links_added nodes nodes_from (rows_of links_from) (rows_of links) (rows_of links'))
    (import_links batch_size nodes nodes_from links_from links)"
proof -
  have known: "\<exists>i out. map_of nodes (li_input_id l) = Some i \<and> map_of nodes (li_output_id l) = Some out
      \<and> i \<in> set (pks_of t_nodes) \<and> out \<in> set (pks_of t_nodes) \<and> (E ImportValidationError \<or> valid_link nodes_from l \<and> i \<noteq> out)"
    if l: "l \<in> set (rows_of links_from)" for l
  proof -
    have "li_input_id l \<in> set (pks_of nodes_from)" "li_output_id l \<in> set (pks_of nodes_from)"
      using assms(2) l by (auto simp: link_refs_def)
    then obtain i out where io: "map_of nodes (li_input_id l) = Some i" "map_of nodes (li_output_id l) = Some out"
        "i \<in> set (pks_of t_nodes)" "out \<in> set (pks_of t_nodes)"
      using translate_outcome [OF m(1), of "li_input_id l" "\<lambda>_. False"] translate_outcome [OF m(1), of "li_output_id l" "\<lambda>_. False"]
      by (auto simp: translate_def split: option.splits)
    moreover have "i \<noteq> out" if "valid_link nodes_from l"
      using maps_entities_inj [OF m io(1)] io(2) that by (auto simp: valid_link_def)
    ultimately show ?thesis
      using E(2) l by blast
  qed
  have all: "set (concat (map (\<lambda>t. of_type t (rows_of links_from)) link_types)) = set (rows_of links_from)"
    using link_type.exhaust by (auto simp: link_types_def)
  show ?thesis
    unfolding import_links_def
  proof (rule outcome_mono [OF import_link_types_outcome [where E = E and nodes = nodes, OF assms(1,2) _ E(1)]])
    fix links'
    assume l': "distinct (pks_of links') \<and> links_added nodes nodes_from
        (concat (map (\<lambda>t. of_type t (rows_of links_from)) link_types)) (rows_of links) (rows_of links')"
    then have added: "links_added nodes nodes_from (rows_of links_from) (rows_of links) (rows_of links')"
      unfolding links_added_def all by simp
    obtain new where new: "rows_of links' = rows_of links @ new" "\<forall>l' \<in> set new. \<exists>l \<in> set (rows_of links_from). same_link nodes l l'"
      using added unfolding links_added_def by blast
    have "li_input_id l \<in> set (pks_of t_nodes) \<and> li_output_id l \<in> set (pks_of t_nodes)" if l: "l \<in> set new" for l
    proof -
      obtain l0 where l0: "l0 \<in> set (rows_of links_from)" "same_link nodes l0 l"
        using new(2) l by blast
      then show ?thesis
        using known [OF l0(1)] by (auto simp: same_link_def)
    qed
    then have "link_refs (set (pks_of t_nodes)) (rows_of links')"
      using refs unfolding new(1) link_refs_def set_append by blast
    then show "distinct (pks_of links') \<and> link_refs (set (pks_of t_nodes)) (rows_of links')
        \<and> links_added nodes nodes_from (rows_of links_from) (rows_of links) (rows_of links')"
      using l' added by simp
  qed (use known in blast)
qed

end
