(* ===== verification/Aiida_Export.thy ===== *)
theory Aiida_Export
  imports Aiida_Graph_Traversal Aiida_Values Aiida_Import_Groups Aiida_Import_Links
begin

text \<open>
  The export of an archive: \<open>create_archive\<close> of \<open>tools/archive/create.py\<close> with the parts of
  \<open>tools/archive/implementations/sqlite_zip/writer.py\<close> it calls.  The profile is a database with the values of
  \<open>Aiida_Values\<close> as attributes and extras; the archive is the database and the objects that the writer has put in the file.
  A Python set of links is iterated in an order that is a parameter.  The metadata of the archive, the reports and
  the compression of the file are not modelled.
\<close>

section \<open>The entities to export\<close>

record entity_ids =
  e_users :: "pk set"
  e_computers :: "pk set"
  e_authinfos :: "pk set"
  e_groups :: "pk set"
  e_nodes :: "pk set"
  e_comments :: "pk set"
  e_logs :: "pk set"

definition no_entities :: entity_ids where
  "no_entities = \<lparr>e_users = {}, e_computers = {}, e_authinfos = {}, e_groups = {}, e_nodes = {}, e_comments = {}, e_logs = {}\<rparr>"

text \<open>What the caller gives, with the primary key if it is stored.  Something else has a primary key and a UUID, or it lacks
  the attribute.\<close>

datatype export_entry =
    GroupEntry "pk option"
  | NodeEntry "pk option"
  | ComputerEntry "pk option"
  | UserEntry "pk option"
  | OtherEntry "(pk option \<times> string option) option"

text \<open>Groups, nodes and computers always have a UUID, users never.\<close>

fun entry_skipped :: "export_entry \<Rightarrow> bool res" where
  "entry_skipped (GroupEntry pk) = Inr (pk = None)"
| "entry_skipped (NodeEntry pk) = Inr (pk = None)"
| "entry_skipped (ComputerEntry pk) = Inr (pk = None)"
| "entry_skipped (UserEntry pk) = Inr True"
| "entry_skipped (OtherEntry None) = Inl AttributeError"
| "entry_skipped (OtherEntry (Some (pk, uuid))) = Inr (pk = None \<or> uuid = None)"

fun add_entry :: "export_entry \<Rightarrow> entity_ids \<Rightarrow> entity_ids res" where
  "add_entry (GroupEntry pk) ids = Inr (ids\<lparr>e_groups := insert (the pk) (e_groups ids)\<rparr>)"
| "add_entry (NodeEntry pk) ids = Inr (ids\<lparr>e_nodes := insert (the pk) (e_nodes ids)\<rparr>)"
| "add_entry (ComputerEntry pk) ids = Inr (ids\<lparr>e_computers := insert (the pk) (e_computers ids)\<rparr>)"
| "add_entry (UserEntry pk) ids = Inr (ids\<lparr>e_users := insert (the pk) (e_users ids)\<rparr>)"
| "add_entry (OtherEntry e) ids = Inl ArchiveExportError"

fun starting_entities :: "export_entry list \<Rightarrow> entity_ids \<Rightarrow> entity_ids res" where
  "starting_entities [] ids = Inr ids"
| "starting_entities (e # es) ids =
     bind_res (entry_skipped e) (\<lambda>skipped.
     if skipped then starting_entities es ids
     else bind_res (add_entry e ids) (starting_entities es))"

section \<open>Collecting\<close>

text \<open>The rows with one of the given keys.\<close>

definition select :: "pk set \<Rightarrow> 'r table \<Rightarrow> 'r table" where
  "select ids t = filter (\<lambda>row. fst row \<in> ids) t"

text \<open>The links with both ends in the table of nodes, and the members of groups, as the queries join them.\<close>

definition all_link_data :: "'v Aiida_Import.database \<Rightarrow> edge set" where
  "all_link_data db =
     (\<lambda>l. LinkQuadruple (int (li_input_id l)) (int (li_output_id l)) (li_type l) (li_label l)) `
       {l \<in> set (rows_of (db_links db)). li_input_id l \<in> set (pks_of (db_nodes db)) \<and> li_output_id l \<in> set (pks_of (db_nodes db))}"

definition group_members :: "pk set \<Rightarrow> 'v Aiida_Import.database \<Rightarrow> (pk \<times> pk) list" where
  "group_members groups db =
     remdups (map (\<lambda>r. (gn_group_id r, gn_node_id r))
       (filter (\<lambda>r. gn_group_id r \<in> groups \<inter> set (pks_of (db_groups db)) \<and> gn_node_id r \<in> set (pks_of (db_nodes db)))
         (rows_of (db_group_nodes db))))"

record include_options =
  inc_authinfos :: bool
  inc_comments :: bool
  inc_logs :: bool

definition collect_all_entities ::
  "include_options \<Rightarrow> 'v Aiida_Import.database \<Rightarrow> entity_ids \<Rightarrow> entity_ids \<times> (pk \<times> pk) list \<times> edge set" where
  "collect_all_entities inc db ids =
     (ids\<lparr>e_nodes := e_nodes ids \<union> set (pks_of (db_nodes db)),
          e_groups := e_groups ids \<union> set (pks_of (db_groups db)),
          e_computers := e_computers ids \<union> set (pks_of (db_computers db)),
          e_authinfos := e_authinfos ids \<union> (if inc_authinfos inc then set (pks_of (db_authinfos db)) else {}),
          e_logs := e_logs ids \<union> (if inc_logs inc then set (pks_of (db_logs db)) else {}),
          e_comments := e_comments ids \<union> (if inc_comments inc then set (pks_of (db_comments db)) else {}),
          e_users := e_users ids \<union> set (pks_of (db_users db))\<rparr>,
      group_members (set (pks_of (db_groups db))) db, all_link_data db)"

text \<open>The keys of a table that the selected rows of another one refer to, and the keys of rows that refer to selected ones.\<close>

definition referred :: "'s table \<Rightarrow> ('r \<Rightarrow> pk option) \<Rightarrow> pk set \<Rightarrow> 'r table \<Rightarrow> pk set" where
  "referred target ref ids t = set (filter (\<lambda>pk. Some pk \<in> (\<lambda>row. ref (snd row)) ` set (select ids t)) (pks_of target))"

definition referring :: "'r table \<Rightarrow> ('r \<Rightarrow> pk) \<Rightarrow> pk set \<Rightarrow> 's table \<Rightarrow> pk set" where
  "referring t ref ids target = set (map fst (filter (\<lambda>row. ref (snd row) \<in> fst ` set (select ids target)) t))"

text \<open>The provenance graph of the profile, for the traversal.\<close>

definition provenance_of :: "'v Aiida_Import.database \<Rightarrow> Aiida_Graph_Traversal.database" where
  "provenance_of db =
     Aiida_Graph_Traversal.database.make (map int (pks_of (db_nodes db)))
       (map (\<lambda>l. (int (li_input_id l), int (li_output_id l), li_type l, li_label l)) (rows_of (db_links db)))
       (map (\<lambda>r. (int (gn_group_id r), int (gn_node_id r))) (rows_of (db_group_nodes db)))"

definition collect_nodes ::
  "(pk set \<Rightarrow> pk list) \<Rightarrow> kwarg dict \<Rightarrow> 'v Aiida_Import.database \<Rightarrow> entity_ids
   \<Rightarrow> (entity_ids \<times> (pk \<times> pk) list \<times> edge set) res option" where
  "collect_nodes iter traversal_rules db ids =
     (let group_nodes = (if e_groups ids = {} then [] else group_members (e_groups ids) db);
          ids = ids\<lparr>e_nodes := e_nodes ids \<union> snd ` set group_nodes\<rparr>
      in map_option (\<lambda>r. bind_res r (\<lambda>traverse_output.
           Inr (ids\<lparr>e_nodes := e_nodes ids \<union> nat ` tr_nodes traverse_output\<rparr>, group_nodes,
             (case tr_links traverse_output of None \<Rightarrow> {} | Some links \<Rightarrow> links))))
           (get_nodes_export (provenance_of db) (map (\<lambda>pk. IntKey (int pk)) (iter (e_nodes ids))) True traversal_rules))"

text \<open>The entities that belong to the nodes and groups, each step on what has been collected by then.\<close>

definition collect_owned :: "include_options \<Rightarrow> 'v Aiida_Import.database \<Rightarrow> entity_ids \<Rightarrow> entity_ids" where
  "collect_owned inc db ids =
     (let ids = ids\<lparr>e_computers := e_computers ids \<union> referred (db_computers db) n_computer_id (e_nodes ids) (db_nodes db)\<rparr>;
          ids = ids\<lparr>e_authinfos := e_authinfos ids \<union>
            (if inc_authinfos inc then referring (db_authinfos db) ai_computer_id (e_computers ids) (db_computers db) else {})\<rparr>;
          ids = ids\<lparr>e_logs := e_logs ids \<union>
            (if inc_logs inc then referring (db_logs db) l_node_id (e_nodes ids) (db_nodes db) else {})\<rparr>;
          ids = ids\<lparr>e_comments := e_comments ids \<union>
            (if inc_comments inc then referring (db_comments db) cm_node_id (e_nodes ids) (db_nodes db) else {})\<rparr>
      in ids\<lparr>e_users := e_users ids
           \<union> referred (db_users db) (\<lambda>r. Some (n_user_id r)) (e_nodes ids) (db_nodes db)
           \<union> referred (db_users db) (\<lambda>r. Some (g_user_id r)) (e_groups ids) (db_groups db)
           \<union> referred (db_users db) (\<lambda>r. Some (cm_user_id r)) (e_comments ids) (db_comments db)
           \<union> referred (db_users db) (\<lambda>r. Some (ai_user_id r)) (e_authinfos ids) (db_authinfos db)\<rparr>)"

definition collect_required_entities ::
  "(pk set \<Rightarrow> pk list) \<Rightarrow> kwarg dict \<Rightarrow> include_options \<Rightarrow> 'v Aiida_Import.database \<Rightarrow> entity_ids
   \<Rightarrow> (entity_ids \<times> (pk \<times> pk) list \<times> edge set) res option" where
  "collect_required_entities iter traversal_rules inc db ids =
     map_option (\<lambda>r. bind_res r (\<lambda>(ids, group_nodes, link_data). Inr (collect_owned inc db ids, group_nodes, link_data)))
       (collect_nodes iter traversal_rules db ids)"

section \<open>Checks\<close>

definition check_unsealed_nodes :: "pyvalue Aiida_Import.database \<Rightarrow> pk set \<Rightarrow> unit res" where
  "check_unsealed_nodes db ids =
     guard (list_all (\<lambda>(pk, r). str_startswith (n_node_type r) ''process.'' \<longrightarrow> map_of (n_attributes r) ''sealed'' = Some (PBool True))
       (select ids (db_nodes db))) ExportValidationError"

text \<open>The value at \<open>attributes.source.license\<close>, where a missing one and a null are the same.\<close>

definition license_of :: "pyvalue dict \<Rightarrow> pyvalue option" where
  "license_of attributes =
     (case map_of attributes ''source'' of
        Some (PMapping d) \<Rightarrow> (case map_of d (KeyStr ''license'') of Some PNone \<Rightarrow> None | r \<Rightarrow> r)
      | _ \<Rightarrow> None)"

text \<open>Licenses are given by nothing, a function that may raise, a list, or something else.\<close>

datatype licenses = NoLicenses | LicenseFunction "pyvalue \<Rightarrow> bool option" | LicenseList "string list" | LicenseOther

fun check_license :: "bool \<Rightarrow> licenses \<Rightarrow> pyvalue \<Rightarrow> bool res" where
  "check_license dflt NoLicenses lic = Inr dflt"
| "check_license dflt (LicenseFunction f) lic = (case f lic of None \<Rightarrow> Inl LicensingException | Some b \<Rightarrow> Inr b)"
| "check_license dflt (LicenseList ls) lic = Inr (case lic of PStr s \<Rightarrow> s \<in> set ls | _ \<Rightarrow> False)"
| "check_license dflt LicenseOther lic = Inl TypeError"

fun check_names :: "licenses \<Rightarrow> licenses \<Rightarrow> pyvalue option list \<Rightarrow> unit res" where
  "check_names allowed forbidden [] = Inr ()"
| "check_names allowed forbidden (None # names) = check_names allowed forbidden names"
| "check_names allowed forbidden (Some lic # names) =
     bind_res (check_license True allowed lic) (\<lambda>is_allowed.
     bind_res (guard is_allowed LicensingException) (\<lambda>_.
     bind_res (check_license False forbidden lic) (\<lambda>is_forbidden.
     bind_res (guard (\<not> is_forbidden) LicensingException) (\<lambda>_.
     check_names allowed forbidden names))))"

definition check_node_licenses :: "licenses \<Rightarrow> licenses \<Rightarrow> pyvalue Aiida_Import.database \<Rightarrow> pk set \<Rightarrow> unit res" where
  "check_node_licenses allowed forbidden db ids =
     (case (allowed, forbidden) of
        (NoLicenses, NoLicenses) \<Rightarrow> Inr ()
      | (LicenseOther, _) \<Rightarrow> Inl TypeError
      | (_, LicenseOther) \<Rightarrow> Inl TypeError
      | _ \<Rightarrow> check_names allowed forbidden (map (\<lambda>row. license_of (n_attributes (snd row))) (select ids (db_nodes db))))"

section \<open>Writing\<close>

text \<open>The writer inserts rows with their keys; the database of the archive enforces its constraints and foreign keys.\<close>

definition archive_insert :: "('r list \<Rightarrow> bool) \<Rightarrow> ('r list \<Rightarrow> bool) \<Rightarrow> 'r table \<Rightarrow> 'r table \<Rightarrow> 'r table res" where
  "archive_insert constraint refs rows t =
     (if rows = [] then Inr t
      else if distinct (pks_of (t @ rows)) \<and> constraint (rows_of (t @ rows)) \<and> refs (rows_of rows) then Inr (t @ rows)
      else Inl IntegrityError)"

fun write_batches :: "('r list \<Rightarrow> bool) \<Rightarrow> ('r list \<Rightarrow> bool) \<Rightarrow> 'r table list \<Rightarrow> 'r table \<Rightarrow> 'r table res" where
  "write_batches constraint refs [] t = Inr t"
| "write_batches constraint refs (rows # batches) t =
     bind_res (archive_insert constraint refs rows t) (write_batches constraint refs batches)"

definition write_rows ::
  "nat \<Rightarrow> ('r list \<Rightarrow> bool) \<Rightarrow> ('r list \<Rightarrow> bool) \<Rightarrow> ('r \<Rightarrow> 'r) \<Rightarrow> pk set \<Rightarrow> 'r table \<Rightarrow> 'r table res" where
  "write_rows batch_size constraint refs transform ids t =
     (if ids = {} then Inr []
      else write_batches constraint refs (batch_iter batch_size (map (\<lambda>(pk, r). (pk, transform r)) (select ids t))) [])"

definition strip_checkpoint :: "'v node_row \<Rightarrow> 'v node_row" where
  "strip_checkpoint r =
     (if str_startswith (n_node_type r) ''process.'' then r\<lparr>n_attributes := AList.delete CHECKPOINT_KEY (n_attributes r)\<rparr> else r)"

definition link_row_of :: "edge \<Rightarrow> link_row" where
  "link_row_of d = \<lparr>li_input_id = nat (source_id d), li_output_id = nat (target_id d), li_type = edge_type d, li_label = edge_label d\<rparr>"

definition write_database ::
  "nat \<Rightarrow> bool \<Rightarrow> 'v Aiida_Import.database \<Rightarrow> entity_ids \<Rightarrow> (pk \<times> pk) list \<Rightarrow> edge list \<Rightarrow> 'v Aiida_Import.database res" where
  "write_database bs strip db ids group_nodes link_data =
     bind_res (write_rows bs user_constraint (\<lambda>_. True) id (e_users ids) (db_users db)) (\<lambda>users.
     bind_res (write_rows bs computer_constraint (\<lambda>_. True) id (e_computers ids) (db_computers db)) (\<lambda>computers.
     bind_res (write_rows bs authinfo_constraint (authinfo_refs (set (pks_of users)) (set (pks_of computers))) id
       (e_authinfos ids) (db_authinfos db)) (\<lambda>authinfos.
     bind_res (write_rows bs group_constraint (group_refs (set (pks_of users))) id (e_groups ids) (db_groups db)) (\<lambda>groups.
     bind_res (write_rows bs node_constraint (node_refs (set (pks_of users)) (set (pks_of computers)))
       (if strip then strip_checkpoint else id) (e_nodes ids) (db_nodes db)) (\<lambda>nodes.
     bind_res (write_rows bs comment_constraint (comment_refs (set (pks_of users)) (set (pks_of nodes))) id
       (e_comments ids) (db_comments db)) (\<lambda>comments.
     bind_res (write_rows bs log_constraint (log_refs (set (pks_of nodes))) id (e_logs ids) (db_logs db)) (\<lambda>logs.
     bind_res (insert_batches (link_refs (set (pks_of nodes))) (batch_iter bs (map link_row_of link_data)) []) (\<lambda>links.
     bind_res (insert_batches (\<lambda>rs. group_node_constraint rs \<and> group_node_refs (set (pks_of groups)) (set (pks_of nodes)) rs)
       (batch_iter bs (map (\<lambda>(g, n). \<lparr>gn_group_id = g, gn_node_id = n\<rparr>) group_nodes)) []) (\<lambda>members.
     Inr (Aiida_Import.database.make users computers authinfos nodes logs comments links groups members))))))))))"

text \<open>\<open>put_object\<close> of the writer does not compute the key again, and does not write a key twice.  The repository skips a missing
  object or raises.\<close>

definition put_object :: "string \<Rightarrow> string \<Rightarrow> objects \<Rightarrow> objects" where
  "put_object key content written = (if key \<in> fst ` set written then written else written @ [(key, content)])"

fun put_streams :: "bool \<Rightarrow> objects \<Rightarrow> string list \<Rightarrow> objects \<Rightarrow> objects res" where
  "put_streams skip_missing repository [] written = Inr written"
| "put_streams skip_missing repository (key # keys) written =
     (case map_of repository key of
        None \<Rightarrow> if skip_missing then put_streams skip_missing repository keys written else Inl FileNotFoundError
      | Some content \<Rightarrow> put_streams skip_missing repository keys (put_object key content written))"

definition stream_repo_files :: "bool \<Rightarrow> bool \<Rightarrow> 'v Aiida_Import.database \<Rightarrow> pk set \<Rightarrow> objects \<Rightarrow> objects res" where
  "stream_repo_files same_format skip_missing db ids repository =
     (if ids = {} then Inr []
      else
        bind_res (guard same_format NotImplementedError) (\<lambda>_.
        put_streams skip_missing repository (remdups (concat (map n_keys (rows_of (select ids (db_nodes db)))))) []))"

section \<open>The export\<close>

record export_options =
  xo_entities :: "export_entry list option"
  xo_overwrite :: bool
  xo_compression :: int
  xo_include :: include_options
  xo_allowed :: licenses
  xo_forbidden :: licenses
  xo_strip_checkpoints :: bool
  xo_batch_size :: nat
  xo_test_run :: bool
  xo_rules :: "kwarg dict"
  xo_same_format :: bool
  xo_skip_missing :: bool

record 'v archive =
  ar_database :: "'v Aiida_Import.database"
  ar_objects :: objects

datatype 'v file_target = NoFile | ArchiveFile "'v archive" | Directory

text \<open>What is checked before anything is read.\<close>

definition check_target :: "export_options \<Rightarrow> 'v file_target \<Rightarrow> unit res" where
  "check_target opts filename =
     bind_res (guard (\<not> (\<not> xo_overwrite opts \<and> filename \<noteq> NoFile)) ArchiveExportError) (\<lambda>_.
     bind_res (guard (filename \<noteq> Directory) ArchiveExportError) (\<lambda>_.
     bind_res (guard (xo_compression opts \<in> {0..9}) ArchiveExportError) (\<lambda>_.
     bind_res (validate_traversal_rules EXPORT (xo_rules opts)) (\<lambda>_. Inr ()))))"

definition collect_entities ::
  "export_options \<Rightarrow> (pk set \<Rightarrow> pk list) \<Rightarrow> 'v Aiida_Import.database \<Rightarrow> (entity_ids \<times> (pk \<times> pk) list \<times> edge set) res option" where
  "collect_entities opts iter db =
     (case xo_entities opts of
        None \<Rightarrow> Some (Inr (collect_all_entities (xo_include opts) db no_entities))
      | Some entities \<Rightarrow>
          (case starting_entities entities no_entities of
             Inl e \<Rightarrow> Some (Inl e)
           | Inr ids \<Rightarrow> collect_required_entities iter (xo_rules opts) (xo_include opts) db ids))"

definition check_nodes :: "export_options \<Rightarrow> pyvalue Aiida_Import.database \<Rightarrow> entity_ids \<Rightarrow> unit res" where
  "check_nodes opts db ids =
     (if e_nodes ids = {} then Inr ()
      else
        bind_res (check_unsealed_nodes db (e_nodes ids)) (\<lambda>_.
        check_node_licenses (xo_allowed opts) (xo_forbidden opts) db (e_nodes ids)))"

definition write_archive ::
  "export_options \<Rightarrow> (edge set \<Rightarrow> edge list) \<Rightarrow> 'v Aiida_Import.database \<Rightarrow> objects
   \<Rightarrow> entity_ids \<Rightarrow> (pk \<times> pk) list \<Rightarrow> edge set \<Rightarrow> 'v archive res" where
  "write_archive opts iter_links db repository ids group_nodes link_data =
     bind_res (write_database (xo_batch_size opts) (xo_strip_checkpoints opts) db ids group_nodes (iter_links link_data)) (\<lambda>database.
     bind_res (stream_repo_files (xo_same_format opts) (xo_skip_missing opts) db (e_nodes ids) repository) (\<lambda>written.
     Inr \<lparr>ar_database = database, ar_objects = written\<rparr>))"

text \<open>The archive is written to a temporary file, which replaces the target at the end.\<close>

definition create_archive ::
  "export_options \<Rightarrow> (pk set \<Rightarrow> pk list) \<Rightarrow> (edge set \<Rightarrow> edge list) \<Rightarrow> pyvalue Aiida_Import.database \<Rightarrow> objects
   \<Rightarrow> pyvalue file_target \<Rightarrow> (pyvalue file_target \<times> unit res) option" where
  "create_archive opts iter iter_links db repository filename =
     (case check_target opts filename of
        Inl e \<Rightarrow> Some (filename, Inl e)
      | Inr _ \<Rightarrow>
          map_option (\<lambda>collected.
            case
              bind_res collected (\<lambda>(ids, group_nodes, link_data).
              bind_res (check_nodes opts db ids) (\<lambda>_.
              if xo_test_run opts then Inr None
              else bind_res (write_archive opts iter_links db repository ids group_nodes link_data) (\<lambda>archive. Inr (Some archive))))
            of
              Inl e \<Rightarrow> (filename, Inl e)
            | Inr None \<Rightarrow> (filename, Inr ())
            | Inr (Some archive) \<Rightarrow> (ArchiveFile archive, Inr ()))
            (collect_entities opts iter db))"

end
