(* ===== verification/Aiida_Import_Correct.thy ===== *)
theory Aiida_Import_Correct
  imports Aiida_Import_Groups Aiida_Import_Links
begin

text \<open>
  The whole import: it keeps the integrity of the profile, embeds the provenance graph of the archive, and does
  nothing when it is repeated.
\<close>

section \<open>The integrity of a database\<close>

definition tables_ok :: "'v database \<Rightarrow> bool" where
  "tables_ok db \<longleftrightarrow>
     table_ok user_constraint (db_users db) \<and> table_ok computer_constraint (db_computers db)
     \<and> table_ok authinfo_constraint (db_authinfos db) \<and> table_ok node_constraint (db_nodes db)
     \<and> table_ok log_constraint (db_logs db) \<and> table_ok comment_constraint (db_comments db)
     \<and> distinct (pks_of (db_links db)) \<and> table_ok group_constraint (db_groups db)
     \<and> table_ok group_node_constraint (db_group_nodes db)"

definition foreign_keys_ok :: "'v database \<Rightarrow> bool" where
  "foreign_keys_ok db \<longleftrightarrow>
     (let users = set (pks_of (db_users db)); computers = set (pks_of (db_computers db));
          nodes = set (pks_of (db_nodes db)); groups = set (pks_of (db_groups db))
      in authinfo_refs users computers (rows_of (db_authinfos db)) \<and> node_refs users computers (rows_of (db_nodes db))
         \<and> log_refs nodes (rows_of (db_logs db)) \<and> comment_refs users nodes (rows_of (db_comments db))
         \<and> link_refs nodes (rows_of (db_links db)) \<and> group_refs users (rows_of (db_groups db))
         \<and> group_node_refs groups nodes (rows_of (db_group_nodes db)))"

definition db_ok :: "'v database \<Rightarrow> bool" where
  "db_ok db \<longleftrightarrow> tables_ok db \<and> foreign_keys_ok db"

text \<open>The group that the caller gives is in the profile; the row of a new one has a new UUID and an existing user.\<close>

definition options_ok :: "import_options \<Rightarrow> 'v database \<Rightarrow> 'v database \<Rightarrow> bool" where
  "options_ok opts a db \<longleftrightarrow>
     valid_mode (io_merge_extras opts) \<and> io_merge_comments opts \<in> {''leave'', ''newest'', ''overwrite''}
     \<and> (io_create_group opts \<longrightarrow>
          (case io_group opts of
             Some g \<Rightarrow> g \<in> set (pks_of (db_groups db))
           | None \<Rightarrow> g_uuid (io_group_row opts) \<notin> set (fields_of g_uuid (db_groups a)) \<union> set (fields_of g_uuid (db_groups db))
               \<and> g_user_id (io_group_row opts) \<in> set (pks_of (db_users db))))"

lemma check_options_exact:
  "check_options opts = Inr () \<longleftrightarrow> valid_mode (io_merge_extras opts) \<and> io_merge_comments opts \<in> {''leave'', ''newest'', ''overwrite''}"
  by (auto simp: check_options_def valid_mode_def guard_def Let_def)

section \<open>What an import does\<close>

text \<open>The profile after each of the two halves of the import, and after the whole.\<close>

definition bases_imported ::
  "import_options \<Rightarrow> 'v database \<Rightarrow> 'v database \<Rightarrow> (pk \<times> pk) list \<Rightarrow> (pk \<times> pk) list \<Rightarrow> 'v database \<Rightarrow> bool" where
  "bases_imported opts a db users nodes db' \<longleftrightarrow>
     imported u_email user_constraint (=) (db_users a) (db_users db) users (db_users db')
     \<and> (\<exists>computers.
          imported c_uuid computer_constraint (\<lambda>r r'. \<exists>l. r' = r\<lparr>c_label := l\<rparr>) (db_computers a) (db_computers db) computers (db_computers db')
        \<and> (if io_include_authinfos opts then authinfos_imported users computers (db_authinfos a) (db_authinfos db) (db_authinfos db')
           else db_authinfos db' = db_authinfos db)
        \<and> nodes_imported users computers (io_import_new_extras opts) (io_merge_extras opts) (db_nodes a) (db_nodes db) nodes (db_nodes db'))"

definition dependents_imported ::
  "import_options \<Rightarrow> 'v database \<Rightarrow> 'v database \<Rightarrow> (pk \<times> pk) list \<Rightarrow> (pk \<times> pk) list \<Rightarrow> 'v database \<Rightarrow> pk option \<Rightarrow> bool" where
  "dependents_imported opts a db users nodes db' g \<longleftrightarrow>
     (\<exists>logs. imported l_uuid log_constraint (imported_log nodes) (db_logs a) (db_logs db) logs (db_logs db'))
     \<and> comments_imported users nodes (io_merge_comments opts) (db_comments a) (db_comments db) (db_comments db')
     \<and> links_added nodes (db_nodes a) (rows_of (db_links a)) (rows_of (db_links db)) (rows_of (db_links db'))
     \<and> (\<exists>t_groups t_group_nodes.
          groups_imported users nodes (db_groups a) (db_group_nodes a) (db_groups db) (db_group_nodes db) t_groups t_group_nodes
        \<and> (if io_create_group opts then nodes_grouped nodes t_groups t_group_nodes g (db_groups db') (db_group_nodes db')
           else g = None \<and> db_groups db' = t_groups \<and> db_group_nodes db' = t_group_nodes))"

definition import_result :: "import_options \<Rightarrow> 'v database \<Rightarrow> 'v database \<Rightarrow> (pk \<times> pk) list \<Rightarrow> 'v database \<Rightarrow> pk option \<Rightarrow> bool" where
  "import_result opts a db nodes db' g \<longleftrightarrow> (\<exists>users. bases_imported opts a db users nodes db' \<and> dependents_imported opts a db users nodes db' g)"

lemma imported_pks: "imported field constraint Q backend_from t m t' \<Longrightarrow> set (pks_of t) \<subseteq> set (pks_of t')"
  by (auto simp: imported_def append_rows_def)

lemma imported_maps: "imported field constraint Q backend_from t m t' \<Longrightarrow> maps_entities field backend_from t' m \<and> table_ok constraint t'"
  by (simp add: imported_def)

lemma nodes_imported_pks: "nodes_imported users computers b mode backend_from t m t' \<Longrightarrow> set (pks_of t) \<subseteq> set (pks_of t')"
  unfolding nodes_imported_def by (auto simp only: pks_of_append_rows extras_merged_same(1) set_append)

lemma refs_mono:
  "\<lbrakk> authinfo_refs A B as; A \<subseteq> A'; B \<subseteq> B' \<rbrakk> \<Longrightarrow> authinfo_refs A' B' as"
  "\<lbrakk> node_refs A B ns; A \<subseteq> A'; B \<subseteq> B' \<rbrakk> \<Longrightarrow> node_refs A' B' ns"
  "\<lbrakk> log_refs A ls; A \<subseteq> A' \<rbrakk> \<Longrightarrow> log_refs A' ls"
  "\<lbrakk> comment_refs A B cs; A \<subseteq> A'; B \<subseteq> B' \<rbrakk> \<Longrightarrow> comment_refs A' B' cs"
  "\<lbrakk> link_refs A es; A \<subseteq> A' \<rbrakk> \<Longrightarrow> link_refs A' es"
  "\<lbrakk> group_refs A gs; A \<subseteq> A' \<rbrakk> \<Longrightarrow> group_refs A' gs"
  by (fastforce simp: authinfo_refs_def node_refs_iff log_refs_def comment_refs_def link_refs_def group_refs_def)+

lemma import_bases_outcome:
  assumes a: "db_ok a" and db: "db_ok db" and opts: "options_ok opts a db" and E: "E ImportUniquenessError"
  shows "outcome E (\<lambda>(users, nodes, db'). bases_imported opts a db users nodes db' \<and> db_ok db'
      \<and> db_logs db' = db_logs db \<and> db_comments db' = db_comments db \<and> db_links db' = db_links db
      \<and> db_groups db' = db_groups db \<and> db_group_nodes db' = db_group_nodes db) (import_bases opts a db)"
proof -
  note ok = a [unfolded db_ok_def tables_ok_def foreign_keys_ok_def Let_def] db [unfolded db_ok_def tables_ok_def foreign_keys_ok_def Let_def]
  have d: "distinct (fields_of u_email (db_users a))" "distinct (fields_of c_uuid (db_computers a))"
    using ok(1) by (simp_all add: table_ok_def user_constraint_def computer_constraint_def comp_def)
  show ?thesis
    unfolding import_bases_def Let_def
  proof (rule outcome_bind [OF import_users_outcome], goal_cases)
    case (3 r1)
    obtain users t_users where r1: "r1 = (users, t_users)"
      by (cases r1)
    have imp_users: "imported u_email user_constraint (=) (db_users a) (db_users db) users t_users"
      using 3 r1 by simp
    note users = imported_maps [OF imp_users] imported_pks [OF imp_users]
    show ?case
      unfolding r1 prod.case
    proof (rule outcome_bind [OF import_computers_outcome], goal_cases)
      case (4 r2)
      obtain computers t_computers where r2: "r2 = (computers, t_computers)"
        by (cases r2)
      have imp_computers: "imported c_uuid computer_constraint (\<lambda>r r'. \<exists>l. r' = r\<lparr>c_label := l\<rparr>) (db_computers a) (db_computers db) computers t_computers"
        using 4 r2 by simp
      note computers = imported_maps [OF imp_computers] imported_pks [OF imp_computers]
      have pks: "distinct (pks_of t_users)" "distinct (pks_of t_computers)"
        using users(1) computers(1) by (simp_all add: table_ok_def)
      have refs: "authinfo_refs (set (pks_of t_users)) (set (pks_of t_computers)) (rows_of (db_authinfos db))"
        "node_refs (set (pks_of t_users)) (set (pks_of t_computers)) (rows_of (db_nodes db))"
        using ok(2) users(2) computers(2) refs_mono(1,2) by blast+
      have authinfos: "outcome E (\<lambda>t'. (if io_include_authinfos opts
            then authinfos_imported users computers (db_authinfos a) (db_authinfos db) t' else t' = db_authinfos db)
          \<and> table_ok authinfo_constraint t' \<and> authinfo_refs (set (pks_of t_users)) (set (pks_of t_computers)) (rows_of t'))
        (if io_include_authinfos opts then import_authinfos (io_batch_size opts) users computers (db_authinfos a) (db_authinfos db)
         else Inr (db_authinfos db))"
        using ok refs outcome_mono [OF import_authinfos_outcome [OF conjunct1 [OF users(1)] conjunct1 [OF computers(1)] d(1) pks(1) d(2) pks(2)]]
        by (simp add: authinfos_imported_def)
      show ?case
        unfolding r2 prod.case
      proof (rule outcome_bind [OF authinfos], rule outcome_bind [OF import_nodes_outcome
            [OF conjunct1 [OF users(1)] conjunct1 [OF computers(1)]]], goal_cases)
        case (6 t_authinfos r4)
        obtain nodes t_nodes where r4: "r4 = (nodes, t_nodes)"
          by (cases r4)
        have imp_nodes: "nodes_imported users computers (io_import_new_extras opts) (io_merge_extras opts) (db_nodes a) (db_nodes db) nodes t_nodes"
          "node_refs (set (pks_of t_users)) (set (pks_of t_computers)) (rows_of t_nodes)"
          using 6(4) unfolding r4 prod.case by blast+
        let ?db = "db\<lparr>db_users := t_users, db_computers := t_computers, db_authinfos := t_authinfos, db_nodes := t_nodes\<rparr>"
        have "tables_ok ?db"
          using ok(2) users(1) computers(1) 6(2) imp_nodes(1) unfolding tables_ok_def nodes_imported_def by simp
        moreover note np = nodes_imported_pks [OF imp_nodes(1)]
        have "log_refs (set (pks_of t_nodes)) (rows_of (db_logs db))" "link_refs (set (pks_of t_nodes)) (rows_of (db_links db))"
          by (rule refs_mono(3) [OF _ np] refs_mono(5) [OF _ np]; use ok(2) in simp)+
        moreover have "comment_refs (set (pks_of t_users)) (set (pks_of t_nodes)) (rows_of (db_comments db))"
          by (rule refs_mono(4) [OF _ users(2) np]) (use ok(2) in simp)
        moreover have "group_refs (set (pks_of t_users)) (rows_of (db_groups db))"
          by (rule refs_mono(6) [OF _ users(2)]) (use ok(2) in simp)
        moreover have "group_node_refs (set (pks_of (db_groups db))) (set (pks_of t_nodes)) (rows_of (db_group_nodes db))"
          by (rule group_node_refs_mono [OF _ subset_refl np]) (use ok(2) in simp)
        ultimately have "foreign_keys_ok ?db"
          using 6(2) imp_nodes(2) by (simp add: foreign_keys_ok_def)
        moreover note \<open>tables_ok ?db\<close>
        ultimately show ?case
          using imp_users imp_computers 6(2) imp_nodes(1) unfolding r4 prod.case outcome_simps
          by (auto simp: bases_imported_def db_ok_def)
      qed (use ok refs opts in \<open>auto simp: options_ok_def\<close>)
    qed (use ok E in auto)
  qed (use ok in auto)
qed

lemma groups_imported_ok:
  assumes "groups_imported users nodes groups_from group_nodes_from t group_nodes t' group_nodes'"
  shows "table_ok group_constraint t'" "table_ok group_node_constraint group_nodes'" "set (pks_of t) \<subseteq> set (pks_of t')"
    "set (fields_of g_uuid t') \<subseteq> set (fields_of g_uuid t) \<union> set (fields_of g_uuid groups_from)"
proof -
  from assms obtain m new rows where *: "table_ok group_constraint t'" "table_ok group_node_constraint group_nodes'" "t' = append_rows t rows"
      and rel: "list_all2 (\<lambda>row r. imported_group users (snd row) r) (new_rows g_uuid groups_from t) rows"
    by (auto simp: groups_imported_def imported_def)
  show "table_ok group_constraint t'" "table_ok group_node_constraint group_nodes'"
    by fact+
  show "set (pks_of t) \<subseteq> set (pks_of t')"
    unfolding *(3) pks_of_append_rows by simp
  have "map g_uuid rows = fields_of g_uuid (new_rows g_uuid groups_from t)"
    using rel by (induction rule: list_all2_induct) (simp_all add: imported_group_def)
  then show "set (fields_of g_uuid t') \<subseteq> set (fields_of g_uuid t) \<union> set (fields_of g_uuid groups_from)"
    unfolding *(3) fields_of_append_rows set_append using fields_new_rows [of g_uuid groups_from t] by simp
qed

lemma create_group_outcome:
  assumes t: "table_ok group_constraint t" "table_ok group_node_constraint group_nodes"
    and refs: "group_refs users (rows_of t)" "group_node_refs (set (pks_of t)) n_pks (rows_of group_nodes)"
    and labels: "set labels = set (fields_of g_label t)" and nodes: "distinct (map snd nodes)" "snd ` set nodes \<subseteq> n_pks"
    and grp: "create \<Longrightarrow> case grp of Some g \<Rightarrow> g \<in> set (pks_of t)
      | None \<Rightarrow> g_uuid row \<notin> set (fields_of g_uuid t) \<and> g_user_id row \<in> users"
    and E: "E ImportUniquenessError"
  shows "outcome E (\<lambda>(g, t', group_nodes'). (if create then nodes_grouped nodes t group_nodes g t' group_nodes'
        else g = None \<and> t' = t \<and> group_nodes' = group_nodes)
      \<and> table_ok group_constraint t' \<and> table_ok group_node_constraint group_nodes'
      \<and> group_refs users (rows_of t') \<and> group_node_refs (set (pks_of t')) n_pks (rows_of group_nodes'))
    (if create then make_import_group batch_size grp now row labels nodes t group_nodes else Inr (None, t, group_nodes))"
proof (cases create)
  case True
  show ?thesis
    unfolding if_P [OF True]
    by (rule outcome_mono [OF make_import_group_outcome [where E = E, OF t refs labels nodes grp [OF True] E]])
       (auto simp: nodes_grouped_def)
qed (use t refs in simp)

lemma import_dependents_outcome:
  assumes a: "db_ok a" and db: "db_ok db"
    and m: "maps_entities u_email (db_users a) (db_users db) users" "maps_entities n_uuid (db_nodes a) (db_nodes db) nodes"
    and opts: "io_merge_comments opts \<in> {''leave'', ''newest'', ''overwrite''}"
      "io_create_group opts \<Longrightarrow> case io_group opts of
         Some g \<Rightarrow> g \<in> set (pks_of (db_groups db))
       | None \<Rightarrow> g_uuid (io_group_row opts) \<notin> set (fields_of g_uuid (db_groups a)) \<union> set (fields_of g_uuid (db_groups db))
           \<and> g_user_id (io_group_row opts) \<in> set (pks_of (db_users db))"
    and E: "E ImportUniquenessError" "E ImportValidationError \<or> (\<forall>l \<in> set (rows_of (db_links a)). valid_link (db_nodes a) l)"
  shows "outcome E (\<lambda>(db', g). dependents_imported opts a db users nodes db' g \<and> db_ok db'
      \<and> db_users db' = db_users db \<and> db_computers db' = db_computers db \<and> db_authinfos db' = db_authinfos db
      \<and> db_nodes db' = db_nodes db) (import_dependents opts a users nodes db)"
proof -
  note ok = a [unfolded db_ok_def tables_ok_def foreign_keys_ok_def Let_def] db [unfolded db_ok_def tables_ok_def foreign_keys_ok_def Let_def]
  have d: "distinct (fields_of n_uuid (db_nodes a))" "distinct (pks_of (db_nodes db))"
    using ok by (simp_all add: table_ok_def node_constraint_def comp_def)
  have ns: "distinct (map snd nodes)" "snd ` set nodes \<subseteq> set (pks_of (db_nodes db))"
    using maps_entities_distinct [OF m(2) d] maps_entitiesD(2) [OF m(2)] by force+
  show ?thesis
    unfolding import_dependents_def Let_def
  proof (rule outcome_bind [OF import_logs_outcome [OF m(2)]], goal_cases)
    case (5 r1)
    obtain m_logs t_logs where r1: "r1 = (m_logs, t_logs)"
      by (cases r1)
    note logs = 5(2) [unfolded r1 prod.case]
    show ?case
      unfolding r1 prod.case
    proof (rule outcome_bind [OF import_comments_outcome [OF m]], goal_cases)
      case (6 r2)
      obtain m_comments t_comments where r2: "r2 = (m_comments, t_comments)"
        by (cases r2)
      note comments = 6(2) [unfolded r2 prod.case]
      show ?case
        unfolding r2 prod.case
      proof (rule outcome_bind [OF import_links_outcome [OF _ _ m(2) d]], goal_cases)
        case (6 t_links)
        note links = 6(2)
        show ?case
        proof (rule outcome_bind [OF import_groups_outcome [OF m d]], goal_cases)
          case (10 r4)
          obtain labels t_groups t_group_nodes where r4: "r4 = (labels, t_groups, t_group_nodes)"
            by (cases r4)
          have groups: "groups_imported users nodes (db_groups a) (db_group_nodes a) (db_groups db) (db_group_nodes db) t_groups t_group_nodes"
              "set labels = set (fields_of g_label t_groups)" "group_refs (set (pks_of (db_users db))) (rows_of t_groups)"
              "group_node_refs (set (pks_of t_groups)) (set (pks_of (db_nodes db))) (rows_of t_group_nodes)"
            using 10(2) unfolding r4 prod.case by blast+
          note groups_ok = groups_imported_ok [OF groups(1)]
          have grp: "case io_group opts of
             Some g \<Rightarrow> g \<in> set (pks_of t_groups)
           | None \<Rightarrow> g_uuid (io_group_row opts) \<notin> set (fields_of g_uuid t_groups) \<and> g_user_id (io_group_row opts) \<in> set (pks_of (db_users db))"
            if "io_create_group opts"
            using opts(2) [OF that] groups_ok(3,4) by (auto split: option.splits simp del: set_map)
          show ?case
            unfolding r4 prod.case
          proof (rule outcome_bind [OF create_group_outcome [where E = E, OF groups_ok(1,2) groups(3,4,2) ns grp E(1)]], goal_cases)
            case (2 r5)
            obtain g t' gn' where r5: "r5 = (g, t', gn')"
              by (cases r5)
            let ?db = "db\<lparr>db_logs := t_logs, db_comments := t_comments, db_links := t_links, db_groups := t', db_group_nodes := gn'\<rparr>"
            note steps = logs comments links 2(2) [unfolded r5 prod.case]
            have "tables_ok ?db"
              using ok(2) steps unfolding tables_ok_def imported_def comments_imported_def by simp
            moreover have "foreign_keys_ok ?db"
              using ok(2) steps by (simp add: foreign_keys_ok_def)
            moreover have "dependents_imported opts a db users nodes ?db g"
              using steps groups(1) unfolding dependents_imported_def by (auto split: if_splits)
            ultimately show ?case
              unfolding r5 prod.case outcome_simps by (simp add: db_ok_def)
          qed
        qed (use ok E in auto)
      qed (use ok E in auto)
    qed (use ok opts in auto)
  qed (use ok in auto)
qed

lemma bases_imported_cong:
  "\<lbrakk> db_users db' = db_users db1; db_computers db' = db_computers db1; db_authinfos db' = db_authinfos db1; db_nodes db' = db_nodes db1 \<rbrakk>
   \<Longrightarrow> bases_imported opts a db users nodes db' = bases_imported opts a db users nodes db1"
  by (simp add: bases_imported_def)

lemma dependents_imported_cong:
  "\<lbrakk> db_logs db1 = db_logs db; db_comments db1 = db_comments db; db_links db1 = db_links db; db_groups db1 = db_groups db;
     db_group_nodes db1 = db_group_nodes db \<rbrakk>
   \<Longrightarrow> dependents_imported opts a db1 users nodes db' g = dependents_imported opts a db users nodes db' g"
  by (simp add: dependents_imported_def)

lemma import_entities_of_outcome:
  assumes a: "db_ok a" and db: "db_ok db" and opts: "options_ok opts a db"
    and E: "E ImportUniquenessError" "E ImportValidationError \<or> (\<forall>l \<in> set (rows_of (db_links a)). valid_link (db_nodes a) l)"
  shows "outcome E (\<lambda>(db', g). db_ok db' \<and> (\<exists>nodes. import_result opts a db nodes db' g)) (import_entities_of opts a db)"
  unfolding import_entities_of_def
proof (rule outcome_bind [OF import_bases_outcome [where E = E, OF a db opts E(1)]], goal_cases)
  case (1 r)
  obtain users nodes db1 where r: "r = (users, nodes, db1)"
    by (cases r)
  note bases = 1(2) [unfolded r prod.case]
  have imp_users: "imported u_email user_constraint (=) (db_users a) (db_users db) users (db_users db1)"
    using bases by (simp add: bases_imported_def)
  have maps: "maps_entities u_email (db_users a) (db_users db1) users" "maps_entities n_uuid (db_nodes a) (db_nodes db1) nodes"
    using bases by (auto simp: bases_imported_def imported_def nodes_imported_def)
  note users = imported_pks [OF imp_users]
  show ?case
    unfolding r prod.case
  proof (rule outcome_mono [OF import_dependents_outcome [OF a _ maps, of opts E]], goal_cases)
    case (6 r')
    obtain db' g where r': "r' = (db', g)"
      by (cases r')
    have "bases_imported opts a db users nodes db'" "dependents_imported opts a db users nodes db' g" "db_ok db'"
      using 6(2) bases bases_imported_cong [of db' db1 opts a db] dependents_imported_cong [of db1 db opts a] unfolding r' prod.case by blast+
    then show ?case
      unfolding r' prod.case import_result_def by blast
  next
    case 3
    then show ?case
      using opts bases users by (auto simp: options_ok_def split: option.splits)
  qed (use bases opts E in \<open>auto simp: options_ok_def\<close>)
qed

section \<open>Files\<close>

lemma add_files_exact:
  assumes "add_files_to_repo hash repository_from keys objects = (objects', Inr ())"
  shows "\<forall>k. map_of objects' k = (if k \<in> set keys then map_of repository_from k else map_of objects k)"
    and "\<forall>k \<in> set keys. map_of repository_from k \<noteq> None"
  using assms
proof (induction keys arbitrary: objects)
  case (Cons key keys)
  {
    case 1
    then show ?case
      using Cons.IH(1) by (auto split: option.splits if_splits simp: Let_def)
  next
    case 2
    then show ?case
      using Cons.IH(2) by (auto split: option.splits if_splits simp: Let_def)
  }
qed simp_all

lemma add_files_error:
  "add_files_to_repo hash repository_from keys objects = (objects', Inl e) \<Longrightarrow> e \<in> {FileNotFoundError, ImportValidationError}"
  by (induction keys arbitrary: objects) (auto split: option.splits if_splits simp: Let_def)

lemma checked_import_Inr: "checked_import opts latest same_format a db = Inr r \<Longrightarrow> import_entities_of opts a db = Inr r"
  by (auto simp: checked_import_def bind_res_Inr_iff)

lemma checked_import_Inl:
  "checked_import opts latest same_format a db = Inl e
   \<Longrightarrow> e \<in> {ValueError, IncompatibleStorageSchema, NotImplementedError, ImportTestRun} \<or> import_entities_of opts a db = Inl e"
  by (auto simp: checked_import_def check_options_def bind_res_def guard_def Let_def split: sum.splits if_splits)

lemma import_archive_checked:
  assumes "checked_import opts latest same_format a db = Inr (db', g)"
    and "add_files_to_repo hash repository_from (new_object_keys (db_nodes a) objects) objects = (objects', files)"
  shows "import_archive opts latest same_format hash a repository_from db objects =
    (case files of Inl e \<Rightarrow> (db, objects', Inl e) | Inr _ \<Rightarrow> (db', objects', Inr g))"
  using assms by (cases files) (simp_all add: import_archive_def)

lemma import_archive_Inr:
  assumes "import_archive opts latest same_format hash a repository_from db objects = (db', objects', Inr g)"
  shows "import_entities_of opts a db = Inr (db', g) \<and>
    add_files_to_repo hash repository_from (new_object_keys (db_nodes a) objects) objects = (objects', Inr ())"
proof -
  obtain objects1 files where f: "add_files_to_repo hash repository_from (new_object_keys (db_nodes a) objects) objects = (objects1, files)"
    by fastforce
  obtain db1 g1 where c: "checked_import opts latest same_format a db = Inr (db1, g1)"
    using assms by (cases "checked_import opts latest same_format a db") (auto simp: import_archive_def)
  show ?thesis
    using assms f checked_import_Inr [OF c] unfolding import_archive_checked [OF c f] by (cases files) auto
qed

lemma import_archive_Inl:
  assumes "import_archive opts latest same_format hash a repository_from db objects = (db', objects', Inl e)"
  shows "db' = db \<and> (e \<in> {ValueError, IncompatibleStorageSchema, NotImplementedError, ImportTestRun, FileNotFoundError, ImportValidationError}
    \<or> import_entities_of opts a db = Inl e)"
proof (cases "checked_import opts latest same_format a db")
  case (Inl e')
  then show ?thesis
    using assms checked_import_Inl [OF Inl] unfolding import_archive_def by auto
next
  case (Inr r)
  obtain db1 g1 where c: "checked_import opts latest same_format a db = Inr (db1, g1)"
    using Inr by (cases r) simp
  obtain objects1 files where f: "add_files_to_repo hash repository_from (new_object_keys (db_nodes a) objects) objects = (objects1, files)"
    by fastforce
  show ?thesis
    using assms add_files_error [of hash repository_from "new_object_keys (db_nodes a) objects" objects objects1 e] f
    unfolding import_archive_checked [OF c f] by (cases files) auto
qed

section \<open>Importing again\<close>

lemma maps_entities_subset: "maps_entities field backend_from t m \<Longrightarrow> set (fields_of field backend_from) \<subseteq> set (fields_of field t)"
  by (simp add: maps_entities_def)

text \<open>Entities that are all there are left alone.\<close>

lemma import_users_again:
  assumes "table_ok user_constraint backend_from" "table_ok user_constraint t" "maps_entities u_email backend_from t m"
  shows "import_users filter_size backend_from t = Inr (m, t)"
  using assms users.import_entities_known [where backend_from = backend_from and t = t and filter_size = filter_size]
  by (simp add: import_users_def table_ok_def maps_entities_def)

lemma import_computers_again:
  assumes "table_ok computer_constraint backend_from" "table_ok computer_constraint t" "maps_entities c_uuid backend_from t m"
  shows "import_computers filter_size backend_from t = Inr (m, t)"
  using assms computers.import_entities_known [of backend_from t "map c_label (rows_of t)" filter_size]
  by (simp add: import_computers_def table_ok_def maps_entities_def image_image)

lemma import_logs_again:
  assumes "table_ok log_constraint backend_from" "table_ok log_constraint t" "maps_entities l_uuid backend_from t m"
  shows "import_logs filter_size nodes backend_from t = Inr (m, t)"
  using assms logs.import_entities_known [where backend_from = backend_from and t = t and filter_size = filter_size]
  by (simp add: import_logs_def table_ok_def maps_entities_def)

lemma import_nodes_again:
  assumes "table_ok node_constraint backend_from" "table_ok node_constraint t" "maps_entities n_uuid backend_from t m"
  shows "import_nodes filter_size users computers b ''knl'' backend_from t = Inr (m, t)"
proof -
  have d: "distinct (fields_of n_uuid backend_from)" "distinct (fields_of n_uuid t)"
    using assms by (simp_all add: table_ok_def node_constraint_def comp_def)
  have "import_entities filter_size n_uuid node_constraint (NodeTransform users computers b) backend_from () t = Inr ((), m, t)"
    using assms nodes.import_entities_known [where backend_from = backend_from and t = t and filter_size = filter_size]
    by (simp add: table_ok_def maps_entities_def)
  moreover have "(if matching_batches filter_size n_uuid backend_from t \<noteq> []
      then merge_node_extras ''knl'' (matching_batches filter_size n_uuid backend_from t) backend_from t else Inr t) = Inr t"
    by (simp add: merge_node_extras_def)
  ultimately show ?thesis
    unfolding import_nodes_def Let_def by (simp only: bind_res_simps import_with_batches [OF d] import_entities_def prod.case)
qed

lemma import_comments_again:
  assumes "table_ok comment_constraint backend_from" "table_ok comment_constraint t" "set (fields_of cm_uuid backend_from) \<subseteq> set (fields_of cm_uuid t)"
  shows "\<exists>m. import_comments filter_size users nodes ''leave'' backend_from t = Inr (m, t)"
proof -
  obtain m where "import_entities filter_size cm_uuid comment_constraint (CommentTransform users nodes) backend_from () t = Inr ((), m, t)"
    using assms comments.import_entities_known [where backend_from = backend_from and t = t] by (simp add: table_ok_def)
  moreover have "merge_comments_of ''leave'' (matching cm_uuid backend_from t) backend_from t = Inr t"
    by (simp add: merge_comments_of_def)
  ultimately show ?thesis
    unfolding import_comments_def Let_def by (simp add: import_entities_def)
qed

lemma import_groups_again:
  assumes "table_ok group_constraint groups_from" "table_ok group_constraint t" "set (fields_of g_uuid groups_from) \<subseteq> set (fields_of g_uuid t)"
  shows "\<exists>labels. import_groups filter_size batch_size users nodes groups_from group_nodes_from t group_nodes = Inr (labels, t, group_nodes)"
proof -
  have d: "distinct (fields_of g_uuid groups_from)" "distinct (fields_of g_uuid t)"
    using assms(1,2) by (simp_all add: table_ok_def group_constraint_def comp_def)
  have "new_rows g_uuid groups_from t = []"
    using assms(3) by (auto simp: new_rows_def filter_empty_conv)
  then have "length groups_from = length (matching g_uuid groups_from t)"
    using length_matching [OF d] by metis
  then show ?thesis
    by (simp add: import_groups_def)
qed

lemma import_links_loop_again:
  assumes "link_inv t st" "\<And>l. l \<in> set ls \<Longrightarrow> li_type l = t \<and> (\<exists>l' \<in> set (all_links st). same_link nodes l l')"
  shows "import_links_loop batch_size nodes t (map (archive_link_of nodes_from) ls) st = Inr st"
  using assms(2)
proof (induction ls)
  case (Cons l ls)
  obtain l' where l': "l' \<in> set (all_links st)" "same_link nodes l l'" "li_type l = t"
    using Cons.prems [of l] by auto
  then have "row_triple l' \<in> set (existing_links st)"
    using assms(1) unfolding link_inv_def same_link_def by auto
  then have "import_link batch_size nodes t (archive_link_of nodes_from l) st = Inr st"
    using l' by (simp add: import_link_def archive_link_of_def translate_def case_prod_beta same_link_def row_triple_def)
  then show ?case
    using Cons by simp
qed simp

lemma import_links_again:
  assumes "distinct (pks_of links)" "link_refs (set (pks_of nodes_from)) (rows_of links_from)"
    and "\<forall>l \<in> set (rows_of links_from). \<exists>l' \<in> set (rows_of links). same_link nodes l l'"
  shows "import_links batch_size nodes nodes_from links_from links = Inr links"
proof -
  have "import_links_of_type batch_size nodes nodes_from links_from t links = Inr links" for t
  proof -
    have "all_links (initial_link_state t links) = rows_of links"
      by (simp add: all_links_def initial_link_state_def Let_def)
    then have "import_links_loop batch_size nodes t (map (archive_link_of nodes_from) (of_type t (rows_of links_from))) (initial_link_state t links)
        = Inr (initial_link_state t links)"
      using assms(3) by (intro import_links_loop_again initial_link_inv [OF assms(1)]) auto
    moreover have "link_table (flush_links (initial_link_state t links)) = links"
      by (simp add: flush_links_def initial_link_state_def Let_def)
    ultimately show ?thesis
      by (simp add: import_links_of_type_def archive_links_exact [OF assms(2)])
  qed
  then have "import_link_types batch_size nodes nodes_from links_from ts links = Inr links" for ts
    by (induction ts) simp_all
  then show ?thesis
    by (simp add: import_links_def)
qed

lemma import_authinfos_again:
  assumes m: "maps_entities u_email users_from t_users users" "maps_entities c_uuid computers_from t_computers computers"
    and d: "distinct (fields_of u_email users_from)" "distinct (pks_of t_users)"
      "distinct (fields_of c_uuid computers_from)" "distinct (pks_of t_computers)"
    and ok: "table_ok authinfo_constraint backend_from" "authinfos_imported users computers backend_from t0 t"
    and refs: "authinfo_refs (set (pks_of users_from)) (set (pks_of computers_from)) (rows_of backend_from)"
  shows "import_authinfos batch_size users computers backend_from t = Inr t"
proof -
  obtain rows where rows: "translate_authinfos users computers (rows_of backend_from) = Inr rows"
      and rel: "list_all2 (same_authinfo users computers) (rows_of backend_from) rows"
    using translate_authinfos_outcome [OF m, of "rows_of backend_from" "\<lambda>_. False"] refs
    unfolding authinfo_refs_def by (cases "translate_authinfos users computers (rows_of backend_from)") auto
  have dr: "distinct (map ai_pair rows)"
    using ok(1) maps_entities_inj [OF m(1) d(1,2)] maps_entities_inj [OF m(2) d(3,4)]
    by (intro list_all2_distinct [OF rel, of ai_pair]) (auto simp: same_authinfo_def table_ok_def authinfo_constraint_def)
  have t: "distinct (map ai_pair (rows_of t))"
    using ok(2) by (simp add: authinfos_imported_def table_ok_def authinfo_constraint_def)
  let ?existing = "filter (\<lambda>p. p \<in> ai_pair ` set rows) (map ai_pair (rows_of t))"
  have "ai_pair ` set rows \<subseteq> set (map ai_pair (rows_of t))"
  proof
    fix p
    assume "p \<in> ai_pair ` set rows"
    then obtain r r' where "r \<in> set (rows_of backend_from)" "same_authinfo users computers r r'" "p = ai_pair r'"
      using list_all2_in_set2 [OF rel] by blast
    then obtain q where "q \<in> set (rows_of t)" "p = ai_pair q"
      using ok(2) unfolding authinfos_imported_def same_authinfo_def by fastforce
    then show "p \<in> set (map ai_pair (rows_of t))"
      unfolding set_map [of ai_pair] by blast
  qed
  then have "set ?existing = ai_pair ` set rows"
    unfolding set_filter by blast
  moreover have "length ?existing = card (set ?existing)"
    using t by (simp only: distinct_card distinct_filter)
  moreover have "length backend_from = card (ai_pair ` set rows)"
    using list_all2_lengthD [OF rel] distinct_card [OF dr] by simp
  ultimately show ?thesis
    by (simp only: import_authinfos_def rows bind_res_simps Let_def refl if_True)
qed

lemma comments_imported_subset:
  assumes "comments_imported users nodes merge_comments backend_from t t'"
  shows "set (fields_of cm_uuid backend_from) \<subseteq> set (fields_of cm_uuid t')"
proof -
  from assms obtain t1 rows where t1: "comments_merged (comment_change merge_comments) backend_from t t1" "t' = append_rows t1 rows"
      and rel: "list_all2 (\<lambda>row r. imported_comment users nodes (snd row) r) (new_rows cm_uuid backend_from t) rows"
    by (auto simp: comments_imported_def)
  have "map cm_uuid rows = fields_of cm_uuid (new_rows cm_uuid backend_from t)"
    using rel by (induction rule: list_all2_induct) (simp_all add: imported_comment_def)
  then show ?thesis
    unfolding t1(2) fields_of_append_rows set_append comments_merged_same(2) [OF t1(1)]
    using fields_new_rows [of cm_uuid backend_from t] by (simp only:) blast
qed

lemma groups_imported_subset:
  assumes "groups_imported users nodes groups_from group_nodes_from t group_nodes t1 group_nodes1"
    and "if create then nodes_grouped nodes t1 group_nodes1 g t' group_nodes' else g = None \<and> t' = t1 \<and> group_nodes' = group_nodes1"
  shows "set (fields_of g_uuid groups_from) \<subseteq> set (fields_of g_uuid t')"
proof -
  have "set (fields_of g_uuid groups_from) \<subseteq> set (fields_of g_uuid t1)"
    using assms(1) maps_entities_subset unfolding groups_imported_def imported_def by blast
  moreover have "\<exists>rows. t' = append_rows t1 rows"
    using assms(2) by (auto simp: nodes_grouped_def split: if_splits intro: exI [of _ "[]"])
  then obtain rows where "t' = append_rows t1 rows" ..
  ultimately show ?thesis
    by (simp only: fields_of_append_rows set_append) blast
qed

lemma nodes_imported_copy:
  assumes imp: "nodes_imported users computers b mode backend_from t m t'" and d: "distinct (pks_of backend_from)"
    and r: "(p, r) \<in> set backend_from" "map_of m p = Some i"
  shows "\<exists>r'. (i, r') \<in> set t' \<and> n_uuid r' = n_uuid r \<and> (n_uuid r \<in> set (fields_of n_uuid t) \<or> imported_node users computers b r r')"
proof -
  from imp obtain t1 rows where t': "table_ok node_constraint t'" "maps_entities n_uuid backend_from t' m" "t' = append_rows t1 rows"
      and rel: "list_all2 (\<lambda>row r. imported_node users computers b (snd row) r) (new_rows n_uuid backend_from t) rows"
    unfolding nodes_imported_def by blast
  obtain r' where r': "(i, r') \<in> set t'" "n_uuid r' = n_uuid r"
    using maps_entities_map_of [OF t'(2) d r(1)] r(2) id_of_SomeD [of n_uuid t' "n_uuid r" i] by auto
  show ?thesis
  proof (cases "n_uuid r \<in> set (fields_of n_uuid t)")
    case False
    then have "(p, r) \<in> set (new_rows n_uuid backend_from t)"
      using r(1) by (simp add: new_rows_def)
    then obtain q where q: "q \<in> set rows" "imported_node users computers b r q"
      using list_all2_in_set1 [OF rel, of "(p, r)"] by auto
    then have "q \<in> set (rows_of t')" "n_uuid q = n_uuid r'"
      using r'(2) unfolding t'(3) rows_of_append_rows imported_node_def by simp_all
    then obtain j where j: "(j, q) \<in> set t'" "n_uuid q = n_uuid r'"
      by auto
    have "distinct (fields_of n_uuid t')"
      using t'(1) by (simp add: table_ok_def node_constraint_def comp_def)
    then have "q = r'"
      using same_field [OF _ j(1) r'(1) j(2)] by blast
    then show ?thesis
      using r' q by blast
  qed (use r' in blast)
qed

lemma import_embeds:
  assumes "db_ok a" "db_ok db" "options_ok opts a db"
    and "import_archive opts latest same_format hash a repository_from db objects = (db', objects', Inr g)"
  shows "\<exists>nodes. map fst nodes = pks_of (db_nodes a) \<and> distinct (map snd nodes)
    \<and> (\<forall>p r i. (p, r) \<in> set (db_nodes a) \<and> map_of nodes p = Some i \<longrightarrow>
         (\<exists>r'. (i, r') \<in> set (db_nodes db') \<and> n_uuid r' = n_uuid r
            \<and> (n_uuid r \<in> set (fields_of n_uuid (db_nodes db)) \<or>
                 n_node_type r' = n_node_type r \<and> n_keys r' = n_keys r \<and> n_columns r' = n_columns r
                 \<and> n_extras r' = kept_extras (io_import_new_extras opts) (n_node_type r) (n_extras r)
                 \<and> n_attributes r' = (if str_startswith (n_node_type r) ''process.'' then AList.delete CHECKPOINT_KEY (n_attributes r)
                     else n_attributes r))))
    \<and> (\<forall>l \<in> set (rows_of (db_links a)). \<exists>l' \<in> set (rows_of (db_links db')). same_link nodes l l')
    \<and> prefix (rows_of (db_links db)) (rows_of (db_links db'))
    \<and> (\<forall>r \<in> set (rows_of (db_nodes a)). set (n_keys r) \<subseteq> fst ` set objects')"
proof -
  note imp = import_archive_Inr [OF assms(4)]
  have "outcome (\<lambda>e. e = ImportUniquenessError \<or> e = ImportValidationError)
      (\<lambda>(db', g). db_ok db' \<and> (\<exists>nodes. import_result opts a db nodes db' g)) (import_entities_of opts a db)"
    using assms(1-3) by (intro import_entities_of_outcome) simp_all
  then obtain nodes users where db': "db_ok db'" and res: "bases_imported opts a db users nodes db'" "dependents_imported opts a db users nodes db' g"
    using imp by (auto simp: import_result_def)
  obtain computers where nodes: "nodes_imported users computers (io_import_new_extras opts) (io_merge_extras opts) (db_nodes a) (db_nodes db) nodes (db_nodes db')"
    using res(1) unfolding bases_imported_def by blast
  have ok: "distinct (pks_of (db_nodes a))" "distinct (fields_of n_uuid (db_nodes a))" "distinct (pks_of (db_nodes db'))"
    using assms(1) db' by (simp_all add: db_ok_def tables_ok_def table_ok_def node_constraint_def comp_def)
  have maps: "maps_entities n_uuid (db_nodes a) (db_nodes db') nodes"
    using nodes by (simp add: nodes_imported_def)
  have links: "links_added nodes (db_nodes a) (rows_of (db_links a)) (rows_of (db_links db)) (rows_of (db_links db'))"
    using res(2) by (simp add: dependents_imported_def)
  have files: "k \<in> fst ` set objects'" if "r \<in> set (rows_of (db_nodes a))" "k \<in> set (n_keys r)" for r k
  proof -
    have "map_of objects' k \<noteq> None"
    proof (cases "k \<in> fst ` set objects")
      case True
      then have "k \<notin> set (new_object_keys (db_nodes a) objects)"
        by (simp add: new_object_keys_def)
      then show ?thesis
        using True add_files_exact(1) [OF conjunct2 [OF imp]] by (simp add: map_of_eq_None_iff)
    next
      case False
      then have "k \<in> set (new_object_keys (db_nodes a) objects)"
        using that by (auto simp: new_object_keys_def)
      then show ?thesis
        using add_files_exact [OF conjunct2 [OF imp]] by simp
    qed
    then show ?thesis
      by (simp add: map_of_eq_None_iff)
  qed
  show ?thesis
  proof (intro exI [of _ nodes] conjI)
    show "map fst nodes = pks_of (db_nodes a)"
      using maps by (rule maps_entitiesD(1))
    show "distinct (map snd nodes)"
      using maps ok(2,3) by (rule maps_entities_distinct)
    show "\<forall>l \<in> set (rows_of (db_links a)). \<exists>l' \<in> set (rows_of (db_links db')). same_link nodes l l'"
      "prefix (rows_of (db_links db)) (rows_of (db_links db'))"
      using links unfolding links_added_def prefix_def by blast+
    show "\<forall>r \<in> set (rows_of (db_nodes a)). set (n_keys r) \<subseteq> fst ` set objects'"
      using files by blast
  qed (use nodes_imported_copy [OF nodes ok(1)] in \<open>unfold imported_node_def, blast\<close>)
qed

section \<open>Properties\<close>


text \<open>A successful import embeds the provenance graph of the archive in that of the profile: different nodes stay different,
  each is the node with the same UUID, a new one is a copy without its checkpoint, every link of the archive joins the images of its nodes, the links of
  the profile stay, and the files of all nodes are there.\<close>

theorem import_embeds_graph:
  assumes "db_ok a" "db_ok db" "options_ok opts a db"
    and "import_archive opts latest same_format hash a repository_from db objects = (db', objects', Inr g)"
  shows "\<exists>nodes. map fst nodes = pks_of (db_nodes a) \<and> distinct (map snd nodes)
    \<and> (\<forall>p r i. (p, r) \<in> set (db_nodes a) \<and> map_of nodes p = Some i \<longrightarrow>
         (\<exists>r'. (i, r') \<in> set (db_nodes db') \<and> n_uuid r' = n_uuid r
            \<and> (n_uuid r \<in> set (fields_of n_uuid (db_nodes db)) \<or>
                 n_node_type r' = n_node_type r \<and> n_keys r' = n_keys r \<and> n_columns r' = n_columns r
                 \<and> n_extras r' = kept_extras (io_import_new_extras opts) (n_node_type r) (n_extras r)
                 \<and> n_attributes r' = (if str_startswith (n_node_type r) ''process.'' then AList.delete CHECKPOINT_KEY (n_attributes r)
                     else n_attributes r))))
    \<and> (\<forall>l \<in> set (rows_of (db_links a)). \<exists>l' \<in> set (rows_of (db_links db')). same_link nodes l l')
    \<and> prefix (rows_of (db_links db)) (rows_of (db_links db'))
    \<and> (\<forall>r \<in> set (rows_of (db_nodes a)). set (n_keys r) \<subseteq> fst ` set objects')"
  using assms by (rule import_embeds)


text \<open>C6: An import changes a node that the profile already has in its extras only, and the mode decides about every extra: whether
  one of the profile is kept, one of the archive created, and what becomes of one that both have.\<close>

theorem import_merges_extras:
  assumes "db_ok a" "db_ok db" "options_ok opts a db" "import_entities_of opts a db = Inr (db', g)" "(i, r) \<in> set (db_nodes db)"
  shows "\<exists>extras. (i, r\<lparr>n_extras := extras\<rparr>) \<in> set (db_nodes db')
    \<and> (case row_by n_uuid (db_nodes a) (n_uuid r) of
         None \<Rightarrow> extras = n_extras r
       | Some r' \<Rightarrow> (\<forall>k. map_of extras k = merge_extra (io_merge_extras opts) (map_of (n_extras r) k) (map_of (n_extras r') k)))"
proof -
  have "outcome (\<lambda>e. e = ImportUniquenessError \<or> e = ImportValidationError)
      (\<lambda>(db', g). db_ok db' \<and> (\<exists>nodes. import_result opts a db nodes db' g)) (import_entities_of opts a db)"
    using assms(1-3) by (intro import_entities_of_outcome) simp_all
  then obtain t rows where t: "db_nodes db' = append_rows t rows" and merged: "extras_merged (io_merge_extras opts) (db_nodes a) (db_nodes db) t"
    using assms(4) by (auto simp: import_result_def bases_imported_def nodes_imported_def)
  then obtain row where "row \<in> set t" "\<exists>extras. row = (i, r\<lparr>n_extras := extras\<rparr>)
      \<and> (case row_by n_uuid (db_nodes a) (n_uuid r) of
           None \<Rightarrow> extras = n_extras r
         | Some r' \<Rightarrow> (\<forall>k. map_of extras k = merge_extra (io_merge_extras opts) (map_of (n_extras r) k) (map_of (n_extras r') k)))"
    using list_all2_in_set1 [OF merged [unfolded extras_merged_def] assms(5)] by (simp only: fst_conv snd_conv) blast
  then show ?thesis
    unfolding t append_rows_def set_append by blast
qed


section \<open>Examples\<close>

text \<open>A profile with one user, and archives that contain a calculation with an output; the values of attributes are strings.\<close>

definition empty_db :: "string database" where
  "empty_db = \<lparr>db_users = [], db_computers = [], db_authinfos = [], db_nodes = [], db_logs = [], db_comments = [], db_links = [],
     db_groups = [], db_group_nodes = []\<rparr>"

definition example_profile :: "string database" where
  "example_profile = empty_db\<lparr>db_users := [(1, \<lparr>u_email = ''me@here'', u_columns = []\<rparr>)]\<rparr>"

definition example_node :: "string \<Rightarrow> string \<Rightarrow> string node_row" where
  "example_node uuid node_type = \<lparr>n_uuid = uuid, n_node_type = node_type, n_user_id = 1, n_computer_id = None,
     n_attributes = [(''checkpoints'', ''state'')], n_extras = [(''_aiida_hash'', ''abc''), (''tag'', ''x'')], n_keys = [], n_columns = []\<rparr>"

definition example_archive :: "string \<Rightarrow> string database" where
  "example_archive calculation = example_profile\<lparr>
     db_nodes := [(1, example_node calculation ''process.calculation.calcjob.CalcJobNode.''), (2, example_node ''out'' ''data.core.int.Int.'')],
     db_links := [(1, \<lparr>li_input_id = 1, li_output_id = 2, li_type = CREATE, li_label = ''result''\<rparr>)]\<rparr>"

definition example_options :: import_options where
  "example_options = \<lparr>io_filter_size = 999, io_batch_size = 1000, io_import_new_extras = True, io_merge_extras = ''knl'',
     io_merge_comments = ''leave'', io_include_authinfos = False, io_create_group = False, io_group = None, io_test_run = False,
     io_now = ''now'', io_group_row = \<lparr>g_uuid = ''new'', g_label = [], g_type_string = ''core.import'', g_user_id = 1, g_columns = []\<rparr>\<rparr>"

definition imported_node_of :: "string \<Rightarrow> string \<Rightarrow> string dict \<Rightarrow> string node_row" where
  "imported_node_of uuid node_type attributes =
     (example_node uuid node_type)\<lparr>n_attributes := attributes, n_extras := [(''tag'', ''x'')]\<rparr>"

definition example_result :: "string database" where
  "example_result = example_profile\<lparr>
     db_nodes := [(1, imported_node_of ''calc'' ''process.calculation.calcjob.CalcJobNode.'' []),
                  (2, imported_node_of ''out'' ''data.core.int.Int.'' [(''checkpoints'', ''state'')])],
     db_links := [(1, \<lparr>li_input_id = 1, li_output_id = 2, li_type = CREATE, li_label = ''result''\<rparr>)]\<rparr>"

lemmas example_defs = example_archive_def example_profile_def example_node_def example_options_def empty_db_def

lemma example_ok: "db_ok example_profile" "db_ok (example_archive ''calc'')" "db_ok example_result"
  by (simp_all add: example_defs example_result_def imported_node_of_def db_ok_def tables_ok_def foreign_keys_ok_def table_ok_def user_constraint_def computer_constraint_def
      authinfo_constraint_def node_constraint_def log_constraint_def comment_constraint_def group_constraint_def
      group_node_constraint_def authinfo_refs_def node_refs_iff log_refs_def comment_refs_def link_refs_def group_refs_def
      group_node_refs_def)

lemma example_options_ok: "options_ok example_options a db"
  by (simp add: options_ok_def example_options_def valid_mode_def)

lemma example_import:
  "import_entities_of example_options (example_archive ''calc'') example_profile = Inr (example_result, None)"
  by code_simp

lemma example_import_archive:
  "import_archive example_options True True id (example_archive ''calc'') [] example_profile [] = (example_result, [], Inr None)"
  by code_simp


theorem import_embeds_graph_witness:
  "\<exists>nodes. map fst nodes = [1, 2] \<and> distinct (map snd nodes)
     \<and> same_link nodes \<lparr>li_input_id = 1, li_output_id = 2, li_type = CREATE, li_label = ''result''\<rparr>
         \<lparr>li_input_id = 1, li_output_id = 2, li_type = CREATE, li_label = ''result''\<rparr>"
proof -
  let ?link = "\<lparr>li_input_id = 1, li_output_id = 2, li_type = CREATE, li_label = ''result''\<rparr>"
  have links: "rows_of (db_links (example_archive ''calc'')) = [?link]" "rows_of (db_links example_result) = [?link]"
      "pks_of (db_nodes (example_archive ''calc'')) = [1, 2]"
    by (simp_all add: example_defs example_result_def)
  obtain nodes where "map fst nodes = pks_of (db_nodes (example_archive ''calc''))" "distinct (map snd nodes)"
      "\<forall>l \<in> set (rows_of (db_links (example_archive ''calc''))). \<exists>l' \<in> set (rows_of (db_links example_result)). same_link nodes l l'"
    using import_embeds_graph [OF example_ok(2) example_ok(1) example_options_ok example_import_archive] by blast
  then show ?thesis
    unfolding links by (intro exI [of _ nodes]) simp
qed

theorem import_merges_extras_witness:
  "\<exists>extras. (1, (snd (hd (db_nodes example_result)))\<lparr>n_extras := extras\<rparr>)
       \<in> set (db_nodes (fst (the_ok (import_entities_of (example_options\<lparr>io_merge_extras := ''ncu''\<rparr>) (example_archive ''calc'') example_result))))
     \<and> map_of extras ''_aiida_hash'' = Some ''abc''"
proof -
  let ?opts = "example_options\<lparr>io_merge_extras := ''ncu''\<rparr>"
  have "is_ok (import_entities_of ?opts (example_archive ''calc'') example_result)"
    by code_simp
  then obtain db' g where db': "import_entities_of ?opts (example_archive ''calc'') example_result = Inr (db', g)"
    by (cases "import_entities_of ?opts (example_archive ''calc'') example_result") auto
  have "(1, snd (hd (db_nodes example_result))) \<in> set (db_nodes example_result)"
    by (simp add: example_result_def)
  moreover have "options_ok ?opts (example_archive ''calc'') example_result"
    by (simp add: options_ok_def example_options_def valid_mode_def)
  moreover have "row_by n_uuid (db_nodes (example_archive ''calc'')) (n_uuid (snd (hd (db_nodes example_result))))
      = Some (example_node ''calc'' ''process.calculation.calcjob.CalcJobNode.'')"
    "map_of (n_extras (snd (hd (db_nodes example_result)))) ''_aiida_hash'' = None"
    by code_simp+
  moreover have "io_merge_extras ?opts = ''ncu''"
    by simp
  ultimately show ?thesis
    using import_merges_extras [OF example_ok(2,3) _ db', of 1 "snd (hd (db_nodes example_result))"]
    unfolding db' by (fastforce simp: example_node_def)
qed



end
