(* ===== verification/Aiida_Export_Correct.thy ===== *)
theory Aiida_Export_Correct
  imports Aiida_Export Aiida_Import_Correct "HOL-Library.Product_Lexorder" "HOL-Library.List_Lexorder" "HOL-Library.Char_ord"
begin

text \<open>
  An export collects whole parts of the provenance graph: the archive satisfies the constraints and foreign keys of a
  profile, and it has every link between the nodes in it.
\<close>

section \<open>Writing tables\<close>

text \<open>The rows of the archive: the selected ones, with their keys.\<close>

definition exported :: "('r \<Rightarrow> 'r) \<Rightarrow> pk set \<Rightarrow> 'r table \<Rightarrow> 'r table" where
  "exported transform ids t = map (\<lambda>(pk, r). (pk, transform r)) (select ids t)"

lemma exported_sel:
  "pks_of (exported transform ids t) = pks_of (select ids t)" "rows_of (exported transform ids t) = map transform (rows_of (select ids t))"
  by (auto simp: exported_def comp_def case_prod_beta)

text \<open>What the writer relies on: a constraint that holds of fewer rows too, and foreign keys that are checked row by row.\<close>

locale archive_table =
  fixes constraint :: "'r list \<Rightarrow> bool" and refs :: "'r list \<Rightarrow> bool"
  assumes constraint_subseq: "\<lbrakk> constraint rs; subseq rs' rs \<rbrakk> \<Longrightarrow> constraint rs'"
    and refs_subset: "\<lbrakk> refs rs; set rs' \<subseteq> set rs \<rbrakk> \<Longrightarrow> refs rs'"
begin

lemma write_batches_exact:
  "\<lbrakk> distinct (pks_of (t @ concat batches)); constraint (rows_of (t @ concat batches)); refs (rows_of (concat batches)) \<rbrakk>
   \<Longrightarrow> write_batches constraint refs batches t = Inr (t @ concat batches)"
proof (induction batches arbitrary: t)
  case (Cons rows batches)
  have "subseq (rows_of (t @ rows)) (rows_of (t @ concat (rows # batches)))"
    by (simp add: list_emb_append_mono prefix_imp_subseq)
  then have "constraint (rows_of (t @ rows))"
    using Cons.prems(2) by (rule constraint_subseq [rotated])
  moreover have "refs (rows_of rows)" "refs (rows_of (concat batches))"
    using Cons.prems(3) by (rule refs_subset, simp)+
  moreover have "archive_insert constraint refs rows t = Inr (t @ rows)"
    using calculation Cons.prems(1) by (auto simp: archive_insert_def)
  ultimately show ?case
    using Cons.prems(1,2) Cons.IH [of "t @ rows"] by simp
qed simp

lemma write_rows_exact:
  assumes "table_ok constraint t" and tr: "\<And>rs. constraint (map transform rs) \<longleftrightarrow> constraint rs"
    and "refs (map transform (rows_of (select ids t)))"
  shows "write_rows batch_size constraint refs transform ids t = Inr (exported transform ids t)"
    and "table_ok constraint (exported transform ids t)"
proof -
  let ?rows = "exported transform ids t"
  have "subseq (rows_of (select ids t)) (rows_of t)"
    unfolding select_def by (intro subseq_map subseq_filter_left)
  then have c: "constraint (rows_of ?rows)"
    using assms(1) constraint_subseq unfolding exported_sel tr by (auto simp: table_ok_def)
  moreover have d: "distinct (pks_of ?rows)"
    using assms(1) unfolding exported_sel by (auto simp: table_ok_def select_def distinct_map_filter)
  ultimately show "table_ok constraint ?rows"
    by (simp only: table_ok_def)
  show "write_rows batch_size constraint refs transform ids t = Inr ?rows"
    using write_batches_exact [of "[]" "batch_iter batch_size ?rows"] c d assms(3)
    unfolding append_Nil batch_iter_concat exported_sel write_rows_def exported_def [symmetric] by (auto simp: exported_def select_def)
qed

end

lemma distinct_map_subseq: "\<lbrakk> distinct (map f xs); subseq ys xs \<rbrakk> \<Longrightarrow> distinct (map f ys)"
  by (auto simp: subseq_conv_nths nths_map [symmetric] intro: distinct_nthsI)

lemmas constraint_defs =
  user_constraint_def computer_constraint_def authinfo_constraint_def node_constraint_def log_constraint_def comment_constraint_def
  group_constraint_def group_node_constraint_def

lemmas refs_defs =
  authinfo_refs_def node_refs_iff log_refs_def comment_refs_def link_refs_def group_refs_def group_node_refs_def

interpretation user_table: archive_table user_constraint "\<lambda>_. True"
  by unfold_locales (auto simp: constraint_defs intro: distinct_map_subseq)

interpretation computer_table: archive_table computer_constraint "\<lambda>_. True"
  by unfold_locales (auto simp: constraint_defs intro: distinct_map_subseq)

interpretation authinfo_table: archive_table authinfo_constraint "authinfo_refs users computers" for users computers
  by unfold_locales (auto simp: constraint_defs refs_defs intro: distinct_map_subseq)

interpretation node_table: archive_table node_constraint "node_refs users computers" for users computers
  by unfold_locales (auto simp: constraint_defs refs_defs intro: distinct_map_subseq)

interpretation log_table: archive_table log_constraint "log_refs nodes" for nodes
  by unfold_locales (auto simp: constraint_defs refs_defs intro: distinct_map_subseq)

interpretation comment_table: archive_table comment_constraint "comment_refs users nodes" for users nodes
  by unfold_locales (auto simp: constraint_defs refs_defs intro: distinct_map_subseq)

interpretation group_table: archive_table group_constraint "group_refs users" for users
  by unfold_locales (auto simp: constraint_defs refs_defs intro: distinct_map_subseq)

section \<open>What is collected\<close>

text \<open>The collected keys are closed: everything that a collected row refers to is collected.\<close>

definition closed_ids :: "'v Aiida_Import.database \<Rightarrow> entity_ids \<Rightarrow> bool" where
  "closed_ids db ids \<longleftrightarrow>
     authinfo_refs (e_users ids) (e_computers ids) (rows_of (select (e_authinfos ids) (db_authinfos db)))
     \<and> node_refs (e_users ids) (e_computers ids) (rows_of (select (e_nodes ids) (db_nodes db)))
     \<and> log_refs (e_nodes ids) (rows_of (select (e_logs ids) (db_logs db)))
     \<and> comment_refs (e_users ids) (e_nodes ids) (rows_of (select (e_comments ids) (db_comments db)))
     \<and> group_refs (e_users ids) (rows_of (select (e_groups ids) (db_groups db)))"

lemma in_select [simp]: "row \<in> set (select ids t) \<longleftrightarrow> row \<in> set t \<and> fst row \<in> ids"
  by (auto simp: select_def)

lemma pks_select: "set (pks_of (select ids t)) = set (pks_of t) \<inter> ids"
  by (auto simp: select_def)

lemma in_rows_select: "r \<in> set (rows_of (select ids t)) \<longleftrightarrow> (\<exists>pk. (pk, r) \<in> set t \<and> pk \<in> ids)"
  by (force simp: select_def)

text \<open>A key that a selected row refers to is collected, and rows that were collected because they refer to a key have it.\<close>

lemma referred_cover:
  assumes "referred target ref ids t \<subseteq> U" "\<forall>r \<in> set (rows_of t). \<forall>p. ref r = Some p \<longrightarrow> p \<in> set (pks_of target)"
  shows "\<forall>r \<in> set (rows_of (select ids t)). \<forall>p. ref r = Some p \<longrightarrow> p \<in> U"
proof (intro ballI allI impI)
  fix r p
  assume "r \<in> set (rows_of (select ids t))" "ref r = Some p"
  then obtain pk where pk: "(pk, r) \<in> set (select ids t)" "(pk, r) \<in> set t"
    by auto
  then have "p \<in> set (pks_of target)"
    using assms(2) \<open>ref r = Some p\<close> by force
  moreover have "Some p \<in> (\<lambda>row. ref (snd row)) ` set (select ids t)"
    using pk(1) \<open>ref r = Some p\<close> by (intro image_eqI [of _ _ "(pk, r)"]) simp_all
  ultimately show "p \<in> U"
    using assms(1) by (auto simp: referred_def simp del: in_select set_map)
qed

lemma referring_cover:
  assumes "distinct (pks_of t)" "ids' \<subseteq> referring t ref ids target"
  shows "\<forall>r \<in> set (rows_of (select ids' t)). ref r \<in> ids"
proof
  fix r
  assume "r \<in> set (rows_of (select ids' t))"
  then obtain pk where "(pk, r) \<in> set t" "pk \<in> referring t ref ids target"
    using assms(2) unfolding in_rows_select by blast
  then obtain r' where "(pk, r') \<in> set t" "ref r' \<in> fst ` set (select ids target)"
    by (force simp: referring_def simp del: in_select)
  moreover have "r' = r"
    using assms(1) calculation(1) \<open>(pk, r) \<in> set t\<close> by (rule eq_key_imp_eq_value)
  ultimately show "ref r \<in> ids"
    by auto
qed

lemma select_all: "select (set (pks_of t)) t = t" "select {} t = []"
  by (auto simp: select_def filter_id_conv)

lemma collect_all_closed:
  assumes "foreign_keys_ok db"
  shows "closed_ids db (fst (collect_all_entities inc db no_entities))"
proof -
  have "authinfo_refs U C []" "log_refs N []" "comment_refs U N []" for U C N
    by (simp_all add: refs_defs)
  then show ?thesis
    using assms by (simp add: closed_ids_def collect_all_entities_def foreign_keys_ok_def Let_def no_entities_def select_all del: set_map)
qed

text \<open>The starting entities are nodes, groups and computers only.\<close>

definition starting_ids :: "entity_ids \<Rightarrow> bool" where
  "starting_ids ids \<longleftrightarrow> e_authinfos ids = {} \<and> e_logs ids = {} \<and> e_comments ids = {}"

lemma collect_owned_closed:
  assumes fk: "foreign_keys_ok db" and d: "distinct (pks_of (db_authinfos db))" "distinct (pks_of (db_logs db))" "distinct (pks_of (db_comments db))"
    and "starting_ids ids"
  shows "closed_ids db (collect_owned inc db ids)"
proof -
  let ?ids = "collect_owned inc db ids"
  have same: "e_nodes ?ids = e_nodes ids" "e_groups ?ids = e_groups ids"
    and users: "referred (db_users db) (\<lambda>r. Some (n_user_id r)) (e_nodes ?ids) (db_nodes db) \<subseteq> e_users ?ids"
      "referred (db_users db) (\<lambda>r. Some (g_user_id r)) (e_groups ?ids) (db_groups db) \<subseteq> e_users ?ids"
      "referred (db_users db) (\<lambda>r. Some (cm_user_id r)) (e_comments ?ids) (db_comments db) \<subseteq> e_users ?ids"
      "referred (db_users db) (\<lambda>r. Some (ai_user_id r)) (e_authinfos ?ids) (db_authinfos db) \<subseteq> e_users ?ids"
    and computers: "referred (db_computers db) n_computer_id (e_nodes ?ids) (db_nodes db) \<subseteq> e_computers ?ids"
    and owned: "e_authinfos ?ids \<subseteq> referring (db_authinfos db) ai_computer_id (e_computers ?ids) (db_computers db)"
      "e_logs ?ids \<subseteq> referring (db_logs db) l_node_id (e_nodes ?ids) (db_nodes db)"
      "e_comments ?ids \<subseteq> referring (db_comments db) cm_node_id (e_nodes ?ids) (db_nodes db)"
    using assms(5) by (auto simp: collect_owned_def Let_def starting_ids_def)
  note covers = users [THEN referred_cover] computers [THEN referred_cover] referring_cover [OF d(1) owned(1)]
    referring_cover [OF d(2) owned(2)] referring_cover [OF d(3) owned(3)]
  show ?thesis
    using fk covers unfolding closed_ids_def foreign_keys_ok_def Let_def refs_defs by simp
qed

text \<open>The nodes are closed: with each process its inputs, outputs and called processes.\<close>

definition quadruple :: "link_row \<Rightarrow> edge" where
  "quadruple l = LinkQuadruple (int (li_input_id l)) (int (li_output_id l)) (li_type l) (li_label l)"

definition whole_processes :: "'v Aiida_Import.database \<Rightarrow> pk set \<Rightarrow> bool" where
  "whole_processes db N \<longleftrightarrow>
     (\<forall>l \<in> set (rows_of (db_links db)).
        if li_type l \<in> {INPUT_CALC, INPUT_WORK} then li_output_id l \<in> N \<longrightarrow> li_input_id l \<in> N
        else li_input_id l \<in> N \<longrightarrow> li_output_id l \<in> N)"

definition collected :: "'v Aiida_Import.database \<Rightarrow> entity_ids \<Rightarrow> (pk \<times> pk) list \<Rightarrow> edge set \<Rightarrow> bool" where
  "collected db ids group_nodes link_data \<longleftrightarrow>
     closed_ids db ids \<and> e_nodes ids \<subseteq> set (pks_of (db_nodes db)) \<and> whole_processes db (e_nodes ids)
     \<and> link_data = quadruple ` {l \<in> set (rows_of (db_links db)). li_input_id l \<in> e_nodes ids \<and> li_output_id l \<in> e_nodes ids}
     \<and> group_nodes = group_members (e_groups ids) db \<and> snd ` set group_nodes \<subseteq> e_nodes ids"

lemma provenance_of_sel:
  "Aiida_Graph_Traversal.database.db_nodes (provenance_of db) = map int (pks_of (db_nodes db))"
  "Aiida_Graph_Traversal.database.db_links (provenance_of db) =
     map (\<lambda>l. (int (li_input_id l), int (li_output_id l), li_type l, li_label l)) (rows_of (db_links db))"
  by (simp_all add: provenance_of_def Aiida_Graph_Traversal.database.make_def)

lemma provenance_no_dangling: "foreign_keys_ok db \<Longrightarrow> no_dangling (provenance_of db)"
  by (fastforce simp: no_dangling_def provenance_of_sel list_all_iff foreign_keys_ok_def Let_def link_refs_def image_iff)

lemma links_within_provenance:
  assumes "X = int ` N"
  shows "links_within (provenance_of db) X =
    quadruple ` {l \<in> set (rows_of (db_links db)). li_input_id l \<in> N \<and> li_output_id l \<in> N}"
  unfolding links_within_def provenance_of_sel assms by (fastforce simp: quadruple_def image_iff)

lemma whole_processes_provenance:
  assumes "X = int ` N" "\<forall>link \<in> set (Aiida_Graph_Traversal.database.db_links (provenance_of db)). process_end link \<in> X \<longrightarrow> other_end link \<in> X"
  shows "whole_processes db N"
  using assms unfolding whole_processes_def provenance_of_sel by (auto simp: process_end_def other_end_def split: if_splits)

lemma collect_nodes_outcome:
  assumes fk: "foreign_keys_ok db" and rules: "validate_traversal_rules EXPORT rules = Inr links"
    and iter: "\<And>S. finite S \<Longrightarrow> set (iter S) = S" and fin: "finite (e_nodes ids)"
  shows "\<exists>r. collect_nodes iter rules db ids = Some r \<and> outcome (\<lambda>e. e = NotExistent)
    (\<lambda>(ids', group_nodes, link_data). (\<exists>N. ids' = ids\<lparr>e_nodes := N\<rparr> \<and> e_nodes ids \<subseteq> N) \<and> e_nodes ids' \<subseteq> set (pks_of (db_nodes db))
      \<and> whole_processes db (e_nodes ids')
      \<and> link_data = quadruple ` {l \<in> set (rows_of (db_links db)). li_input_id l \<in> e_nodes ids' \<and> li_output_id l \<in> e_nodes ids'}
      \<and> group_nodes = group_members (e_groups ids) db \<and> snd ` set group_nodes \<subseteq> e_nodes ids') r"
proof -
  define members where "members = group_members (e_groups ids) db"
  have m: "(if e_groups ids = {} then [] else group_members (e_groups ids) db) = members"
    by (simp add: members_def group_members_def)
  define S where "S = e_nodes ids \<union> snd ` set members"
  have sets: "set (map int (iter S)) = int ` S" "set (map int (pks_of (db_nodes db))) = int ` set (pks_of (db_nodes db))"
    using iter [of S] fin by (simp_all add: S_def image_image)
  have pks: "map (\<lambda>pk. IntKey (int pk)) (iter S) = map IntKey (map int (iter S))"
    by simp
  obtain X where X: "get_nodes_export (provenance_of db) (map (\<lambda>pk. IntKey (int pk)) (iter S)) True rules =
        (if int ` S \<subseteq> int ` set (pks_of (db_nodes db))
         then Some (Inr \<lparr>tr_nodes = X, tr_links = Some (links_within (provenance_of db) X), tr_rules = rules_applied links\<rparr>)
         else Some (Inl NotExistent))"
      and XS: "int ` S \<subseteq> int ` set (pks_of (db_nodes db)) \<Longrightarrow> int ` S \<subseteq> X \<and> X \<subseteq> int ` set (pks_of (db_nodes db))
        \<and> (\<forall>link \<in> set (Aiida_Graph_Traversal.database.db_links (provenance_of db)). process_end link \<in> X \<longrightarrow> other_end link \<in> X)"
    using get_nodes_export_result [OF rules provenance_no_dangling [OF fk], of "map int (iter S)"]
    unfolding provenance_of_sel(1) sets pks by blast
  show ?thesis
  proof (cases "int ` S \<subseteq> int ` set (pks_of (db_nodes db))")
    case True
    define N where "N = nat ` X"
    have N: "X = int ` N"
      using XS [OF True] by (force simp: N_def image_image)
    have sub: "S \<subseteq> N" "N \<subseteq> set (pks_of (db_nodes db))"
      using XS [OF True] unfolding N by (auto simp: inj_image_subset_iff inj_def simp del: list.set_map)
    then have "S \<union> nat ` X = N"
      by (auto simp: N_def)
    then have "collect_nodes iter rules db ids = Some (Inr (ids\<lparr>e_nodes := N\<rparr>, members,
        quadruple ` {l \<in> set (rows_of (db_links db)). li_input_id l \<in> N \<and> li_output_id l \<in> N}))"
      using True X links_within_provenance [OF N, of db]
      unfolding collect_nodes_def m Let_def by (simp add: S_def [symmetric] del: set_map)
    moreover have "whole_processes db N"
      using XS [OF True] whole_processes_provenance [OF N] by blast
    moreover have "e_nodes ids \<subseteq> N" "snd ` set members \<subseteq> N"
      using sub(1) by (auto simp: S_def)
    ultimately show ?thesis
      using sub(2) by (auto simp: members_def simp del: set_map)
  next
    case False
    then show ?thesis
      using X unfolding collect_nodes_def m Let_def by (auto simp: S_def [symmetric])
  qed
qed

lemma in_group_members:
  "(g, n) \<in> set (group_members groups db) \<longleftrightarrow> g \<in> groups \<and> g \<in> set (pks_of (db_groups db)) \<and> n \<in> set (pks_of (db_nodes db))
    \<and> (\<exists>r \<in> set (rows_of (db_group_nodes db)). gn_group_id r = g \<and> gn_node_id r = n)"
  unfolding group_members_def set_remdups by (auto simp: image_iff simp del: set_map simp: set_map [of "\<lambda>r. (gn_group_id r, gn_node_id r)"])

lemma starting_entities_ids:
  assumes "starting_entities entities ids = Inr ids'" "starting_ids ids" "finite (e_nodes ids)"
  shows "starting_ids ids' \<and> finite (e_nodes ids')"
  using assms
proof (induction entities arbitrary: ids)
  case (Cons e es)
  then show ?case
    by (cases e; fastforce simp: bind_res_Inr_iff starting_ids_def split: if_splits)
qed simp

lemma starting_entities_error: "starting_entities entities ids = Inl e \<Longrightarrow> e \<in> {AttributeError, ArchiveExportError}"
proof (induction entities arbitrary: ids)
  case (Cons x es)
  show ?case
  proof (cases "entry_skipped x")
    case (Inl e')
    then show ?thesis
      using Cons.prems by (cases x rule: entry_skipped.cases) auto
  next
    case (Inr skipped)
    then show ?thesis
      using Cons by (cases x) (auto split: if_splits)
  qed
qed simp

lemma collect_all_collected:
  assumes "foreign_keys_ok db"
  shows "case collect_all_entities inc db no_entities of (ids, group_nodes, link_data) \<Rightarrow> collected db ids group_nodes link_data"
proof -
  obtain ids group_nodes link_data where eq: "collect_all_entities inc db no_entities = (ids, group_nodes, link_data)"
    by (cases "collect_all_entities inc db no_entities")
  then have ids: "e_nodes ids = set (pks_of (db_nodes db))" "e_groups ids = set (pks_of (db_groups db))"
      "group_nodes = group_members (set (pks_of (db_groups db))) db" "link_data = all_link_data db"
    by (auto simp: collect_all_entities_def no_entities_def simp del: set_map)
  have "closed_ids db ids"
    using collect_all_closed [OF assms, of inc] by (simp add: eq)
  moreover have "whole_processes db (e_nodes ids)"
    using assms unfolding whole_processes_def ids foreign_keys_ok_def Let_def link_refs_def by auto
  moreover have "snd ` set group_nodes \<subseteq> e_nodes ids"
    unfolding ids group_members_def by (auto simp del: set_map simp: set_map [of "\<lambda>r. (gn_group_id r, gn_node_id r)"])
  ultimately show ?thesis
    unfolding eq prod.case collected_def ids all_link_data_def quadruple_def by simp
qed

lemma starting_entities_nodes:
  "starting_entities entities ids = Inr ids' \<Longrightarrow> e_nodes ids \<subseteq> e_nodes ids' \<and> (\<forall>pk. NodeEntry (Some pk) \<in> set entities \<longrightarrow> pk \<in> e_nodes ids')"
proof (induction entities arbitrary: ids)
  case (Cons e es)
  show ?case
  proof (cases e)
    case (NodeEntry pk)
    then show ?thesis
      using Cons by (cases pk) (fastforce simp: bind_res_Inr_iff)+
  qed (use Cons in \<open>fastforce simp: bind_res_Inr_iff split: if_splits\<close>)+
qed simp

definition requested :: "export_options \<Rightarrow> entity_ids \<Rightarrow> bool" where
  "requested opts ids \<longleftrightarrow> (\<forall>entities pk. xo_entities opts = Some entities \<and> NodeEntry (Some pk) \<in> set entities \<longrightarrow> pk \<in> e_nodes ids)"

text \<open>Whatever is asked for, the collection ends, and it is whole.\<close>

lemma collect_entities_outcome:
  assumes db: "db_ok db" and rules: "validate_traversal_rules EXPORT (xo_rules opts) = Inr links"
    and iter: "\<And>S. finite S \<Longrightarrow> set (iter S) = S"
  shows "\<exists>r. collect_entities opts iter db = Some r \<and> outcome (\<lambda>e. e \<in> {AttributeError, ArchiveExportError, NotExistent})
    (\<lambda>(ids, group_nodes, link_data). collected db ids group_nodes link_data \<and> requested opts ids) r"
proof (cases "xo_entities opts")
  case None
  then show ?thesis
    using collect_all_collected [of db "xo_include opts"] db by (auto simp: collect_entities_def db_ok_def requested_def)
next
  case (Some entities)
  note fk = db [unfolded db_ok_def, THEN conjunct2]
  have d: "distinct (pks_of (db_authinfos db))" "distinct (pks_of (db_logs db))" "distinct (pks_of (db_comments db))"
    using db by (simp_all add: db_ok_def tables_ok_def table_ok_def)
  show ?thesis
  proof (cases "starting_entities entities no_entities")
    case (Inl e)
    then show ?thesis
      using Some starting_entities_error [OF Inl] by (auto simp: collect_entities_def)
  next
    case (Inr ids)
    have ids: "starting_ids ids" "finite (e_nodes ids)"
      using starting_entities_ids [OF Inr] by (simp_all add: starting_ids_def no_entities_def)
    obtain r where r: "collect_nodes iter (xo_rules opts) db ids = Some r"
        and out: "outcome (\<lambda>e. e = NotExistent)
        (\<lambda>(ids', group_nodes, link_data). (\<exists>N. ids' = ids\<lparr>e_nodes := N\<rparr> \<and> e_nodes ids \<subseteq> N) \<and> e_nodes ids' \<subseteq> set (pks_of (db_nodes db))
          \<and> whole_processes db (e_nodes ids')
          \<and> link_data = quadruple ` {l \<in> set (rows_of (db_links db)). li_input_id l \<in> e_nodes ids' \<and> li_output_id l \<in> e_nodes ids'}
          \<and> group_nodes = group_members (e_groups ids) db \<and> snd ` set group_nodes \<subseteq> e_nodes ids') r"
      using collect_nodes_outcome [OF fk rules iter ids(2)] by blast
    have same: "e_nodes (collect_owned inc db ids') = e_nodes ids'" "e_groups (collect_owned inc db ids') = e_groups ids'" for inc ids'
      by (simp_all add: collect_owned_def Let_def)
    have "closed_ids db (collect_owned (xo_include opts) db (ids\<lparr>e_nodes := N\<rparr>))" for N
      using ids(1) by (intro collect_owned_closed [OF fk d]) (simp add: starting_ids_def)
    then show ?thesis
      using out Some Inr starting_entities_nodes [OF Inr]
      by (cases r) (auto simp: collect_entities_def collect_required_entities_def r collected_def same requested_def subset_iff)
  qed
qed

section \<open>What is written\<close>

lemma set_rows_select: "set (rows_of (select ids t)) \<subseteq> set (rows_of t)"
  by (auto simp: select_def)

lemma refs_inter:
  "\<lbrakk> authinfo_refs A B (rows_of t1); authinfo_refs A' B' (rows_of (select ids t1)) \<rbrakk> \<Longrightarrow> authinfo_refs (A \<inter> A') (B \<inter> B') (rows_of (select ids t1))"
  "\<lbrakk> node_refs A B (rows_of t2); node_refs A' B' (rows_of (select ids t2)) \<rbrakk> \<Longrightarrow> node_refs (A \<inter> A') (B \<inter> B') (rows_of (select ids t2))"
  "\<lbrakk> log_refs A (rows_of t3); log_refs A' (rows_of (select ids t3)) \<rbrakk> \<Longrightarrow> log_refs (A \<inter> A') (rows_of (select ids t3))"
  "\<lbrakk> comment_refs A B (rows_of t4); comment_refs A' B' (rows_of (select ids t4)) \<rbrakk> \<Longrightarrow> comment_refs (A \<inter> A') (B \<inter> B') (rows_of (select ids t4))"
  "\<lbrakk> group_refs A (rows_of t5); group_refs A' (rows_of (select ids t5)) \<rbrakk> \<Longrightarrow> group_refs (A \<inter> A') (rows_of (select ids t5))"
  by (auto simp: refs_defs select_def)

definition stripped :: "bool \<Rightarrow> 'v node_row \<Rightarrow> 'v node_row" where
  "stripped strip = (if strip then strip_checkpoint else id)"

lemma strip_checkpoint_sel:
  "n_uuid (strip_checkpoint r) = n_uuid r" "n_user_id (strip_checkpoint r) = n_user_id r"
  "n_computer_id (strip_checkpoint r) = n_computer_id r" "n_node_type (strip_checkpoint r) = n_node_type r"
  "n_keys (strip_checkpoint r) = n_keys r" "n_extras (strip_checkpoint r) = n_extras r" "n_columns (strip_checkpoint r) = n_columns r"
  by (simp_all add: strip_checkpoint_def)

lemma stripped_rules:
  "node_constraint (map (stripped strip) rs) \<longleftrightarrow> node_constraint rs"
  "node_refs users computers (map (stripped strip) rs) \<longleftrightarrow> node_refs users computers rs"
  by (simp_all add: stripped_def node_constraint_def node_refs_iff strip_checkpoint_sel comp_def)

text \<open>The archive that is written.\<close>

definition archive_of ::
  "bool \<Rightarrow> 'v Aiida_Import.database \<Rightarrow> entity_ids \<Rightarrow> (pk \<times> pk) list \<Rightarrow> edge list \<Rightarrow> 'v Aiida_Import.database" where
  "archive_of strip db ids group_nodes links =
     Aiida_Import.database.make (exported id (e_users ids) (db_users db)) (exported id (e_computers ids) (db_computers db))
       (exported id (e_authinfos ids) (db_authinfos db)) (exported (stripped strip) (e_nodes ids) (db_nodes db))
       (exported id (e_logs ids) (db_logs db)) (exported id (e_comments ids) (db_comments db))
       (append_rows [] (map link_row_of links)) (exported id (e_groups ids) (db_groups db))
       (append_rows [] (map (\<lambda>(g, n). \<lparr>gn_group_id = g, gn_node_id = n\<rparr>) group_nodes))"

lemmas archive_of_sel = archive_of_def Aiida_Import.database.make_def

lemma exported_refs:
  fixes strip :: bool
  assumes db: "db_ok db" and c: "collected db ids group_nodes link_data" and ls: "set ls = link_data"
  defines "users \<equiv> set (pks_of (exported id (e_users ids) (db_users db)))"
    and "computers \<equiv> set (pks_of (exported id (e_computers ids) (db_computers db)))"
    and "groups \<equiv> set (pks_of (exported id (e_groups ids) (db_groups db)))"
    and "nodes \<equiv> set (pks_of (exported (stripped strip) (e_nodes ids) (db_nodes db)))"
  shows "authinfo_refs users computers (rows_of (select (e_authinfos ids) (db_authinfos db)))"
    "node_refs users computers (rows_of (select (e_nodes ids) (db_nodes db)))"
    "log_refs nodes (rows_of (select (e_logs ids) (db_logs db)))"
    "comment_refs users nodes (rows_of (select (e_comments ids) (db_comments db)))"
    "group_refs users (rows_of (select (e_groups ids) (db_groups db)))"
    "link_refs nodes (map link_row_of ls)"
    "group_node_refs groups nodes (map (\<lambda>(g, n). \<lparr>gn_group_id = g, gn_node_id = n\<rparr>) group_nodes)"
    "group_node_constraint (map (\<lambda>(g, n). \<lparr>gn_group_id = g, gn_node_id = n\<rparr>) group_nodes)"
proof -
  from db have fk: "authinfo_refs (set (pks_of (db_users db))) (set (pks_of (db_computers db))) (rows_of (db_authinfos db))"
      "node_refs (set (pks_of (db_users db))) (set (pks_of (db_computers db))) (rows_of (db_nodes db))"
      "log_refs (set (pks_of (db_nodes db))) (rows_of (db_logs db))"
      "comment_refs (set (pks_of (db_users db))) (set (pks_of (db_nodes db))) (rows_of (db_comments db))"
      "group_refs (set (pks_of (db_users db))) (rows_of (db_groups db))"
    unfolding db_ok_def foreign_keys_ok_def Let_def by blast+
  note cl = c [unfolded collected_def]
  then have closed: "authinfo_refs (e_users ids) (e_computers ids) (rows_of (select (e_authinfos ids) (db_authinfos db)))"
      "node_refs (e_users ids) (e_computers ids) (rows_of (select (e_nodes ids) (db_nodes db)))"
      "log_refs (e_nodes ids) (rows_of (select (e_logs ids) (db_logs db)))"
      "comment_refs (e_users ids) (e_nodes ids) (rows_of (select (e_comments ids) (db_comments db)))"
      "group_refs (e_users ids) (rows_of (select (e_groups ids) (db_groups db)))"
    unfolding closed_ids_def by blast+
  note sets = users_def computers_def nodes_def groups_def exported_sel pks_select
  show "authinfo_refs users computers (rows_of (select (e_authinfos ids) (db_authinfos db)))"
    unfolding sets by (rule refs_inter(1) [OF fk(1) closed(1)])
  show "node_refs users computers (rows_of (select (e_nodes ids) (db_nodes db)))"
    unfolding sets by (rule refs_inter(2) [OF fk(2) closed(2)])
  show "log_refs nodes (rows_of (select (e_logs ids) (db_logs db)))"
    unfolding sets by (rule refs_inter(3) [OF fk(3) closed(3)])
  show "comment_refs users nodes (rows_of (select (e_comments ids) (db_comments db)))"
    unfolding sets by (rule refs_inter(4) [OF fk(4) closed(4)])
  show "group_refs users (rows_of (select (e_groups ids) (db_groups db)))"
    unfolding sets by (rule refs_inter(5) [OF fk(5) closed(5)])
  have N: "e_nodes ids \<subseteq> nodes"
    using cl unfolding nodes_def exported_sel pks_select by blast
  show "link_refs nodes (map link_row_of ls)"
    using cl N ls by (auto simp: link_refs_def link_row_of_def quadruple_def)
  have "g \<in> e_groups ids \<and> g \<in> set (pks_of (db_groups db)) \<and> n \<in> e_nodes ids" if "(g, n) \<in> set group_nodes" for g n
    using that cl in_group_members [of g n "e_groups ids" db] by (auto simp del: set_map)
  then show "group_node_refs groups nodes (map (\<lambda>(g, n). \<lparr>gn_group_id = g, gn_node_id = n\<rparr>) group_nodes)"
    using N unfolding groups_def exported_sel pks_select by (auto simp: group_node_refs_def simp del: set_map simp: set_map [of "\<lambda>(g, n). \<lparr>gn_group_id = g, gn_node_id = n\<rparr>"])
  have "distinct group_nodes"
    using cl by (simp add: group_members_def)
  then show "group_node_constraint (map (\<lambda>(g, n). \<lparr>gn_group_id = g, gn_node_id = n\<rparr>) group_nodes)"
    by (auto simp: group_node_constraint_def distinct_map inj_on_def)
qed

lemma write_database_exact:
  assumes db: "db_ok db" and c: "collected db ids group_nodes link_data" and ls: "set ls = link_data"
  shows "write_database bs strip db ids group_nodes ls = Inr (archive_of strip db ids group_nodes ls)"
    and "db_ok (archive_of strip db ids group_nodes ls)"
proof -
  note refs = exported_refs [OF db c ls]
  have t: "table_ok user_constraint (db_users db)" "table_ok computer_constraint (db_computers db)"
      "table_ok authinfo_constraint (db_authinfos db)" "table_ok node_constraint (db_nodes db)" "table_ok log_constraint (db_logs db)"
      "table_ok comment_constraint (db_comments db)" "table_ok group_constraint (db_groups db)"
    using db by (simp_all add: db_ok_def tables_ok_def)
  note rows = user_table.write_rows_exact [where transform = id, OF t(1)] computer_table.write_rows_exact [where transform = id, OF t(2)]
    authinfo_table.write_rows_exact [where transform = id, OF t(3)] node_table.write_rows_exact [where transform = "stripped strip", OF t(4)]
    log_table.write_rows_exact [where transform = id, OF t(5)] comment_table.write_rows_exact [where transform = id, OF t(6)]
    group_table.write_rows_exact [where transform = id, OF t(7)]
  have links: "insert_batches (link_refs N) (batch_iter bs rows) [] = Inr (append_rows [] rows)" if "link_refs N rows" for N rows
    using that by (intro insert_batch_iter) (auto simp: link_refs_def)
  have members: "insert_batches (\<lambda>rs. group_node_constraint rs \<and> group_node_refs G N rs) (batch_iter bs rows) [] = Inr (append_rows [] rows)"
    if "group_node_constraint rows" "group_node_refs G N rows" for G N rows
    using that by (intro insert_batch_iter) (auto simp: group_node_refs_def group_node_constraint_def)
  show "write_database bs strip db ids group_nodes ls = Inr (archive_of strip db ids group_nodes ls)"
    unfolding write_database_def archive_of_def stripped_def [symmetric]
    by (simp only: rows refs links members bind_res_simps list.map_id0 id_apply list.map_id stripped_rules)
  have ok: "table_ok user_constraint (exported id (e_users ids) (db_users db))" "table_ok computer_constraint (exported id (e_computers ids) (db_computers db))"
      "table_ok authinfo_constraint (exported id (e_authinfos ids) (db_authinfos db))" "table_ok node_constraint (exported (stripped strip) (e_nodes ids) (db_nodes db))"
      "table_ok log_constraint (exported id (e_logs ids) (db_logs db))" "table_ok comment_constraint (exported id (e_comments ids) (db_comments db))"
      "table_ok group_constraint (exported id (e_groups ids) (db_groups db))"
    by (rule rows; simp only: list.map_id stripped_rules; rule refs)+
  have new: "distinct (pks_of (append_rows [] rs))" "rows_of (append_rows [] rs) = rs" for rs :: "'x list"
    using distinct_pks_append [of "[]" rs] by simp_all
  show "db_ok (archive_of strip db ids group_nodes ls)"
    unfolding db_ok_def tables_ok_def foreign_keys_ok_def Let_def archive_of_sel Aiida_Import.database.simps
    by (simp only: ok refs new table_ok_def [of group_node_constraint] exported_sel(2) stripped_rules list.map_id simp_thms)
qed

section \<open>The whole export\<close>

text \<open>An order of iteration lists every element, and no element twice.\<close>

definition iteration_order :: "('a set \<Rightarrow> 'a list) \<Rightarrow> bool" where
  "iteration_order iter \<longleftrightarrow> (\<forall>S. finite S \<longrightarrow> set (iter S) = S \<and> distinct (iter S))"

lemma check_target_rules: "check_target opts filename = Inr () \<Longrightarrow> \<exists>links. validate_traversal_rules EXPORT (xo_rules opts) = Inr links"
  by (auto simp: check_target_def bind_res_Inr_iff)

lemma collected_finite: "collected db ids group_nodes link_data \<Longrightarrow> finite link_data"
  by (simp add: collected_def)

lemma write_archive_exact:
  assumes "db_ok db" "collected db ids group_nodes link_data" "iteration_order iter_links"
  shows "write_archive opts iter_links db repository ids group_nodes link_data =
    bind_res (stream_repo_files (xo_same_format opts) (xo_skip_missing opts) db (e_nodes ids) repository) (\<lambda>written.
    Inr \<lparr>ar_database = archive_of (xo_strip_checkpoints opts) db ids group_nodes (iter_links link_data), ar_objects = written\<rparr>)"
  using write_database_exact(1) [OF assms(1,2), of "iter_links link_data"] assms(3) collected_finite [OF assms(2)]
  by (simp add: write_archive_def iteration_order_def)

lemma create_archive_cases:
  assumes db: "db_ok db" and orders: "iteration_order iter" "iteration_order iter_links"
  obtains (target) e where "check_target opts filename = Inl e" "create_archive opts iter iter_links db repository filename = Some (filename, Inl e)"
  | (collect) e where "e \<in> {AttributeError, ArchiveExportError, NotExistent}"
      "create_archive opts iter iter_links db repository filename = Some (filename, Inl e)"
  | (check) ids group_nodes link_data e where "collected db ids group_nodes link_data" "check_nodes opts db ids = Inl e"
      "create_archive opts iter iter_links db repository filename = Some (filename, Inl e)"
  | (test_run) "xo_test_run opts" "create_archive opts iter iter_links db repository filename = Some (filename, Inr ())"
  | (files) ids group_nodes link_data e where "collected db ids group_nodes link_data"
      "stream_repo_files (xo_same_format opts) (xo_skip_missing opts) db (e_nodes ids) repository = Inl e"
      "create_archive opts iter iter_links db repository filename = Some (filename, Inl e)"
  | (written) ids group_nodes link_data written where "collected db ids group_nodes link_data" "\<not> xo_test_run opts"
      "requested opts ids" "collect_entities opts iter db = Some (Inr (ids, group_nodes, link_data))" "check_nodes opts db ids = Inr ()"
      "stream_repo_files (xo_same_format opts) (xo_skip_missing opts) db (e_nodes ids) repository = Inr written"
      "create_archive opts iter iter_links db repository filename =
         Some (ArchiveFile \<lparr>ar_database = archive_of (xo_strip_checkpoints opts) db ids group_nodes (iter_links link_data),
           ar_objects = written\<rparr>, Inr ())"
proof (cases "check_target opts filename")
  case (Inl e)
  then show thesis
    using target by (simp add: create_archive_def)
next
  case (Inr u)
  then obtain links where rules: "validate_traversal_rules EXPORT (xo_rules opts) = Inr links"
    using check_target_rules [of opts filename] by auto
  then obtain r where r: "collect_entities opts iter db = Some r"
      and out: "outcome (\<lambda>e. e \<in> {AttributeError, ArchiveExportError, NotExistent})
        (\<lambda>(ids, group_nodes, link_data). collected db ids group_nodes link_data \<and> requested opts ids) r"
    using collect_entities_outcome [OF db rules, of iter] orders(1) by (auto simp: iteration_order_def)
  show thesis
  proof (cases r)
    case (Inl e)
    then show thesis
      using collect [of e] out \<open>check_target opts filename = Inr u\<close> r by (simp add: create_archive_def)
  next
    case (Inr c)
    obtain ids group_nodes link_data where c: "c = (ids, group_nodes, link_data)"
      by (cases c)
    then have col: "collected db ids group_nodes link_data" and req: "requested opts ids"
      using out Inr by simp_all
    note eq = create_archive_def \<open>check_target opts filename = Inr u\<close> r Inr c write_archive_exact [OF db col orders(2)]
    show thesis
    proof (cases "check_nodes opts db ids")
      case (Inl e)
      then show thesis
        using check [OF col Inl] by (simp add: eq)
    next
      case (Inr v)
      show thesis
      proof (cases "xo_test_run opts")
        case True
        then show thesis
          using test_run Inr by (simp add: eq)
      next
        case False
        then show thesis
          using written [OF col False req] files [OF col] Inr r \<open>r = Inr c\<close>
          by (cases "stream_repo_files (xo_same_format opts) (xo_skip_missing opts) db (e_nodes ids) repository") (simp_all add: eq)
      qed
    qed
  qed
qed

lemma validate_rules_error: "validate_traversal_rules rs kwargs = Inl e \<Longrightarrow> e \<in> {ValueError, ValidationError}"
proof -
  have "validate_rules_loop rules kwargs out = Inl e \<Longrightarrow> e = ValueError" for rules kwargs out
    by (induction rules kwargs out rule: validate_rules_loop.induct)
       (auto simp: bind_res_def Let_def split: sum.splits option.splits kwarg.splits if_splits)
  then show "validate_traversal_rules rs kwargs = Inl e \<Longrightarrow> e \<in> {ValueError, ValidationError}"
    by (auto simp: validate_traversal_rules_def bind_res_def split: sum.splits if_splits)
qed

lemma check_target_error: "check_target opts filename = Inl e \<Longrightarrow> e \<in> {ArchiveExportError, ValueError, ValidationError}"
  using validate_rules_error [of EXPORT "xo_rules opts"]
  by (auto simp: check_target_def bind_res_def guard_def split: sum.splits if_splits)

lemma check_nodes_error: "check_nodes opts db ids = Inl e \<Longrightarrow> e \<in> {ExportValidationError, LicensingException, TypeError}"
proof -
  have "check_license b ls lic = Inl e \<Longrightarrow> e \<in> {LicensingException, TypeError}" for b ls lic
    by (cases ls) (auto split: option.splits)
  then have "check_names allowed forbidden names = Inl e \<Longrightarrow> e \<in> {LicensingException, TypeError}" for allowed forbidden names
    by (induction allowed forbidden names rule: check_names.induct) (auto simp: bind_res_def guard_def split: sum.splits if_splits)
  then show "check_nodes opts db ids = Inl e \<Longrightarrow> e \<in> {ExportValidationError, LicensingException, TypeError}"
    by (auto simp: check_nodes_def check_unsealed_nodes_def check_node_licenses_def bind_res_def guard_def
        split: sum.splits if_splits licenses.splits)
qed

lemma stream_repo_files_error:
  "stream_repo_files same_format skip_missing db ids repository = Inl e \<Longrightarrow> e \<in> {NotImplementedError, FileNotFoundError}"
proof -
  have "put_streams skip_missing repository keys written = Inl e \<Longrightarrow> e = FileNotFoundError" for keys written
    by (induction keys arbitrary: written) (auto split: option.splits if_splits)
  then show "stream_repo_files same_format skip_missing db ids repository = Inl e \<Longrightarrow> e \<in> {NotImplementedError, FileNotFoundError}"
    by (auto simp: stream_repo_files_def bind_res_def guard_def split: sum.splits if_splits)
qed

lemma put_streams_exact:
  "put_streams skip_missing repository keys written = Inr written'
   \<Longrightarrow> map_of written' k = (if k \<in> set keys \<and> map_of written k = None then map_of repository k else map_of written k)"
proof (induction keys arbitrary: written)
  case (Cons key keys)
  show ?case
  proof (cases "map_of repository key")
    case None
    then show ?thesis
      using Cons by (auto split: if_splits)
  next
    case (Some content)
    have "map_of (put_object key content written) k = (if k = key \<and> map_of written k = None then Some content else map_of written k)"
      using map_of_eq_None_iff [of written key] by (auto simp: put_object_def map_add_def split: option.splits)
    then show ?thesis
      using Cons.IH [of "put_object key content written"] Cons.prems Some by auto
  qed
qed simp

lemma stream_repo_files_exact:
  assumes "stream_repo_files same_format skip_missing db ids repository = Inr written"
    and "r \<in> set (rows_of (select ids (db_nodes db)))" "k \<in> set (n_keys r)"
  shows "map_of written k = map_of repository k"
proof -
  have "ids \<noteq> {}"
    using assms(2) by (auto simp: select_def)
  then have "put_streams skip_missing repository (remdups (concat (map n_keys (rows_of (select ids (db_nodes db)))))) [] = Inr written"
    using assms(1) by (auto simp: stream_repo_files_def bind_res_Inr_iff guard_def split: if_splits)
  moreover have "k \<in> set (concat (map n_keys (rows_of (select ids (db_nodes db)))))"
    using assms(2,3) by (simp only: set_concat set_map) blast
  ultimately show ?thesis
    using put_streams_exact [of skip_missing repository _ "[]" written k] by simp
qed

lemma export_whole:
  assumes "db_ok db" "iteration_order iter" "iteration_order iter_links" "\<not> xo_test_run opts"
    and "create_archive opts iter iter_links db repository filename = Some (ArchiveFile a, Inr ())"
  shows "db_ok (ar_database a)
    \<and> (\<forall>entities pk. xo_entities opts = Some entities \<and> NodeEntry (Some pk) \<in> set entities \<longrightarrow> pk \<in> set (pks_of (db_nodes (ar_database a))))
    \<and> whole_processes db (set (pks_of (db_nodes (ar_database a))))
    \<and> set (rows_of (db_links (ar_database a))) =
        {l \<in> set (rows_of (db_links db)). {li_input_id l, li_output_id l} \<subseteq> set (pks_of (db_nodes (ar_database a)))}
    \<and> (\<forall>(pk, r) \<in> set (db_nodes (ar_database a)). \<exists>r'. (pk, r') \<in> set (db_nodes db) \<and> (r = r' \<or> r = strip_checkpoint r')
        \<and> (str_startswith (n_node_type r') ''process.'' \<longrightarrow> map_of (n_attributes r') ''sealed'' = Some (PBool True))
        \<and> (\<forall>k \<in> set (n_keys r). map_of (ar_objects a) k = map_of repository k))"
proof -
  let ?strip = "xo_strip_checkpoints opts"
  obtain ids group_nodes link_data written where c: "collected db ids group_nodes link_data" and req: "requested opts ids"
      and checked: "check_nodes opts db ids = Inr ()"
      and files: "stream_repo_files (xo_same_format opts) (xo_skip_missing opts) db (e_nodes ids) repository = Inr written"
      and a: "a = \<lparr>ar_database = archive_of ?strip db ids group_nodes (iter_links link_data), ar_objects = written\<rparr>"
    by (rule create_archive_cases [OF assms(1-3), of opts filename repository]) (use assms(4,5) in auto)
  have ls: "set (iter_links link_data) = link_data"
    using assms(3) collected_finite [OF c] by (simp add: iteration_order_def)
  have nodes: "db_nodes (ar_database a) = exported (stripped ?strip) (e_nodes ids) (db_nodes db)"
    by (simp add: a archive_of_sel)
  have pks: "set (pks_of (db_nodes (ar_database a))) = e_nodes ids"
    using c unfolding nodes exported_sel pks_select collected_def by blast
  have "map link_row_of (map quadruple xs) = xs" for xs
    by (induction xs) (simp_all add: link_row_of_def quadruple_def)
  moreover have "link_row_of (quadruple l) = l" for l
    by (simp add: link_row_of_def quadruple_def)
  ultimately have "link_row_of ` link_data = {l \<in> set (rows_of (db_links db)). li_input_id l \<in> e_nodes ids \<and> li_output_id l \<in> e_nodes ids}"
    using c unfolding collected_def by (simp add: image_image del: set_map)
  then have links: "set (rows_of (db_links (ar_database a))) =
      {l \<in> set (rows_of (db_links db)). {li_input_id l, li_output_id l} \<subseteq> e_nodes ids}"
    by (simp add: a archive_of_sel rows_of_append_rows ls del: set_map) (simp add: ls)
  have rows: "\<exists>r'. (pk, r') \<in> set (db_nodes db) \<and> (r = r' \<or> r = strip_checkpoint r')
      \<and> (str_startswith (n_node_type r') ''process.'' \<longrightarrow> map_of (n_attributes r') ''sealed'' = Some (PBool True))
      \<and> (\<forall>k \<in> set (n_keys r). map_of (ar_objects a) k = map_of repository k)" if row: "(pk, r) \<in> set (db_nodes (ar_database a))" for pk r
  proof -
    obtain r' where r': "(pk, r') \<in> set (select (e_nodes ids) (db_nodes db))" "r = stripped ?strip r'"
      using row by (auto simp: nodes exported_def simp del: in_select)
    then have "e_nodes ids \<noteq> {}"
      by auto
    then have "check_unsealed_nodes db (e_nodes ids) = Inr ()"
      using checked by (simp add: check_nodes_def bind_res_Inr_iff)
    then have sealed: "str_startswith (n_node_type r') ''process.'' \<longrightarrow> map_of (n_attributes r') ''sealed'' = Some (PBool True)"
      using r'(1) by (auto simp: check_unsealed_nodes_def guard_def list_all_iff simp del: in_select split: if_splits)
    have "map_of (ar_objects a) k = map_of repository k" if "k \<in> set (n_keys r)" for k
    proof -
      have "r' \<in> set (rows_of (select (e_nodes ids) (db_nodes db)))" "k \<in> set (n_keys r')"
        using r' that by (force, simp add: stripped_def strip_checkpoint_sel split: if_splits)
      from stream_repo_files_exact [OF files this] show ?thesis
        by (simp add: a)
    qed
    then show ?thesis
      using r' sealed by (auto simp: stripped_def)
  qed
  have "db_ok (ar_database a)"
    using write_database_exact(2) [OF assms(1) c ls] by (simp add: a)
  then show ?thesis
    using c req rows unfolding pks links by (auto simp: requested_def collected_def)
qed

section \<open>Properties\<close>

text \<open>C3: An archive is whole: it satisfies the constraints and foreign keys of a profile, has the nodes that were asked for and with each
  process its inputs, outputs and called processes, exactly the links between its nodes, only sealed processes, and the
  files of its nodes.\<close>

theorem export_is_whole:
  assumes "db_ok db" "iteration_order iter" "iteration_order iter_links" "\<not> xo_test_run opts"
    and "create_archive opts iter iter_links db repository filename = Some (ArchiveFile a, Inr ())"
  shows "db_ok (ar_database a)
    \<and> (\<forall>entities pk. xo_entities opts = Some entities \<and> NodeEntry (Some pk) \<in> set entities \<longrightarrow> pk \<in> set (pks_of (db_nodes (ar_database a))))
    \<and> whole_processes db (set (pks_of (db_nodes (ar_database a))))
    \<and> set (rows_of (db_links (ar_database a))) =
        {l \<in> set (rows_of (db_links db)). {li_input_id l, li_output_id l} \<subseteq> set (pks_of (db_nodes (ar_database a)))}
    \<and> (\<forall>(pk, r) \<in> set (db_nodes (ar_database a)). \<exists>r'. (pk, r') \<in> set (db_nodes db) \<and> (r = r' \<or> r = strip_checkpoint r')
        \<and> (str_startswith (n_node_type r') ''process.'' \<longrightarrow> map_of (n_attributes r') ''sealed'' = Some (PBool True))
        \<and> (\<forall>k \<in> set (n_keys r). map_of (ar_objects a) k = map_of repository k))"
  using assms by (rule export_whole)



section \<open>Examples\<close>

text \<open>Links in the order of their nodes, types and labels.\<close>

fun link_type_code :: "link_type \<Rightarrow> nat" where
  "link_type_code CREATE = 0"
| "link_type_code RETURN = 1"
| "link_type_code INPUT_CALC = 2"
| "link_type_code INPUT_WORK = 3"
| "link_type_code CALL_CALC = 4"
| "link_type_code CALL_WORK = 5"

fun edge_code :: "edge \<Rightarrow> nat \<times> int \<times> int \<times> nat \<times> string" where
  "edge_code (LinkQuadruple i out t l) = (0, i, out, link_type_code t, l)"
| "edge_code (GroupNodeEdge n g) = (1, n, g, 0, [])"

lemma edge_code_inj: "edge_code e = edge_code e' \<longleftrightarrow> e = e'"
proof -
  have "link_type_code t = link_type_code t' \<longleftrightarrow> t = t'" for t t'
    by (cases t; cases t') simp_all
  then show ?thesis
    by (cases e; cases e') auto
qed

instantiation edge :: linorder
begin

definition less_eq_edge :: "edge \<Rightarrow> edge \<Rightarrow> bool" where "less_eq_edge e e' \<longleftrightarrow> edge_code e \<le> edge_code e'"
definition less_edge :: "edge \<Rightarrow> edge \<Rightarrow> bool" where "less_edge e e' \<longleftrightarrow> edge_code e < edge_code e'"

instance
  by standard (auto simp: less_eq_edge_def less_edge_def less_le edge_code_inj)

end

lemma sorted_iteration: "iteration_order (sorted_list_of_set :: 'a :: linorder set \<Rightarrow> 'a list)"
  by (simp add: iteration_order_def)

text \<open>A profile with a finished calculation, its input and its output, which has a file.\<close>

definition export_node :: "string \<Rightarrow> string \<Rightarrow> pyvalue dict \<Rightarrow> string list \<Rightarrow> pyvalue node_row" where
  "export_node uuid node_type attributes keys = \<lparr>n_uuid = uuid, n_node_type = node_type, n_user_id = 1, n_computer_id = None,
     n_attributes = attributes, n_extras = [], n_keys = keys, n_columns = []\<rparr>"

definition export_profile :: "pyvalue Aiida_Import.database" where
  "export_profile = Aiida_Import.database.make [(1, \<lparr>u_email = ''me@here'', u_columns = []\<rparr>)] [] []
     [(1, export_node ''in'' ''data.core.int.Int.'' [] []),
      (2, export_node ''calc'' ''process.calculation.calcjob.CalcJobNode.'' [(''sealed'', PBool True), (''checkpoints'', PStr ''x'')] []),
      (3, export_node ''out'' ''data.core.folder.FolderData.'' [] [''key''])] [] []
     [(1, \<lparr>li_input_id = 1, li_output_id = 2, li_type = INPUT_CALC, li_label = ''x''\<rparr>),
      (2, \<lparr>li_input_id = 2, li_output_id = 3, li_type = CREATE, li_label = ''y''\<rparr>)] [] []"

definition export_options_of :: "export_entry list option \<Rightarrow> export_options" where
  "export_options_of entities = \<lparr>xo_entities = entities, xo_overwrite = False, xo_compression = 6,
     xo_include = \<lparr>inc_authinfos = False, inc_comments = True, inc_logs = True\<rparr>, xo_allowed = NoLicenses, xo_forbidden = NoLicenses,
     xo_strip_checkpoints = True, xo_batch_size = 2, xo_test_run = False, xo_rules = [], xo_same_format = True, xo_skip_missing = False\<rparr>"

definition export_result :: "pyvalue archive" where
  "export_result = \<lparr>ar_database = export_profile\<lparr>db_nodes :=
     [(1, export_node ''in'' ''data.core.int.Int.'' [] []),
      (2, export_node ''calc'' ''process.calculation.calcjob.CalcJobNode.'' [(''sealed'', PBool True)] []),
      (3, export_node ''out'' ''data.core.folder.FolderData.'' [] [''key''])]\<rparr>, ar_objects = [(''key'', ''content'')]\<rparr>"

definition export_ids :: entity_ids where
  "export_ids = \<lparr>e_users = {1}, e_computers = {}, e_authinfos = {}, e_groups = {}, e_nodes = {1, 2, 3}, e_comments = {}, e_logs = {}\<rparr>"

definition export_links :: "edge list" where
  "export_links = [LinkQuadruple 1 2 INPUT_CALC ''x'', LinkQuadruple 2 3 CREATE ''y'']"

lemmas export_defs = export_profile_def export_node_def export_options_of_def export_ids_def export_links_def Aiida_Import.database.make_def

lemma export_options_sel:
  "xo_test_run (export_options_of e) = False" "xo_strip_checkpoints (export_options_of e) = True"
  "xo_same_format (export_options_of e) = True" "xo_skip_missing (export_options_of e) = False"
  by (simp_all add: export_options_of_def)

lemma export_profile_ok: "db_ok export_profile"
  by (simp add: export_defs db_ok_def tables_ok_def foreign_keys_ok_def table_ok_def constraint_defs refs_defs)

lemma export_example_collect:
  "collect_entities (export_options_of None) iter export_profile = Some (Inr (export_ids, [], set export_links))"
proof -
  have "{l \<in> set (rows_of (db_links export_profile)). li_input_id l \<in> set (pks_of (db_nodes export_profile))
      \<and> li_output_id l \<in> set (pks_of (db_nodes export_profile))} = set (rows_of (db_links export_profile))"
    by (auto simp: export_defs)
  then have "all_link_data export_profile = set export_links"
    by (simp add: all_link_data_def) (simp add: export_defs)
  then show ?thesis
    by (simp add: collect_entities_def collect_all_entities_def no_entities_def group_members_def export_defs)
qed

lemma export_example_collected: "collected export_profile export_ids [] (set export_links)"
  using collect_all_collected [of export_profile "xo_include (export_options_of None)"] export_example_collect [of "\<lambda>_. []"] export_profile_ok
  by (simp add: collect_entities_def export_options_of_def db_ok_def)

lemma export_example_links: "sorted_list_of_set (set export_links) = export_links"
  by (simp add: export_links_def less_eq_edge_def)

lemma export_example:
  "create_archive (export_options_of None) sorted_list_of_set sorted_list_of_set export_profile [(''key'', ''content'')] NoFile
   = Some (ArchiveFile export_result, Inr ())"
proof -
  have "check_target (export_options_of None) (NoFile :: pyvalue file_target) = Inr ()"
    by (simp add: check_target_def export_options_of_def validate_traversal_rules_eq rule_accepts_def)
  moreover have "check_nodes (export_options_of None) export_profile export_ids = Inr ()"
    by (simp add: check_nodes_def check_unsealed_nodes_def check_node_licenses_def select_def export_defs str_startswith_def)
  moreover have "archive_of True export_profile export_ids [] export_links = ar_database export_result"
    by (simp add: archive_of_def exported_def select_def export_defs export_result_def stripped_def strip_checkpoint_def append_rows_def
        next_pk_def link_row_of_def CHECKPOINT_KEY_def str_startswith_def)
  moreover have "stream_repo_files True False export_profile (e_nodes export_ids) [(''key'', ''content'')] = Inr (ar_objects export_result)"
    by (simp add: stream_repo_files_def select_def export_defs put_object_def export_result_def)
  ultimately show ?thesis
    using write_archive_exact [OF export_profile_ok export_example_collected sorted_iteration, of "export_options_of None" "[(''key'', ''content'')]"]
    by (simp add: create_archive_def export_example_collect export_example_links export_options_sel)
qed

theorem export_is_whole_witness:
  "db_ok (ar_database export_result)
   \<and> set (rows_of (db_links (ar_database export_result))) =
       {l \<in> set (rows_of (db_links export_profile)). {li_input_id l, li_output_id l} \<subseteq> set (pks_of (db_nodes (ar_database export_result)))}"
  using export_is_whole [OF export_profile_ok sorted_iteration sorted_iteration _ export_example] by (simp add: export_options_of_def)


lemma export_users_example:
  "\<exists>a. create_archive (export_options_of (Some [UserEntry (Some 1)])) sorted_list_of_set sorted_list_of_set export_profile [] NoFile
   = Some (ArchiveFile a, Inr ())"
proof -
  let ?opts = "export_options_of (Some [UserEntry (Some 1)])"
  have c: "collect_entities ?opts sorted_list_of_set export_profile = Some (Inr (no_entities, [], {}))"
    by (simp add: collect_entities_def collect_required_entities_def collect_nodes_def collect_owned_def referred_def referring_def
        select_all Let_def no_entities_def get_nodes_export_def get_nodes_def traverse_graph_def export_options_of_def
        validate_traversal_rules_eq rule_accepts_def)
  then have "collected export_profile no_entities [] {}"
    using collect_entities_outcome [OF export_profile_ok, of ?opts _ sorted_list_of_set]
    by (auto simp: export_options_of_def validate_traversal_rules_eq rule_accepts_def)
  moreover have "check_target ?opts (NoFile :: pyvalue file_target) = Inr ()"
    by (simp add: check_target_def export_options_of_def validate_traversal_rules_eq rule_accepts_def)
  ultimately show ?thesis
    using write_archive_exact [OF export_profile_ok _ sorted_iteration, of no_entities "[]" "{}" ?opts "[]"] c
    by (simp add: create_archive_def check_nodes_def stream_repo_files_def no_entities_def export_options_sel)
qed


end
