(* ===== verification/Spec2Isabelle.thy ===== *)
theory Spec2Isabelle
  imports Aiida_Escaping Aiida_Graph_Traversal Aiida_Repository Aiida_Provenance Aiida_Restart Aiida_Calcjob
    Aiida_Transport_Queue Aiida_Job_Manager Aiida_Scheduler Aiida_Group_Path Aiida_Caching Aiida_Autogroup
    Aiida_Hashing Aiida_Export_Correct
begin

text \<open>
  AiiDA runs calculations and workflows and records what they did as a graph: data nodes, process nodes, and typed
  links between them, stored in a database, with the files of each node in a repository.  This development models the
  parts of \<open>src/src/aiida\<close> that build, keep, search, delete and move that graph, and the part of the engine that runs the
  processes.  File names below are relative to that directory.

  \<^bold>\<open>The parts and how they meet.\<close>  A user or the engine creates nodes (\<open>Aiida_Provenance\<close>) with attributes
  (\<open>Aiida_Process_Node\<close>, \<open>Aiida_Values\<close>) and files (\<open>Aiida_Repository\<close>).  A process flattens its nested inputs into
  link labels, links are validated and stored (\<open>Aiida_Links\<close>, \<open>Aiida_Provenance\<close>), and when it ends its node is sealed with an
  outcome (\<open>Aiida_Process_Node\<close>).  A work chain waits for children and collects them in its context (\<open>Aiida_Work_Chain\<close>); the
  restart work chain launches one child after another and lets handlers decide (\<open>Aiida_Restart\<close>).  A calculation job is
  uploaded, submitted, watched and retrieved (\<open>Aiida_Calcjob\<close>) with a submission script (\<open>Aiida_Scheduler\<close>, quoting of
  \<open>Aiida_Escaping\<close>) over transports that clients share (\<open>Aiida_Transport_Queue\<close>) and with polls of the scheduler that they
  share (\<open>Aiida_Job_Manager\<close>).  Hashes (\<open>Aiida_Hashing\<close>) and their configuration (\<open>Aiida_Caching\<close>) decide which nodes
  are taken from the cache; groups are organised by paths (\<open>Aiida_Group_Path\<close>) and made automatically (\<open>Aiida_Autogroup\<close>).
  The stored graph is traversed by link rules, which is the base of deletion and export (\<open>Aiida_Graph_Traversal\<close>,
  \<open>Aiida_Graph_Explorer\<close>), exported to archives (\<open>Aiida_Export\<close>) and imported from them (\<open>Aiida_Archive\<close>, \<open>Aiida_Import\<close>).

  \<^bold>\<open>How the code is modelled.\<close>  A Python function is a HOL function with the same name where that is possible.  Raised exceptions
  are the \<open>Inl\<close> of a sum type with the constructors of \<open>Aiida_Prelude\<close>; operations that change state return the state
  also when they raise, so that what a failed operation leaves behind is part of the model.  Dictionaries are association lists in
  insertion order.  Coroutines of the event loop are cut at their awaits into events; a component on the loop is an
  inductive set of reachable states over them.

  \<^bold>\<open>The theories.\<close>

  \<^item> \<open>Aiida_Prelude\<close>: exceptions, results, dictionaries, methods of strings, and lemmas about them.
  \<^item> \<open>Aiida_Links\<close>: \<open>common/links.py\<close>, \<open>common/lang.py\<close>, \<open>LinkManager\<close> of \<open>orm/utils/links.py\<close>, the flattening in
    \<open>engine/processes/process.py\<close>.  Shown: link labels of stored inputs rebuild the nested namespace.
  \<^item> \<open>Aiida_Provenance\<close>: \<open>validate_link\<close>, \<open>NodeLinks\<close>, \<open>Node.store\<close>, sealing.  The reachable graphs are an inductive
    predicate over all operations.  Shown for all of them: no cycle in the data provenance, the uniqueness of incoming links, and
    that a sealed process keeps its links.
  \<^item> \<open>Aiida_Process_Node\<close>: \<open>orm/nodes/attributes.py\<close>, \<open>orm/nodes/process/process.py\<close>, \<open>engine/processes/exit_code.py\<close> and the handlers
    of \<open>Process\<close> for its end.  Shown: immutability of attributes, and the outcome that a finished node records.
  \<^item> \<open>Aiida_Values\<close>: \<open>clean_value\<close> and the extras of an entity.  Shown: what can be stored, and that stored extras stay clean.
  \<^item> \<open>Aiida_Repository\<close>: \<open>repository/repository.py\<close>, \<open>repository/common.py\<close> and the sandbox backend.  The locale
    \<open>repository_backend\<close> states what the repository needs of a backend; it is interpreted on the sandbox.  Shown: what is put
    is read, clones and serialised metadata reproduce a repository.
  \<^item> \<open>Aiida_Graph_Traversal\<close>: \<open>tools/graph/graph_traversers.py\<close>, \<open>tools/graph/deletions.py\<close>.  Shown: a traversal gives exactly
    the reachable nodes, and deletion keeps the provenance of what stays.
  \<^item> \<open>Aiida_Graph_Explorer\<close>: baskets and rules of \<open>tools/graph\<close>.  The locale \<open>checked_container\<close> is shared by the two
    kinds of containers, \<open>frontier_loop\<close> by the loops of the rules.
  \<^item> \<open>Aiida_Work_Chain\<close>, \<open>Aiida_Restart\<close>: \<open>engine/processes/workchains\<close>.  Shown: the order in which children end does not
    matter for the context; the restart loop ends, with the right outcome, and calls its handlers in order.
  \<^item> \<open>Aiida_Calcjob\<close>: \<open>exponential_backoff_retry\<close>, \<open>engine/processes/calcjobs/tasks.py\<close>, monitors and the parts of
    \<open>engine/daemon/execmanager.py\<close> that submit and kill.  The locale \<open>submission_property\<close> carries a property of job id and
    number of submissions through all of it; it is interpreted for at most one submission and for a fixed job id.
  \<^item> \<open>Aiida_Event_Loop\<close>, \<open>Aiida_Transport_Queue\<close>, \<open>Aiida_Job_Manager\<close>: \<open>engine/transports.py\<close> and
    \<open>engine/processes/calcjobs/manager.py\<close>.  The locale \<open>event_invariant\<close> is interpreted for each invariant of the two.  Shown: at
    most one open transport, no request is forgotten, and the interval between polls.
  \<^item> \<open>Aiida_Scheduler\<close>: \<open>schedulers/datastructures.py\<close>, \<open>schedulers/scheduler.py\<close>, the checks of resources in plugins.  Shown: the shell
    reads a run line as the arguments and redirections it was made of; resources are completed exactly when they can be.
  \<^item> \<open>Aiida_Escaping\<close>, \<open>Aiida_Caching\<close>, \<open>Aiida_Hashing\<close>, \<open>Aiida_Autogroup\<close>, \<open>Aiida_Group_Path\<close>: \<open>common/escaping.py\<close>,
    \<open>manage/caching.py\<close>, \<open>common/hashing.py\<close>, \<open>orm/autogroup.py\<close>, \<open>tools/groups/paths.py\<close>.
  \<^item> \<open>Aiida_Archive\<close> (tables, bulk insertion, batches and the locale \<open>entity_import\<close> of what the import of one type of entity does),
    \<open>Aiida_Import\<close> (the whole of \<open>tools/archive/imports.py\<close>), \<open>Aiida_Import_Rules\<close> (its interpretations for users, computers,
    nodes, logs, comments and groups, and the rules for labels and extras), \<open>Aiida_Import_Links\<close>, \<open>Aiida_Import_Groups\<close>,
    \<open>Aiida_Import_Integrity\<close> (each step keeps constraints and foreign keys) and \<open>Aiida_Import_Correct\<close> (the composition).
  \<^item> \<open>Aiida_Export\<close> (\<open>tools/archive/create.py\<close> and the writer of the archive) and \<open>Aiida_Export_Correct\<close>, with the locale
    \<open>archive_table\<close> for what is copied of each of the seven tables.
  \<^item> This theory composes export and import.

  \<^bold>\<open>Loops and fuel.\<close>  Functions over data recurse on it, or have a measure.  The loops of the graph explorer, on which traversals
    rest, are \<^const>\<open>while_option\<close>, where \<open>None\<close> is a run that does not end; \<open>frontier_loop\<close> shows that they return, since each
    round adds to a set of nodes of the database.  Three loops take fuel, and give \<open>None\<close> when it is used up: the
    restart loop, for which \<open>max_iterations\<close> rounds are shown to be enough; the polling of a job (\<open>update_loop\<close>), for which any
    measure that every poll decreases is; and the walk of a group path (\<open>gp_walk\<close>), for which the depth of the longest label is.

  \<^bold>\<open>Parameters.\<close>  Code outside the repository is an argument: the outline stepper and the persistence of \<open>plumpy\<close>, the order in which Python
    iterates a set (any order, by the hypothesis \<open>iteration_order\<close>), formatting and reading of floats, \<open>blake2b\<close> (\<open>hash_exact\<close>
    assumes that it does not collide), the scheduler plugin and the transport as the world of a job, the user code of handlers and
    monitors.  Hypotheses about them have witnesses with concrete functions.

  \<^bold>\<open>Not modelled.\<close>  The command line, the REST interface and the visualisation, which format and dispatch; the transports, the scheduler
    plugins and the database importers, which speak to programs and services outside; the SQL that a query becomes and the migrations of
    databases and archive formats; the configuration files and the start of the daemon; the classes of
    data nodes such as structures, bands and k-points, whose code is numerical.  Of the modelled components, the notes of the
    manifest say what is left out.
\<close>

section \<open>Export and import\<close>

text \<open>C1: What is exported from one profile and imported into another is a copy of whole parts of the provenance graph.\<close>

theorem export_import_roundtrip:
  assumes "db_ok db" "iteration_order iter" "iteration_order iter_links" "\<not> xo_test_run opts"
    and "create_archive opts iter iter_links db repository filename = Some (ArchiveFile a, Inr ())"
    and "db_ok db1" "options_ok io (ar_database a) db1"
    and "import_archive io latest same_format hash (ar_database a) (ar_objects a) db1 objects = (db2, objects2, Inr g)"
  shows "\<exists>nodes. distinct (map fst nodes) \<and> distinct (map snd nodes)
    \<and> (\<forall>entities pk. xo_entities opts = Some entities \<and> NodeEntry (Some pk) \<in> set entities \<longrightarrow> pk \<in> fst ` set nodes)
    \<and> whole_processes db (fst ` set nodes)
    \<and> (\<forall>(pk, i) \<in> set nodes. \<exists>r r'. (pk, r) \<in> set (db_nodes db) \<and> (i, r') \<in> set (db_nodes db2) \<and> n_uuid r' = n_uuid r
        \<and> set (n_keys r) \<subseteq> fst ` set objects2
        \<and> (n_uuid r \<notin> set (fields_of n_uuid (db_nodes db1)) \<longrightarrow> n_node_type r' = n_node_type r \<and> n_keys r' = n_keys r
            \<and> n_attributes r' = n_attributes (strip_checkpoint r)))
    \<and> (\<forall>l \<in> set (rows_of (db_links db)). {li_input_id l, li_output_id l} \<subseteq> fst ` set nodes \<longrightarrow>
        (\<exists>l' \<in> set (rows_of (db_links db2)). same_link nodes l l'))"
proof -
  note whole = export_whole [OF assms(1-5)]
  then have a: "db_ok (ar_database a)" ..
  obtain nodes where nodes: "map fst nodes = pks_of (db_nodes (ar_database a))" "distinct (map snd nodes)"
      and rows: "\<forall>p r i. (p, r) \<in> set (db_nodes (ar_database a)) \<and> map_of nodes p = Some i \<longrightarrow>
         (\<exists>r'. (i, r') \<in> set (db_nodes db2) \<and> n_uuid r' = n_uuid r
            \<and> (n_uuid r \<in> set (fields_of n_uuid (db_nodes db1)) \<or>
                 n_node_type r' = n_node_type r \<and> n_keys r' = n_keys r \<and> n_columns r' = n_columns r
                 \<and> n_extras r' = kept_extras (io_import_new_extras io) (n_node_type r) (n_extras r)
                 \<and> n_attributes r' = (if str_startswith (n_node_type r) ''process.'' then AList.delete CHECKPOINT_KEY (n_attributes r)
                     else n_attributes r)))"
      and links: "\<forall>l \<in> set (rows_of (db_links (ar_database a))). \<exists>l' \<in> set (rows_of (db_links db2)). same_link nodes l l'"
      and files: "\<forall>r \<in> set (rows_of (db_nodes (ar_database a))). set (n_keys r) \<subseteq> fst ` set objects2"
    using import_embeds [OF a assms(6-8)] by (elim exE conjE) (rule that; assumption)
  have d: "distinct (map fst nodes)"
    using a by (simp add: nodes(1) db_ok_def tables_ok_def table_ok_def)
  have pks: "set (pks_of (db_nodes (ar_database a))) = fst ` set nodes"
    using nodes(1) by (metis list.set_map)
  have copy: "\<exists>r r'. (pk, r) \<in> set (db_nodes db) \<and> (i, r') \<in> set (db_nodes db2) \<and> n_uuid r' = n_uuid r
        \<and> set (n_keys r) \<subseteq> fst ` set objects2
        \<and> (n_uuid r \<notin> set (fields_of n_uuid (db_nodes db1)) \<longrightarrow> n_node_type r' = n_node_type r \<and> n_keys r' = n_keys r
            \<and> n_attributes r' = n_attributes (strip_checkpoint r))" if n: "(pk, i) \<in> set nodes" for pk i
  proof -
    have "pk \<in> set (pks_of (db_nodes (ar_database a)))"
      unfolding pks using n by (rule image_eqI [rotated]) simp
    then obtain r where r: "(pk, r) \<in> set (db_nodes (ar_database a))"
      by auto
    then obtain r0 where r0: "(pk, r0) \<in> set (db_nodes db)" "r = r0 \<or> r = strip_checkpoint r0"
      using whole by fastforce
    obtain r' where r': "(i, r') \<in> set (db_nodes db2)" "n_uuid r' = n_uuid r"
        "n_uuid r \<in> set (fields_of n_uuid (db_nodes db1)) \<or> n_node_type r' = n_node_type r \<and> n_keys r' = n_keys r
          \<and> n_attributes r' = (if str_startswith (n_node_type r) ''process.'' then AList.delete CHECKPOINT_KEY (n_attributes r)
              else n_attributes r)"
      using rows [rule_format, OF conjI, OF r map_of_is_SomeI [OF d n]] by blast
    have "r \<in> set (rows_of (db_nodes (ar_database a)))"
      using r by (force simp del: set_map simp: list.set_map)
    then have keys: "set (n_keys r) \<subseteq> fst ` set objects2"
      using files by blast
    have same: "n_uuid r = n_uuid r0" "n_node_type r = n_node_type r0" "n_keys r = n_keys r0"
      "(if str_startswith (n_node_type r0) ''process.'' then AList.delete CHECKPOINT_KEY (n_attributes r) else n_attributes r)
        = n_attributes (strip_checkpoint r0)"
      using r0(2) by (auto simp: strip_checkpoint_def AList_delete_filter)
    show ?thesis
      using r0(1) r'(1) r'(2,3) [unfolded same] keys [unfolded same] by blast
  qed
  note w = whole [unfolded pks, THEN conjunct2]
  have parts: "\<forall>entities pk. xo_entities opts = Some entities \<and> NodeEntry (Some pk) \<in> set entities \<longrightarrow> pk \<in> fst ` set nodes"
      "whole_processes db (fst ` set nodes)"
      "set (rows_of (db_links (ar_database a))) = {l \<in> set (rows_of (db_links db)). {li_input_id l, li_output_id l} \<subseteq> fst ` set nodes}"
    by (rule w [THEN conjunct1] w [THEN conjunct2, THEN conjunct1] w [THEN conjunct2, THEN conjunct2, THEN conjunct1])+
  show ?thesis
  proof (intro exI [of _ nodes] conjI ballI impI)
    fix l
    assume "l \<in> set (rows_of (db_links db))" "{li_input_id l, li_output_id l} \<subseteq> fst ` set nodes"
    then have "l \<in> set (rows_of (db_links (ar_database a)))"
      unfolding parts(3) by blast
    then show "\<exists>l' \<in> set (rows_of (db_links db2)). same_link nodes l l'"
      using links by blast
  qed (use d nodes(2) parts copy in auto)
qed

definition import_profile :: "pyvalue Aiida_Import.database" where
  "import_profile = Aiida_Import.database.make [(4, \<lparr>u_email = ''me@here'', u_columns = []\<rparr>)] [] [] [] [] [] [] [] []"

lemma import_profile_ok: "db_ok import_profile"
  by (simp add: import_profile_def Aiida_Import.database.make_def db_ok_def tables_ok_def foreign_keys_ok_def table_ok_def constraint_defs refs_defs)

theorem export_import_roundtrip_witness:
  "\<exists>db2 objects2 g (nodes :: (pk \<times> pk) list).
     import_archive example_options True True (\<lambda>s. ''key'') (ar_database export_result) (ar_objects export_result) import_profile [] = (db2, objects2, Inr g)
     \<and> distinct (map fst nodes) \<and> distinct (map snd nodes) \<and> whole_processes export_profile (fst ` set nodes)"
proof -
  let ?r = "import_archive example_options True True (\<lambda>s. ''key'') (ar_database export_result) (ar_objects export_result) import_profile []"
  have "is_ok (snd (snd ?r))"
    by code_simp
  then obtain db2 objects2 g where r: "?r = (db2, objects2, Inr g)"
    by (cases ?r) (auto simp: is_ok_iff)
  have "\<not> xo_test_run (export_options_of None)"
    by (simp add: export_options_sel)
  from export_import_roundtrip [OF export_profile_ok sorted_iteration sorted_iteration this export_example import_profile_ok example_options_ok r]
  obtain nodes :: "(pk \<times> pk) list" where "distinct (map fst nodes)" "distinct (map snd nodes)" "whole_processes export_profile (fst ` set nodes)"
    by (elim exE conjE) (rule that; assumption)
  with r show ?thesis
    by (intro exI conjI) assumption+
qed

end
